(* ===== verification/Kz_Prelude.thy ===== *)
theory Kz_Prelude
  imports Main "HOL-Library.Word"
begin

text \<open>
  Shared vocabulary of the development: the machine-integer types of the Rust
  sources, the outcome type of fallible code (a value, an error, or a panic),
  the lemma collections the component theories fill, generic facts about words
  and lists, and two interfaces that several components implement: a transition
  system with an invariant, and a transition system with a preorder that every
  step respects.
\<close>

unbundle bit_operations_syntax

named_theorems rust_simps \<open>characteristic equations of the Rust library model\<close>
named_theorems inv_defs \<open>definitions of the invariants of a component\<close>
named_theorems frame_simps \<open>fields that an operation leaves unchanged\<close>

section \<open>Integers and outcomes\<close>

type_synonym u8 = "8 word"
type_synonym u16 = "16 word"
type_synonym u32 = "32 word"
type_synonym u64 = "64 word"
type_synonym i32 = "32 word"
type_synonym bytes = "u8 list"

text \<open>
  \<open>usize\<close> values (lengths, counts and configured limits) are natural numbers; the
  places where the sources check or saturate at \<open>usize::MAX\<close> say so.
\<close>

definition usize_max :: nat where
  "usize_max = 2 ^ 64 - 1"

text \<open>
  A Rust function returning \<open>Result\<close> yields \<open>Ok\<close> or \<open>Err\<close>; an \<open>unwrap\<close>,
  \<open>expect\<close>, an index out of range or an \<open>unreachable!\<close> yields \<open>Panic\<close>.
\<close>

datatype ('e, 'a) outcome = Ok (ok_of: 'a) | Err (err_of: 'e) | Panic

fun is_ok :: "('e, 'a) outcome \<Rightarrow> bool" where
  "is_ok (Ok _) = True"
| "is_ok _ = False"

text \<open>The question-mark operator in a function that does not change state.\<close>

fun and_then :: "('e, 'a) outcome \<Rightarrow> ('a \<Rightarrow> ('e, 'b) outcome) \<Rightarrow> ('e, 'b) outcome" where
  "and_then (Ok x) f = f x"
| "and_then (Err e) f = Err e"
| "and_then Panic f = Panic"

text \<open>The same where the surrounding function returns a state as well.\<close>

fun try_or :: "'s \<Rightarrow> ('e, 'a) outcome \<Rightarrow> ('a \<Rightarrow> ('e, 'b) outcome \<times> 's) \<Rightarrow> ('e, 'b) outcome \<times> 's" where
  "try_or s (Ok x) f = f x"
| "try_or s (Err e) f = (Err e, s)"
| "try_or s Panic f = (Panic, s)"

lemma and_then_eq_Ok [simp]:
  "and_then r f = Ok y \<longleftrightarrow> (\<exists>x. r = Ok x \<and> f x = Ok y)"
  by (cases r) auto

lemma and_then_eq_Panic [simp]:
  "and_then r f = Panic \<longleftrightarrow> r = Panic \<or> (\<exists>x. r = Ok x \<and> f x = Panic)"
  by (cases r) auto

lemma try_or_split:
  "P (try_or s r f) \<longleftrightarrow>
     (\<forall>x. r = Ok x \<longrightarrow> P (f x)) \<and> (\<forall>e. r = Err e \<longrightarrow> P (Err e, s)) \<and> (r = Panic \<longrightarrow> P (Panic, s))"
  by (cases r) auto

lemma try_or_split_asm:
  "P (try_or s r f) \<longleftrightarrow>
     \<not> ((\<exists>x. r = Ok x \<and> \<not> P (f x)) \<or> (\<exists>e. r = Err e \<and> \<not> P (Err e, s)) \<or> (r = Panic \<and> \<not> P (Panic, s)))"
  by (cases r) auto

lemmas try_or_splits = try_or_split try_or_split_asm

section \<open>Words\<close>

lemma word_max_unat: "w \<noteq> (- 1 :: 'a::len word) \<Longrightarrow> unat w + 1 < 2 ^ LENGTH('a)"
proof -
  assume w: "w \<noteq> - 1"
  have "unat w + 1 \<noteq> 2 ^ LENGTH('a)"
  proof
    assume "unat w + 1 = 2 ^ LENGTH('a)"
    then have "of_nat (unat w + 1) = (0 :: 'a word)"
      by (simp only: of_nat_power of_nat_numeral) simp
    then have "w + 1 = 0" by (simp add: add.commute)
    then show False using w by (simp add: eq_neg_iff_add_eq_0)
  qed
  moreover have "unat w < 2 ^ LENGTH('a)" by (rule unsigned_less)
  ultimately show ?thesis by linarith
qed

lemma unat_Suc_no_wrap: "w \<noteq> (- 1 :: 'a::len word) \<Longrightarrow> unat (w + 1) = unat w + 1"
  using word_max_unat [of w] by (simp add: unat_word_ariths)

lemma less_succ_word: "w \<noteq> (- 1 :: 'a::len word) \<Longrightarrow> w < w + 1"
  by (simp add: word_less_nat_alt unat_Suc_no_wrap)

lemma less_succ_iff_word:
  "w \<noteq> (- 1 :: 'a::len word) \<Longrightarrow> x < w + 1 \<longleftrightarrow> x < w \<or> x = w"
  by (auto simp: word_less_nat_alt unat_Suc_no_wrap less_Suc_eq word_unat_eq_iff)

section \<open>Interfaces shared by the stateful components\<close>

text \<open>
  A component with an invariant: initial states satisfy it and every step keeps
  it. The interface gives the invariant for every state a run can reach.
\<close>

locale transition_system =
  fixes initial :: "'s \<Rightarrow> bool"
    and step :: "'s \<Rightarrow> 's \<Rightarrow> bool"
    and inv :: "'s \<Rightarrow> bool"
  assumes inv_initial: "initial s \<Longrightarrow> inv s"
    and inv_step: "step s t \<Longrightarrow> inv s \<Longrightarrow> inv t"
begin

lemma inv_steps: "step\<^sup>*\<^sup>* s t \<Longrightarrow> inv s \<Longrightarrow> inv t"
  by (induction rule: rtranclp_induct) (auto intro: inv_step)

lemma inv_reachable: "initial s \<Longrightarrow> step\<^sup>*\<^sup>* s t \<Longrightarrow> inv t"
  by (blast intro: inv_steps inv_initial)

end

text \<open>
  A component whose steps only ever move up in a preorder, as long as the
  invariant holds: so do its runs.
\<close>

locale monotone_system = transition_system +
  fixes le :: "'a \<Rightarrow> 'a \<Rightarrow> bool"
  assumes le_refl: "inv s \<Longrightarrow> le s s"
    and le_trans: "le s t \<Longrightarrow> le t u \<Longrightarrow> le s u"
    and le_step: "step s t \<Longrightarrow> inv s \<Longrightarrow> le s t"
begin

lemma le_steps: "step\<^sup>*\<^sup>* s t \<Longrightarrow> inv s \<Longrightarrow> le s t"
proof (induction rule: rtranclp_induct)
  case base
  then show ?case by (rule le_refl)
next
  case (step t u)
  then show ?case by (blast intro: le_trans le_step inv_steps)
qed

end

end
