(* ===== verification/Rust_Std.thy ===== *)
theory Rust_Std
  imports Kz_Prelude "HOL-Library.Finite_Map" "HOL-Library.Char_ord"
    "HOL-Library.List_Lexorder" "HOL-Library.Product_Lexorder"
begin

text \<open>
  The part of the Rust standard library the modelled crates use. A \<open>BTreeMap\<close> is a
  finite map whose iteration runs through the keys in increasing order. A \<open>String\<close>
  is its UTF-8 byte sequence, written as an Isabelle string, so that \<open>len()\<close> and
  \<open>bytes()\<close> are the length and the characters; \<open>chars()\<close> decodes the code points.
  Little-endian conversions are over natural numbers with an explicit width.
\<close>

section \<open>Ordered maps\<close>

type_synonym ('k, 'v) btree_map = "('k, 'v) fmap"

definition bt_len :: "('k, 'v) btree_map \<Rightarrow> nat" where
  "bt_len m = fcard (fmdom m)"

definition bt_iter :: "('k::linorder, 'v) btree_map \<Rightarrow> ('k \<times> 'v) list" where
  "bt_iter m = sorted_list_of_fmap m"

definition bt_values :: "('k::linorder, 'v) btree_map \<Rightarrow> 'v list" where
  "bt_values m = map snd (bt_iter m)"

definition contains_key :: "('k, 'v) btree_map \<Rightarrow> 'k \<Rightarrow> bool" where
  "contains_key m k \<longleftrightarrow> fmlookup m k \<noteq> None"

definition bt_retain :: "('k \<Rightarrow> 'v \<Rightarrow> bool) \<Rightarrow> ('k, 'v) btree_map \<Rightarrow> ('k, 'v) btree_map" where
  "bt_retain P m = fmfilter (\<lambda>k. case fmlookup m k of None \<Rightarrow> False | Some v \<Rightarrow> P k v) m"

text \<open>\<open>if let Some(v) = m.get_mut(&k) { f(v) }\<close>\<close>

definition bt_modify :: "'k \<Rightarrow> ('v \<Rightarrow> 'v) \<Rightarrow> ('k, 'v) btree_map \<Rightarrow> ('k, 'v) btree_map" where
  "bt_modify k f m = (case fmlookup m k of None \<Rightarrow> m | Some v \<Rightarrow> fmupd k (f v) m)"

definition bt_any :: "('v \<Rightarrow> bool) \<Rightarrow> ('k::linorder, 'v) btree_map \<Rightarrow> bool" where
  "bt_any P m \<longleftrightarrow> list_ex P (bt_values m)"

text \<open>The first entry in key order whose value satisfies the predicate.\<close>

definition bt_find :: "('v \<Rightarrow> bool) \<Rightarrow> ('k::linorder, 'v) btree_map \<Rightarrow> ('k \<times> 'v) option" where
  "bt_find P m = List.find (\<lambda>(k, v). P v) (bt_iter m)"

definition bt_count :: "('v \<Rightarrow> bool) \<Rightarrow> ('k::linorder, 'v) btree_map \<Rightarrow> nat" where
  "bt_count P m = length (filter P (bt_values m))"

text \<open>Keys, in order, of the entries that satisfy the predicate: \<open>iter().filter_map(..)\<close>.\<close>

definition bt_keys_where :: "('v \<Rightarrow> bool) \<Rightarrow> ('k::linorder, 'v) btree_map \<Rightarrow> 'k list" where
  "bt_keys_where P m = map fst (filter (\<lambda>(k, v). P v) (bt_iter m))"

lemma set_bt_iter [rust_simps]: "set (bt_iter m) = {(k, v). fmlookup m k = Some v}"
  by (auto simp: bt_iter_def sorted_list_of_fmap_def fmlookup_dom_iff image_iff
      intro!: fmdomI)

lemma distinct_bt_iter_keys: "distinct (map fst (bt_iter m))"
  by (simp add: bt_iter_def sorted_list_of_fmap_def comp_def sorted_list_of_fset.rep_eq)

lemma sorted_bt_iter_keys: "sorted (map fst (bt_iter m))"
  by (simp add: bt_iter_def sorted_list_of_fmap_def comp_def sorted_list_of_fset.rep_eq)

lemma distinct_bt_iter: "distinct (bt_iter m)"
  using distinct_bt_iter_keys [of m] by (simp add: distinct_map)

lemma length_bt_iter [simp]: "length (bt_iter m) = bt_len m"
  by (simp add: bt_iter_def sorted_list_of_fmap_def bt_len_def sorted_list_of_fset.rep_eq fcard.rep_eq)

lemma set_bt_values [rust_simps]: "v \<in> set (bt_values m) \<longleftrightarrow> (\<exists>k. fmlookup m k = Some v)"
  by (force simp: bt_values_def set_bt_iter)

lemma contains_key_iff [rust_simps]: "contains_key m k \<longleftrightarrow> (\<exists>v. fmlookup m k = Some v)"
  by (auto simp: contains_key_def)

lemma lookup_bt_retain [simp]:
  "fmlookup (bt_retain P m) k =
     (case fmlookup m k of None \<Rightarrow> None | Some v \<Rightarrow> if P k v then Some v else None)"
  by (simp add: bt_retain_def split: option.split)

lemma lookup_bt_modify [simp]:
  "fmlookup (bt_modify k f m) x = (if x = k then map_option f (fmlookup m k) else fmlookup m x)"
  by (simp add: bt_modify_def split: option.split)

lemma fmdom_bt_modify [simp]: "fmdom (bt_modify k f m) = fmdom m"
  by (auto simp: bt_modify_def fmlookup_dom_iff split: option.split)

lemma bt_any_iff [rust_simps]: "bt_any P m \<longleftrightarrow> (\<exists>k v. fmlookup m k = Some v \<and> P v)"
  unfolding bt_any_def list_ex_iff using set_bt_values [of _ m] by blast

lemma bt_find_Some: "bt_find P m = Some (k, v) \<Longrightarrow> fmlookup m k = Some v \<and> P v"
proof -
  assume "bt_find P m = Some (k, v)"
  then have "(k, v) \<in> set (bt_iter m) \<and> P v"
    by (auto simp: bt_find_def find_Some_iff) (metis length_bt_iter nth_mem)
  then show ?thesis by (simp add: set_bt_iter)
qed

lemma bt_find_None: "bt_find P m = None \<longleftrightarrow> (\<forall>k v. fmlookup m k = Some v \<longrightarrow> \<not> P v)"
  by (auto simp: bt_find_def find_None_iff set_bt_iter)

lemma set_bt_keys_where [rust_simps]:
  "set (bt_keys_where P m) = {k. \<exists>v. fmlookup m k = Some v \<and> P v}"
  by (force simp: bt_keys_where_def set_bt_iter)

lemma distinct_bt_keys_where: "distinct (bt_keys_where P m)"
  using distinct_bt_iter_keys [of m]
  by (auto simp: bt_keys_where_def distinct_map intro: inj_on_subset)

section \<open>Sizes of ordered maps\<close>

lemma bt_len_empty [simp]: "bt_len fmempty = 0"
  by (simp add: bt_len_def)

lemma bt_len_upd: "bt_len (fmupd k v m) = (if contains_key m k then bt_len m else Suc (bt_len m))"
  by (auto simp: bt_len_def contains_key_def fmlookup_dom_iff fcard_finsert_if)

lemma bt_len_modify [simp]: "bt_len (bt_modify k f m) = bt_len m"
  by (simp add: bt_len_def)

lemma bt_len_drop: "bt_len (fmdrop k m) = (if contains_key m k then bt_len m - 1 else bt_len m)"
  by (auto simp: bt_len_def contains_key_def fmlookup_dom_iff fcard.rep_eq)

lemma bt_len_retain_le: "bt_len (bt_retain P m) \<le> bt_len m"
  by (auto simp: bt_len_def bt_retain_def fcard.rep_eq intro!: card_mono)

lemma bt_len_pos: "fmlookup m k = Some v \<Longrightarrow> 0 < bt_len m"
  by (auto simp: bt_len_def fcard.rep_eq card_gt_0_iff intro!: fmdomI)

lemma bt_len_map [simp]: "bt_len (fmmap f m) = bt_len m"
  by (simp add: bt_len_def)

section \<open>Strings\<close>

definition byte_of :: "char \<Rightarrow> u8" where
  "byte_of c = of_char c"

definition str_bytes :: "string \<Rightarrow> bytes" where
  "str_bytes s = map byte_of s"

text \<open>The code points of a UTF-8 byte sequence: \<open>str::chars\<close>.\<close>

fun utf8_chars :: "nat list \<Rightarrow> nat list" where
  "utf8_chars [] = []"
| "utf8_chars (b # rest) =
     (if b < 0x80 then b # utf8_chars rest
      else if b < 0xE0 then
        (case rest of c1 # r \<Rightarrow> ((b mod 32) * 64 + c1 mod 64) # utf8_chars r | _ \<Rightarrow> [])
      else if b < 0xF0 then
        (case rest of c1 # c2 # r \<Rightarrow>
           ((b mod 16) * 4096 + (c1 mod 64) * 64 + c2 mod 64) # utf8_chars r | _ \<Rightarrow> [])
      else
        (case rest of c1 # c2 # c3 # r \<Rightarrow>
           ((b mod 8) * 262144 + (c1 mod 64) * 4096 + (c2 mod 64) * 64 + c3 mod 64) # utf8_chars r
         | _ \<Rightarrow> []))"

definition str_chars :: "string \<Rightarrow> nat list" where
  "str_chars s = utf8_chars (map of_char s)"

text \<open>\<open>char::is_control\<close>: the general category Cc.\<close>

definition is_control :: "nat \<Rightarrow> bool" where
  "is_control c \<longleftrightarrow> c < 0x20 \<or> (0x7F \<le> c \<and> c < 0xA0)"

definition utf16_units :: "nat \<Rightarrow> nat list" where
  "utf16_units c = (if c < 0x10000 then [c]
     else [0xD800 + (c - 0x10000) div 0x400, 0xDC00 + (c - 0x10000) mod 0x400])"

definition encode_utf16 :: "string \<Rightarrow> nat list" where
  "encode_utf16 s = concat (map utf16_units (str_chars s))"

definition starts_with_slash :: "string \<Rightarrow> bool" where
  "starts_with_slash s = (case s of [] \<Rightarrow> False | c # _ \<Rightarrow> c = CHR ''/'')"

definition contains_nul :: "string \<Rightarrow> bool" where
  "contains_nul s = list_ex (\<lambda>c. of_char c = (0::nat)) s"

lemma byte_of_inject [simp]: "byte_of c = byte_of d \<longleftrightarrow> c = d"
proof
  assume "byte_of c = byte_of d"
  then have "(of_nat (of_char c) :: u8) = of_nat (of_char d)"
    by (simp add: byte_of_def of_nat_of_char)
  then have "take_bit 8 (of_char c :: nat) = take_bit 8 (of_char d)"
    by (simp add: word_of_nat_eq_iff)
  then have "(of_char c :: nat) = of_char d"
    using nat_of_char_less_256 [of c] nat_of_char_less_256 [of d] by (simp add: take_bit_eq_mod)
  then show "c = d" by (simp add: of_char_eq_iff)
qed simp

section \<open>Little-endian encodings\<close>

fun le_bytes :: "nat \<Rightarrow> nat \<Rightarrow> bytes" where
  "le_bytes 0 x = []"
| "le_bytes (Suc n) x = word_of_nat (x mod 256) # le_bytes n (x div 256)"

fun le_nat :: "bytes \<Rightarrow> nat" where
  "le_nat [] = 0"
| "le_nat (b # bs) = unat b + 256 * le_nat bs"

lemma length_le_bytes [simp]: "length (le_bytes n x) = n"
  by (induction n arbitrary: x) auto

lemma unat_byte: "unat (word_of_nat (x mod 256) :: u8) = x mod 256"
  by (simp add: unat_of_nat)

lemma le_nat_le_bytes: "x < 256 ^ n \<Longrightarrow> le_nat (le_bytes n x) = x"
proof (induction n arbitrary: x)
  case 0
  then show ?case by simp
next
  case (Suc n)
  then have "x div 256 < 256 ^ n" by (simp add: less_mult_imp_div_less mult.commute)
  then have "le_nat (le_bytes n (x div 256)) = x div 256" by (rule Suc.IH)
  then show ?case by (simp add: unat_byte)
qed

lemma le_nat_less: "le_nat bs < 256 ^ length bs"
proof (induction bs)
  case Nil
  then show ?case by simp
next
  case (Cons b bs)
  have "unat b < 256" using unsigned_less [of b] by simp
  with Cons show ?case by simp
qed

lemma le_bytes_le_nat: "length bs = n \<Longrightarrow> le_bytes n (le_nat bs) = bs"
proof (induction bs arbitrary: n)
  case Nil
  then show ?case by simp
next
  case (Cons b bs)
  have "unat b < 256" using unsigned_less [of b] by simp
  then have "(unat b + 256 * le_nat bs) mod 256 = unat b"
    and "(unat b + 256 * le_nat bs) div 256 = le_nat bs" by simp_all
  with Cons show ?case by auto
qed

definition u16_le :: "u16 \<Rightarrow> bytes" where
  "u16_le w = le_bytes 2 (unat w)"

definition u32_le :: "u32 \<Rightarrow> bytes" where
  "u32_le w = le_bytes 4 (unat w)"

definition u64_le :: "u64 \<Rightarrow> bytes" where
  "u64_le w = le_bytes 8 (unat w)"

lemma length_word_le [simp]:
  "length (u16_le a) = 2" "length (u32_le b) = 4" "length (u64_le c) = 8"
  by (simp_all add: u16_le_def u32_le_def u64_le_def)

lemma unat_bound: "unat (w :: 'a::len word) < 2 ^ LENGTH('a)"
  by (rule unsigned_less)

lemma le_nat_word_le [simp]:
  "le_nat (u16_le a) = unat a" "le_nat (u32_le b) = unat b" "le_nat (u64_le c) = unat c"
  using unat_bound [of a] unat_bound [of b] unat_bound [of c]
  by (simp_all add: u16_le_def u32_le_def u64_le_def le_nat_le_bytes)

end
