(* ===== verification/Protocol.thy ===== *)
theory Protocol
  imports Rust_Std
begin

text \<open>
  The messages of \<^verbatim>\<open>crates/protocol\<close>: the control protocol's requests, replies and
  errors, the shared-object identities of the kernel commands with their names, the
  bootstrap description of a native fork, and the admission rule of the image cache.
  Constructors and fields keep the names of the sources, with a prefix where Rust's
  namespaces allow a clash that Isabelle's do not.
\<close>

section \<open>Kernel objects and commands\<close>

definition HEADER_SIZE :: nat where "HEADER_SIZE = 65536"
definition BANK_SIZE :: nat where "BANK_SIZE = 32 * 1024 * 1024"
definition SECTION_SIZE :: nat where "SECTION_SIZE = HEADER_SIZE + BANK_SIZE * 2"

datatype resource_input = Inline bytes | Section (source: u64) (section_length: u64)

datatype ipc_kind = Memory | Semaphore

datatype object_key =
    Mount u64
  | Shared u64
  | Time u64
  | Bpf
  | ProcessTable
  | CgroupJob u64
  | MountPolicy (policy_namespace: u64) (policy_id: u64)
  | Sysv ipc_kind (sysv_namespace: u64) (sysv_id: i32)

definition object_key_id :: "object_key \<Rightarrow> u64" where
  "object_key_id k = (case k of
     Mount i \<Rightarrow> i | Shared i \<Rightarrow> i | Time i \<Rightarrow> i
   | Bpf \<Rightarrow> 1 | ProcessTable \<Rightarrow> 1
   | CgroupJob i \<Rightarrow> (if i = - 1 then - 1 else i + 1)
   | Sysv kind ns i \<Rightarrow> ucast i
   | MountPolicy ns i \<Rightarrow> i)"

text \<open>Decimal and zero-padded hexadecimal rendering, as \<open>format!\<close> prints integers.\<close>

fun nat_digits :: "nat \<Rightarrow> nat \<Rightarrow> nat list" where
  "nat_digits base n = (if base \<le> 1 \<or> n < base then [n]
     else nat_digits base (n div base) @ [n mod base])"

declare nat_digits.simps [simp del]

definition digit_char :: "nat \<Rightarrow> char" where
  "digit_char d = (if d < 10 then char_of (48 + d) else char_of (87 + d))"

definition show_nat :: "nat \<Rightarrow> string" where
  "show_nat n = map digit_char (nat_digits 10 n)"

definition show_u64 :: "u64 \<Rightarrow> string" where
  "show_u64 w = show_nat (unat w)"

definition show_i32 :: "i32 \<Rightarrow> string" where
  "show_i32 w = (if sint w < 0 then CHR ''-'' # show_nat (nat (- sint w)) else show_nat (nat (sint w)))"

definition show_hex16 :: "u64 \<Rightarrow> string" where
  "show_hex16 w = (let s = map digit_char (nat_digits 16 (unat w))
     in replicate (16 - length s) CHR ''0'' @ s)"

definition local_prefix :: string where
  "local_prefix = ''Local'' @ [CHR 0x5C]"

definition object_key_name :: "object_key \<Rightarrow> u64 \<Rightarrow> string" where
  "object_key_name k domain = local_prefix @ (case k of
     Mount i \<Rightarrow>
       (if i = 1 then ''kinakaze.mount.v2.'' @ show_u64 domain @ ''.state''
        else ''kinakaze.mount.v2.'' @ show_u64 domain @ ''.ns-'' @ show_u64 i @ ''.state'')
   | Shared i \<Rightarrow> ''kinakaze.mount-object.v1.'' @ show_u64 domain @ ''.'' @ show_u64 i @ ''.state''
   | Time i \<Rightarrow> ''kinakaze.time.v1.'' @ show_u64 domain @ ''.'' @ show_u64 i @ ''.state''
   | Bpf \<Rightarrow> ''kinakaze.bpf.v3.'' @ show_u64 domain
   | ProcessTable \<Rightarrow> ''kinakaze.v2.pidns.'' @ show_hex16 domain @ ''.v16''
   | CgroupJob i \<Rightarrow> ''kinakaze.cgroup.v2.'' @ show_u64 domain @ ''.'' @ show_u64 i
   | MountPolicy ns i \<Rightarrow>
       ''kinakaze.mount-policy.v2.'' @ show_u64 domain @ ''.'' @ show_u64 ns @ ''.'' @ show_u64 i @ ''.state''
   | Sysv kind ns i \<Rightarrow>
       ''kinakaze.'' @ (case kind of Memory \<Rightarrow> ''shm'' | Semaphore \<Rightarrow> ''sem'')
         @ ''.v2.ns'' @ show_u64 domain @ ''.'' @ show_u64 ns @ ''.'' @ show_i32 i)"

definition object_key_is_root :: "object_key \<Rightarrow> bool" where
  "object_key_is_root k = (case k of
     Mount i \<Rightarrow> i = 1
   | Shared i \<Rightarrow> i = 1 \<or> i \<ge> - 1 - 64
   | Time i \<Rightarrow> i = 1
   | Bpf \<Rightarrow> True
   | ProcessTable \<Rightarrow> True
   | CgroupJob i \<Rightarrow> True
   | MountPolicy ns i \<Rightarrow> ns = - 1
   | Sysv kind ns i \<Rightarrow> False)"

record mount_publication =
  mp_namespace :: u64
  mp_expected :: u64
  mp_dependencies :: "object_key list"

datatype kernel_command =
    FileWriteback (fw_source: u64) (fw_wait: bool)
  | ResourceOwner
  | RetainResources (rr_owner: u64) (rr_id: u64) (rr_input: resource_input)
  | Resources (rs_owner: u64) (rs_id: u64)
  | ResourceSocket (rk_owner: u64) (rk_id: u64) (rk_index: nat)
  | ReleaseResources (rl_owner: u64) (rl_id: u64)
  | WatchDirectory (wd_owner: u64) (wd_watch: u64) (wd_path: string)
  | RemoveDirectoryWatch (rd_owner: u64) (rd_watch: u64)
  | Unlease (ul_object: object_key) (ul_owner: object_key)
  | MountNamespaces
  | RemoveCgroup (rc_id: u64)
  | RemoveIpc (ri_object: object_key)
  | Lease (ls_object: object_key) (ls_owner: object_key)
  | Retain (rt_object: object_key) (rt_tmpfs: bool) (rt_dependencies: "object_key list")
  | PublishMounts (pm_topology: u64) (pm_source: u64) (pm_length: u64)
      (pm_updates: "mount_publication list")

section \<open>Native fork bootstrap\<close>

record native_module =
  nm_base :: u64
  nm_path :: string

record fork_spec =
  fs_tls_slots :: u64
  fs_modules :: "native_module list"

definition spec_module_valid :: "native_module \<Rightarrow> bool" where
  "spec_module_valid m \<longleftrightarrow>
     nm_base m \<noteq> 0 \<and> unat (nm_base m) \<le> 2 ^ 63 - 1 \<and> unat (nm_base m) mod 65536 = 0
     \<and> nm_path m \<noteq> [] \<and> length (nm_path m) \<le> 4096 \<and> \<not> contains_nul (nm_path m)"

text \<open>\<open>windows(2).all(|m| m[0].base < m[1].base)\<close>\<close>

fun bases_increasing :: "native_module list \<Rightarrow> bool" where
  "bases_increasing (a # b # ms) = (nm_base a < nm_base b \<and> bases_increasing (b # ms))"
| "bases_increasing _ = True"

definition spec_valid :: "fork_spec \<Rightarrow> bool" where
  "spec_valid sp \<longleftrightarrow>
     fs_modules sp \<noteq> [] \<and> length (fs_modules sp) \<le> 128
     \<and> sum_list (map (length \<circ> nm_path) (fs_modules sp)) \<le> 16384
     \<and> list_all spec_module_valid (fs_modules sp) \<and> bases_increasing (fs_modules sp)"

definition FORK_MAGIC :: u64 where
  "FORK_MAGIC = 0x435259424f4f5432"

definition pad8 :: "bytes \<Rightarrow> bytes" where
  "pad8 bs = bs @ replicate ((8 - length bs mod 8) mod 8) 0"

text \<open>One module of the manifest, appended to the bytes written so far.\<close>

definition manifest_module :: "bytes \<Rightarrow> native_module \<Rightarrow> bytes" where
  "manifest_module acc m = (let path = encode_utf16 (nm_path m) @ [0]
     in pad8 (acc @ u64_le (nm_base m) @ le_bytes 4 (length path) @ le_bytes 4 0
              @ concat (map (le_bytes 2) path)))"

definition spec_manifest :: "fork_spec \<Rightarrow> bytes option" where
  "spec_manifest sp =
     (if \<not> spec_valid sp then None
      else
        let header = u64_le FORK_MAGIC @ le_bytes 8 0 @ le_bytes 4 (length (fs_modules sp))
              @ le_bytes 4 0 @ u64_le (fs_tls_slots sp);
            body = foldl manifest_module header (fs_modules sp)
        in Some (take 8 body @ le_bytes 8 (length body) @ drop 16 body))"

record fork_worker =
  fw_handles :: "u64 list"
  fw_pid :: u32
  fw_tid :: u32

record exec_worker =
  ew_handles :: "u64 list"
  ew_pid :: u32

definition IMAGE_MIN_SIZE :: nat where "IMAGE_MIN_SIZE = 32 * 1024"
definition IMAGE_MAX_SIZE :: nat where "IMAGE_MAX_SIZE = 64 * 1024 * 1024"

definition image_eligible :: "nat \<Rightarrow> bool" where
  "image_eligible n \<longleftrightarrow> IMAGE_MIN_SIZE \<le> n \<and> n \<le> IMAGE_MAX_SIZE"

end
