(* ===== verification/Control_Messages.thy ===== *)
theory Control_Messages
  imports Protocol
begin

text \<open>
  The control-plane messages of \<^verbatim>\<open>crates/protocol/src/lib.rs\<close>: the opening greeting,
  the requests a client sends, the replies and errors of the manager, and the two
  envelopes that carry them. The native identity of a peer, from
  \<^verbatim>\<open>crates/manager/src/lib.rs\<close>, is here too, with the lexicographic order Rust derives.
\<close>

section \<open>Versions and limits\<close>

definition PROTOCOL_VERSION :: u32 where "PROTOCOL_VERSION = 4"
definition CONTROL_PROTOCOL_VERSION :: u32 where "CONTROL_PROTOCOL_VERSION = 1"

definition supported_version :: "u32 \<Rightarrow> bool" where
  "supported_version v \<longleftrightarrow> CONTROL_PROTOCOL_VERSION \<le> v \<and> v \<le> PROTOCOL_VERSION"

definition MAX_FRAME_SIZE :: nat where "MAX_FRAME_SIZE = 65536"
definition MAX_STATE_NAME_BYTES :: nat where "MAX_STATE_NAME_BYTES = 128"

section \<open>Launches and greetings\<close>

record pool_launch =
  arguments :: "string list"
  cwd :: string
  environment :: "string list option"

definition launch_valid :: "pool_launch \<Rightarrow> bool" where
  "launch_valid l \<longleftrightarrow>
     (case arguments l of [] \<Rightarrow> False | program # _ \<Rightarrow> starts_with_slash program)
     \<and> starts_with_slash (cwd l)
     \<and> \<not> contains_nul (cwd l)
     \<and> \<not> list_ex contains_nul (arguments l)
     \<and> \<not> (case environment l of None \<Rightarrow> False | Some vs \<Rightarrow> list_ex contains_nul vs)"

record runtime_open_config =
  endpoint :: string
  roc_token :: string
  roc_adoption_ticket :: "string option"

datatype client_role = RWorker | RController | RLauncher | RHelper

record hello =
  h_version :: u32
  h_token :: string
  h_role :: client_role
  h_adoption_ticket :: "string option"

datatype fork_policy = Copy | Share | Reset

section \<open>Requests\<close>

datatype request =
    Hello hello
  | Identity
  | Kernel kernel_command
  | ImageSnapshot (is_source: u64) (is_length: u64)
  | NativeCatalog (nc_directory: string)
  | NativeFork (nf_transaction: u64) (nf_spec: fork_spec)
  | NativeExec
  | ProcessMemoryTarget (pmt_pid: u32) (pmt_write: bool)
  | RegisterModule (rm_module_id: u32) (rm_schema: u32)
  | DefineState (ds_module_id: u32) (ds_name: string) (ds_initial: u64) (ds_fork: fork_policy)
  | ReadState (rds_module_id: u32) (rds_name: string)
  | WriteState (ws_module_id: u32) (ws_name: string) (ws_value: u64)
  | PrepareFork (pf_request_key: u64)
  | PrepareForkWithParent (pfp_request_key: u64) (pfp_parent_pid: u32)
  | MarkReady
  | AwaitActivation
  | AwaitForkReady (afr_transaction: u64)
  | CommitFork (cf_transaction: u64)
  | AbortFork (af_transaction: u64)
  | PrepareExec (pe_request_key: u64) (pe_host_pid: u32) (pe_birth: u64)
  | AwaitExecReady (aer_transaction: u64)
  | CommitExec (ce_transaction: u64)
  | AbortExec (ae_transaction: u64)
  | AwaitExit (ax_pid: u32)
  | MarkPrewarmReady
  | AwaitPrewarmActivation
  | AwaitPrewarmReady (apr_pid: u32)
  | ActivatePrewarm (ap_pid: u32)
  | MarkPoolReady
  | AwaitPoolActivation
  | AwaitPoolReady (apo_minimum: u32)
  | ReservePoolWorker
  | ReleasePoolWorker (rpw_pid: u32)
  | ActivatePoolWorker (apw_pid: u32) (apw_launch: pool_launch)
  | ActivatePoolWorkerUnderParent (apu_pid: u32) (apu_parent_pid: u32) (apu_launch: pool_launch)
  | Stats
  | Shutdown

section \<open>Replies and errors\<close>

record process_identity =
  pi_epoch :: u64
  pi_pid :: u32
  pi_generation :: u32
  pi_parent_pid :: u32

record fork_ticket =
  ft_transaction :: u64
  ft_token :: string
  ft_child :: process_identity

record stats =
  st_processes :: nat
  st_clients :: nat
  st_objects :: nat
  st_transactions :: nat

datatype reply =
    RKernelObjects "u64 list"
  | RHello (rh_epoch: u64) (rh_process: "process_identity option")
  | RIdentity process_identity
  | RImageSnapshot "(u64 \<times> bytes) option"
  | RNativeCatalog "(u64 \<times> u64 list) option"
  | RNativeFork "fork_worker option"
  | RNativeExec "exec_worker option"
  | RProcessMemoryTarget (rp_host_pid: u32) (rp_birth: u64)
  | ROk
  | RPoolWorker (rw_pid: u32) (rw_host_pid: u32) (rw_birth: u64)
  | RPoolLaunch pool_launch
  | RState (rst_object_id: u64) (rst_value: u64)
  | RForkPrepared fork_ticket
  | RExecPrepared (re_transaction: u64)
  | RExit (rx_status: i32)
  | RStats stats

datatype error_code =
    InvalidRequest | VersionMismatch | Unauthorized | NotFound | Conflict
  | NotReady | Aborted | LimitExceeded | Internal

record rpc_error =
  code :: error_code
  message :: string

record wire_request =
  wq_id :: u64
  wq_request :: request
  wq_completed :: "u64 option"

record wire_response =
  wr_id :: u64
  wr_result :: "rpc_error + reply"

section \<open>Native identities\<close>

datatype peer_identity = PeerIdentity (host_pid: u32) (birth: u64)

text \<open>\<open>#[derive(PartialOrd, Ord)]\<close> compares the fields in order.\<close>

instantiation peer_identity :: linorder
begin

definition less_eq_peer_identity :: "peer_identity \<Rightarrow> peer_identity \<Rightarrow> bool" where
  "less_eq_peer_identity a b \<longleftrightarrow>
     host_pid a < host_pid b \<or> host_pid a = host_pid b \<and> birth a \<le> birth b"

definition less_peer_identity :: "peer_identity \<Rightarrow> peer_identity \<Rightarrow> bool" where
  "less_peer_identity a b \<longleftrightarrow>
     host_pid a < host_pid b \<or> host_pid a = host_pid b \<and> birth a < birth b"

instance
  by standard (auto simp: less_eq_peer_identity_def less_peer_identity_def peer_identity.expand)

end

end
