(* ===== verification/Wire_Frame.thy ===== *)
theory Wire_Frame
  imports Control_Messages
begin

text \<open>
  Length-prefixed framing of \<^verbatim>\<open>crates/protocol/src/lib.rs\<close> (\<open>encode_frame\<close>,
  \<open>write_frame\<close>, \<open>read_frame\<close>). The JSON library is not part of the repository: its
  serializer is a parameter that yields the sequence of byte chunks it hands to the
  writer together with whether it then fails, and its parser is a parameter from a
  byte string to a value or a failure.
\<close>

datatype io_error_kind = InvalidData | InvalidInput | UnexpectedEof

type_synonym 'a serializer = "'a \<Rightarrow> bytes list \<times> bool"
type_synonym 'a parser = "bytes \<Rightarrow> 'a option"

section \<open>Definitions\<close>

text \<open>
  \<open>BoundedPayload::write\<close>: the buffer already holds the four prefix bytes; the
  subtraction in the guard underflows, a panic, if the buffer ever exceeds the bound.
\<close>

definition bounded_write :: "bytes \<Rightarrow> bytes \<Rightarrow> (io_error_kind, bytes) outcome" where
  "bounded_write buf chunk =
     (if MAX_FRAME_SIZE + 4 < length buf then Panic
      else if length chunk > MAX_FRAME_SIZE + 4 - length buf then Err InvalidInput
      else Ok (buf @ chunk))"

text \<open>The writes of one serialization; an empty chunk makes \<open>write_all\<close> a no-op.\<close>

fun bounded_writes :: "bytes \<Rightarrow> bytes list \<Rightarrow> (io_error_kind, bytes) outcome" where
  "bounded_writes buf [] = Ok buf"
| "bounded_writes buf (c # cs) =
     (if c = [] then bounded_writes buf cs
      else and_then (bounded_write buf c) (\<lambda>buf'. bounded_writes buf' cs))"

definition encode_frame :: "'a serializer \<Rightarrow> 'a \<Rightarrow> (io_error_kind, bytes) outcome" where
  "encode_frame ser v =
     (case ser v of (chunks, fails) \<Rightarrow>
        and_then (bounded_writes [0, 0, 0, 0] chunks)
          (\<lambda>payload.
             if fails then Err InvalidData
             else if length payload - 4 = 0 then Err InvalidInput
             else Ok (le_bytes 4 (length payload - 4) @ drop 4 payload)))"

text \<open>
  The transport as the bytes it has accepted: \<open>write_frame\<close> appends the whole frame
  in one \<open>write_all\<close>, and nothing when the encoding fails.
\<close>

definition write_frame :: "'a serializer \<Rightarrow> bytes \<Rightarrow> 'a \<Rightarrow> (io_error_kind, unit) outcome \<times> bytes" where
  "write_frame ser sent v = try_or sent (encode_frame ser v) (\<lambda>frame. (Ok (), sent @ frame))"

text \<open>\<open>Read::read_exact\<close> on the bytes a peer sent before it closed the stream.\<close>

definition read_exact :: "nat \<Rightarrow> bytes \<Rightarrow> (io_error_kind, bytes \<times> bytes) outcome" where
  "read_exact n stream =
     (if length stream < n then Err UnexpectedEof else Ok (take n stream, drop n stream))"

definition read_frame :: "'a parser \<Rightarrow> bytes \<Rightarrow> (io_error_kind, 'a \<times> bytes) outcome" where
  "read_frame de stream =
     and_then (read_exact 4 stream) (\<lambda>(prefix, rest).
       let n = le_nat prefix in
       if n = 0 \<or> n > MAX_FRAME_SIZE then Err InvalidData
       else and_then (read_exact n rest) (\<lambda>(payload, rest').
         case de payload of None \<Rightarrow> Err InvalidData | Some v \<Rightarrow> Ok (v, rest')))"

text \<open>A reader that takes \<open>k\<close> messages off the stream one after the other.\<close>

fun read_frames :: "'a parser \<Rightarrow> nat \<Rightarrow> bytes \<Rightarrow> (io_error_kind, 'a list \<times> bytes) outcome" where
  "read_frames de 0 stream = Ok ([], stream)"
| "read_frames de (Suc k) stream =
     and_then (read_frame de stream) (\<lambda>(v, rest).
       and_then (read_frames de k rest) (\<lambda>(vs, rest'). Ok (v # vs, rest')))"

fun write_frames :: "'a serializer \<Rightarrow> bytes \<Rightarrow> 'a list \<Rightarrow> (io_error_kind, unit) outcome \<times> bytes" where
  "write_frames ser sent [] = (Ok (), sent)"
| "write_frames ser sent (v # vs) =
     (case write_frame ser sent v of
        (Ok _, sent') \<Rightarrow> write_frames ser sent' vs
      | (e, sent') \<Rightarrow> (e, sent'))"

section \<open>The bounded buffer\<close>

lemma bounded_writes_total:
  "length buf \<le> MAX_FRAME_SIZE + 4 \<Longrightarrow>
     bounded_writes buf cs =
       (if length buf + length (concat cs) \<le> MAX_FRAME_SIZE + 4 then Ok (buf @ concat cs)
        else Err InvalidInput)"
proof (induction cs arbitrary: buf)
  case Nil
  then show ?case by simp
next
  case (Cons c cs)
  show ?case
  proof (cases "length c \<le> MAX_FRAME_SIZE + 4 - length buf")
    case True
    with Cons.prems have "length (buf @ c) \<le> MAX_FRAME_SIZE + 4" by simp
    from Cons.IH [OF this] Cons.IH [OF Cons.prems] True Cons.prems show ?thesis
      by (simp add: bounded_write_def)
  next
    case False
    with Cons.prems show ?thesis by (auto simp: bounded_write_def)
  qed
qed

text \<open>The encoder in closed form: the outcome depends on the serialized size alone.\<close>

lemma encode_frame_eq:
  "encode_frame ser v =
     (let payload = concat (fst (ser v)) in
      if length payload > MAX_FRAME_SIZE then Err InvalidInput
      else if snd (ser v) then Err InvalidData
      else if payload = [] then Err InvalidInput
      else Ok (le_bytes 4 (length payload) @ payload))"
proof -
  have "bounded_writes [0, 0, 0, 0] (fst (ser v)) =
      (if length (concat (fst (ser v))) \<le> MAX_FRAME_SIZE then Ok ([0, 0, 0, 0] @ concat (fst (ser v)))
       else Err InvalidInput)"
    by (subst bounded_writes_total) (auto simp: MAX_FRAME_SIZE_def)
  then show ?thesis
    by (auto simp: encode_frame_def Let_def case_prod_beta)
qed

lemma encode_frame_Ok:
  "encode_frame ser v = Ok frame \<longleftrightarrow>
     (let payload = concat (fst (ser v)) in
        0 < length payload \<and> length payload \<le> MAX_FRAME_SIZE \<and> \<not> snd (ser v)
        \<and> frame = le_bytes 4 (length payload) @ payload)"
  by (auto simp: encode_frame_eq Let_def)

lemma read_frame_prefix:
  assumes "0 < length payload" and "length payload \<le> MAX_FRAME_SIZE" and "de payload = Some v"
  shows "read_frame de (le_bytes 4 (length payload) @ payload @ rest) = Ok (v, rest)"
proof -
  have "le_nat (le_bytes 4 (length payload)) = length payload"
    using assms(2) by (intro le_nat_le_bytes) (simp add: MAX_FRAME_SIZE_def)
  with assms show ?thesis
    by (simp add: read_frame_def read_exact_def)
qed

lemma read_frame_encode_frame:
  assumes "\<And>v. \<not> snd (ser v) \<Longrightarrow> de (concat (fst (ser v))) = Some v"
    and "encode_frame ser v = Ok frame"
  shows "read_frame de (frame @ rest) = Ok (v, rest)"
  using assms by (auto simp: encode_frame_Ok Let_def intro: read_frame_prefix)

lemma write_frames_read_frames:
  assumes rt: "\<And>v. \<not> snd (ser v) \<Longrightarrow> de (concat (fst (ser v))) = Some v"
  shows "write_frames ser sent vs = (Ok (), sent') \<Longrightarrow>
    \<exists>out. sent' = sent @ out \<and> read_frames de (length vs) (out @ rest) = Ok (vs, rest)"
proof (induction vs arbitrary: sent)
  case Nil
  then show ?case by simp
next
  case (Cons v vs)
  then obtain frame where f: "encode_frame ser v = Ok frame"
    and w: "write_frames ser (sent @ frame) vs = (Ok (), sent')"
    by (cases "encode_frame ser v") (auto simp: write_frame_def)
  from Cons.IH [OF w] obtain out where
    o: "sent' = (sent @ frame) @ out" "read_frames de (length vs) (out @ rest) = Ok (vs, rest)"
    by blast
  have "read_frame de (frame @ (out @ rest)) = Ok (v, out @ rest)"
    by (rule read_frame_encode_frame [OF rt f])
  with o show ?case by (intro exI [of _ "frame @ out"]) simp
qed

end
