(* ===== verification/Manager_State.thy ===== *)
theory Manager_State
  imports Control_Messages
begin

text \<open>
  The state of the process manager (\<^verbatim>\<open>crates/manager/src/lib.rs\<close>): clients, Linux
  processes, named state objects, fork and exec transactions, retired native
  identities and exit records; its construction, and the small helpers that the
  operations share. Every operation takes the manager state and returns an outcome
  with the new state; an \<open>unwrap\<close>, \<open>expect\<close> or index on a missing entry is
  \<open>Panic\<close>.
\<close>

section \<open>Data\<close>

type_synonym client_id = u64
type_synonym state_key = "u32 \<times> string"
type_synonym 'a rpc = "(rpc_error, 'a) outcome"

record limits =
  max_clients :: nat
  max_processes :: nat
  max_modules :: nat
  max_states_per_process :: nat
  max_state_name_bytes :: nat
  max_request_keys_per_process :: nat
  max_transactions :: nat
  max_objects :: nat
  max_exit_records :: nat

definition default_limits :: limits where
  "default_limits = \<lparr>max_clients = 2048, max_processes = 1024, max_modules = 128,
     max_states_per_process = 4096, max_state_name_bytes = MAX_STATE_NAME_BYTES,
     max_request_keys_per_process = 1024, max_transactions = 4096, max_objects = 262144,
     max_exit_records = 4096\<rparr>"

datatype client_kind =
    KHelper
  | KController
  | KLauncher
  | KWorker (kw_pid: u32)
  | KExecCandidate (kx_pid: u32) (kx_transaction: u64)
  | KRetired (kr_pid: u32) (kr_transaction: u64)

record client =
  c_peer :: peer_identity
  c_kind :: client_kind

record snapshot =
  sn_modules :: "(u32, u32) btree_map"
  sn_states :: "(state_key, u64) btree_map"

datatype process_state = PActive | PPending u64 | PAborted

datatype prewarm_state =
    Fresh
  | PrewarmReady
  | PrewarmActivated
  | PoolReady
  | PoolReserved client_id
  | PoolActivated (pa_launch: pool_launch) (pa_owner: client_id) (pa_parent_pid: u32)

record process =
  p_identity :: process_identity
  p_peer :: peer_identity
  p_snapshot :: snapshot
  p_state :: process_state
  p_request_keys :: "(u64, u64) btree_map"
  p_exec_request_keys :: "(u64, u64) btree_map"
  p_prewarm :: prewarm_state

record object =
  o_value :: u64
  o_initial :: u64
  o_fork :: fork_policy

datatype transaction_state = Prepared | Adopted | Ready | Committed | TAborted

record transaction =
  t_parent :: u32
  t_requested_parent :: u32
  t_ticket :: fork_ticket
  t_snapshot :: "snapshot option"
  t_state :: transaction_state

record exec_transaction =
  x_process :: u32
  x_owner :: client_id
  x_owner_peer :: peer_identity
  x_target :: peer_identity
  x_candidate :: "client_id option"
  x_state :: transaction_state
  x_retiring :: bool
  x_candidate_exit :: "i32 option"

datatype native_exec_state = NUnreserved | NPending | NCommitted | NAborted

record manager =
  m_epoch :: u64
  m_token :: string
  m_limits :: limits
  m_clients :: "(client_id, client) btree_map"
  m_processes :: "(u32, process) btree_map"
  m_modules :: "(u32, u32) btree_map"
  m_objects :: "(u64, object) btree_map"
  m_transactions :: "(u64, transaction) btree_map"
  m_exec_transactions :: "(u64, exec_transaction) btree_map"
  m_retired_peers :: "peer_identity fset"
  m_exit_records :: "(u32, i32) btree_map"
  m_exit_order :: "u32 list"
  m_next_client :: u64
  m_next_pid :: u32
  m_next_object :: u64
  m_next_transaction :: u64
  m_shutdown_requested :: bool
  m_single_root :: bool

definition terminal :: "transaction_state \<Rightarrow> bool" where
  "terminal st \<longleftrightarrow> st = Committed \<or> st = TAborted"

section \<open>Construction\<close>

definition with_limits :: "u64 \<Rightarrow> string \<Rightarrow> limits \<Rightarrow> manager" where
  "with_limits ep tok lim = \<lparr>m_epoch = ep, m_token = tok, m_limits = lim,
     m_clients = fmempty, m_processes = fmempty, m_modules = fmempty, m_objects = fmempty,
     m_transactions = fmempty, m_exec_transactions = fmempty, m_retired_peers = {||},
     m_exit_records = fmempty, m_exit_order = [],
     m_next_client = 1, m_next_pid = 1, m_next_object = 1, m_next_transaction = 1,
     m_shutdown_requested = False, m_single_root = False\<rparr>"

definition new_manager :: "u64 \<Rightarrow> string \<Rightarrow> manager" where
  "new_manager ep tok = with_limits ep tok default_limits"

definition for_process_tree :: "u64 \<Rightarrow> string \<Rightarrow> manager" where
  "for_process_tree ep tok = (new_manager ep tok)\<lparr>m_single_root := True\<rparr>"

section \<open>Errors, credentials and tickets\<close>

definition error :: "error_code \<Rightarrow> string \<Rightarrow> rpc_error" where
  "error c m = \<lparr>code = c, message = m\<rparr>"

definition limit :: "string \<Rightarrow> rpc_error" where
  "limit m = error LimitExceeded m"

text \<open>Equal-length credentials are compared byte by byte without an early exit.\<close>

definition secret_equal :: "string \<Rightarrow> string \<Rightarrow> bool" where
  "secret_equal left right \<longleftrightarrow>
     (if length left \<noteq> length right then False
      else fold (\<lambda>(a, b) diff. diff OR (a XOR b)) (zip (str_bytes left) (str_bytes right)) (0 :: u8) = 0)"

definition hex_digit :: "u8 \<Rightarrow> char" where
  "hex_digit n = ''0123456789abcdef'' ! unat n"

text \<open>
  The operating system's entropy is an argument: \<open>Some\<close> of the 32 random bytes, or
  \<open>None\<close> when none is available.
\<close>

definition secure_ticket :: "bytes option \<Rightarrow> string rpc" where
  "secure_ticket entropy = (case entropy of
     None \<Rightarrow> Err (error Internal ''OS entropy unavailable'')
   | Some bs \<Rightarrow> Ok (concat (map (\<lambda>b. [hex_digit (drop_bit 4 b), hex_digit (b AND 15)]) bs)))"

section \<open>Read-only views\<close>

definition manager_stats :: "manager \<Rightarrow> stats" where
  "manager_stats s = \<lparr>st_processes = bt_len (m_processes s), st_clients = bt_len (m_clients s),
     st_objects = bt_len (m_objects s),
     st_transactions = bt_len (m_transactions s) + bt_len (m_exec_transactions s)\<rparr>"

definition pool_ready_count :: "manager \<Rightarrow> nat" where
  "pool_ready_count s = bt_count (\<lambda>p. p_prewarm p = PoolReady) (m_processes s)"

definition process_peer :: "manager \<Rightarrow> u32 \<Rightarrow> peer_identity option" where
  "process_peer s pid = map_option p_peer (fmlookup (m_processes s) pid)"

definition is_pool_reserved :: "prewarm_state \<Rightarrow> bool" where
  "is_pool_reserved w = (case w of PoolReserved _ \<Rightarrow> True | _ \<Rightarrow> False)"

definition pool_peer_is_prepared :: "manager \<Rightarrow> peer_identity \<Rightarrow> bool" where
  "pool_peer_is_prepared s peer =
     bt_any (\<lambda>p. p_peer p = peer \<and> (p_prewarm p = PoolReady \<or> is_pool_reserved (p_prewarm p)))
       (m_processes s)"

definition is_shutdown_requested :: "manager \<Rightarrow> bool" where
  "is_shutdown_requested s = m_shutdown_requested s"

definition native_fork_state :: "manager \<Rightarrow> u64 \<Rightarrow> peer_identity \<Rightarrow> bool option" where
  "native_fork_state s transaction peer =
     (if bt_any (\<lambda>p. p_peer p = peer \<and> p_state p = PActive) (m_processes s) then Some True
      else case fmlookup (m_transactions s) transaction of
        None \<Rightarrow> None
      | Some t \<Rightarrow> (case t_state t of
            Prepared \<Rightarrow> Some False | Adopted \<Rightarrow> Some False | Ready \<Rightarrow> Some False
          | Committed \<Rightarrow> Some True
          | TAborted \<Rightarrow> None))"

definition native_exec_state_of :: "manager \<Rightarrow> peer_identity \<Rightarrow> peer_identity \<Rightarrow> native_exec_state" where
  "native_exec_state_of s parent child =
     (if bt_any (\<lambda>p. p_peer p = child \<and> p_state p = PActive) (m_processes s) then NCommitted
      else case bt_find (\<lambda>t. x_owner_peer t = parent \<and> x_target t = child) (m_exec_transactions s) of
        Some (_, t) \<Rightarrow> (case x_state t of
            Committed \<Rightarrow> NCommitted | TAborted \<Rightarrow> NAborted | _ \<Rightarrow> NPending)
      | None \<Rightarrow>
          if bt_any (\<lambda>p. p_peer p = parent \<and> p_state p = PActive) (m_processes s)
          then NUnreserved else NAborted)"

section \<open>Capacity and identities\<close>

definition check_process_capacity :: "manager \<Rightarrow> unit rpc" where
  "check_process_capacity s =
     (let reserved = bt_count (\<lambda>t. t_state t = Prepared) (m_transactions s)
      in if min (bt_len (m_processes s) + reserved) usize_max \<ge> max_processes (m_limits s)
         then Err (limit ''process limit reached'') else Ok ())"

text \<open>PIDs are signed 32-bit numbers, never reused within an epoch.\<close>

definition allocate_identity :: "manager \<Rightarrow> u32 \<Rightarrow> process_identity rpc \<times> manager" where
  "allocate_identity s parent_pid =
     (if m_next_pid s > 0x7FFFFFFF then (Err (limit ''guest PID space exhausted''), s)
      else (Ok \<lparr>pi_epoch = m_epoch s, pi_pid = m_next_pid s, pi_generation = 1,
                pi_parent_pid = parent_pid\<rparr>,
            s\<lparr>m_next_pid := m_next_pid s + 1\<rparr>))"

definition check_object_capacity :: "manager \<Rightarrow> nat \<Rightarrow> unit rpc" where
  "check_object_capacity s count =
     (if bt_len (m_objects s) + count > usize_max
         \<or> bt_len (m_objects s) + count > max_objects (m_limits s)
         \<or> unat (m_next_object s) + count > 2 ^ 64 - 1
      then Err (limit ''state object limit reached'') else Ok ())"

definition insert_object :: "manager \<Rightarrow> object \<Rightarrow> u64 \<times> manager" where
  "insert_object s ob =
     (m_next_object s,
      s\<lparr>m_next_object := m_next_object s + 1,
        m_objects := fmupd (m_next_object s) ob (m_objects s)\<rparr>)"

definition validate_name :: "manager \<Rightarrow> string \<Rightarrow> unit rpc" where
  "validate_name s name =
     (if name = [] \<or> list_ex is_control (str_chars name)
      then Err (error InvalidRequest ''state name is empty or contains control characters'')
      else if length name > min (max_state_name_bytes (m_limits s)) MAX_STATE_NAME_BYTES
      then Err (limit ''state name exceeds byte limit'') else Ok ())"

section \<open>Garbage collection of state objects\<close>

definition live_objects :: "manager \<Rightarrow> u64 list" where
  "live_objects s =
     concat (map (\<lambda>p. bt_values (sn_states (p_snapshot p))) (bt_values (m_processes s)))
     @ concat (map (\<lambda>t. case t_snapshot t of None \<Rightarrow> [] | Some sn \<Rightarrow> bt_values (sn_states sn))
                   (bt_values (m_transactions s)))"

definition collect_objects :: "manager \<Rightarrow> manager" where
  "collect_objects s =
     s\<lparr>m_objects := bt_retain (\<lambda>i _. i \<in> set (live_objects s)) (m_objects s)\<rparr>"

text \<open>Code equations that compare with \<open>usize::MAX\<close> and \<open>u64::MAX\<close> as integers.\<close>

lemma int_ge_usize: "(n :: nat) > 2 ^ 64 - 1 \<longleftrightarrow> int n \<ge> 2 ^ 64"
  by auto

lemma check_object_capacity_code [code]:
  "check_object_capacity s count =
     (if int (bt_len (m_objects s) + count) \<ge> 2 ^ 64
      then Err (limit ''state object limit reached'')
      else if bt_len (m_objects s) + count > max_objects (m_limits s)
      then Err (limit ''state object limit reached'')
      else if int (unat (m_next_object s) + count) \<ge> 2 ^ 64
      then Err (limit ''state object limit reached'') else Ok ())"
  unfolding check_object_capacity_def usize_max_def int_ge_usize
  by (cases "int (bt_len (m_objects s) + count) \<ge> 2 ^ 64"; cases "bt_len (m_objects s) + count > max_objects (m_limits s)";
      cases "int (unat (m_next_object s) + count) \<ge> 2 ^ 64"; simp only: if_True if_False simp_thms)

lemma check_process_capacity_code [code]:
  "check_process_capacity s =
     (let n = bt_len (m_processes s) + bt_count (\<lambda>t. t_state t = Prepared) (m_transactions s)
      in if n \<ge> max_processes (m_limits s)
         then (if int (max_processes (m_limits s)) < 2 ^ 64 then Err (limit ''process limit reached'') else Ok ())
         else Ok ())"
  by (auto simp: check_process_capacity_def Let_def usize_max_def min_def)

text \<open>The comparison without early exit accepts exactly the right credential.\<close>

lemma xor_eq_0_byte: "(a :: u8) XOR b = 0 \<longleftrightarrow> a = b"
  by (auto simp: bit_eq_iff bit_xor_iff)

lemma fold_or_zero:
  "fold (\<lambda>(a, b) diff. diff OR (a XOR b)) ps (d :: u8) = 0 \<longleftrightarrow> d = 0 \<and> (\<forall>(a, b) \<in> set ps. a = b)"
  by (induction ps arbitrary: d) (auto simp: or_eq_0_iff xor_eq_0_byte)

lemma secret_equal_iff: "secret_equal a b \<longleftrightarrow> a = b"
  by (auto simp: secret_equal_def fold_or_zero str_bytes_def zip_map_map set_zip list_eq_iff_nth_eq)

text \<open>\<open>if let Some(process) = self.processes.get_mut(&pid)\<close> and its kin.\<close>

definition upd_process :: "u32 \<Rightarrow> (process \<Rightarrow> process) \<Rightarrow> manager \<Rightarrow> manager" where
  "upd_process pid f s = s\<lparr>m_processes := bt_modify pid f (m_processes s)\<rparr>"

definition upd_transaction :: "u64 \<Rightarrow> (transaction \<Rightarrow> transaction) \<Rightarrow> manager \<Rightarrow> manager" where
  "upd_transaction i f s = s\<lparr>m_transactions := bt_modify i f (m_transactions s)\<rparr>"

definition upd_exec :: "u64 \<Rightarrow> (exec_transaction \<Rightarrow> exec_transaction) \<Rightarrow> manager \<Rightarrow> manager" where
  "upd_exec i f s = s\<lparr>m_exec_transactions := bt_modify i f (m_exec_transactions s)\<rparr>"

definition upd_client :: "client_id \<Rightarrow> (client \<Rightarrow> client) \<Rightarrow> manager \<Rightarrow> manager" where
  "upd_client i f s = s\<lparr>m_clients := bt_modify i f (m_clients s)\<rparr>"

lemmas upd_defs = upd_process_def upd_transaction_def upd_exec_def upd_client_def

end
