(* ===== verification/Wire_Props.thy ===== *)
theory Wire_Props
  imports Wire_Frame Manager_State
begin

text \<open>
  Properties of the wire format and of the small codecs of the protocol: frames survive the
  transport, their size is bounded, a failed encoding writes nothing, the fork manifest has
  the size its header declares, and tickets are compared exactly.
\<close>

text \<open>A serializer of byte strings, as a concrete instance of the two library functions.\<close>

definition demo_ser :: "bytes serializer" where "demo_ser v = ([v], False)"
definition demo_de :: "bytes parser" where "demo_de bs = Some bs"

text \<open>C39: (roundtrip) a sequence of messages written as frames is read back as the same sequence, in
  order and with nothing of the following bytes consumed, for every serializer whose output its
  parser reads back.\<close>

theorem frames_roundtrip:
  assumes "\<And>v. \<not> snd (ser v) \<Longrightarrow> de (concat (fst (ser v))) = Some v"
    and "write_frames ser sent vs = (Ok (), sent')"
  shows "\<exists>out. sent' = sent @ out \<and> read_frames de (length vs) (out @ rest) = Ok (vs, rest)"
  using write_frames_read_frames [of ser de, OF assms(1) assms(2)] by blast

theorem frames_roundtrip_witness:
  "\<exists>out. [9, 2, 0, 0, 0, 7, 8] = [9] @ out \<and> read_frames demo_de 1 (out @ [5]) = Ok ([[7, 8]], [5])"
proof -
  have "le_bytes 4 (Suc (Suc 0)) = [2, 0, 0, 0]" by code_simp
  then show ?thesis
    using frames_roundtrip [of demo_ser demo_de "[9]" "[[7, 8]]" "[9, 2, 0, 0, 0, 7, 8]" "[5]"]
    by (simp add: demo_ser_def demo_de_def write_frame_def encode_frame_eq MAX_FRAME_SIZE_def)
qed

text \<open>One message is written whole or not at all: for every serializer, whatever chunks it
  emits and however it fails, writing a message does not panic and either appends one frame of at
  most 65536 payload bytes, or answers an error and leaves the transport as it was.\<close>

theorem write_frame_all_or_nothing:
  "(\<exists>frame. write_frame ser sent v = (Ok (), sent @ frame) \<and> 5 \<le> length frame \<and> length frame \<le> 65540)
   \<or> (\<exists>e. write_frame ser sent v = (Err e, sent))"
proof (cases "encode_frame ser v")
  case (Ok frame)
  then have "5 \<le> length frame \<and> length frame \<le> 65540"
    unfolding encode_frame_Ok Let_def MAX_FRAME_SIZE_def by (auto simp del: length_greater_0_conv length_concat)
  with Ok show ?thesis by (simp add: write_frame_def)
next
  case Panic
  then show ?thesis by (simp add: encode_frame_eq Let_def split: if_splits)
qed (simp add: write_frame_def)

section \<open>The fork manifest\<close>

lemma pad8_mod: "length (pad8 bs) mod 8 = 0"
proof (cases "length bs mod 8 = 0")
  case False
  then have "(8 - length bs mod 8) mod 8 = 8 - length bs mod 8" by simp
  moreover have "length bs + (8 - length bs mod 8) = 8 * (length bs div 8 + 1)"
  proof -
    have "n + (8 - r) = 8 * (q + 1)" if "8 * q + r = n" "r < 8" for n q r :: nat using that by (simp add: algebra_simps)
    then show ?thesis by (metis mod_less_divisor mult_div_mod_eq zero_less_numeral)
  qed
  ultimately show ?thesis by (simp add: pad8_def)
qed (simp add: pad8_def)

lemma pad8_prefix: "n \<le> length bs \<Longrightarrow> take n (pad8 bs) = take n bs" "length bs \<le> length (pad8 bs)"
  by (simp_all add: pad8_def)

lemma manifest_module_props:
  "length (manifest_module acc m) mod 8 = 0" "n \<le> length acc \<Longrightarrow> take n (manifest_module acc m) = take n acc"
  "length acc \<le> length (manifest_module acc m)"
  by (simp_all add: manifest_module_def Let_def pad8_mod pad8_prefix(1) le_trans [OF _ pad8_prefix(2)])

lemma manifest_modules_props:
  "length acc mod 8 = 0 \<Longrightarrow> n \<le> length acc \<Longrightarrow>
     length (foldl manifest_module acc ms) mod 8 = 0 \<and> take n (foldl manifest_module acc ms) = take n acc
       \<and> length acc \<le> length (foldl manifest_module acc ms)"
proof (induction ms arbitrary: acc)
  case (Cons m ms)
  from Cons.IH [of "manifest_module acc m"] Cons.prems manifest_module_props(1,3) [of acc m]
    manifest_module_props(2) [of n acc m] le_trans [OF Cons.prems(2) manifest_module_props(3)]
  show ?case by auto
qed simp

text \<open>The manifest of a native fork describes itself: it exists exactly for the valid
  specifications, starts with the magic number, its second word is its own length, the
  third its number of modules, and its length is a multiple of eight.\<close>

theorem fork_manifest_header:
  "case spec_manifest sp of
     None \<Rightarrow> \<not> spec_valid sp
   | Some bs \<Rightarrow> spec_valid sp \<and> length bs mod 8 = 0 \<and> take 8 bs = u64_le FORK_MAGIC
        \<and> take 8 (drop 8 bs) = le_bytes 8 (length bs)
        \<and> take 4 (drop 16 bs) = le_bytes 4 (length (fs_modules sp))"
proof (cases "spec_valid sp")
  case True
  let ?h = "u64_le FORK_MAGIC @ le_bytes 8 0 @ le_bytes 4 (length (fs_modules sp)) @ le_bytes 4 0 @ u64_le (fs_tls_slots sp)"
  let ?b = "foldl manifest_module ?h (fs_modules sp)"
  have p: "length ?b mod 8 = 0" "take 32 ?b = ?h" "32 \<le> length ?b"
    using manifest_modules_props [of ?h 32 "fs_modules sp"] by simp_all
  have "take 8 ?b = take 8 (take 32 ?b)" "take 4 (drop 16 ?b) = take 4 (drop 16 (take 32 ?b))" by (simp_all add: drop_take min_def)
  then have "take 8 ?b = u64_le FORK_MAGIC" "take 4 (drop 16 ?b) = le_bytes 4 (length (fs_modules sp))"
    unfolding p(2) by simp_all
  with p(1,3) True show ?thesis by (simp add: spec_manifest_def Let_def)
qed (simp add: spec_manifest_def)

section \<open>Tickets\<close>

lemma hex_digit_inject: "a < 16 \<Longrightarrow> b < 16 \<Longrightarrow> hex_digit a = hex_digit b \<longleftrightarrow> a = b"
proof -
  assume "a < 16" "b < 16"
  then have "unat a < 16" "unat b < 16" by (simp_all add: word_less_nat_alt)
  moreover have "distinct ''0123456789abcdef''" by code_simp
  ultimately have "hex_digit a = hex_digit b \<longleftrightarrow> unat a = unat b"
    unfolding hex_digit_def by (subst nth_eq_iff_index_eq) simp_all
  then show "hex_digit a = hex_digit b \<longleftrightarrow> a = b" by (simp add: word_unat_eq_iff)
qed

definition hex_byte :: "u8 \<Rightarrow> string" where "hex_byte b = [hex_digit (drop_bit 4 b), hex_digit (b AND 15)]"

lemma low_nibble: "b AND 15 = take_bit 4 b" for b :: u8
  by (simp add: take_bit_eq_mask mask_eq_exp_minus_1)

lemma nibbles: "drop_bit 4 b < 16" "b AND 15 < 16" for b :: u8
proof -
  have "unat (drop_bit 4 b) = unat b div 16" by (simp add: unat_drop_bit_eq drop_bit_eq_div unat_div)
  then show "drop_bit 4 b < 16" using unat_bound [of b] by (simp add: word_less_nat_alt)
  have "unat (b AND 15) = unat b mod 16" unfolding low_nibble by (simp add: unsigned_take_bit_eq take_bit_eq_mod unat_mod)
  then show "b AND 15 < 16" by (simp add: word_less_nat_alt)
qed

lemma hex_byte_inject: "hex_byte a = hex_byte b \<longleftrightarrow> a = b"
proof
  assume "hex_byte a = hex_byte b"
  then have "hex_digit (drop_bit 4 a) = hex_digit (drop_bit 4 b)" "hex_digit (a AND 15) = hex_digit (b AND 15)"
    unfolding hex_byte_def by blast+
  then have e: "drop_bit 4 a = drop_bit 4 b" "take_bit 4 a = take_bit 4 b"
    unfolding low_nibble [symmetric] using hex_digit_inject nibbles by blast+
  show "a = b" using bits_ident [of 4 a] bits_ident [of 4 b] unfolding e by metis
qed simp

lemma concat_hex_inject:
  "length xs = length ys \<Longrightarrow> concat (map hex_byte xs) = concat (map hex_byte ys) \<longleftrightarrow> xs = ys"
  by (induction xs ys rule: list_induct2) (auto simp: hex_byte_inject [symmetric] hex_byte_def)

text \<open>Tickets identify their entropy: a ticket of 32 random bytes has 64 characters, and the
  constant-time comparison accepts two tickets exactly when they were made from the same
  bytes.\<close>

theorem ticket_comparison_exact:
  assumes "length a = 32" and "length b = 32" and "secure_ticket (Some a) = Ok s" and "secure_ticket (Some b) = Ok t"
  shows "length s = 64 \<and> (secret_equal s t \<longleftrightarrow> a = b)"
proof -
  have s: "s = concat (map hex_byte a)" "t = concat (map hex_byte b)"
    using assms(3,4) by (simp_all add: secure_ticket_def hex_byte_def [abs_def])
  have "length (concat (map hex_byte xs)) = 2 * length xs" for xs by (induction xs) (simp_all add: hex_byte_def)
  with s assms(1,2) concat_hex_inject [of a b] show ?thesis by (simp add: secret_equal_iff)
qed

theorem ticket_comparison_exact_witness:
  "\<exists>s t. secure_ticket (Some (replicate 32 1)) = Ok s \<and> secure_ticket (Some (replicate 32 2)) = Ok t \<and> \<not> secret_equal s t"
proof -
  obtain s t where "secure_ticket (Some (replicate 32 1)) = Ok s" "secure_ticket (Some (replicate 32 2)) = Ok t"
    by (simp add: secure_ticket_def)
  with ticket_comparison_exact [OF _ _ this] show ?thesis by simp
qed

end
