(* ===== verification/Manager_Ops.thy ===== *)
theory Manager_Ops
  imports Manager_State
begin

text \<open>
  The transactional operations of the process manager: prewarmed and pooled workers,
  named state with its fork policies, the fork transaction, and the exec
  (replacement) transaction. The methods are in the order of
  \<^verbatim>\<open>crates/manager/src/lib.rs\<close>.
\<close>

section \<open>Prewarmed and pooled workers\<close>

definition prewarm_ready :: "manager \<Rightarrow> u32 \<Rightarrow> reply rpc" where
  "prewarm_ready s pid =
     (if pid = m_next_pid s then Err (error NotReady ''prewarmed worker is connecting'')
      else case fmlookup (m_processes s) pid of
        None \<Rightarrow> Err (error NotFound ''prewarmed worker has exited or does not exist'')
      | Some p \<Rightarrow> (case p_prewarm p of
            Fresh \<Rightarrow> Err (error NotReady ''worker is still preparing'')
          | PrewarmReady \<Rightarrow> Ok ROk
          | PrewarmActivated \<Rightarrow> Ok ROk
          | _ \<Rightarrow> Err (error Conflict ''worker belongs to the generic pool'')))"

definition activate_prewarm :: "manager \<Rightarrow> u32 \<Rightarrow> reply rpc \<times> manager" where
  "activate_prewarm s pid =
     (case fmlookup (m_processes s) pid of
        None \<Rightarrow> (Err (error NotFound ''unknown prewarmed worker''), s)
      | Some p \<Rightarrow>
          if \<not> (p_prewarm p = PrewarmReady \<or> p_prewarm p = PrewarmActivated)
          then (Err (error NotReady ''worker is not prewarmed''), s)
          else (Ok ROk, upd_process pid (p_prewarm_update (\<lambda>_. PrewarmActivated)) s))"

definition reserve_pool_worker :: "manager \<Rightarrow> client_id \<Rightarrow> reply rpc \<times> manager" where
  "reserve_pool_worker s client =
     (case bt_find (\<lambda>p. p_prewarm p = PoolReady) (m_processes s) of
        None \<Rightarrow> (Err (error NotReady ''no prepared pool worker''), s)
      | Some (k, p) \<Rightarrow>
          (Ok (RPoolWorker (pi_pid (p_identity p)) (host_pid (p_peer p)) (birth (p_peer p))),
           upd_process k (p_prewarm_update (\<lambda>_. PoolReserved client)) s))"

definition release_pool_worker :: "manager \<Rightarrow> client_id \<Rightarrow> u32 \<Rightarrow> reply rpc \<times> manager" where
  "release_pool_worker s client pid =
     (case fmlookup (m_processes s) pid of
        None \<Rightarrow> (Err (error NotFound ''unknown pool worker''), s)
      | Some p \<Rightarrow>
          if p_prewarm p \<noteq> PoolReserved client
          then (Err (error Conflict ''connection does not hold this pool reservation''), s)
          else (Ok ROk, upd_process pid (p_prewarm_update (\<lambda>_. PoolReady)) s))"

definition parent_not_application :: "manager \<Rightarrow> process \<Rightarrow> bool" where
  "parent_not_application s parent \<longleftrightarrow>
     p_state parent \<noteq> PActive
     \<or> p_prewarm parent = PrewarmReady \<or> p_prewarm parent = PoolReady
     \<or> is_pool_reserved (p_prewarm parent)
     \<or> p_peer parent |\<in>| m_retired_peers s"

definition activate_pool_worker ::
    "manager \<Rightarrow> client_id \<Rightarrow> u32 \<Rightarrow> u32 \<Rightarrow> pool_launch \<Rightarrow> reply rpc \<times> manager" where
  "activate_pool_worker s client pid parent_pid launch =
     (if \<not> launch_valid launch
      then (Err (error InvalidRequest
              ''pool launch requires absolute Linux argv[0]/cwd and NUL-free strings''), s)
      else if parent_pid = pid
      then (Err (error InvalidRequest ''process cannot be its own parent''), s)
      else case fmlookup (m_processes s) pid of
        None \<Rightarrow> (Err (error NotFound ''unknown pool worker''), s)
      | Some p \<Rightarrow>
          (case p_prewarm p of
             PoolActivated previous owner previous_parent \<Rightarrow>
               if previous = launch \<and> owner = client \<and> previous_parent = parent_pid
               then (Ok ROk, s)
               else (Err (error Conflict ''pool worker already has a different launch''), s)
           | w \<Rightarrow>
               if w \<noteq> PoolReserved client
               then (Err (error Conflict ''connection does not hold this pool reservation''), s)
               else
                 let activated = upd_process pid (\<lambda>p.
                       p\<lparr>p_identity := (p_identity p)\<lparr>pi_parent_pid := parent_pid\<rparr>,
                         p_prewarm := PoolActivated launch client parent_pid\<rparr>) s
                 in if parent_pid \<noteq> 0 then
                      (case fmlookup (m_processes s) parent_pid of
                         None \<Rightarrow> (Err (error NotFound ''parent process does not exist''), s)
                       | Some parent \<Rightarrow>
                           if parent_not_application s parent
                           then (Err (error Conflict ''parent is not an active application''), s)
                           else (Ok ROk, activated))
                    else (Ok ROk, activated)))"

text \<open>The \<open>for _ in 0..=len\<close> walk from the target up the parent chain.\<close>

fun memory_walk :: "manager \<Rightarrow> u32 \<Rightarrow> nat \<Rightarrow> u32 \<Rightarrow> bool" where
  "memory_walk s caller 0 ancestor = False"
| "memory_walk s caller (Suc n) ancestor =
     (if ancestor = caller then True
      else
        let up = (case fmlookup (m_processes s) ancestor of
                    None \<Rightarrow> 0 | Some e \<Rightarrow> pi_parent_pid (p_identity e))
        in if up = 0 then False else memory_walk s caller n up)"

definition process_memory_target :: "manager \<Rightarrow> u32 \<Rightarrow> u32 \<Rightarrow> bool \<Rightarrow> reply rpc" where
  "process_memory_target s caller target write_access =
     (if target = 0 \<or> target > 0x7FFFFFFF then Err (error NotFound ''unknown Linux process'')
      else case fmlookup (m_processes s) target of
        None \<Rightarrow> Err (error NotFound ''unknown Linux process'')
      | Some p \<Rightarrow>
          if p_state p \<noteq> PActive \<or> p_peer p |\<in>| m_retired_peers s
          then Err (error NotFound ''Linux process has no active native owner'')
          else if memory_walk s caller (Suc (bt_len (m_processes s))) target
          then Ok (RProcessMemoryTarget (host_pid (p_peer p)) (birth (p_peer p)))
          else Err (error Unauthorized ''memory access requires a descendant process''))"

definition await_exit :: "manager \<Rightarrow> u32 \<Rightarrow> reply rpc" where
  "await_exit s pid =
     (if pid = 0 \<or> pid > 0x7FFFFFFF then Err (error InvalidRequest ''invalid Linux process ID'')
      else case fmlookup (m_exit_records s) pid of
        Some status \<Rightarrow> Ok (RExit status)
      | None \<Rightarrow>
          if contains_key (m_processes s) pid
          then Err (error NotReady ''process native owner has not exited'')
          else Err (error NotFound ''unknown process or expired exit record''))"

section \<open>Modules and named state\<close>

definition register_module :: "manager \<Rightarrow> u32 \<Rightarrow> u32 \<Rightarrow> u32 \<Rightarrow> reply rpc \<times> manager" where
  "register_module s pid module_id schema =
     (case fmlookup (m_processes s) pid of
        None \<Rightarrow> (Panic, s)
      | Some p \<Rightarrow>
          (case fmlookup (sn_modules (p_snapshot p)) module_id of
             Some existing \<Rightarrow>
               if existing = schema then (Ok ROk, s)
               else (Err (error Conflict ''module schema differs from registered schema''), s)
           | None \<Rightarrow>
               if (case p_state p of PPending _ \<Rightarrow> True | _ \<Rightarrow> False)
               then (Err (error NotReady
                       ''child may only validate inherited modules before commit''), s)
               else
                 let registered = upd_process pid (p_snapshot_update (sn_modules_update
                       (fmupd module_id schema)))
                       (s\<lparr>m_modules := fmupd module_id schema (m_modules s)\<rparr>)
                 in case fmlookup (m_modules s) module_id of
                   Some existing \<Rightarrow>
                     if existing \<noteq> schema
                     then (Err (error Conflict ''module schema differs from manager schema''), s)
                     else (Ok ROk, registered)
                 | None \<Rightarrow>
                     if bt_len (m_modules s) \<ge> max_modules (m_limits s)
                     then (Err (limit ''module limit reached''), s)
                     else (Ok ROk, registered)))"

definition define_state ::
    "manager \<Rightarrow> u32 \<Rightarrow> u32 \<Rightarrow> string \<Rightarrow> u64 \<Rightarrow> fork_policy \<Rightarrow> reply rpc \<times> manager" where
  "define_state s pid module_id name initial fork =
     try_or s (validate_name s name) (\<lambda>_.
       case fmlookup (m_processes s) pid of
         None \<Rightarrow> (Panic, s)
       | Some p \<Rightarrow>
           if \<not> contains_key (sn_modules (p_snapshot p)) module_id
           then (Err (error NotFound ''module must register before defining state''), s)
           else (case fmlookup (sn_states (p_snapshot p)) (module_id, name) of
             Some object_id \<Rightarrow>
               (case fmlookup (m_objects s) object_id of
                  None \<Rightarrow> (Panic, s)
                | Some ob \<Rightarrow>
                    if o_initial ob \<noteq> initial \<or> o_fork ob \<noteq> fork
                    then (Err (error Conflict
                            ''state definition differs from existing policy or initial value''), s)
                    else (Ok (RState object_id (o_value ob)), s))
           | None \<Rightarrow>
               if bt_len (sn_states (p_snapshot p)) \<ge> max_states_per_process (m_limits s)
               then (Err (limit ''per-process state limit reached''), s)
               else try_or s (check_object_capacity s 1) (\<lambda>_.
                 case insert_object s \<lparr>o_value = initial, o_initial = initial, o_fork = fork\<rparr> of
                   (object_id, s') \<Rightarrow>
                     (Ok (RState object_id initial),
                      upd_process pid (p_snapshot_update (sn_states_update
                        (fmupd (module_id, name) object_id))) s'))))"

definition state_object :: "manager \<Rightarrow> u32 \<Rightarrow> u32 \<Rightarrow> string \<Rightarrow> u64 rpc" where
  "state_object s pid module_id name =
     and_then (validate_name s name) (\<lambda>_.
       case fmlookup (m_processes s) pid of
         None \<Rightarrow> Panic
       | Some p \<Rightarrow>
           (case fmlookup (sn_states (p_snapshot p)) (module_id, name) of
              None \<Rightarrow> Err (error NotFound ''state is not defined in this process'')
            | Some object_id \<Rightarrow> Ok object_id))"

definition read_state :: "manager \<Rightarrow> u32 \<Rightarrow> u32 \<Rightarrow> string \<Rightarrow> reply rpc" where
  "read_state s pid module_id name =
     and_then (state_object s pid module_id name) (\<lambda>object_id.
       case fmlookup (m_objects s) object_id of
         None \<Rightarrow> Panic
       | Some ob \<Rightarrow> Ok (RState object_id (o_value ob)))"

definition write_state :: "manager \<Rightarrow> u32 \<Rightarrow> u32 \<Rightarrow> string \<Rightarrow> u64 \<Rightarrow> reply rpc \<times> manager" where
  "write_state s pid module_id name v =
     try_or s (state_object s pid module_id name) (\<lambda>object_id.
       case fmlookup (m_objects s) object_id of
         None \<Rightarrow> (Panic, s)
       | Some ob \<Rightarrow> (Ok ROk, s\<lparr>m_objects := fmupd object_id (ob\<lparr>o_value := v\<rparr>) (m_objects s)\<rparr>))"

section \<open>Fork transactions\<close>

text \<open>
  The loop over \<open>snapshot.states.values_mut()\<close>: shared objects keep their id, the
  others are replaced by a fresh object that copies or resets the value. \<open>None\<close> is the
  index panic on a dangling object id.
\<close>

fun fork_states :: "manager \<Rightarrow> (state_key \<times> u64) list \<Rightarrow> ((state_key \<times> u64) list \<times> manager) option" where
  "fork_states s [] = Some ([], s)"
| "fork_states s ((k, object_id) # rest) =
     (case fmlookup (m_objects s) object_id of
        None \<Rightarrow> None
      | Some ob \<Rightarrow>
          (case (case o_fork ob of
                   Share \<Rightarrow> (object_id, s)
                 | Copy \<Rightarrow> insert_object s ob
                 | Reset \<Rightarrow> insert_object s (ob\<lparr>o_value := o_initial ob\<rparr>)) of
             (object_id', s') \<Rightarrow>
               map_option (\<lambda>(out, s''). ((k, object_id') # out, s'')) (fork_states s' rest)))"

definition fork_copies :: "manager \<Rightarrow> snapshot \<Rightarrow> nat option" where
  "fork_copies s sn =
     (if list_all (\<lambda>i. contains_key (m_objects s) i) (bt_values (sn_states sn))
      then Some (length (filter (\<lambda>i. map_option o_fork (fmlookup (m_objects s) i) \<noteq> Some Share)
                   (bt_values (sn_states sn))))
      else None)"

text \<open>The part of \<open>prepare_fork\<close> past the replay check and the limits.\<close>

definition prepare_fork_new ::
    "manager \<Rightarrow> bytes option \<Rightarrow> u32 \<Rightarrow> process \<Rightarrow> u64 \<Rightarrow> u32 \<Rightarrow> reply rpc \<times> manager" where
  "prepare_fork_new s entropy pid p request_key parent_pid =
     (case fork_copies s (p_snapshot p) of
        None \<Rightarrow> (Panic, s)
      | Some copies \<Rightarrow>
          try_or s (check_object_capacity s copies) (\<lambda>_.
          try_or s (secure_ticket entropy) (\<lambda>token.
            case allocate_identity s parent_pid of
              (Err e, s1) \<Rightarrow> (Err e, s1)
            | (Panic, s1) \<Rightarrow> (Panic, s1)
            | (Ok child, s1) \<Rightarrow>
                (case fork_states s1 (bt_iter (sn_states (p_snapshot p))) of
                   None \<Rightarrow> (Panic, s1)
                 | Some (states, s2) \<Rightarrow>
                     let transaction = m_next_transaction s2;
                         ticket = \<lparr>ft_transaction = transaction, ft_token = token, ft_child = child\<rparr>;
                         record = \<lparr>t_parent = pid, t_requested_parent = parent_pid,
                           t_ticket = ticket,
                           t_snapshot = Some ((p_snapshot p)\<lparr>sn_states := fmap_of_list states\<rparr>),
                           t_state = Prepared\<rparr>
                     in (Ok (RForkPrepared ticket),
                         upd_process pid (p_request_keys_update (fmupd request_key transaction))
                           (s2\<lparr>m_next_transaction := transaction + 1,
                               m_transactions := fmupd transaction record (m_transactions s2)\<rparr>))))))"

definition prepare_fork ::
    "manager \<Rightarrow> bytes option \<Rightarrow> u32 \<Rightarrow> u64 \<Rightarrow> u32 \<Rightarrow> reply rpc \<times> manager" where
  "prepare_fork s entropy pid request_key parent_pid =
     (case fmlookup (m_processes s) pid of
        None \<Rightarrow> (Panic, s)
      | Some p \<Rightarrow>
          (case fmlookup (p_request_keys p) request_key of
             Some i \<Rightarrow>
               (case fmlookup (m_transactions s) i of
                  None \<Rightarrow> (Panic, s)
                | Some t \<Rightarrow>
                    if t_requested_parent t \<noteq> parent_pid
                    then (Err (error Conflict ''fork request key reused with different parent''), s)
                    else if t_state t = TAborted
                    then (Err (error Aborted ''fork request was aborted; use a new request key''), s)
                    else (Ok (RForkPrepared (t_ticket t)), s))
           | None \<Rightarrow>
               if bt_len (p_request_keys p) + bt_len (p_exec_request_keys p)
                    \<ge> max_request_keys_per_process (m_limits s)
               then (Err (limit ''fork request-key limit reached''), s)
               else if bt_len (m_transactions s) + bt_len (m_exec_transactions s)
                         \<ge> max_transactions (m_limits s)
                    \<or> m_next_transaction s = - 1
               then (Err (limit ''fork transaction limit reached''), s)
               else try_or s (check_process_capacity s) (\<lambda>_.
                 prepare_fork_new s entropy pid p request_key parent_pid)))"

definition adopt :: "manager \<Rightarrow> string \<Rightarrow> peer_identity \<Rightarrow> process_identity rpc \<times> manager" where
  "adopt s token peer =
     (if length token \<noteq> 64 then (Err (error Unauthorized ''invalid adoption ticket''), s)
      else case bt_find (\<lambda>t. secret_equal (ft_token (t_ticket t)) token) (m_transactions s) of
        None \<Rightarrow> (Err (error Unauthorized ''unknown adoption ticket''), s)
      | Some (i, t) \<Rightarrow>
          (case t_state t of
             Prepared \<Rightarrow>
               (case t_snapshot t of
                  None \<Rightarrow> (Panic, s)
                | Some sn \<Rightarrow>
                    let identity = ft_child (t_ticket t);
                        s1 = upd_transaction i (\<lambda>t. t\<lparr>t_snapshot := None, t_state := Adopted\<rparr>) s
                    in (Ok identity,
                        s1\<lparr>m_processes := fmupd (pi_pid identity)
                          \<lparr>p_identity = identity, p_peer = peer, p_snapshot = sn,
                           p_state = PPending i, p_request_keys = fmempty,
                           p_exec_request_keys = fmempty, p_prewarm = Fresh\<rparr> (m_processes s1)\<rparr>))
           | TAborted \<Rightarrow> (Err (error Aborted ''adoption ticket was revoked''), s)
           | _ \<Rightarrow> (Err (error Conflict ''adoption ticket was already consumed''), s)))"

definition mark_ready :: "manager \<Rightarrow> u32 \<Rightarrow> reply rpc \<times> manager" where
  "mark_ready s pid =
     (case fmlookup (m_processes s) pid of
        None \<Rightarrow> (Panic, s)
      | Some p \<Rightarrow>
          (case p_state p of
             PPending i \<Rightarrow>
               (case fmlookup (m_transactions s) i of
                  None \<Rightarrow> (Panic, s)
                | Some _ \<Rightarrow> (Ok ROk, upd_transaction i (t_state_update (\<lambda>_. Ready)) s))
           | PActive \<Rightarrow> (Ok ROk, s)
           | PAborted \<Rightarrow> (Err (error Aborted ''fork was aborted''), s)))"

definition owned_transaction :: "manager \<Rightarrow> u32 \<Rightarrow> u64 \<Rightarrow> transaction rpc" where
  "owned_transaction s pid i =
     (case fmlookup (m_transactions s) i of
        None \<Rightarrow> Err (error NotFound ''unknown fork transaction'')
      | Some t \<Rightarrow>
          if t_parent t \<noteq> pid
          then Err (error Unauthorized ''only transaction parent may commit or abort'')
          else Ok t)"

definition await_fork_ready :: "manager \<Rightarrow> u32 \<Rightarrow> u64 \<Rightarrow> reply rpc" where
  "await_fork_ready s pid i =
     and_then (owned_transaction s pid i) (\<lambda>t.
       case t_state t of
         Ready \<Rightarrow> Ok ROk
       | Committed \<Rightarrow> Ok ROk
       | TAborted \<Rightarrow> Err (error Aborted ''fork transaction was aborted'')
       | _ \<Rightarrow> Err (error NotReady ''child has not acknowledged readiness''))"

definition commit_fork :: "manager \<Rightarrow> u32 \<Rightarrow> u64 \<Rightarrow> reply rpc \<times> manager" where
  "commit_fork s pid i =
     try_or s (owned_transaction s pid i) (\<lambda>t.
       case t_state t of
         Committed \<Rightarrow> (Ok ROk, s)
       | TAborted \<Rightarrow> (Err (error Aborted ''fork transaction was aborted''), s)
       | Prepared \<Rightarrow> (Err (error NotReady ''child has not acknowledged readiness''), s)
       | Adopted \<Rightarrow> (Err (error NotReady ''child has not acknowledged readiness''), s)
       | Ready \<Rightarrow>
           let child = pi_pid (ft_child (t_ticket t))
           in (case fmlookup (m_processes s) child of
                 None \<Rightarrow> (Panic, s)
               | Some _ \<Rightarrow>
                   (Ok ROk, upd_transaction i (t_state_update (\<lambda>_. Committed))
                      (upd_process child (p_state_update (\<lambda>_. PActive)) s))))"

definition abort_transaction :: "u64 \<Rightarrow> manager \<Rightarrow> manager" where
  "abort_transaction i s =
     (case fmlookup (m_transactions s) i of
        None \<Rightarrow> s
      | Some t \<Rightarrow>
          if terminal (t_state t) then s
          else upd_process (pi_pid (ft_child (t_ticket t))) (p_state_update (\<lambda>_. PAborted))
                 (upd_transaction i (\<lambda>t. t\<lparr>t_state := TAborted, t_snapshot := None\<rparr>) s))"

definition abort_fork :: "manager \<Rightarrow> u32 \<Rightarrow> u64 \<Rightarrow> reply rpc \<times> manager" where
  "abort_fork s pid i =
     try_or s (owned_transaction s pid i) (\<lambda>t.
       if t_state t = Committed then (Err (error Conflict ''committed fork cannot be aborted''), s)
       else (Ok ROk, collect_objects (abort_transaction i s)))"

definition abort_pending_for :: "u32 \<Rightarrow> manager \<Rightarrow> manager" where
  "abort_pending_for pid s =
     fold abort_transaction
       (bt_keys_where (\<lambda>t. (t_parent t = pid \<or> pi_pid (ft_child (t_ticket t)) = pid)
                          \<and> \<not> terminal (t_state t)) (m_transactions s)) s"

section \<open>Exec transactions\<close>

definition prepare_exec ::
    "manager \<Rightarrow> client_id \<Rightarrow> u32 \<Rightarrow> u64 \<Rightarrow> peer_identity \<Rightarrow> reply rpc \<times> manager" where
  "prepare_exec s owner pid request_key target =
     (case fmlookup (m_processes s) pid of
        None \<Rightarrow> (Panic, s)
      | Some p \<Rightarrow>
          (case fmlookup (p_exec_request_keys p) request_key of
             Some i \<Rightarrow>
               (case fmlookup (m_exec_transactions s) i of
                  None \<Rightarrow> (Panic, s)
                | Some t \<Rightarrow>
                    if x_target t \<noteq> target \<or> x_owner t \<noteq> owner
                    then (Err (error Conflict
                            ''exec request key reused with different replacement or owner''), s)
                    else if x_state t = TAborted
                    then (Err (error Aborted ''exec request was aborted; use a new request key''), s)
                    else (Ok (RExecPrepared i), s))
           | None \<Rightarrow>
               if host_pid target = 0 \<or> birth target = 0
               then (Err (error InvalidRequest ''invalid replacement process identity''), s)
               else if bt_any (\<lambda>t. x_process t = pid \<and> \<not> terminal (x_state t)) (m_exec_transactions s)
               then (Err (error Conflict ''process already has a pending exec''), s)
               else if bt_any (\<lambda>q. p_peer q = target) (m_processes s)
                    \<or> bt_any (\<lambda>c. c_peer c = target) (m_clients s)
                    \<or> target |\<in>| m_retired_peers s
                    \<or> bt_any (\<lambda>t. x_target t = target) (m_exec_transactions s)
               then (Err (error Conflict ''replacement native worker is already in use''), s)
               else if bt_len (p_request_keys p) + bt_len (p_exec_request_keys p)
                         \<ge> max_request_keys_per_process (m_limits s)
               then (Err (limit ''exec request-key limit reached''), s)
               else
                 let pending = bt_count (\<lambda>t. \<not> terminal (x_state t)) (m_exec_transactions s)
                 in if bt_len (m_transactions s) + bt_len (m_exec_transactions s)
                         \<ge> max_transactions (m_limits s)
                       \<or> fcard (m_retired_peers s) + pending \<ge> max_transactions (m_limits s)
                       \<or> m_next_transaction s = - 1
                    then (Err (limit ''exec transaction or native retirement limit reached''), s)
                    else
                      let transaction = m_next_transaction s;
                          record = \<lparr>x_process = pid, x_owner = owner, x_owner_peer = p_peer p,
                            x_target = target, x_candidate = None, x_state = Prepared,
                            x_retiring = False, x_candidate_exit = None\<rparr>
                      in (Ok (RExecPrepared transaction),
                          upd_process pid (p_exec_request_keys_update (fmupd request_key transaction))
                            (s\<lparr>m_next_transaction := transaction + 1,
                               m_exec_transactions := fmupd transaction record (m_exec_transactions s)\<rparr>))))"

definition adopt_exec :: "manager \<Rightarrow> u64 \<Rightarrow> client_id \<Rightarrow> process_identity rpc \<times> manager" where
  "adopt_exec s i client =
     (case fmlookup (m_exec_transactions s) i of
        None \<Rightarrow> (Panic, s)
      | Some t \<Rightarrow>
          (case x_state t of
             Prepared \<Rightarrow>
               (case fmlookup (m_processes s) (x_process t) of
                  None \<Rightarrow> (Err (error Aborted ''exec owner has exited''), s)
                | Some p \<Rightarrow>
                    (Ok (p_identity p),
                     upd_exec i (\<lambda>t. t\<lparr>x_candidate := Some client, x_state := Adopted\<rparr>) s))
           | TAborted \<Rightarrow> (Err (error Aborted ''exec replacement was revoked''), s)
           | _ \<Rightarrow> (Err (error Conflict ''exec replacement was already attached''), s)))"

definition owned_exec :: "manager \<Rightarrow> client_id \<Rightarrow> u32 \<Rightarrow> u64 \<Rightarrow> exec_transaction rpc" where
  "owned_exec s owner pid i =
     (case fmlookup (m_exec_transactions s) i of
        None \<Rightarrow> Err (error NotFound ''unknown exec transaction'')
      | Some t \<Rightarrow>
          if x_process t \<noteq> pid \<or> x_owner t \<noteq> owner
          then Err (error Unauthorized ''only exec owner may control the replacement'')
          else Ok t)"

definition await_exec_ready :: "manager \<Rightarrow> client_id \<Rightarrow> u32 \<Rightarrow> u64 \<Rightarrow> reply rpc" where
  "await_exec_ready s owner pid i =
     and_then (owned_exec s owner pid i) (\<lambda>t.
       case x_state t of
         Ready \<Rightarrow> Ok ROk
       | Committed \<Rightarrow> Ok ROk
       | TAborted \<Rightarrow> Err (error Aborted ''exec replacement was revoked'')
       | _ \<Rightarrow> Err (error NotReady ''replacement has not acknowledged readiness''))"

definition commit_exec :: "manager \<Rightarrow> client_id \<Rightarrow> u32 \<Rightarrow> u64 \<Rightarrow> reply rpc \<times> manager" where
  "commit_exec s owner pid i =
     try_or s (owned_exec s owner pid i) (\<lambda>t.
       case x_state t of
         Committed \<Rightarrow> (Ok ROk, s)
       | TAborted \<Rightarrow> (Err (error Aborted ''exec replacement was revoked''), s)
       | Prepared \<Rightarrow> (Err (error NotReady ''replacement has not acknowledged readiness''), s)
       | Adopted \<Rightarrow> (Err (error NotReady ''replacement has not acknowledged readiness''), s)
       | Ready \<Rightarrow>
           (case fmlookup (m_processes s) pid of
              None \<Rightarrow> (Panic, s)
            | Some p \<Rightarrow>
                (case fmlookup (m_clients s) owner of
                   None \<Rightarrow> (Panic, s\<lparr>m_retired_peers := finsert (p_peer p) (m_retired_peers s)\<rparr>)
                 | Some _ \<Rightarrow>
                     (Ok ROk,
                      upd_exec i (\<lambda>t. t\<lparr>x_state := Committed, x_retiring := True\<rparr>)
                        (upd_client owner (c_kind_update (\<lambda>_. KRetired pid i))
                          (s\<lparr>m_retired_peers := finsert (p_peer p) (m_retired_peers s)\<rparr>))))))"

definition abort_exec_transaction :: "u64 \<Rightarrow> manager \<Rightarrow> manager" where
  "abort_exec_transaction i s =
     (case fmlookup (m_exec_transactions s) i of
        None \<Rightarrow> s
      | Some t \<Rightarrow>
          if terminal (x_state t) then s
          else upd_exec i (x_state_update (\<lambda>_. TAborted))
                 (if x_candidate t \<noteq> None
                  then s\<lparr>m_retired_peers := finsert (x_target t) (m_retired_peers s)\<rparr> else s))"

definition abort_exec :: "manager \<Rightarrow> client_id \<Rightarrow> u32 \<Rightarrow> u64 \<Rightarrow> reply rpc \<times> manager" where
  "abort_exec s owner pid i =
     try_or s (owned_exec s owner pid i) (\<lambda>t.
       if x_state t = Committed then (Err (error Conflict ''committed exec cannot be aborted''), s)
       else (Ok ROk, abort_exec_transaction i s))"

definition abort_pending_exec_for :: "u32 \<Rightarrow> manager \<Rightarrow> manager" where
  "abort_pending_exec_for pid s =
     fold abort_exec_transaction (bt_keys_where (\<lambda>t. x_process t = pid) (m_exec_transactions s)) s"

definition candidate_register_module :: "process \<Rightarrow> u32 \<Rightarrow> u32 \<Rightarrow> reply rpc" where
  "candidate_register_module p module_id schema =
     (case fmlookup (sn_modules (p_snapshot p)) module_id of
        Some existing \<Rightarrow>
          if existing = schema then Ok ROk
          else Err (error Conflict ''replacement module schema differs'')
      | None \<Rightarrow> Err (error NotReady
          ''replacement may only validate inherited modules before commit''))"

definition is_retain_or_lease :: "kernel_command \<Rightarrow> bool" where
  "is_retain_or_lease c = (case c of Retain _ _ _ \<Rightarrow> True | Lease _ _ \<Rightarrow> True | _ \<Rightarrow> False)"

definition handle_exec_candidate ::
    "manager \<Rightarrow> client_id \<Rightarrow> u32 \<Rightarrow> u64 \<Rightarrow> request \<Rightarrow> reply rpc \<times> manager" where
  "handle_exec_candidate s client pid i req =
     (case fmlookup (m_exec_transactions s) i of
        None \<Rightarrow> (Err (error Aborted ''exec owner has exited''), s)
      | Some t \<Rightarrow>
          if x_state t = TAborted then (Err (error Aborted ''exec replacement was revoked''), s)
          else if x_process t \<noteq> pid \<or> x_candidate t \<noteq> Some client
          then (Err (error Unauthorized ''client does not own exec replacement''), s)
          else case fmlookup (m_processes s) pid of
            None \<Rightarrow> (Err (error Aborted ''exec owner has exited''), s)
          | Some p \<Rightarrow>
              let awaiting = (Err (error NotReady ''replacement must await exec commit''), s);
                  no_authority =
                    (Err (error Unauthorized ''exec replacement has no controller authority''), s)
              in (case req of
                    Identity \<Rightarrow> (Ok (RIdentity (p_identity p)), s)
                  | ImageSnapshot _ _ \<Rightarrow> (Ok ROk, s)
                  | NativeCatalog _ \<Rightarrow> (Ok ROk, s)
                  | Kernel c \<Rightarrow> if is_retain_or_lease c then (Ok ROk, s) else awaiting
                  | RegisterModule module_id schema \<Rightarrow> (candidate_register_module p module_id schema, s)
                  | MarkReady \<Rightarrow>
                      (Ok ROk, if x_state t \<noteq> Committed
                               then upd_exec i (x_state_update (\<lambda>_. Ready)) s else s)
                  | AwaitActivation \<Rightarrow> (Err (error NotReady ''awaiting exec owner commit''), s)
                  | Shutdown \<Rightarrow> no_authority
                  | Stats \<Rightarrow> no_authority
                  | _ \<Rightarrow> awaiting))"

end
