(* ===== verification/Manager_Exit.thy ===== *)
theory Manager_Exit
  imports Manager_Ops
begin

text \<open>
  How connections and native processes end: \<open>disconnect\<close> revokes a connection and its
  pending transactions, \<open>process_exited_with_status\<close> retires a native process, hands a
  committed exec over to its replacement, reaps Linux processes and records their exit
  status. The recursion over exits deferred to a replacement that is already dead is a
  worklist; it terminates because every deferred exit consumes one retiring exec
  transaction.
\<close>

section \<open>Disconnect\<close>

definition release_reservations :: "client_id \<Rightarrow> manager \<Rightarrow> manager" where
  "release_reservations client s =
     s\<lparr>m_processes := fmmap (\<lambda>p. if p_prewarm p = PoolReserved client
                                then p\<lparr>p_prewarm := PoolReady\<rparr> else p) (m_processes s)\<rparr>"

definition disconnect :: "client_id \<Rightarrow> manager \<Rightarrow> manager" where
  "disconnect client s =
     (let s1 = release_reservations client s in
      case fmlookup (m_clients s1) client of
        None \<Rightarrow> s1
      | Some c \<Rightarrow>
          let s2 = s1\<lparr>m_clients := fmdrop client (m_clients s1)\<rparr>;
              s3 = (case c_kind c of
                      KWorker pid \<Rightarrow>
                        (case fmlookup (m_processes s2) pid of
                           None \<Rightarrow> s2
                         | Some p \<Rightarrow>
                             if p_peer p = c_peer c
                             then abort_pending_exec_for pid (abort_pending_for pid s2) else s2)
                    | KExecCandidate _ transaction \<Rightarrow> abort_exec_transaction transaction s2
                    | _ \<Rightarrow> s2)
          in collect_objects s3)"

section \<open>Exit records\<close>

text \<open>The eviction loop; \<open>None\<close> is the panic on a record without a retention entry.\<close>

fun evict_exits :: "nat \<Rightarrow> (u32, i32) btree_map \<Rightarrow> u32 list \<Rightarrow> ((u32, i32) btree_map \<times> u32 list) option" where
  "evict_exits cap recs order =
     (if bt_len recs \<ge> cap
      then (case order of
              [] \<Rightarrow> None
            | expired # rest \<Rightarrow> evict_exits cap (fmdrop expired recs) rest)
      else Some (recs, order))"

declare evict_exits.simps [simp del]

definition record_exit :: "u32 \<Rightarrow> i32 \<Rightarrow> manager \<Rightarrow> manager option" where
  "record_exit pid status s =
     (if max_exit_records (m_limits s) = 0 then Some s
      else map_option (\<lambda>(recs, order).
             s\<lparr>m_exit_records := fmupd pid status recs, m_exit_order := order @ [pid]\<rparr>)
           (evict_exits (max_exit_records (m_limits s)) (m_exit_records s) (m_exit_order s)))"

section \<open>Native exit\<close>

text \<open>
  One iteration of the first loop over the exec transactions: the state, the exits
  deferred to a dead replacement, and the PIDs whose image was replaced.
\<close>

type_synonym retire_state = "manager \<times> (peer_identity \<times> i32) list \<times> u32 list"

definition note_candidate_exit :: "peer_identity \<Rightarrow> i32 \<Rightarrow> exec_transaction \<Rightarrow> exec_transaction" where
  "note_candidate_exit peer status t =
     (if x_retiring t \<and> x_target t = peer
      then t\<lparr>x_candidate_exit := Some (case x_candidate_exit t of None \<Rightarrow> status | Some c \<Rightarrow> c)\<rparr>
      else t)"

definition retire_one :: "peer_identity \<Rightarrow> i32 \<Rightarrow> u64 \<Rightarrow> retire_state \<Rightarrow> retire_state" where
  "retire_one peer status i st =
     (case st of (s, deferred, replaced) \<Rightarrow>
        (case fmlookup (m_exec_transactions s) i of
           None \<Rightarrow> st
         | Some t0 \<Rightarrow>
             let t = note_candidate_exit peer status t0 in
             if x_retiring t \<and> x_owner_peer t = peer
             then
               let s1 = upd_exec i (\<lambda>_. t\<lparr>x_retiring := False\<rparr>) s;
                   s2 = upd_process (x_process t) (p_peer_update (\<lambda>_. x_target t)) s1;
                   s3 = (case x_candidate t of
                           None \<Rightarrow> s2
                         | Some c \<Rightarrow> upd_client c (c_kind_update (\<lambda>_. KWorker (x_process t))) s2)
               in (s3,
                   deferred @ (case x_candidate_exit t of None \<Rightarrow> [] | Some e \<Rightarrow> [(x_target t, e)]),
                   replaced @ [x_process t])
             else (upd_exec i (\<lambda>_. t) s, deferred, replaced)))"

definition retire_images :: "peer_identity \<Rightarrow> i32 \<Rightarrow> manager \<Rightarrow> retire_state" where
  "retire_images peer status s =
     fold (retire_one peer status) (map fst (bt_iter (m_exec_transactions s))) (s, [], [])"

definition forget_replaced :: "u32 \<Rightarrow> manager \<Rightarrow> manager" where
  "forget_replaced pid s =
     (let s1 = s\<lparr>m_transactions := bt_retain (\<lambda>_ t. t_parent t \<noteq> pid \<or> \<not> terminal (t_state t))
                   (m_transactions s),
                m_exec_transactions := bt_retain (\<lambda>_ t. x_process t \<noteq> pid) (m_exec_transactions s)\<rparr>
      in upd_process pid (\<lambda>p.
           p\<lparr>p_request_keys := bt_retain (\<lambda>_ i. contains_key (m_transactions s1) i) (p_request_keys p),
             p_exec_request_keys := fmempty\<rparr>) s1)"

definition reparent_process :: "u32 \<Rightarrow> process \<Rightarrow> process" where
  "reparent_process pid p =
     (if pi_parent_pid (p_identity p) = pid
      then p\<lparr>p_identity := (p_identity p)\<lparr>pi_parent_pid := 0\<rparr>\<rparr> else p)"

definition reparent_ticket :: "u32 \<Rightarrow> transaction \<Rightarrow> transaction" where
  "reparent_ticket pid t =
     (if pi_parent_pid (ft_child (t_ticket t)) = pid
      then t\<lparr>t_ticket := (t_ticket t)\<lparr>ft_child := (ft_child (t_ticket t))\<lparr>pi_parent_pid := 0\<rparr>\<rparr>\<rparr> else t)"

text \<open>The body of the loop over the PIDs owned by the dead peer.\<close>

definition reap_pid :: "i32 \<Rightarrow> u32 \<Rightarrow> manager \<Rightarrow> manager option" where
  "reap_pid status pid s =
     (let s1 = abort_pending_exec_for pid (abort_pending_for pid s);
          s2 = s1\<lparr>m_processes := fmdrop pid (m_processes s1)\<rparr>
      in map_option (\<lambda>s3.
           s3\<lparr>m_processes := fmmap (reparent_process pid) (m_processes s3),
              m_transactions := bt_retain (\<lambda>_ t. t_parent t \<noteq> pid)
                (fmmap (reparent_ticket pid) (m_transactions s3)),
              m_exec_transactions := bt_retain (\<lambda>_ t. x_process t \<noteq> pid) (m_exec_transactions s3)\<rparr>)
         (record_exit pid status s2))"

fun reap_pids :: "i32 \<Rightarrow> u32 list \<Rightarrow> manager \<Rightarrow> manager option" where
  "reap_pids status [] s = Some s"
| "reap_pids status (pid # pids) s =
     (case reap_pid status pid s of None \<Rightarrow> None | Some s' \<Rightarrow> reap_pids status pids s')"

text \<open>Everything of \<open>process_exited_with_status\<close> before its closing loop.\<close>

definition exit_once ::
    "peer_identity \<Rightarrow> i32 \<Rightarrow> manager \<Rightarrow> (manager \<times> (peer_identity \<times> i32) list) option" where
  "exit_once peer status s =
     (case retire_images peer status s of
        (s1, deferred, replaced) \<Rightarrow>
          let s2 = fold forget_replaced replaced s1;
              s3 = fold abort_exec_transaction
                     (bt_keys_where (\<lambda>t. x_target t = peer) (m_exec_transactions s2)) s2;
              s4 = fold disconnect (bt_keys_where (\<lambda>c. c_peer c = peer) (m_clients s3)) s3
          in map_option (\<lambda>s5.
               (collect_objects (s5\<lparr>m_retired_peers := m_retired_peers s5 |-| {|peer|}\<rparr>), deferred))
             (reap_pids status (bt_keys_where (\<lambda>p. p_peer p = peer) (m_processes s4)) s4))"

section \<open>Termination of the deferred exits\<close>

definition retiring_count :: "manager \<Rightarrow> nat" where
  "retiring_count s = card {i. \<exists>t. fmlookup (m_exec_transactions s) i = Some t \<and> x_retiring t}"

definition retiring_ids :: "manager \<Rightarrow> u64 set" where
  "retiring_ids s = {i. \<exists>t. fmlookup (m_exec_transactions s) i = Some t \<and> x_retiring t}"

lemma finite_retiring_ids [simp]: "finite (retiring_ids s)"
proof (rule finite_subset)
  show "retiring_ids s \<subseteq> fset (fmdom (m_exec_transactions s))"
    by (auto simp: retiring_ids_def intro: fmdomI)
qed simp

lemma retiring_count_eq: "retiring_count s = card (retiring_ids s)"
  by (simp add: retiring_count_def retiring_ids_def)

lemma retiring_count_mono: "retiring_ids s' \<subseteq> retiring_ids s \<Longrightarrow> retiring_count s' \<le> retiring_count s"
  by (simp add: retiring_count_eq card_mono)

lemma retiring_collect [simp]: "retiring_ids (collect_objects s) = retiring_ids s"
  by (simp add: retiring_ids_def collect_objects_def)

lemma retiring_abort_transaction [simp]: "retiring_ids (abort_transaction i s) = retiring_ids s"
  by (simp add: retiring_ids_def abort_transaction_def upd_defs split: option.split)

lemma retiring_abort_exec_transaction [simp]: "retiring_ids (abort_exec_transaction i s) = retiring_ids s"
  by (auto simp: retiring_ids_def abort_exec_transaction_def upd_defs split: option.splits)

lemma retiring_fold_abort:
  "retiring_ids (fold abort_transaction is s) = retiring_ids s"
  "retiring_ids (fold abort_exec_transaction is s) = retiring_ids s"
  by (induction "is" arbitrary: s) simp_all

lemma retiring_abort_pending [simp]:
  "retiring_ids (abort_pending_for pid s) = retiring_ids s"
  "retiring_ids (abort_pending_exec_for pid s) = retiring_ids s"
  by (simp_all add: abort_pending_for_def abort_pending_exec_for_def retiring_fold_abort)

lemma retiring_upd_other [simp]:
  "retiring_ids (s\<lparr>m_clients := cs\<rparr>) = retiring_ids s"
  "retiring_ids (s\<lparr>m_processes := ps\<rparr>) = retiring_ids s"
  "retiring_ids (s\<lparr>m_retired_peers := rp\<rparr>) = retiring_ids s"
  by (simp_all add: retiring_ids_def)

lemma retiring_disconnect [simp]: "retiring_ids (disconnect c s) = retiring_ids s"
  by (simp add: disconnect_def release_reservations_def Let_def
      split: option.split client_kind.split)

lemma retiring_fold_disconnect [simp]: "retiring_ids (fold disconnect cs s) = retiring_ids s"
  by (induction cs arbitrary: s) simp_all

lemma retiring_forget_replaced: "retiring_ids (forget_replaced pid s) \<subseteq> retiring_ids s"
  by (auto simp: forget_replaced_def retiring_ids_def Let_def upd_defs
      split: option.splits if_splits)

lemma retiring_fold_forget: "retiring_ids (fold forget_replaced pids s) \<subseteq> retiring_ids s"
proof (induction pids arbitrary: s)
  case Nil
  then show ?case by simp
next
  case (Cons pid pids)
  have "retiring_ids (fold forget_replaced pids (forget_replaced pid s))
      \<subseteq> retiring_ids (forget_replaced pid s)" by (rule Cons.IH)
  also have "\<dots> \<subseteq> retiring_ids s" by (rule retiring_forget_replaced)
  finally show ?case by simp
qed

lemma record_exit_frame:
  "record_exit pid status s = Some s' \<Longrightarrow>
     \<exists>recs order. s' = s\<lparr>m_exit_records := recs, m_exit_order := order\<rparr>"
  by (auto simp: record_exit_def split: if_splits)
    (metis manager.surjective manager.update_convs(11) manager.update_convs(12))

lemma retiring_reap_pid: "reap_pid status pid s = Some s' \<Longrightarrow> retiring_ids s' \<subseteq> retiring_ids s"
proof -
  assume r: "reap_pid status pid s = Some s'"
  let ?s1 = "abort_pending_exec_for pid (abort_pending_for pid s)"
  from r obtain s3 where e: "record_exit pid status (?s1\<lparr>m_processes := fmdrop pid (m_processes ?s1)\<rparr>) = Some s3"
    and s': "m_exec_transactions s' = bt_retain (\<lambda>_ t. x_process t \<noteq> pid) (m_exec_transactions s3)"
    by (auto simp: reap_pid_def Let_def)
  from record_exit_frame [OF e] have "m_exec_transactions s3 = m_exec_transactions ?s1" by auto
  with s' have "retiring_ids s' \<subseteq> retiring_ids ?s1"
    by (auto simp: retiring_ids_def split: option.splits if_splits)
  then show ?thesis by simp
qed

lemma retiring_reap_pids: "reap_pids status pids s = Some s' \<Longrightarrow> retiring_ids s' \<subseteq> retiring_ids s"
proof (induction pids arbitrary: s)
  case Nil
  then show ?case by simp
next
  case (Cons pid pids)
  then obtain s1 where "reap_pid status pid s = Some s1" and "reap_pids status pids s1 = Some s'"
    by (auto split: option.splits)
  with Cons.IH retiring_reap_pid show ?case by blast
qed

lemma retire_one_measure:
  "retire_one peer status i (s, ds, rs) = (s', ds', rs') \<Longrightarrow>
     retiring_count s' + length ds' \<le> retiring_count s + length ds"
proof -
  assume r: "retire_one peer status i (s, ds, rs) = (s', ds', rs')"
  show ?thesis
  proof (cases "fmlookup (m_exec_transactions s) i")
    case None
    with r show ?thesis by (simp add: retire_one_def)
  next
    case (Some t)
    let ?t = "note_candidate_exit peer status t"
    have rt: "x_retiring ?t = x_retiring t" by (simp add: note_candidate_exit_def)
    show ?thesis
    proof (cases "x_retiring ?t \<and> x_owner_peer ?t = peer")
      case True
      with r Some have "m_exec_transactions s' = bt_modify i (\<lambda>_. ?t\<lparr>x_retiring := False\<rparr>) (m_exec_transactions s)"
        and len: "length ds' \<le> length ds + 1"
        by (auto simp: retire_one_def Let_def upd_defs split: option.splits)
      with True Some rt have "retiring_ids s' \<subseteq> retiring_ids s - {i}" and i: "i \<in> retiring_ids s"
        by (auto simp: retiring_ids_def split: if_splits)
      then have "card (retiring_ids s') \<le> card (retiring_ids s) - 1"
        using card_mono [of "retiring_ids s - {i}" "retiring_ids s'"] by simp
      moreover have "0 < card (retiring_ids s)" using i by (auto simp: card_gt_0_iff)
      ultimately show ?thesis using len by (simp add: retiring_count_eq)
    next
      case False
      with r Some have "s' = upd_exec i (\<lambda>_. ?t) s" and "ds' = ds"
        by (auto simp: retire_one_def Let_def)
      moreover from this Some rt have "retiring_ids s' \<subseteq> retiring_ids s"
        by (auto simp: retiring_ids_def upd_defs split: if_splits)
      ultimately show ?thesis by (simp add: retiring_count_mono)
    qed
  qed
qed

lemma fold_retire_measure:
  "fold (retire_one peer status) is (s, ds, rs) = (s', ds', rs') \<Longrightarrow>
     retiring_count s' + length ds' \<le> retiring_count s + length ds"
proof (induction "is" arbitrary: s ds rs)
  case Nil
  then show ?case by simp
next
  case (Cons i "is")
  obtain s1 ds1 rs1 where one: "retire_one peer status i (s, ds, rs) = (s1, ds1, rs1)"
    by (cases "retire_one peer status i (s, ds, rs)") auto
  with Cons.prems have "fold (retire_one peer status) is (s1, ds1, rs1) = (s', ds', rs')" by simp
  from Cons.IH [OF this] retire_one_measure [OF one] show ?case by simp
qed

lemma exit_once_measure:
  assumes "exit_once peer status s = Some (s', ds)"
  shows "retiring_count s' + length ds \<le> retiring_count s"
proof -
  obtain s1 rs where r: "retire_images peer status s = (s1, ds, rs)"
    using assms by (auto simp: exit_once_def Let_def split: prod.splits)
  let ?s2 = "fold forget_replaced rs s1"
  let ?s3 = "fold abort_exec_transaction (bt_keys_where (\<lambda>t. x_target t = peer) (m_exec_transactions ?s2)) ?s2"
  let ?s4 = "fold disconnect (bt_keys_where (\<lambda>c. c_peer c = peer) (m_clients ?s3)) ?s3"
  from assms r obtain s5 where
    reap: "reap_pids status (bt_keys_where (\<lambda>p. p_peer p = peer) (m_processes ?s4)) ?s4 = Some s5"
    and s': "s' = collect_objects (s5\<lparr>m_retired_peers := m_retired_peers s5 |-| {|peer|}\<rparr>)"
    by (auto simp: exit_once_def Let_def)
  have "retiring_ids s' \<subseteq> retiring_ids ?s4"
    using retiring_reap_pids [OF reap] s' by simp
  also have "\<dots> \<subseteq> retiring_ids s1"
    using retiring_fold_forget by (simp add: retiring_fold_abort)
  finally have "retiring_count s' \<le> retiring_count s1" by (rule retiring_count_mono)
  moreover have "retiring_count s1 + length ds \<le> retiring_count s"
    using fold_retire_measure [of peer status _ s "[]" "[]" s1 ds rs] r
    by (simp add: retire_images_def)
  ultimately show ?thesis by simp
qed

section \<open>The exit worklist\<close>

text \<open>
  \<open>process_exited_with_status\<close> calls itself on each deferred exit in turn, after the
  body: depth first, which is the worklist with the new exits in front.
\<close>

function process_exits :: "(peer_identity \<times> i32) list \<Rightarrow> manager \<Rightarrow> manager option" where
  "process_exits [] s = Some s"
| "process_exits ((peer, status) # work) s =
     (case exit_once peer status s of
        None \<Rightarrow> None
      | Some (s', deferred) \<Rightarrow> process_exits (deferred @ work) s')"
  by pat_completeness auto
termination
  by (relation "measure (\<lambda>(work, s). length work + retiring_count s)")
    (auto dest!: exit_once_measure)

definition process_exited_with_status :: "peer_identity \<Rightarrow> i32 \<Rightarrow> manager \<Rightarrow> manager option" where
  "process_exited_with_status peer status s = process_exits [(peer, status)] s"

definition process_exited :: "peer_identity \<Rightarrow> manager \<Rightarrow> manager option" where
  "process_exited peer s = process_exited_with_status peer 127 s"

lemma process_exits_append:
  "process_exits (xs @ ys) s =
     (case process_exits xs s of None \<Rightarrow> None | Some s' \<Rightarrow> process_exits ys s')"
proof (induction xs s arbitrary: ys rule: process_exits.induct)
  case (1 s)
  then show ?case by simp
next
  case (2 peer status work s)
  then show ?case by (auto split: option.split)
qed

end
