(* ===== verification/Manager_Rpc.thy ===== *)
theory Manager_Rpc
  imports Manager_Exit
begin

text \<open>
  The entry points of the process manager that its transport calls: opening a
  connection (\<open>connect\<close>), dispatching a request (\<open>handle\<close>), releasing a replay record
  (\<open>acknowledge\<close>), and the diagnostic view of \<^verbatim>\<open>crates/manager/src/diagnostics.rs\<close>.
  The dispatcher is split where the source returns early: by kind of client, then by
  state of the worker's process.
\<close>

section \<open>Opening a connection\<close>

definition connect_guard :: "manager \<Rightarrow> hello \<Rightarrow> peer_identity \<Rightarrow> unit rpc" where
  "connect_guard s h peer =
     (if \<not> supported_version (h_version h)
      then Err (error VersionMismatch ''unsupported protocol version'')
      else if m_token s = [] \<or> length (h_token h) > 512 \<or> \<not> secret_equal (h_token h) (m_token s)
      then Err (error Unauthorized ''invalid session credential'')
      else if host_pid peer = 0 \<or> birth peer = 0
      then Err (error InvalidRequest ''invalid native process identity'')
      else if m_shutdown_requested s
      then Err (error Aborted ''manager is shutting down'')
      else if bt_len (m_clients s) \<ge> max_clients (m_limits s) \<or> m_next_client s = - 1
      then Err (limit ''client limit reached'')
      else Ok ())"

definition reserved_exec :: "manager \<Rightarrow> peer_identity \<Rightarrow> u64 option" where
  "reserved_exec s peer = map_option fst (bt_find (\<lambda>t. x_target t = peer) (m_exec_transactions s))"

definition is_control_kind :: "client_kind \<Rightarrow> bool" where
  "is_control_kind k \<longleftrightarrow> k = KController \<or> k = KLauncher"

definition known_worker :: "manager \<Rightarrow> peer_identity \<Rightarrow> bool" where
  "known_worker s peer \<longleftrightarrow>
     bt_any (\<lambda>p. p_peer p = peer) (m_processes s)
     \<or> bt_any (\<lambda>c. c_peer c = peer \<and> \<not> is_control_kind (c_kind c)) (m_clients s)
     \<or> peer |\<in>| m_retired_peers s"

definition peer_connected :: "manager \<Rightarrow> peer_identity \<Rightarrow> bool" where
  "peer_connected s peer \<longleftrightarrow> bt_any (\<lambda>c. c_peer c = peer) (m_clients s)"

definition connect_root :: "manager \<Rightarrow> peer_identity \<Rightarrow> process_identity rpc \<times> manager" where
  "connect_root s peer =
     (if m_single_root s \<and> m_next_pid s \<noteq> 1
      then (Err (error Unauthorized
        ''process tree already has its init; a fork or exec reservation is required''), s)
      else try_or s (check_process_capacity s) (\<lambda>_.
        case allocate_identity s 0 of
          (Ok identity, s1) \<Rightarrow>
            (Ok identity,
             s1\<lparr>m_processes := fmupd (pi_pid identity)
               \<lparr>p_identity = identity, p_peer = peer,
                p_snapshot = \<lparr>sn_modules = fmempty, sn_states = fmempty\<rparr>,
                p_state = PActive, p_request_keys = fmempty,
                p_exec_request_keys = fmempty, p_prewarm = Fresh\<rparr> (m_processes s1)\<rparr>)
        | (e, s1) \<Rightarrow> (e, s1)))"

definition connect_worker ::
    "manager \<Rightarrow> hello \<Rightarrow> peer_identity \<Rightarrow> (process_identity option \<times> client_kind) rpc \<times> manager" where
  "connect_worker s h peer =
     (if known_worker s peer
      then (Err (error Conflict ''native worker already owns a Linux process''), s)
      else if peer_connected s peer
      then (Err (error Conflict ''controller cannot become a worker''), s)
      else case reserved_exec s peer of
        Some transaction \<Rightarrow>
          if h_adoption_ticket h \<noteq> None
          then (Err (error Conflict ''exec candidate cannot adopt a fork''), s)
          else (case adopt_exec s transaction (m_next_client s) of
                  (Ok identity, s1) \<Rightarrow>
                    (Ok (Some identity, KExecCandidate (pi_pid identity) transaction), s1)
                | (Err e, s1) \<Rightarrow> (Err e, s1)
                | (Panic, s1) \<Rightarrow> (Panic, s1))
      | None \<Rightarrow>
          (case (case h_adoption_ticket h of
                   Some token \<Rightarrow> adopt s token peer
                 | None \<Rightarrow> connect_root s peer) of
             (Ok identity, s1) \<Rightarrow> (Ok (Some identity, KWorker (pi_pid identity)), s1)
           | (Err e, s1) \<Rightarrow> (Err e, s1)
           | (Panic, s1) \<Rightarrow> (Panic, s1)))"

definition connect_role ::
    "manager \<Rightarrow> hello \<Rightarrow> peer_identity \<Rightarrow> (process_identity option \<times> client_kind) rpc \<times> manager" where
  "connect_role s h peer =
     (case h_role h of
        RHelper \<Rightarrow>
          if h_adoption_ticket h \<noteq> None \<or> known_worker s peer \<or> reserved_exec s peer \<noteq> None
             \<or> peer_connected s peer
          then (Err (error Unauthorized ''helper requires a fresh native identity''), s)
          else (Ok (None, KHelper), s)
      | RWorker \<Rightarrow> connect_worker s h peer
      | role \<Rightarrow>
          if h_adoption_ticket h \<noteq> None \<or> known_worker s peer \<or> reserved_exec s peer \<noteq> None
          then (Err (error Unauthorized ''worker identities cannot open controller connections''), s)
          else (Ok (None, if role = RLauncher then KLauncher else KController), s))"

definition connect :: "manager \<Rightarrow> hello \<Rightarrow> peer_identity \<Rightarrow> (client_id \<times> reply) rpc \<times> manager" where
  "connect s h peer =
     try_or s (connect_guard s h peer) (\<lambda>_.
       case connect_role s h peer of
         (Ok (proc, kind), s1) \<Rightarrow>
           (Ok (m_next_client s1, RHello (m_epoch s1) proc),
            s1\<lparr>m_next_client := m_next_client s1 + 1,
               m_clients := fmupd (m_next_client s1) \<lparr>c_peer = peer, c_kind = kind\<rparr> (m_clients s1)\<rparr>)
       | (Err e, s1) \<Rightarrow> (Err e, s1)
       | (Panic, s1) \<Rightarrow> (Panic, s1))"

section \<open>Requests of controllers and launchers\<close>

definition launcher_may :: "request \<Rightarrow> bool" where
  "launcher_may req = (case req of
     Stats \<Rightarrow> True | AwaitExit _ \<Rightarrow> True | ReservePoolWorker \<Rightarrow> True | ReleasePoolWorker _ \<Rightarrow> True
   | ActivatePoolWorker _ _ \<Rightarrow> True | ActivatePoolWorkerUnderParent _ _ _ \<Rightarrow> True | _ \<Rightarrow> False)"

definition handle_controller :: "manager \<Rightarrow> client_id \<Rightarrow> request \<Rightarrow> reply rpc \<times> manager" where
  "handle_controller s client req =
     (case req of
        Stats \<Rightarrow> (Ok (RStats (manager_stats s)), s)
      | AwaitExit pid \<Rightarrow> (await_exit s pid, s)
      | AwaitPrewarmReady pid \<Rightarrow> (prewarm_ready s pid, s)
      | ActivatePrewarm pid \<Rightarrow> activate_prewarm s pid
      | AwaitPoolReady minimum \<Rightarrow>
          (if minimum = 0 then Err (error InvalidRequest ''pool readiness count must be positive'')
           else if pool_ready_count s < unat minimum then Err (error NotReady ''pool is preparing'')
           else Ok ROk, s)
      | ReservePoolWorker \<Rightarrow> reserve_pool_worker s client
      | ReleasePoolWorker pid \<Rightarrow> release_pool_worker s client pid
      | ActivatePoolWorker pid launch \<Rightarrow> activate_pool_worker s client pid 0 launch
      | ActivatePoolWorkerUnderParent pid parent_pid launch \<Rightarrow>
          activate_pool_worker s client pid parent_pid launch
      | Shutdown \<Rightarrow> (Ok ROk, s\<lparr>m_shutdown_requested := True\<rparr>)
      | _ \<Rightarrow> (Err (error Unauthorized ''controller has no guest process''), s))"

definition controller_only :: "request \<Rightarrow> bool" where
  "controller_only req = (case req of
     AwaitExit _ \<Rightarrow> True | AwaitPrewarmReady _ \<Rightarrow> True | ActivatePrewarm _ \<Rightarrow> True
   | AwaitPoolReady _ \<Rightarrow> True | ReservePoolWorker \<Rightarrow> True | ReleasePoolWorker _ \<Rightarrow> True
   | ActivatePoolWorker _ _ \<Rightarrow> True | ActivatePoolWorkerUnderParent _ _ _ \<Rightarrow> True | _ \<Rightarrow> False)"

section \<open>Requests of workers\<close>

text \<open>What a child may ask before its parent commits the fork.\<close>

definition pending_may :: "request \<Rightarrow> bool" where
  "pending_may req = (case req of
     RegisterModule _ _ \<Rightarrow> True | NativeCatalog _ \<Rightarrow> True | MarkReady \<Rightarrow> True
   | AwaitActivation \<Rightarrow> True | Kernel c \<Rightarrow> is_retain_or_lease c | _ \<Rightarrow> False)"

definition mark_prewarm :: "manager \<Rightarrow> u32 \<Rightarrow> process \<Rightarrow> prewarm_state \<Rightarrow> string \<Rightarrow> reply rpc \<times> manager" where
  "mark_prewarm s pid p target complaint =
     (if pi_parent_pid (p_identity p) \<noteq> 0 \<or> pi_generation (p_identity p) \<noteq> 1
         \<or> \<not> (p_prewarm p = Fresh \<or> p_prewarm p = target)
      then (Err (error Conflict complaint), s)
      else (Ok ROk, upd_process pid (p_prewarm_update (\<lambda>_. target)) s))"

definition native_fork_request :: "manager \<Rightarrow> u32 \<Rightarrow> u64 \<Rightarrow> fork_spec \<Rightarrow> reply rpc" where
  "native_fork_request s pid transaction spec =
     (if \<not> spec_valid spec then Err (error InvalidRequest ''invalid native fork specification'')
      else and_then (owned_transaction s pid transaction) (\<lambda>t.
        if t_state t \<noteq> Prepared then Err (error Conflict ''fork bootstrap already adopted'')
        else Ok ROk))"

definition worker_dispatch ::
    "manager \<Rightarrow> bytes option \<Rightarrow> client_id \<Rightarrow> u32 \<Rightarrow> process \<Rightarrow> request \<Rightarrow> reply rpc \<times> manager" where
  "worker_dispatch s entropy client pid p req =
     (case req of
        NativeFork transaction spec \<Rightarrow> (native_fork_request s pid transaction spec, s)
      | NativeExec \<Rightarrow> (Ok ROk, s)
      | ImageSnapshot _ _ \<Rightarrow> (Ok ROk, s)
      | NativeCatalog _ \<Rightarrow> (Ok ROk, s)
      | Kernel _ \<Rightarrow> (Ok ROk, s)
      | MarkPrewarmReady \<Rightarrow>
          mark_prewarm s pid p PrewarmReady ''only an unused root worker can prewarm''
      | AwaitPrewarmActivation \<Rightarrow>
          ((case p_prewarm p of
              PrewarmActivated \<Rightarrow> Ok ROk
            | PrewarmReady \<Rightarrow> Err (error NotReady ''awaiting prewarm activation'')
            | _ \<Rightarrow> Err (error Conflict ''worker has not prewarmed'')), s)
      | MarkPoolReady \<Rightarrow>
          mark_prewarm s pid p PoolReady ''only an unused root worker can join the pool''
      | AwaitPoolActivation \<Rightarrow>
          ((case p_prewarm p of
              PoolActivated launch _ _ \<Rightarrow> Ok (RPoolLaunch launch)
            | PoolReady \<Rightarrow> Err (error NotReady ''awaiting pool assignment'')
            | PoolReserved _ \<Rightarrow> Err (error NotReady ''awaiting pool assignment'')
            | _ \<Rightarrow> Err (error Conflict ''worker is not in the pool'')), s)
      | ProcessMemoryTarget target wr \<Rightarrow> (process_memory_target s pid target wr, s)
      | RegisterModule module_id schema \<Rightarrow> register_module s pid module_id schema
      | DefineState module_id name initial fork \<Rightarrow> define_state s pid module_id name initial fork
      | ReadState module_id name \<Rightarrow> (read_state s pid module_id name, s)
      | WriteState module_id name v \<Rightarrow> write_state s pid module_id name v
      | PrepareFork request_key \<Rightarrow> prepare_fork s entropy pid request_key pid
      | PrepareForkWithParent request_key parent_pid \<Rightarrow>
          if pid = 1 then (Err (error InvalidRequest ''PID 1 cannot use CLONE_PARENT''), s)
          else if pi_parent_pid (p_identity p) \<noteq> parent_pid
          then (Err (error Unauthorized ''CLONE_PARENT must retain the caller's parent''), s)
          else prepare_fork s entropy pid request_key parent_pid
      | MarkReady \<Rightarrow> mark_ready s pid
      | AwaitActivation \<Rightarrow>
          (if p_state p = PActive then Ok ROk else Err (error NotReady ''awaiting parent commit''), s)
      | CommitFork transaction \<Rightarrow> commit_fork s pid transaction
      | AwaitForkReady transaction \<Rightarrow> (await_fork_ready s pid transaction, s)
      | AbortFork transaction \<Rightarrow> abort_fork s pid transaction
      | PrepareExec request_key hp b \<Rightarrow> prepare_exec s client pid request_key (PeerIdentity hp b)
      | AwaitExecReady transaction \<Rightarrow> (await_exec_ready s client pid transaction, s)
      | CommitExec transaction \<Rightarrow> commit_exec s client pid transaction
      | AbortExec transaction \<Rightarrow> abort_exec s client pid transaction
      | Stats \<Rightarrow> (Ok (RStats (manager_stats s)), s)
      | Shutdown \<Rightarrow> (Err (error Unauthorized ''only controller can shut down manager''), s)
      | _ \<Rightarrow> (Panic, s))"

definition handle_worker ::
    "manager \<Rightarrow> bytes option \<Rightarrow> client_id \<Rightarrow> peer_identity \<Rightarrow> u32 \<Rightarrow> request \<Rightarrow> reply rpc \<times> manager" where
  "handle_worker s entropy client peer pid req =
     (case fmlookup (m_processes s) pid of
        None \<Rightarrow> (Err (error Unauthorized ''worker process has exited''), s)
      | Some p \<Rightarrow>
          if p_peer p \<noteq> peer then (Err (error Unauthorized ''worker no longer owns this process''), s)
          else if req = Identity then (Ok (RIdentity (p_identity p)), s)
          else case p_state p of
            PAborted \<Rightarrow> (Err (error Aborted ''child fork transaction was aborted''), s)
          | PPending _ \<Rightarrow>
              if \<not> pending_may req then (Err (error NotReady ''child must await parent commit''), s)
              else worker_dispatch s entropy client pid p req
          | PActive \<Rightarrow> worker_dispatch s entropy client pid p req)"

definition handle_retired ::
    "manager \<Rightarrow> client_id \<Rightarrow> u32 \<Rightarrow> u64 \<Rightarrow> request \<Rightarrow> reply rpc \<times> manager" where
  "handle_retired s client pid transaction req =
     (let replaced = (Err (error Unauthorized ''worker was replaced by exec''), s) in
      case req of
        CommitExec i \<Rightarrow> if i = transaction then commit_exec s client pid i else replaced
      | AbortExec i \<Rightarrow> if i = transaction then abort_exec s client pid i else replaced
      | _ \<Rightarrow> replaced)"

section \<open>The dispatcher\<close>

definition handle :: "manager \<Rightarrow> bytes option \<Rightarrow> client_id \<Rightarrow> request \<Rightarrow> reply rpc \<times> manager" where
  "handle s entropy client req =
     (case fmlookup (m_clients s) client of
        None \<Rightarrow> (Err (error Unauthorized ''unknown or disconnected client''), s)
      | Some connected \<Rightarrow>
          let kind = c_kind connected in
          if kind = KHelper
          then (Err (error Unauthorized ''helper has no management or guest process privileges''), s)
          else if (case req of Hello _ \<Rightarrow> True | _ \<Rightarrow> False)
          then (Err (error InvalidRequest ''Hello is only valid when opening a connection''), s)
          else if kind = KLauncher \<and> \<not> launcher_may req
          then (Err (error Unauthorized ''launcher can only launch and observe processes''), s)
          else if is_control_kind kind then handle_controller s client req
          else if controller_only req
          then (Err (error Unauthorized ''only controller can await process exit''), s)
          else (case kind of
                  KWorker pid \<Rightarrow> handle_worker s entropy client (c_peer connected) pid req
                | KExecCandidate pid transaction \<Rightarrow> handle_exec_candidate s client pid transaction req
                | KRetired pid transaction \<Rightarrow> handle_retired s client pid transaction req
                | _ \<Rightarrow> (Panic, s)))"

section \<open>Acknowledgement\<close>

definition forget_key :: "u64 \<Rightarrow> (u64, u64) btree_map \<Rightarrow> (u64, u64) btree_map" where
  "forget_key i keys = bt_retain (\<lambda>_ v. v \<noteq> i) keys"

definition acknowledge :: "manager \<Rightarrow> client_id \<Rightarrow> u64 \<Rightarrow> unit rpc \<times> manager" where
  "acknowledge s client i =
     (case fmlookup (m_clients s) client of
        None \<Rightarrow> (Err (error Unauthorized ''unknown client''), s)
      | Some connected \<Rightarrow>
          (case c_kind connected of
             KWorker pid \<Rightarrow>
               if \<not> (case fmlookup (m_processes s) pid of
                       None \<Rightarrow> False | Some p \<Rightarrow> p_peer p = c_peer connected)
               then (Err (error Unauthorized ''worker no longer owns process''), s)
               else (case fmlookup (m_transactions s) i of
                 Some t \<Rightarrow>
                   if t_parent t \<noteq> pid
                   then (Err (error Unauthorized ''foreign fork acknowledgement''), s)
                   else if \<not> terminal (t_state t)
                   then (Err (error NotReady ''fork is not terminal''), s)
                   else (Ok (), upd_process pid (p_request_keys_update (forget_key i))
                           (s\<lparr>m_transactions := fmdrop i (m_transactions s)\<rparr>))
               | None \<Rightarrow>
                   (case fmlookup (m_exec_transactions s) i of
                      None \<Rightarrow> (Ok (), s)
                    | Some t \<Rightarrow>
                        if x_process t \<noteq> pid \<or> x_owner t \<noteq> client
                        then (Err (error Unauthorized ''foreign exec acknowledgement''), s)
                        else if x_state t \<noteq> TAborted
                        then (Err (error NotReady ''exec still owns a native image''), s)
                        else (Ok (), upd_process pid (p_exec_request_keys_update (forget_key i))
                                (s\<lparr>m_exec_transactions := fmdrop i (m_exec_transactions s)\<rparr>))))
           | _ \<Rightarrow> (Err (error Unauthorized ''only the active worker may acknowledge''), s)))"

section \<open>Diagnostics\<close>

datatype process_status = SActive | SPending | SAborted | SExecRetiring

record process_snapshot =
  ps_identity :: process_identity
  ps_host_pid :: u32
  ps_host_birth :: u64
  ps_status :: process_status
  ps_standby :: bool
  ps_program :: "string option"
  ps_modules :: nat
  ps_states :: nat

record manager_snapshot =
  ms_stats :: stats
  ms_processes :: "process_snapshot list"

definition process_view :: "manager \<Rightarrow> process \<Rightarrow> process_snapshot" where
  "process_view s p =
     \<lparr>ps_identity = p_identity p, ps_host_pid = host_pid (p_peer p), ps_host_birth = birth (p_peer p),
      ps_status = (case p_state p of
          PActive \<Rightarrow> if p_peer p |\<in>| m_retired_peers s then SExecRetiring else SActive
        | PPending _ \<Rightarrow> SPending
        | PAborted \<Rightarrow> SAborted),
      ps_standby = (p_prewarm p = PrewarmReady \<or> p_prewarm p = PoolReady \<or> is_pool_reserved (p_prewarm p)),
      ps_program = (case p_prewarm p of
          PoolActivated launch _ _ \<Rightarrow> (case arguments launch of [] \<Rightarrow> None | a # _ \<Rightarrow> Some a)
        | _ \<Rightarrow> None),
      ps_modules = bt_len (sn_modules (p_snapshot p)),
      ps_states = bt_len (sn_states (p_snapshot p))\<rparr>"

definition manager_snapshot_of :: "manager \<Rightarrow> manager_snapshot" where
  "manager_snapshot_of s =
     \<lparr>ms_stats = manager_stats s, ms_processes = map (process_view s) (bt_values (m_processes s))\<rparr>"

section \<open>The manager as a transition system\<close>

text \<open>
  The transport serializes calls under one mutex; a run of the manager is a sequence
  of completed calls. A call that panics ends the run.
\<close>

inductive manager_step :: "manager \<Rightarrow> manager \<Rightarrow> bool" where
  step_connect: "connect s h peer = (r, s') \<Longrightarrow> r \<noteq> Panic \<Longrightarrow> manager_step s s'"
| step_handle: "handle s entropy client req = (r, s') \<Longrightarrow> r \<noteq> Panic \<Longrightarrow> manager_step s s'"
| step_acknowledge: "acknowledge s client i = (r, s') \<Longrightarrow> r \<noteq> Panic \<Longrightarrow> manager_step s s'"
| step_disconnect: "disconnect client s = s' \<Longrightarrow> manager_step s s'"
| step_exit: "process_exited_with_status peer status s = Some s' \<Longrightarrow> manager_step s s'"

inductive_cases manager_stepE: "manager_step s s'"

definition manager_initial :: "manager \<Rightarrow> bool" where
  "manager_initial s \<longleftrightarrow> (\<exists>ep tok lim. s = with_limits ep tok lim) \<or> (\<exists>ep tok. s = for_process_tree ep tok)"

end
