(* ===== verification/Manager_Inv.thy ===== *)
theory Manager_Inv
  imports Manager_Rpc
begin

text \<open>
  The representation invariant of the process manager, as six named parts, and that
  the elementary updates keep it. The operations are built from these updates, so
  their preservation lemmas, in the next theory, are short.
\<close>

abbreviation procs :: "manager \<Rightarrow> u32 \<Rightarrow> process option" where
  "procs s \<equiv> fmlookup (m_processes s)"

abbreviation txs :: "manager \<Rightarrow> u64 \<Rightarrow> transaction option" where
  "txs s \<equiv> fmlookup (m_transactions s)"

abbreviation execs :: "manager \<Rightarrow> u64 \<Rightarrow> exec_transaction option" where
  "execs s \<equiv> fmlookup (m_exec_transactions s)"

abbreviation child_pid :: "transaction \<Rightarrow> u32" where
  "child_pid t \<equiv> pi_pid (ft_child (t_ticket t))"

section \<open>The invariant\<close>

text \<open>PIDs and the ids of transactions, clients and objects are below their counters.\<close>

definition inv_ids :: "manager \<Rightarrow> bool" where
  "inv_ids s \<longleftrightarrow>
     0 < m_next_pid s \<and> m_next_pid s \<le> 0x80000000
     \<and> (\<forall>pid p. procs s pid = Some p \<longrightarrow> pi_pid (p_identity p) = pid \<and> 0 < pid \<and> pid < m_next_pid s)
     \<and> (\<forall>i t. txs s i = Some t \<longrightarrow> i < m_next_transaction s \<and> ft_transaction (t_ticket t) = i
          \<and> 0 < child_pid t \<and> child_pid t < m_next_pid s)
     \<and> (\<forall>i x. execs s i = Some x \<longrightarrow> i < m_next_transaction s \<and> txs s i = None)
     \<and> (\<forall>c k. fmlookup (m_clients s) c = Some k \<longrightarrow> c < m_next_client s)
     \<and> (\<forall>i ob. fmlookup (m_objects s) i = Some ob \<longrightarrow> i < m_next_object s)"

text \<open>A fork transaction and the child it creates agree on how far the fork is.\<close>

definition fork_agrees :: "manager \<Rightarrow> u64 \<Rightarrow> transaction \<Rightarrow> bool" where
  "fork_agrees s i t \<longleftrightarrow>
     (case t_state t of
        Prepared \<Rightarrow> t_snapshot t \<noteq> None \<and> procs s (child_pid t) = None
          \<and> fmlookup (m_exit_records s) (child_pid t) = None
      | Adopted \<Rightarrow> t_snapshot t = None \<and> (\<exists>p. procs s (child_pid t) = Some p \<and> p_state p = PPending i)
      | Ready \<Rightarrow> t_snapshot t = None \<and> (\<exists>p. procs s (child_pid t) = Some p \<and> p_state p = PPending i)
      | Committed \<Rightarrow> t_snapshot t = None \<and> (\<forall>p. procs s (child_pid t) = Some p \<longrightarrow> p_state p = PActive)
      | TAborted \<Rightarrow> t_snapshot t = None \<and> (\<forall>p. procs s (child_pid t) = Some p \<longrightarrow> p_state p = PAborted))"

definition inv_fork :: "manager \<Rightarrow> bool" where
  "inv_fork s \<longleftrightarrow>
     (\<forall>i t. txs s i = Some t \<longrightarrow> fork_agrees s i t \<and> contains_key (m_processes s) (t_parent t))
     \<and> (\<forall>i j t u. txs s i = Some t \<longrightarrow> txs s j = Some u \<longrightarrow> child_pid t = child_pid u \<longrightarrow> i = j)
     \<and> (\<forall>pid p i. procs s pid = Some p \<longrightarrow> p_state p = PPending i \<longrightarrow>
          (\<exists>t. txs s i = Some t \<and> child_pid t = pid \<and> (t_state t = Adopted \<or> t_state t = Ready)))"

text \<open>Replay keys point at transactions of the process that holds them.\<close>

definition inv_keys :: "manager \<Rightarrow> bool" where
  "inv_keys s \<longleftrightarrow>
     (\<forall>pid p. procs s pid = Some p \<longrightarrow>
        (\<forall>k i. fmlookup (p_request_keys p) k = Some i \<longrightarrow> (\<exists>t. txs s i = Some t \<and> t_parent t = pid))
        \<and> (\<forall>k i. fmlookup (p_exec_request_keys p) k = Some i \<longrightarrow> (\<exists>x. execs s i = Some x \<and> x_process x = pid)))"

definition inv_exec :: "manager \<Rightarrow> bool" where
  "inv_exec s \<longleftrightarrow> (\<forall>i x. execs s i = Some x \<longrightarrow> contains_key (m_processes s) (x_process x))"

text \<open>Every object a snapshot names exists.\<close>

definition snapshot_closed :: "manager \<Rightarrow> snapshot \<Rightarrow> bool" where
  "snapshot_closed s sn \<longleftrightarrow> (\<forall>k i. fmlookup (sn_states sn) k = Some i \<longrightarrow> contains_key (m_objects s) i)"

definition inv_objects :: "manager \<Rightarrow> bool" where
  "inv_objects s \<longleftrightarrow>
     (\<forall>pid p. procs s pid = Some p \<longrightarrow> snapshot_closed s (p_snapshot p))
     \<and> (\<forall>i t sn. txs s i = Some t \<longrightarrow> t_snapshot t = Some sn \<longrightarrow> snapshot_closed s sn)"

text \<open>An exit record belongs to a PID that was allocated and is gone, and has a retention entry.\<close>

definition inv_exits :: "manager \<Rightarrow> bool" where
  "inv_exits s \<longleftrightarrow>
     (\<forall>pid st. fmlookup (m_exit_records s) pid = Some st \<longrightarrow>
        pid \<in> set (m_exit_order s) \<and> pid < m_next_pid s \<and> procs s pid = None)"

definition manager_inv :: "manager \<Rightarrow> bool" where
  "manager_inv s \<longleftrightarrow> inv_ids s \<and> inv_fork s \<and> inv_keys s \<and> inv_exec s \<and> inv_objects s \<and> inv_exits s"

lemmas inv_parts = inv_ids_def inv_fork_def inv_keys_def inv_exec_def inv_objects_def inv_exits_def

declare fork_agrees_def [inv_defs] snapshot_closed_def [inv_defs] contains_key_def [inv_defs]

lemma manager_invI:
  "inv_ids s \<Longrightarrow> inv_fork s \<Longrightarrow> inv_keys s \<Longrightarrow> inv_exec s \<Longrightarrow> inv_objects s \<Longrightarrow> inv_exits s \<Longrightarrow> manager_inv s"
  by (simp add: manager_inv_def)

lemma manager_invD:
  assumes "manager_inv s"
  shows "inv_ids s" "inv_fork s" "inv_keys s" "inv_exec s" "inv_objects s" "inv_exits s"
  using assms by (simp_all add: manager_inv_def)

lemma inv_initial: "manager_initial s \<Longrightarrow> manager_inv s"
  by (auto simp: manager_initial_def for_process_tree_def new_manager_def with_limits_def
      manager_inv_def inv_parts)

lemma inv_ids_process:
  "inv_ids s \<Longrightarrow> procs s pid = Some p \<Longrightarrow> pi_pid (p_identity p) = pid \<and> 0 < pid \<and> pid < m_next_pid s"
  by (simp add: inv_ids_def)

lemma inv_ids_transaction:
  "inv_ids s \<Longrightarrow> txs s i = Some t \<Longrightarrow>
     i < m_next_transaction s \<and> ft_transaction (t_ticket t) = i \<and> 0 < child_pid t \<and> child_pid t < m_next_pid s"
  by (simp add: inv_ids_def)

lemma inv_ids_exec: "inv_ids s \<Longrightarrow> execs s i = Some x \<Longrightarrow> i < m_next_transaction s \<and> txs s i = None"
  by (simp add: inv_ids_def)

lemma inv_ids_fresh_transaction:
  assumes "inv_ids s"
  shows "txs s (m_next_transaction s) = None" "execs s (m_next_transaction s) = None"
  using inv_ids_transaction [OF assms] inv_ids_exec [OF assms]
  by (metis less_irrefl not_None_eq)+

lemma inv_ids_fresh_child: "inv_ids s \<Longrightarrow> txs s i = Some t \<Longrightarrow> child_pid t \<noteq> m_next_pid s"
  using inv_ids_transaction by fastforce

lemma inv_fork_agrees: "inv_fork s \<Longrightarrow> txs s i = Some t \<Longrightarrow> fork_agrees s i t"
  by (simp add: inv_fork_def)

lemma inv_fork_child_unique:
  "inv_fork s \<Longrightarrow> txs s i = Some t \<Longrightarrow> txs s j = Some u \<Longrightarrow> child_pid t = child_pid u \<Longrightarrow> i = j"
  by (simp add: inv_fork_def)

lemma inv_fork_pending:
  assumes "inv_fork s" and "procs s pid = Some p" and "p_state p = PPending i"
  obtains t where "txs s i = Some t" "child_pid t = pid" "t_state t = Adopted \<or> t_state t = Ready"
  using assms unfolding inv_fork_def by blast

lemma fork_agrees_frame:
  "procs s' (child_pid t) = procs s (child_pid t) \<Longrightarrow>
     fmlookup (m_exit_records s') (child_pid t) = fmlookup (m_exit_records s) (child_pid t) \<Longrightarrow>
     fork_agrees s' i t = fork_agrees s i t"
  by (simp add: fork_agrees_def cong: transaction_state.case_cong)

section \<open>Updates that do not touch the invariant\<close>

text \<open>A change of a process that keeps its PID, fork state, named state and replay keys.\<close>

definition benign :: "(process \<Rightarrow> process) \<Rightarrow> bool" where
  "benign f \<longleftrightarrow> (\<forall>p. pi_pid (p_identity (f p)) = pi_pid (p_identity p) \<and> p_state (f p) = p_state p
     \<and> sn_states (p_snapshot (f p)) = sn_states (p_snapshot p)
     \<and> p_request_keys (f p) = p_request_keys p \<and> p_exec_request_keys (f p) = p_exec_request_keys p)"

lemma benignD:
  assumes "benign f"
  shows "pi_pid (p_identity (f p)) = pi_pid (p_identity p)" "p_state (f p) = p_state p"
    "sn_states (p_snapshot (f p)) = sn_states (p_snapshot p)"
    "p_request_keys (f p) = p_request_keys p" "p_exec_request_keys (f p) = p_exec_request_keys p"
  using assms by (simp_all add: benign_def)

text \<open>
  The invariant reads only the fields below of the processes, so it is invariant
  under any change of the process map that keeps them.
\<close>

definition same_processes :: "manager \<Rightarrow> manager \<Rightarrow> bool" where
  "same_processes s s' \<longleftrightarrow>
     (\<forall>pid. rel_option (\<lambda>p q. pi_pid (p_identity p) = pi_pid (p_identity q) \<and> p_state p = p_state q
        \<and> sn_states (p_snapshot p) = sn_states (p_snapshot q)
        \<and> p_request_keys p = p_request_keys q \<and> p_exec_request_keys p = p_exec_request_keys q)
        (procs s pid) (procs s' pid))"

lemma same_processes_None: "same_processes s s' \<Longrightarrow> procs s' pid = None \<longleftrightarrow> procs s pid = None"
  by (auto simp: same_processes_def dest: spec [of _ pid] elim: option.rel_cases)

lemma same_processes_Some:
  assumes "same_processes s s'" and "procs s' pid = Some q"
  obtains p where "procs s pid = Some p" "pi_pid (p_identity p) = pi_pid (p_identity q)"
    "p_state p = p_state q" "sn_states (p_snapshot p) = sn_states (p_snapshot q)"
    "p_request_keys p = p_request_keys q" "p_exec_request_keys p = p_exec_request_keys q"
  using assms by (auto simp: same_processes_def dest!: spec [of _ pid] elim: option.rel_cases)

lemma same_processes_SomeD:
  assumes "same_processes s s'" and "procs s pid = Some p"
  obtains q where "procs s' pid = Some q" "p_state p = p_state q"
  using assms by (auto simp: same_processes_def dest!: spec [of _ pid] elim: option.rel_cases)

lemma manager_inv_same_processes:
  assumes "manager_inv s" and same: "same_processes s s'"
    and rest: "m_next_pid s' = m_next_pid s" "m_transactions s' = m_transactions s"
      "m_exec_transactions s' = m_exec_transactions s" "m_next_transaction s' = m_next_transaction s"
      "m_clients s' = m_clients s" "m_next_client s' = m_next_client s"
      "m_objects s' = m_objects s" "m_next_object s' = m_next_object s"
      "m_exit_records s' = m_exit_records s" "m_exit_order s' = m_exit_order s"
  shows "manager_inv s'"
proof (rule manager_invI)
  note inv = manager_invD [OF assms(1)]
  have none: "procs s' pid = None \<longleftrightarrow> procs s pid = None" for pid
    using same_processes_None [OF same] .
  have "pi_pid (p_identity q) = pid \<and> 0 < pid \<and> pid < m_next_pid s" if "procs s' pid = Some q" for pid q
    by (rule same_processes_Some [OF same that]) (use inv(1) in \<open>auto simp: inv_ids_def\<close>)
  then show "inv_ids s'"
    using inv(1) by (simp add: inv_ids_def rest)
  have state: "(\<exists>p. procs s' pid = Some p \<and> P (p_state p)) \<longleftrightarrow> (\<exists>p. procs s pid = Some p \<and> P (p_state p))"
    for pid P
    using same_processes_Some [OF same] same_processes_SomeD [OF same] by metis
  have state_all: "(\<forall>p. procs s' pid = Some p \<longrightarrow> P (p_state p)) \<longleftrightarrow> (\<forall>p. procs s pid = Some p \<longrightarrow> P (p_state p))"
    for pid P
    using state [of pid "\<lambda>x. \<not> P x"] by blast
  have agree: "fork_agrees s' i t = fork_agrees s i t" for i t
    using state [of _ "\<lambda>x. x = _"] state_all [of _ "\<lambda>x. x = _"] none
    by (simp add: fork_agrees_def rest cong: transaction_state.case_cong)
  have "(\<exists>t. txs s i = Some t \<and> child_pid t = pid \<and> (t_state t = Adopted \<or> t_state t = Ready))"
    if "procs s' pid = Some q" "p_state q = PPending i" for pid q i
    by (rule same_processes_Some [OF same that(1)]) (use inv(2) that(2) in \<open>auto simp: inv_fork_def\<close>)
  then show "inv_fork s'"
    using inv(2) by (simp add: inv_fork_def rest agree none contains_key_def)
  show "inv_keys s'"
    unfolding inv_keys_def rest
  proof (intro allI impI)
    fix pid q
    assume q: "procs s' pid = Some q"
    show "(\<forall>k i. fmlookup (p_request_keys q) k = Some i \<longrightarrow> (\<exists>t. txs s i = Some t \<and> t_parent t = pid)) \<and>
      (\<forall>k i. fmlookup (p_exec_request_keys q) k = Some i \<longrightarrow> (\<exists>x. execs s i = Some x \<and> x_process x = pid))"
      by (rule same_processes_Some [OF same q]) (use inv(3) in \<open>simp add: inv_keys_def\<close>)
  qed
  show "inv_exec s'"
    using inv(4) by (simp add: inv_exec_def rest none contains_key_def)
  have "snapshot_closed s (p_snapshot q)" if "procs s' pid = Some q" for pid q
    by (rule same_processes_Some [OF same that]) (use inv(5) in \<open>simp add: inv_objects_def snapshot_closed_def\<close>)
  then show "inv_objects s'"
    using inv(5) by (simp add: inv_objects_def snapshot_closed_def rest)
  show "inv_exits s'"
    using inv(6) by (simp add: inv_exits_def rest none)
qed

lemma manager_inv_upd_process:
  "manager_inv s \<Longrightarrow> benign f \<Longrightarrow> manager_inv (upd_process pid f s)"
  by (erule manager_inv_same_processes)
    (auto simp: same_processes_def upd_process_def benignD option.rel_map option.rel_refl)

lemma manager_inv_map_processes:
  "manager_inv s \<Longrightarrow> benign f \<Longrightarrow> manager_inv (s\<lparr>m_processes := fmmap f (m_processes s)\<rparr>)"
  by (erule manager_inv_same_processes)
    (auto simp: same_processes_def benignD option.rel_map option.rel_refl)

lemma benign_simps [simp, intro]:
  "benign (p_prewarm_update f)"
  "benign (p_peer_update g)"
  "benign (p_snapshot_update (sn_modules_update h))"
  "benign (reparent_process pid)"
  "benign (\<lambda>p. if c p then p\<lparr>p_prewarm := w\<rparr> else p)"
  "benign (\<lambda>p. p\<lparr>p_identity := (p_identity p)\<lparr>pi_parent_pid := par\<rparr>, p_prewarm := w\<rparr>)"
  by (simp_all add: benign_def reparent_process_def)

lemma manager_inv_modules [simp]: "manager_inv (s\<lparr>m_modules := ms\<rparr>) = manager_inv s"
  and manager_inv_retired [simp]: "manager_inv (s\<lparr>m_retired_peers := rp\<rparr>) = manager_inv s"
  and manager_inv_shutdown [simp]: "manager_inv (s\<lparr>m_shutdown_requested := b\<rparr>) = manager_inv s"
  by (simp_all add: manager_inv_def inv_parts fork_agrees_def snapshot_closed_def cong: transaction_state.case_cong)

lemma manager_inv_upd_client [simp]: "manager_inv s \<Longrightarrow> manager_inv (upd_client c f s)"
  by (auto simp: manager_inv_def inv_parts fork_agrees_def snapshot_closed_def upd_client_def
      cong: transaction_state.case_cong)

lemma manager_inv_drop_client [simp]: "manager_inv s \<Longrightarrow> manager_inv (s\<lparr>m_clients := fmdrop c (m_clients s)\<rparr>)"
  by (auto simp: manager_inv_def inv_parts fork_agrees_def snapshot_closed_def
      cong: transaction_state.case_cong split: if_splits)

lemma manager_inv_new_client:
  "manager_inv s \<Longrightarrow> m_next_client s \<noteq> - 1 \<Longrightarrow>
     manager_inv (s\<lparr>m_next_client := m_next_client s + 1, m_clients := fmupd (m_next_client s) c (m_clients s)\<rparr>)"
  by (auto simp: manager_inv_def inv_parts fork_agrees_def snapshot_closed_def less_succ_iff_word
      cong: transaction_state.case_cong split: if_splits)

lemma manager_inv_upd_exec:
  assumes "manager_inv s" and "\<And>x. execs s i = Some x \<Longrightarrow> x_process (f x) = x_process x"
  shows "manager_inv (upd_exec i f s)"
proof (rule manager_invI)
  note inv = manager_invD [OF assms(1)]
  show "inv_ids (upd_exec i f s)"
    using inv(1) by (auto simp: inv_ids_def upd_exec_def split: if_splits)
  show "inv_fork (upd_exec i f s)"
    using inv(2) by (simp add: inv_fork_def fork_agrees_def upd_exec_def cong: transaction_state.case_cong)
  show "inv_keys (upd_exec i f s)"
    using inv(3) assms(2) unfolding inv_keys_def upd_exec_def by (fastforce split: if_splits)
  show "inv_exec (upd_exec i f s)"
    using inv(4) assms(2) by (auto simp: inv_exec_def upd_exec_def split: if_splits)
  show "inv_objects (upd_exec i f s)" "inv_exits (upd_exec i f s)"
    using inv(5,6) by (simp_all add: inv_objects_def inv_exits_def snapshot_closed_def upd_exec_def)
qed

section \<open>Objects\<close>

lemma bt_valuesI: "fmlookup m k = Some v \<Longrightarrow> v \<in> set (bt_values m)"
  by (auto simp: set_bt_values)

lemma live_objects_process:
  assumes "procs s pid = Some p" and "fmlookup (sn_states (p_snapshot p)) k = Some i"
  shows "i \<in> set (live_objects s)"
proof -
  have "p \<in> set (bt_values (m_processes s))" "i \<in> set (bt_values (sn_states (p_snapshot p)))"
    using assms by (blast intro: bt_valuesI)+
  then show ?thesis by (auto simp: live_objects_def)
qed

lemma live_objects_transaction:
  assumes "txs s j = Some t" and "t_snapshot t = Some sn" and "fmlookup (sn_states sn) k = Some i"
  shows "i \<in> set (live_objects s)"
proof -
  have "t \<in> set (bt_values (m_transactions s))" "i \<in> set (bt_values (sn_states sn))"
    using assms by (blast intro: bt_valuesI)+
  with assms(2) show ?thesis by (auto simp: live_objects_def split: option.split)
qed

lemma manager_inv_collect: "manager_inv s \<Longrightarrow> manager_inv (collect_objects s)"
proof (rule manager_invI)
  assume "manager_inv s"
  note inv = manager_invD [OF this]
  let ?s = "collect_objects s"
  show "inv_ids ?s" using inv(1)
    by (auto simp: inv_ids_def collect_objects_def split: option.splits if_splits)
  show "inv_fork ?s" "inv_keys ?s" "inv_exec ?s" "inv_exits ?s"
    using inv(2-4,6) by (simp_all add: inv_fork_def inv_keys_def inv_exec_def inv_exits_def
        fork_agrees_def collect_objects_def cong: transaction_state.case_cong)
  have "contains_key (m_objects ?s) i"
    if "contains_key (m_objects s) i" "i \<in> set (live_objects s)" for i
    using that by (auto simp: contains_key_def collect_objects_def)
  moreover have "m_processes ?s = m_processes s" "m_transactions ?s = m_transactions s"
    by (simp_all add: collect_objects_def)
  ultimately show "inv_objects ?s"
    using inv(5) live_objects_process live_objects_transaction
    unfolding inv_objects_def snapshot_closed_def by metis
qed

text \<open>Adding objects, or changing one, keeps what snapshots name.\<close>

lemma manager_inv_add_object:
  assumes "manager_inv s" and "m_next_object s \<noteq> - 1"
  shows "manager_inv (s\<lparr>m_next_object := m_next_object s + 1,
           m_objects := fmupd (m_next_object s) ob (m_objects s)\<rparr>)"
  using assms
  by (auto simp: manager_inv_def inv_parts fork_agrees_def snapshot_closed_def contains_key_def
      less_succ_iff_word cong: transaction_state.case_cong split: if_splits)

lemma manager_inv_set_object:
  "manager_inv s \<Longrightarrow> fmlookup (m_objects s) i = Some ob \<Longrightarrow>
     manager_inv (s\<lparr>m_objects := fmupd i ob' (m_objects s)\<rparr>)"
  by (auto simp: manager_inv_def inv_parts fork_agrees_def snapshot_closed_def contains_key_def
      cong: transaction_state.case_cong split: if_splits)

lemma manager_inv_add_state:
  assumes "manager_inv s" and "contains_key (m_objects s) i"
  shows "manager_inv (upd_process pid (p_snapshot_update (sn_states_update (fmupd k i))) s)"
proof (rule manager_invI)
  note inv = manager_invD [OF assms(1)]
  let ?s = "upd_process pid (p_snapshot_update (sn_states_update (fmupd k i))) s"
  show "inv_ids ?s" using inv(1) by (auto simp: inv_ids_def upd_process_def split: if_splits)
  have agree: "fork_agrees ?s j t = fork_agrees s j t" for j t
    by (auto simp: fork_agrees_def upd_process_def split: transaction_state.split)
  show "inv_fork ?s" using inv(2) unfolding inv_fork_def agree
    by (auto simp: upd_process_def contains_key_def split: if_splits)
  show "inv_keys ?s" using inv(3) by (auto simp: inv_keys_def upd_process_def split: if_splits)
  show "inv_exec ?s" using inv(4) by (auto simp: inv_exec_def upd_process_def contains_key_def)
  show "inv_objects ?s" using inv(5) assms(2)
    by (auto simp: inv_objects_def upd_process_def snapshot_closed_def split: if_splits)
  show "inv_exits ?s" using inv(6) by (auto simp: inv_exits_def upd_process_def)
qed

section \<open>Fork transactions\<close>

lemma manager_inv_set_ready:
  assumes "manager_inv s" and "procs s pid = Some p" and "p_state p = PPending i"
  shows "manager_inv (upd_transaction i (t_state_update (\<lambda>_. Ready)) s)"
proof (rule manager_invI)
  note inv = manager_invD [OF assms(1)]
  let ?s = "upd_transaction i (t_state_update (\<lambda>_. Ready)) s"
  obtain t where t: "txs s i = Some t" "t_state t = Adopted \<or> t_state t = Ready"
    using inv_fork_pending [OF inv(2) assms(2,3)] by blast
  show "inv_ids ?s" using inv(1) by (auto simp: inv_ids_def upd_transaction_def split: if_splits)
  have "fork_agrees ?s i (t\<lparr>t_state := Ready\<rparr>)"
    using inv(2) t unfolding inv_fork_def by (fastforce simp: fork_agrees_def upd_transaction_def)
  moreover have "fork_agrees ?s j u = fork_agrees s j u" for j u
    by (rule fork_agrees_frame) (simp_all add: upd_transaction_def)
  moreover have "\<exists>u. txs ?s j = Some u \<and> child_pid u = q \<and> (t_state u = Adopted \<or> t_state u = Ready)"
    if "procs s q = Some p'" "p_state p' = PPending j" for q p' j
    by (rule inv_fork_pending [OF inv(2) that]) (auto simp: upd_transaction_def)
  moreover have "m_processes ?s = m_processes s" by (simp add: upd_transaction_def)
  ultimately show "inv_fork ?s"
    using inv(2) t unfolding inv_fork_def
    by (auto simp: upd_transaction_def split: if_splits)
  show "inv_keys ?s" using inv(3) unfolding inv_keys_def
    by (fastforce simp: upd_transaction_def split: if_splits)
  show "inv_exec ?s" "inv_exits ?s" using inv(4,6)
    by (auto simp: inv_exec_def inv_exits_def upd_transaction_def)
  show "inv_objects ?s" using inv(5)
    by (fastforce simp: inv_objects_def snapshot_closed_def upd_transaction_def split: if_splits)
qed

text \<open>
  Ending a transaction whose child, if attached, is pending on it: commit and abort.
\<close>

lemma manager_inv_finish:
  assumes "manager_inv s" and t: "txs s i = Some t" "\<not> terminal (t_state t)"
    and fin: "fin = Committed \<and> pst = PActive \<and> t_state t = Ready \<or> fin = TAborted \<and> pst = PAborted"
  shows "manager_inv (upd_process (child_pid t) (p_state_update (\<lambda>_. pst))
    (upd_transaction i (\<lambda>t. t\<lparr>t_state := fin, t_snapshot := None\<rparr>) s))" (is "manager_inv ?s")
proof (rule manager_invI)
  note inv = manager_invD [OF assms(1)]
  have upd: "txs ?s j = (if j = i then Some (t\<lparr>t_state := fin, t_snapshot := None\<rparr>) else txs s j)"
    "procs ?s pid = (if pid = child_pid t then map_option (p_state_update (\<lambda>_. pst)) (procs s pid) else procs s pid)"
    for j pid using t(1) by (simp_all add: upd_process_def upd_transaction_def)
  have none: "procs ?s pid = None \<longleftrightarrow> procs s pid = None" for pid by (simp add: upd)
  show "inv_ids ?s" using inv(1) t(1)
    by (auto simp: inv_ids_def upd_process_def upd_transaction_def split: if_splits)
  have other: "child_pid u \<noteq> child_pid t" if "txs s j = Some u" "j \<noteq> i" for j u
    using inv(2) t(1) that unfolding inv_fork_def by blast
  have agree: "fork_agrees ?s j u" if "txs ?s j = Some u" for j u
  proof (cases "j = i")
    case True
    with that have u: "u = t\<lparr>t_state := fin, t_snapshot := None\<rparr>" by (simp add: upd(1))
    have "p_state q = pst" if "procs ?s (child_pid t) = Some q" for q
      using that by (auto simp: upd(2))
    with u fin show ?thesis by (auto simp: fork_agrees_def)
  next
    case False
    with that have u: "txs s j = Some u" by (simp add: upd)
    with inv(2) have "fork_agrees s j u" by (simp add: inv_fork_def)
    moreover have "procs ?s (child_pid u) = procs s (child_pid u)" using other [OF u False] by (simp add: upd)
    ultimately show ?thesis
      by (subst fork_agrees_frame) (simp_all add: upd_process_def upd_transaction_def)
  qed
  have pend: "(\<exists>u. txs ?s j = Some u \<and> child_pid u = pid \<and> (t_state u = Adopted \<or> t_state u = Ready))"
    if q: "procs ?s pid = Some q" "p_state q = PPending j" for pid q j
  proof -
    from q fin have "pid \<noteq> child_pid t" by (auto simp: upd)
    with q have "procs s pid = Some q" by (simp add: upd)
    with q(2) inv(2) obtain u where
      u: "txs s j = Some u" "child_pid u = pid" "t_state u = Adopted \<or> t_state u = Ready"
      unfolding inv_fork_def by blast
    with \<open>pid \<noteq> child_pid t\<close> t(1) have "j \<noteq> i" by auto
    with u show ?thesis by (simp add: upd)
  qed
  have uniq: "j = k" if "txs ?s j = Some u" "txs ?s k = Some v" "child_pid u = child_pid v" for j k u v
  proof -
    have "\<exists>u'. txs s j = Some u' \<and> child_pid u' = child_pid u" if "txs ?s j = Some u" for j u
      using that t(1) by (auto simp: upd split: if_splits)
    with that inv(2) show ?thesis unfolding inv_fork_def by metis
  qed
  have par: "contains_key (m_processes ?s) (t_parent u)" if "txs ?s j = Some u" for j u
    using that inv(2) t(1) unfolding inv_fork_def contains_key_def none
    by (auto simp: upd split: if_splits)
  show "inv_fork ?s" unfolding inv_fork_def using agree pend uniq par by blast
  show "inv_keys ?s" unfolding inv_keys_def
  proof (intro allI impI)
    fix pid q
    assume "procs ?s pid = Some q"
    then obtain p where p: "procs s pid = Some p" "p_request_keys q = p_request_keys p"
      "p_exec_request_keys q = p_exec_request_keys p"
      by (auto simp: upd split: if_splits)
    have "\<exists>u. txs ?s j = Some u \<and> t_parent u = pid" if "\<exists>u. txs s j = Some u \<and> t_parent u = pid" for j
      using that t(1) by (auto simp: upd)
    moreover have "m_exec_transactions ?s = m_exec_transactions s"
      by (simp add: upd_process_def upd_transaction_def)
    ultimately show "(\<forall>k i. fmlookup (p_request_keys q) k = Some i \<longrightarrow> (\<exists>t. txs ?s i = Some t \<and> t_parent t = pid)) \<and>
      (\<forall>k i. fmlookup (p_exec_request_keys q) k = Some i \<longrightarrow> (\<exists>x. execs ?s i = Some x \<and> x_process x = pid))"
      using inv(3) p unfolding inv_keys_def by metis
  qed
  show "inv_exec ?s" using inv(4) none
    by (auto simp: inv_exec_def contains_key_def upd_process_def upd_transaction_def)
  show "inv_objects ?s" using inv(5) t(1)
    by (auto simp: inv_objects_def snapshot_closed_def upd_process_def upd_transaction_def split: if_splits)
  show "inv_exits ?s" using inv(6)
    by (auto simp: inv_exits_def upd_process_def upd_transaction_def)
qed

lemma manager_inv_abort_transaction: "manager_inv s \<Longrightarrow> manager_inv (abort_transaction i s)"
  by (auto simp: abort_transaction_def intro!: manager_inv_finish split: option.split)

lemma manager_inv_adopt:
  assumes "manager_inv s" and t: "txs s i = Some t" "t_state t = Prepared" "t_snapshot t = Some sn"
    and p: "p_identity p = ft_child (t_ticket t)" "p_snapshot p = sn" "p_state p = PPending i"
      "p_request_keys p = fmempty" "p_exec_request_keys p = fmempty"
  shows "manager_inv (upd_transaction i (\<lambda>t. t\<lparr>t_snapshot := None, t_state := Adopted\<rparr>) s
           \<lparr>m_processes := fmupd (child_pid t) p (m_processes s)\<rparr>)" (is "manager_inv ?s")
proof (rule manager_invI)
  note inv = manager_invD [OF assms(1)]
  let ?t = "t\<lparr>t_snapshot := None, t_state := Adopted\<rparr>"
  have upd: "txs (upd_transaction i (\<lambda>t. t\<lparr>t_snapshot := None, t_state := Adopted\<rparr>) s) j
      = (if j = i then Some ?t else txs s j)" for j
    using t(1) by (auto simp: upd_transaction_def)
  have fresh: "procs s (child_pid t) = None" "fmlookup (m_exit_records s) (child_pid t) = None"
    using inv_fork_agrees [OF inv(2) t(1)] t(2) by (simp_all add: fork_agrees_def)
  show "inv_ids ?s" using inv(1) t(1) p
    by (auto simp: inv_ids_def upd_transaction_def split: if_splits)
  have agree: "fork_agrees ?s j u" if "txs ?s j = Some u" for j u
  proof (cases "j = i")
    case True
    with that have "u = ?t" by (simp add: upd)
    with p True show ?thesis by (simp add: fork_agrees_def)
  next
    case False
    with that have u: "txs s j = Some u" by (simp add: upd)
    then have "child_pid u \<noteq> child_pid t" using inv_fork_child_unique [OF inv(2) u t(1)] False by blast
    then have "procs ?s (child_pid u) = procs s (child_pid u)" by (simp add: upd)
    with inv_fork_agrees [OF inv(2) u] show ?thesis
      by (subst fork_agrees_frame) (simp_all add: upd_transaction_def)
  qed
  have pend: "\<exists>u. txs ?s j = Some u \<and> child_pid u = pid \<and> (t_state u = Adopted \<or> t_state u = Ready)"
    if q: "procs ?s pid = Some q" "p_state q = PPending j" for pid q j
  proof (cases "pid = child_pid t")
    case True
    with q p have "j = i" by (simp add: upd)
    with True show ?thesis by (simp add: upd)
  next
    case False
    with q have "procs s pid = Some q" by (simp add: upd)
    from inv_fork_pending [OF inv(2) this q(2)] obtain u where
      "txs s j = Some u" "child_pid u = pid" "t_state u = Adopted \<or> t_state u = Ready" by blast
    with False t(1) show ?thesis by (auto simp: upd)
  qed
  have uniq: "j = k" if "txs ?s j = Some u" "txs ?s k = Some v" "child_pid u = child_pid v" for j k u v
    using that inv_fork_child_unique [OF inv(2)] t(1) by (auto simp: upd split: if_splits)
  have par: "contains_key (m_processes ?s) (t_parent u)" if "txs ?s j = Some u" for j u
  proof -
    from that t(1) obtain u' where "txs s j = Some u'" "t_parent u' = t_parent u"
      by (auto simp: upd split: if_splits)
    then have "contains_key (m_processes s) (t_parent u)" using inv(2) unfolding inv_fork_def by metis
    then show ?thesis by (auto simp: contains_key_def)
  qed
  show "inv_fork ?s" unfolding inv_fork_def using agree pend uniq par by blast
  show "inv_keys ?s" unfolding inv_keys_def
  proof (intro allI impI)
    fix pid q
    assume q: "procs ?s pid = Some q"
    have "\<exists>u. txs ?s j = Some u \<and> t_parent u = pid" if "\<exists>u. txs s j = Some u \<and> t_parent u = pid" for j
      using that t(1) by (auto simp: upd)
    moreover have "m_exec_transactions ?s = m_exec_transactions s" by (simp add: upd_transaction_def)
    ultimately show "(\<forall>k i. fmlookup (p_request_keys q) k = Some i \<longrightarrow> (\<exists>t. txs ?s i = Some t \<and> t_parent t = pid)) \<and>
      (\<forall>k i. fmlookup (p_exec_request_keys q) k = Some i \<longrightarrow> (\<exists>x. execs ?s i = Some x \<and> x_process x = pid))"
      using inv(3) p q unfolding inv_keys_def
      by (cases "pid = child_pid t") (simp, auto simp: upd)
  qed
  show "inv_exec ?s" using inv(4) by (auto simp: inv_exec_def contains_key_def upd_transaction_def)
  show "inv_objects ?s" using inv(5) t p
    by (fastforce simp: inv_objects_def snapshot_closed_def upd_transaction_def split: if_splits)
  show "inv_exits ?s" using inv(6) fresh
    by (auto simp: inv_exits_def upd_transaction_def)
qed

text \<open>A root process gets the next PID, which nothing refers to yet.\<close>

lemma pid_succ: "manager_inv s \<Longrightarrow> m_next_pid s \<le> 0x7FFFFFFF \<Longrightarrow>
    m_next_pid s + 1 \<le> 0x80000000 \<and> m_next_pid s < m_next_pid s + 1"
  by (auto simp: word_le_nat_alt word_less_nat_alt unat_word_ariths)

lemma manager_inv_next_pid:
  assumes "manager_inv s" and "m_next_pid s \<le> 0x7FFFFFFF"
  shows "manager_inv (s\<lparr>m_next_pid := m_next_pid s + 1\<rparr>)"
proof -
  note succ = pid_succ [OF assms]
  then have "x < m_next_pid s + 1" if "x < m_next_pid s" for x using that by (rule_tac less_trans) auto
  then show ?thesis
    using assms(1) succ
    by (auto simp: manager_inv_def inv_parts fork_agrees_def snapshot_closed_def
        cong: transaction_state.case_cong)
qed

lemma manager_inv_root:
  assumes "manager_inv s" and "m_next_pid s \<le> 0x7FFFFFFF"
    and p: "pi_pid (p_identity p) = m_next_pid s" "p_state p = PActive"
      "sn_states (p_snapshot p) = fmempty" "p_request_keys p = fmempty" "p_exec_request_keys p = fmempty"
  shows "manager_inv (s\<lparr>m_next_pid := m_next_pid s + 1,
           m_processes := fmupd (m_next_pid s) p (m_processes s)\<rparr>)" (is "manager_inv ?s")
proof (rule manager_invI)
  let ?base = "s\<lparr>m_next_pid := m_next_pid s + 1\<rparr>"
  note inv = manager_invD [OF manager_inv_next_pid [OF assms(1,2)]]
  note succ = pid_succ [OF assms(1,2)]
  have pos: "0 < m_next_pid s" using assms(1) by (simp add: manager_inv_def inv_ids_def)
  note fresh = inv_ids_fresh_child [OF manager_invD(1) [OF assms(1)]]
  show "inv_ids ?s" using inv(1) p(1) succ pos by (auto simp: inv_ids_def)
  have agree: "fork_agrees ?s j u = fork_agrees ?base j u" if "txs s j = Some u" for j u
    using fresh [OF that] by (intro fork_agrees_frame) auto
  show "inv_fork ?s" using inv(2) p(2) agree unfolding inv_fork_def
    by (auto simp: contains_key_def)
  show "inv_keys ?s" using inv(3) p(4,5) by (auto simp: inv_keys_def)
  show "inv_exec ?s" using inv(4) by (auto simp: inv_exec_def contains_key_def)
  show "inv_objects ?s" using inv(5) p(3) by (auto simp: inv_objects_def snapshot_closed_def)
  have "pid < m_next_pid s" if "fmlookup (m_exit_records s) pid = Some st" for pid st
    using assms(1) that by (auto simp: manager_inv_def inv_exits_def)
  then have "fmlookup (m_exit_records s) (m_next_pid s) = None"
    by (meson less_irrefl not_Some_eq)
  then show "inv_exits ?s" using inv(6) by (auto simp: inv_exits_def)
qed

text \<open>A new fork transaction: a fresh id, a fresh child PID, a closed snapshot.\<close>

lemma manager_inv_new_transaction:
  assumes "manager_inv s" and "m_next_transaction s \<noteq> - 1"
    and t: "ft_transaction (t_ticket t) = m_next_transaction s" "t_parent t = pid" "t_state t = Prepared"
      "t_snapshot t = Some sn" "snapshot_closed s sn"
    and child: "child_pid t < m_next_pid s" "0 < child_pid t" "procs s (child_pid t) = None"
      "fmlookup (m_exit_records s) (child_pid t) = None"
      "\<And>i u. txs s i = Some u \<Longrightarrow> child_pid u \<noteq> child_pid t"
    and p: "procs s pid = Some p"
  shows "manager_inv (upd_process pid (p_request_keys_update (fmupd key (m_next_transaction s)))
           (s\<lparr>m_next_transaction := m_next_transaction s + 1,
              m_transactions := fmupd (m_next_transaction s) t (m_transactions s)\<rparr>))" (is "manager_inv ?s")
proof (rule manager_invI)
  note inv = manager_invD [OF assms(1)]
  let ?n = "m_next_transaction s"
  note new = inv_ids_fresh_transaction [OF inv(1)]
  have upd: "txs ?s j = (if j = ?n then Some t else txs s j)"
    "procs ?s q = (if q = pid then Some (p\<lparr>p_request_keys := fmupd key ?n (p_request_keys p)\<rparr>) else procs s q)"
    for j q using p by (auto simp: upd_process_def)
  have st: "(procs ?s q = None) = (procs s q = None)" for q using p by (auto simp: upd)
  show "inv_ids ?s" using inv(1) assms(2) t(1) child(1,2) new
    by (auto simp: inv_ids_def upd_process_def less_succ_iff_word split: if_splits)
  have same: "fork_agrees ?s j u = fork_agrees s j u" for j u
    using p by (auto simp: fork_agrees_def upd_process_def split: transaction_state.split)
  have "fork_agrees s ?n t" using t child(3,4) by (simp add: fork_agrees_def)
  have "\<exists>u. txs ?s j = Some u \<and> child_pid u = q \<and> (t_state u = Adopted \<or> t_state u = Ready)"
    if q: "procs ?s q = Some p'" "p_state p' = PPending j" for q p' j
  proof -
    from q p obtain p'' where "procs s q = Some p''" "p_state p'' = PPending j"
      by (auto simp: upd split: if_splits)
    from inv_fork_pending [OF inv(2) this] obtain u where
      "txs s j = Some u" "child_pid u = q" "t_state u = Adopted \<or> t_state u = Ready" by blast
    moreover from this(1) new have "j \<noteq> ?n" by auto
    ultimately show ?thesis by (simp add: upd(1))
  qed
  moreover have "j = k" if "txs ?s j = Some u" "txs ?s k = Some v" "child_pid u = child_pid v" for j k u v
  proof -
    have j: "if j = ?n then u = t else txs s j = Some u" using that(1) unfolding upd(1) by (auto split: if_splits)
    have k: "if k = ?n then v = t else txs s k = Some v" using that(2) unfolding upd(1) by (auto split: if_splits)
    show "j = k" using j k child(5) inv_fork_child_unique [OF inv(2)] that(3) by metis
  qed
  moreover have "contains_key (m_processes ?s) (t_parent u) \<and> fork_agrees s j u" if "txs ?s j = Some u" for j u
    using that inv(2) t(2) p \<open>fork_agrees s ?n t\<close> unfolding inv_fork_def contains_key_def st
    by (auto simp: upd split: if_splits)
  ultimately show "inv_fork ?s" unfolding inv_fork_def same by blast
  show "inv_keys ?s" unfolding inv_keys_def
  proof (intro allI impI)
    fix q p'
    assume q: "procs ?s q = Some p'"
    have "\<exists>u. txs ?s j = Some u \<and> t_parent u = q" if "\<exists>u. txs s j = Some u \<and> t_parent u = q" for j
      using that new by (auto simp: upd)
    moreover have "txs ?s ?n = Some t" by (simp add: upd)
    moreover have "m_exec_transactions ?s = m_exec_transactions s" by (simp add: upd_process_def)
    ultimately show "(\<forall>k i. fmlookup (p_request_keys p') k = Some i \<longrightarrow> (\<exists>t. txs ?s i = Some t \<and> t_parent t = q)) \<and>
      (\<forall>k i. fmlookup (p_exec_request_keys p') k = Some i \<longrightarrow> (\<exists>x. execs ?s i = Some x \<and> x_process x = q))"
      using inv(3) p q t(2) unfolding inv_keys_def upd(2) by (auto split: if_splits)
  qed
  show "inv_exec ?s" using inv(4) p by (auto simp: inv_exec_def contains_key_def upd_process_def)
  show "inv_objects ?s" using inv(5) t(4,5) p
    by (auto simp: inv_objects_def snapshot_closed_def upd_process_def split: if_splits)
  show "inv_exits ?s" using inv(6) by (auto simp: inv_exits_def upd_process_def)
qed

lemma manager_inv_new_exec:
  assumes "manager_inv s" and "m_next_transaction s \<noteq> - 1"
    and p: "procs s pid = Some p" and x: "x_process x = pid"
  shows "manager_inv (upd_process pid (p_exec_request_keys_update (fmupd key (m_next_transaction s)))
           (s\<lparr>m_next_transaction := m_next_transaction s + 1,
              m_exec_transactions := fmupd (m_next_transaction s) x (m_exec_transactions s)\<rparr>))" (is "manager_inv ?s")
proof (rule manager_invI)
  note inv = manager_invD [OF assms(1)]
  let ?n = "m_next_transaction s"
  note new = inv_ids_fresh_transaction [OF inv(1)]
  show "inv_ids ?s" using inv(1) assms(2) new
    by (auto simp: inv_ids_def upd_process_def less_succ_iff_word split: if_splits)
  have same: "fork_agrees ?s j u = fork_agrees s j u" for j u
    using p by (auto simp: fork_agrees_def upd_process_def split: transaction_state.split)
  show "inv_fork ?s" using inv(2) p unfolding inv_fork_def same
    by (auto simp: upd_process_def contains_key_def split: if_splits)
  show "inv_keys ?s" using inv(3) p x new unfolding inv_keys_def
    by (fastforce simp: upd_process_def split: if_splits)
  show "inv_exec ?s" using inv(4) p x by (auto simp: inv_exec_def contains_key_def upd_process_def split: if_splits)
  show "inv_objects ?s" using inv(5) p
    by (auto simp: inv_objects_def snapshot_closed_def upd_process_def split: if_splits)
  show "inv_exits ?s" using inv(6) by (auto simp: inv_exits_def upd_process_def)
qed

section \<open>Forgetting transactions\<close>

text \<open>
  Acknowledgement and image replacement drop finished transactions of one process,
  together with the replay keys that name them.
\<close>

lemma manager_inv_prune:
  assumes "manager_inv s"
    and T: "\<And>i t. fmlookup T i = Some t \<Longrightarrow> txs s i = Some t"
      "\<And>i t. txs s i = Some t \<Longrightarrow> fmlookup T i = None \<Longrightarrow> t_parent t = pid \<and> terminal (t_state t)"
    and X: "\<And>i x. fmlookup X i = Some x \<Longrightarrow> execs s i = Some x"
      "\<And>i x. execs s i = Some x \<Longrightarrow> fmlookup X i = None \<Longrightarrow> x_process x = pid"
    and f: "\<And>p. p_identity (f p) = p_identity p" "\<And>p. p_state (f p) = p_state p"
      "\<And>p. p_snapshot (f p) = p_snapshot p"
      "\<And>p k i. procs s pid = Some p \<Longrightarrow> fmlookup (p_request_keys (f p)) k = Some i \<Longrightarrow>
         fmlookup (p_request_keys p) k = Some i \<and> contains_key T i"
      "\<And>p k i. procs s pid = Some p \<Longrightarrow> fmlookup (p_exec_request_keys (f p)) k = Some i \<Longrightarrow>
         fmlookup (p_exec_request_keys p) k = Some i \<and> contains_key X i"
  shows "manager_inv (upd_process pid f (s\<lparr>m_transactions := T, m_exec_transactions := X\<rparr>))" (is "manager_inv ?s")
proof (rule manager_invI)
  note inv = manager_invD [OF assms(1)]
  have upd: "m_transactions ?s = T" "m_exec_transactions ?s = X"
    "procs ?s q = (if q = pid then map_option f (procs s pid) else procs s q)" for q
    by (simp_all add: upd_process_def)
  have none: "procs ?s q = None \<longleftrightarrow> procs s q = None" for q by (simp add: upd)
  have st: "\<exists>p. procs s q = Some p \<and> p_identity p' = p_identity p \<and> p_state p' = p_state p \<and> p_snapshot p' = p_snapshot p"
    if "procs ?s q = Some p'" for q p'
    using that f(1-3) by (auto simp: upd split: if_splits)
  have gone: "fmlookup X i = None" if "execs s i = None" for i using that X(1) by (cases "fmlookup X i") auto
  have goneT: "fmlookup T i = None" if "txs s i = None" for i using that T(1) by (cases "fmlookup T i") auto
  have ids: "pi_pid (p_identity p) = q \<and> 0 < q \<and> q < m_next_pid s" if "procs ?s q = Some p" for p q
    using st [OF that] inv_ids_process [OF inv(1)] by fastforce
  have "i < m_next_transaction s \<and> ft_transaction (t_ticket t) = i \<and> 0 < child_pid t \<and> child_pid t < m_next_pid s"
    if "fmlookup T i = Some t" for i t using inv_ids_transaction [OF inv(1) T(1) [OF that]] .
  moreover have "i < m_next_transaction s \<and> fmlookup T i = None" if "fmlookup X i = Some x" for i x
    using inv_ids_exec [OF inv(1) X(1) [OF that]] goneT by blast
  ultimately show "inv_ids ?s" unfolding inv_ids_def upd(1,2)
    using inv(1) ids by (simp add: inv_ids_def upd_process_def)
  have agree: "fork_agrees ?s i t = fork_agrees s i t" for i t
    using f(2) by (auto simp: fork_agrees_def upd_process_def split: transaction_state.split)
  have pend: "\<exists>t. fmlookup T i = Some t \<and> child_pid t = q \<and> (t_state t = Adopted \<or> t_state t = Ready)"
    if "procs ?s q = Some p" "p_state p = PPending i" for q p i
  proof -
    from st [OF that(1)] that(2) obtain p' where "procs s q = Some p'" "p_state p' = PPending i" by auto
    from inv_fork_pending [OF inv(2) this] obtain t where
      t: "txs s i = Some t" "child_pid t = q" "t_state t = Adopted \<or> t_state t = Ready" by blast
    with T have "fmlookup T i = Some t" by (cases "fmlookup T i") (fastforce simp: terminal_def)+
    with t show ?thesis by blast
  qed
  have "i = j" if "fmlookup T i = Some t" "fmlookup T j = Some u" "child_pid t = child_pid u" for i j t u
    using inv_fork_child_unique [OF inv(2) T(1) [OF that(1)] T(1) [OF that(2)] that(3)] .
  moreover have "fork_agrees s i t \<and> procs s (t_parent t) \<noteq> None" if "fmlookup T i = Some t" for i t
    using inv(2) T(1) [OF that] by (simp add: inv_fork_def contains_key_def)
  ultimately show "inv_fork ?s" unfolding inv_fork_def upd(1) agree contains_key_def none
    using pend by blast
  show "inv_keys ?s" unfolding inv_keys_def upd(1,2)
  proof (intro allI impI)
    fix q p'
    assume q: "procs ?s q = Some p'"
    have keep: "\<exists>t. fmlookup T i = Some t \<and> t_parent t = q"
      if "txs s i = Some t" "t_parent t = q" "q \<noteq> pid \<or> contains_key T i" for i t
      using that T by (cases "fmlookup T i") (auto simp: contains_key_def)
    have keepX: "\<exists>x. fmlookup X i = Some x \<and> x_process x = q"
      if "execs s i = Some x" "x_process x = q" "q \<noteq> pid \<or> contains_key X i" for i x
      using that X by (cases "fmlookup X i") (auto simp: contains_key_def)
    have "\<exists>p. procs s q = Some p
        \<and> (\<forall>k i. fmlookup (p_request_keys p') k = Some i \<longrightarrow>
              fmlookup (p_request_keys p) k = Some i \<and> (q \<noteq> pid \<or> contains_key T i))
        \<and> (\<forall>k i. fmlookup (p_exec_request_keys p') k = Some i \<longrightarrow>
              fmlookup (p_exec_request_keys p) k = Some i \<and> (q \<noteq> pid \<or> contains_key X i))"
      using q f(4,5) by (auto simp: upd split: if_splits)
    then obtain p where p: "procs s q = Some p"
      and k: "\<forall>k i. fmlookup (p_request_keys p') k = Some i \<longrightarrow>
              fmlookup (p_request_keys p) k = Some i \<and> (q \<noteq> pid \<or> contains_key T i)"
      and kx: "\<forall>k i. fmlookup (p_exec_request_keys p') k = Some i \<longrightarrow>
              fmlookup (p_exec_request_keys p) k = Some i \<and> (q \<noteq> pid \<or> contains_key X i)" by blast
    have old: "\<exists>t. txs s i = Some t \<and> t_parent t = q" if "fmlookup (p_request_keys p) k = Some i" for k i
      using inv(3) p that unfolding inv_keys_def by blast
    have oldX: "\<exists>x. execs s i = Some x \<and> x_process x = q" if "fmlookup (p_exec_request_keys p) k = Some i" for k i
      using inv(3) p that unfolding inv_keys_def by blast
    show "(\<forall>k i. fmlookup (p_request_keys p') k = Some i \<longrightarrow> (\<exists>t. fmlookup T i = Some t \<and> t_parent t = q)) \<and>
      (\<forall>k i. fmlookup (p_exec_request_keys p') k = Some i \<longrightarrow> (\<exists>x. fmlookup X i = Some x \<and> x_process x = q))"
      using k kx old oldX keep keepX by blast
  qed
  show "inv_exec ?s" unfolding inv_exec_def upd(2) contains_key_def none
    using inv(4) X(1) unfolding inv_exec_def contains_key_def by blast
  have closed: "snapshot_closed ?s sn = snapshot_closed s sn" for sn
    by (simp add: snapshot_closed_def upd_process_def)
  show "inv_objects ?s" unfolding inv_objects_def upd(1) closed
    using inv(5) st T(1) unfolding inv_objects_def by metis
  show "inv_exits ?s" unfolding inv_exits_def none using inv(6) by (simp add: inv_exits_def upd_process_def)
qed

section \<open>Reaping a process\<close>

definition aborted_tx :: "transaction \<Rightarrow> transaction" where
  "aborted_tx t = (if terminal (t_state t) then t else t\<lparr>t_state := TAborted, t_snapshot := None\<rparr>)"

lemma aborted_tx_simps [simp]:
  "t_parent (aborted_tx t) = t_parent t" "t_ticket (aborted_tx t) = t_ticket t"
  "terminal (t_state (aborted_tx t))" "aborted_tx (aborted_tx t) = aborted_tx t"
  "terminal (t_state t) \<Longrightarrow> aborted_tx t = t"
  by (simp_all add: aborted_tx_def terminal_def)

lemma txs_abort_transaction:
  "txs (abort_transaction i s) j = (if j = i then map_option aborted_tx (txs s j) else txs s j)"
  by (auto simp: abort_transaction_def aborted_tx_def upd_defs split: option.split)

lemma txs_fold_abort:
  "txs (fold abort_transaction is s) j = (if j \<in> set is then map_option aborted_tx (txs s j) else txs s j)"
  by (induction "is" arbitrary: s) (auto simp: txs_abort_transaction option.map_comp comp_def)

lemma abort_pending_for_terminal:
  "txs (abort_pending_for pid s) j = Some t \<Longrightarrow> t_parent t = pid \<or> child_pid t = pid \<Longrightarrow> terminal (t_state t)"
proof -
  assume t: "txs (abort_pending_for pid s) j = Some t" and o: "t_parent t = pid \<or> child_pid t = pid"
  let ?is = "bt_keys_where (\<lambda>t. (t_parent t = pid \<or> child_pid t = pid) \<and> \<not> terminal (t_state t)) (m_transactions s)"
  show ?thesis
  proof (cases "j \<in> set ?is")
    case True
    with t show ?thesis by (auto simp: abort_pending_for_def txs_fold_abort)
  next
    case False
    with t have "txs s j = Some t" by (simp add: abort_pending_for_def txs_fold_abort)
    with False o show ?thesis by (simp add: set_bt_keys_where)
  qed
qed

lemma abort_exec_frame [frame_simps]:
  "m_transactions (abort_exec_transaction i s) = m_transactions s"
  "m_processes (abort_exec_transaction i s) = m_processes s"
  "m_exit_records (abort_exec_transaction i s) = m_exit_records s"
  "m_exit_order (abort_exec_transaction i s) = m_exit_order s"
  "m_limits (abort_exec_transaction i s) = m_limits s"
  by (simp_all add: abort_exec_transaction_def upd_defs split: option.split)

lemma fold_abort_exec_frame [frame_simps]:
  "m_transactions (fold abort_exec_transaction is s) = m_transactions s"
  "m_processes (fold abort_exec_transaction is s) = m_processes s"
  "m_exit_records (fold abort_exec_transaction is s) = m_exit_records s"
  "m_exit_order (fold abort_exec_transaction is s) = m_exit_order s"
  "m_limits (fold abort_exec_transaction is s) = m_limits s"
  by (induction "is" arbitrary: s) (simp_all add: frame_simps)

lemma manager_inv_abort_exec: "manager_inv s \<Longrightarrow> manager_inv (abort_exec_transaction i s)"
  by (auto simp: abort_exec_transaction_def intro!: manager_inv_upd_exec split: option.split)

lemma manager_inv_fold:
  "(\<And>i s. manager_inv s \<Longrightarrow> manager_inv (f i s)) \<Longrightarrow> manager_inv s \<Longrightarrow> manager_inv (fold f is s)"
  by (induction "is" arbitrary: s) auto

lemma manager_inv_abort_pending: "manager_inv s \<Longrightarrow> manager_inv (abort_pending_for pid s)"
  unfolding abort_pending_for_def by (rule manager_inv_fold [OF manager_inv_abort_transaction])

lemma manager_inv_abort_pending_exec: "manager_inv s \<Longrightarrow> manager_inv (abort_pending_exec_for pid s)"
  unfolding abort_pending_exec_for_def by (rule manager_inv_fold [OF manager_inv_abort_exec])

text \<open>Eviction finds a retention entry for every record it has to drop.\<close>

lemma evict_exits_total:
  assumes "\<And>k v. fmlookup recs k = Some v \<Longrightarrow> k \<in> set order" and "0 < cap"
  shows "\<exists>recs' order'. evict_exits cap recs order = Some (recs', order') \<and> bt_len recs' < cap
    \<and> (\<forall>k v. fmlookup recs' k = Some v \<longrightarrow> fmlookup recs k = Some v \<and> k \<in> set order')"
  using assms
proof (induction order arbitrary: recs)
  case Nil
  have "fmlookup recs k = None" for k using Nil(1) [of k] by (cases "fmlookup recs k") simp_all
  then have "recs = fmempty" by (intro fmap_ext) simp
  with Nil(2) show ?case by (subst evict_exits.simps) simp
next
  case (Cons e order)
  show ?case
  proof (cases "bt_len recs \<ge> cap")
    case True
    have "\<And>k v. fmlookup (fmdrop e recs) k = Some v \<Longrightarrow> k \<in> set order"
      using Cons.prems(1) by (auto split: if_splits)
    from Cons.IH [OF this \<open>0 < cap\<close>] True show ?thesis
      by (subst evict_exits.simps) (fastforce split: if_splits)
  next
    case False
    with Cons.prems show ?thesis by (subst evict_exits.simps) auto
  qed
qed

lemma record_exit_total:
  assumes "inv_exits s"
  shows "\<exists>recs order. record_exit pid status s = Some (s\<lparr>m_exit_records := recs, m_exit_order := order\<rparr>)
    \<and> (\<forall>k v. fmlookup recs k = Some v \<longrightarrow> (k = pid \<or> fmlookup (m_exit_records s) k = Some v) \<and> k \<in> set order)"
proof (cases "max_exit_records (m_limits s) = 0")
  case True
  have "s = s\<lparr>m_exit_records := m_exit_records s, m_exit_order := m_exit_order s\<rparr>" by simp
  with True assms show ?thesis unfolding inv_exits_def
    by (intro exI [of _ "m_exit_records s"] exI [of _ "m_exit_order s"]) (auto simp: record_exit_def)
next
  case False
  obtain recs order where
    "evict_exits (max_exit_records (m_limits s)) (m_exit_records s) (m_exit_order s) = Some (recs, order)"
    "\<forall>k v. fmlookup recs k = Some v \<longrightarrow> fmlookup (m_exit_records s) k = Some v \<and> k \<in> set order"
    using evict_exits_total [of "m_exit_records s" "m_exit_order s" "max_exit_records (m_limits s)"]
      assms False by (auto simp: inv_exits_def)
  with False show ?thesis
    by (intro exI [of _ "fmupd pid status recs"] exI [of _ "order @ [pid]"])
      (auto simp: record_exit_def)
qed

text \<open>The process, its transactions and its exec transactions go; its exit record may be new.\<close>

lemma manager_inv_remove_process:
  assumes "manager_inv s" and p: "procs s pid = Some p"
    and fin: "\<And>i t. txs s i = Some t \<Longrightarrow> t_parent t = pid \<or> child_pid t = pid \<Longrightarrow> terminal (t_state t)"
    and recs: "\<And>k v. fmlookup recs k = Some v \<Longrightarrow>
      (k = pid \<or> fmlookup (m_exit_records s) k = Some v) \<and> k \<in> set order"
  shows "manager_inv (s\<lparr>m_processes := fmdrop pid (m_processes s), m_exit_records := recs, m_exit_order := order,
     m_transactions := bt_retain (\<lambda>_ t. t_parent t \<noteq> pid) (m_transactions s),
     m_exec_transactions := bt_retain (\<lambda>_ t. x_process t \<noteq> pid) (m_exec_transactions s)\<rparr>)" (is "manager_inv ?s")
proof (rule manager_invI)
  note inv = manager_invD [OF assms(1)]
  have T: "txs ?s i = Some t \<longleftrightarrow> txs s i = Some t \<and> t_parent t \<noteq> pid" for i t
    by (auto split: option.split)
  have X: "execs ?s i = Some x \<longleftrightarrow> execs s i = Some x \<and> x_process x \<noteq> pid" for i x
    by (auto split: option.split)
  have P: "procs ?s q = (if q = pid then None else procs s q)" for q by simp
  show "inv_ids ?s" unfolding inv_ids_def T X P using inv(1) unfolding inv_ids_def
    by (auto split: if_splits)
  have agree: "fork_agrees ?s i t" if "txs ?s i = Some t" for i t
  proof -
    have t: "txs s i = Some t" using that T by blast
    have a: "fork_agrees s i t" by (rule inv_fork_agrees [OF inv(2) t])
    show ?thesis
    proof (cases "child_pid t = pid")
      case True
      with fin [OF t] a show ?thesis by (auto simp: fork_agrees_def terminal_def)
    next
      case False
      have "fmlookup recs (child_pid t) = None" if "fmlookup (m_exit_records s) (child_pid t) = None"
        using recs [of "child_pid t"] False that by (cases "fmlookup recs (child_pid t)") auto
      with a False show ?thesis by (simp add: fork_agrees_def split: transaction_state.splits)
    qed
  qed
  have pend: "\<exists>t. txs ?s i = Some t \<and> child_pid t = q \<and> (t_state t = Adopted \<or> t_state t = Ready)"
    if "procs ?s q = Some p'" "p_state p' = PPending i" for q p' i
  proof -
    from that have "procs s q = Some p'" by (simp split: if_splits)
    from inv_fork_pending [OF inv(2) this that(2)] obtain t where
      t: "txs s i = Some t" "child_pid t = q" "t_state t = Adopted \<or> t_state t = Ready" by blast
    with fin [OF t(1)] have "t_parent t \<noteq> pid" by (auto simp: terminal_def)
    with t T show ?thesis by blast
  qed
  have uniq: "i = j" if "txs ?s i = Some t" "txs ?s j = Some u" "child_pid t = child_pid u" for i j t u
    using that inv_fork_child_unique [OF inv(2)] unfolding T by blast
  have par: "contains_key (m_processes ?s) (t_parent t)" if "txs ?s i = Some t" for i t
    using that inv(2) unfolding T inv_fork_def by (auto simp: contains_key_def)
  show "inv_fork ?s" unfolding inv_fork_def using agree pend uniq par by blast
  show "inv_keys ?s" unfolding inv_keys_def T X P using inv(3) unfolding inv_keys_def
    by (metis option.distinct(1))
  show "inv_exec ?s" unfolding inv_exec_def X using inv(4) by (auto simp: inv_exec_def contains_key_def)
  have closed: "snapshot_closed ?s sn = snapshot_closed s sn" for sn by (simp add: snapshot_closed_def)
  show "inv_objects ?s" unfolding inv_objects_def T P closed using inv(5) unfolding inv_objects_def
    by (metis option.distinct(1))
  have "pid < m_next_pid s" using inv_ids_process [OF inv(1) p] by simp
  moreover have "k \<in> set order \<and> (k = pid \<or> k < m_next_pid s \<and> procs s k = None)" if "fmlookup recs k = Some v" for k v
    using recs [OF that] inv(6) unfolding inv_exits_def by blast
  ultimately show "inv_exits ?s" unfolding inv_exits_def P by auto
qed

lemma reparent_ticket_simps [simp]:
  "t_parent (reparent_ticket pid t) = t_parent t" "t_state (reparent_ticket pid t) = t_state t"
  "t_snapshot (reparent_ticket pid t) = t_snapshot t" "child_pid (reparent_ticket pid t) = child_pid t"
  "ft_transaction (t_ticket (reparent_ticket pid t)) = ft_transaction (t_ticket t)"
  "ft_token (t_ticket (reparent_ticket pid t)) = ft_token (t_ticket t)"
  by (simp_all add: reparent_ticket_def)

lemma manager_inv_reparent_tickets:
  assumes "manager_inv s"
  shows "manager_inv (s\<lparr>m_transactions := fmmap (reparent_ticket pid) (m_transactions s)\<rparr>)" (is "manager_inv ?s")
proof (rule manager_invI)
  note inv = manager_invD [OF assms]
  have agree: "fork_agrees ?s i (reparent_ticket pid t) = fork_agrees s i t" for i t
    by (simp add: fork_agrees_def cong: transaction_state.case_cong)
  have T: "txs ?s i = Some u \<longleftrightarrow> (\<exists>t. txs s i = Some t \<and> u = reparent_ticket pid t)" for i u by auto
  show "inv_ids ?s" using inv(1) by (auto simp: inv_ids_def)
  show "inv_fork ?s" unfolding inv_fork_def T using inv(2) agree unfolding inv_fork_def
    by (fastforce intro: exI)
  show "inv_keys ?s" unfolding inv_keys_def T using inv(3) unfolding inv_keys_def by fastforce
  show "inv_exec ?s" "inv_exits ?s" using inv(4,6) by (simp_all add: inv_exec_def inv_exits_def)
  show "inv_objects ?s" using inv(5) by (auto simp: inv_objects_def snapshot_closed_def)
qed

lemma retain_reparent:
  "bt_retain (\<lambda>_ t. t_parent t \<noteq> pid) (fmmap (reparent_ticket pid) m)
     = fmmap (reparent_ticket pid) (bt_retain (\<lambda>_ t. t_parent t \<noteq> pid) m)"
  by (rule fmap_ext) (auto split: option.split)

lemma procs_abort_transaction: "procs (abort_transaction i s) pid = None \<longleftrightarrow> procs s pid = None"
  by (simp add: abort_transaction_def upd_defs split: option.split)

lemma procs_abort_pending: "procs (abort_pending_for pid s) q = None \<longleftrightarrow> procs s q = None"
proof -
  have "procs (fold abort_transaction is s) q = None \<longleftrightarrow> procs s q = None" for "is"
    by (induction "is" arbitrary: s) (simp_all add: procs_abort_transaction)
  then show ?thesis by (simp add: abort_pending_for_def)
qed

lemma reap_pid_inv:
  assumes "manager_inv s" and "procs s pid = Some p"
  shows "\<exists>s'. reap_pid status pid s = Some s' \<and> manager_inv s' \<and> (\<forall>q. procs s' q = None \<longleftrightarrow> q = pid \<or> procs s q = None)"
proof -
  let ?s1 = "abort_pending_exec_for pid (abort_pending_for pid s)"
  have inv1: "manager_inv ?s1" by (intro manager_inv_abort_pending manager_inv_abort_pending_exec assms(1))
  have frame: "m_transactions ?s1 = m_transactions (abort_pending_for pid s)"
    "m_processes ?s1 = m_processes (abort_pending_for pid s)"
    by (simp_all add: abort_pending_exec_for_def frame_simps)
  have none: "procs ?s1 q = None \<longleftrightarrow> procs s q = None" for q
    by (simp add: frame procs_abort_pending)
  then obtain p1 where p1: "procs ?s1 pid = Some p1" using assms(2) by (metis not_None_eq option.distinct(1))
  have fin: "terminal (t_state t)" if "txs ?s1 i = Some t" "t_parent t = pid \<or> child_pid t = pid" for i t
    using abort_pending_for_terminal that unfolding frame by blast
  have "inv_exits (?s1\<lparr>m_processes := fmdrop pid (m_processes ?s1)\<rparr>)"
    using manager_invD(6) [OF inv1] by (simp add: inv_exits_def)
  from record_exit_total [OF this, of pid status] obtain recs order where
    rec: "record_exit pid status (?s1\<lparr>m_processes := fmdrop pid (m_processes ?s1)\<rparr>)
      = Some (?s1\<lparr>m_processes := fmdrop pid (m_processes ?s1), m_exit_records := recs, m_exit_order := order\<rparr>)"
    and recs: "\<And>k v. fmlookup recs k = Some v \<Longrightarrow> (k = pid \<or> fmlookup (m_exit_records ?s1) k = Some v) \<and> k \<in> set order"
    by auto
  let ?s2 = "?s1\<lparr>m_processes := fmdrop pid (m_processes ?s1), m_exit_records := recs, m_exit_order := order,
     m_transactions := bt_retain (\<lambda>_ t. t_parent t \<noteq> pid) (m_transactions ?s1),
     m_exec_transactions := bt_retain (\<lambda>_ t. x_process t \<noteq> pid) (m_exec_transactions ?s1)\<rparr>"
  let ?s3 = "?s2\<lparr>m_processes := fmmap (reparent_process pid) (m_processes ?s2)\<rparr>"
  let ?s4 = "?s3\<lparr>m_transactions := fmmap (reparent_ticket pid) (m_transactions ?s3)\<rparr>"
  have "manager_inv ?s2" by (rule manager_inv_remove_process [OF inv1 p1]) (fact fin, fact recs)
  then have "manager_inv ?s4" by (intro manager_inv_reparent_tickets manager_inv_map_processes benign_simps)
  moreover have "reap_pid status pid s = Some ?s4"
    by (simp add: reap_pid_def Let_def rec retain_reparent)
  moreover have "procs ?s4 q = None \<longleftrightarrow> q = pid \<or> procs s q = None" for q
    using none by simp
  ultimately show ?thesis by blast
qed

lemma reap_pids_inv:
  assumes "manager_inv s" and "distinct pids" and "\<And>pid. pid \<in> set pids \<Longrightarrow> procs s pid \<noteq> None"
  shows "\<exists>s'. reap_pids status pids s = Some s' \<and> manager_inv s'"
  using assms
proof (induction pids arbitrary: s)
  case Nil
  then show ?case by simp
next
  case (Cons pid pids)
  then obtain p where "procs s pid = Some p" by fastforce
  from reap_pid_inv [OF Cons.prems(1) this] obtain s' where
    "reap_pid status pid s = Some s'" "manager_inv s'" "\<And>q. procs s' q = None \<longleftrightarrow> q = pid \<or> procs s q = None"
    by blast
  note s' = this
  have "procs s' q \<noteq> None" if "q \<in> set pids" for q
    using that Cons.prems(2,3) s'(3) [of q] by auto
  with Cons.IH [OF s'(2)] Cons.prems(2) obtain s'' where "reap_pids status pids s' = Some s''" "manager_inv s''"
    by auto
  with s'(1) show ?case by simp
qed

end
