(* ===== verification/Manager_Order.thy ===== *)
theory Manager_Order
  imports Manager_Inv
begin

text \<open>
  The direction of time of the process manager: a preorder on its states that every
  operation follows. Counters only grow, a transaction or a process that is gone does
  not come back, a fork or exec transaction moves only forward through its states, and
  a process never leaves the active or the aborted state.
\<close>

fun tx_progress :: "transaction_state \<Rightarrow> transaction_state \<Rightarrow> bool" where
  "tx_progress Prepared b = True"
| "tx_progress Adopted b = (b \<noteq> Prepared)"
| "tx_progress Ready b = (b \<noteq> Prepared \<and> b \<noteq> Adopted)"
| "tx_progress Committed b = (b = Committed)"
| "tx_progress TAborted b = (b = TAborted)"

lemma tx_progress_refl [simp]: "tx_progress a a" by (cases a) simp_all

lemma tx_progress_trans: "tx_progress a b \<Longrightarrow> tx_progress b c \<Longrightarrow> tx_progress a c"
  by (cases a; cases b) (auto elim: tx_progress.elims)

lemma tx_progress_Prepared: "tx_progress a Prepared \<longleftrightarrow> a = Prepared" by (cases a) simp_all

lemma tx_progress_abort [simp]: "\<not> terminal a \<Longrightarrow> tx_progress a TAborted" by (cases a) (simp_all add: terminal_def)

fun proc_progress :: "process_state \<Rightarrow> process_state \<Rightarrow> bool" where
  "proc_progress (PPending i) q = True"
| "proc_progress PActive q = (q = PActive)"
| "proc_progress PAborted q = (q = PAborted)"

lemma proc_progress_refl [simp]: "proc_progress a a" by (cases a) simp_all

lemma proc_progress_trans: "proc_progress a b \<Longrightarrow> proc_progress b c \<Longrightarrow> proc_progress a c"
  by (cases a; cases b) auto

definition same_config :: "manager \<Rightarrow> manager \<Rightarrow> bool" where
  "same_config s s' \<longleftrightarrow> m_epoch s' = m_epoch s \<and> m_token s' = m_token s \<and> m_limits s' = m_limits s
     \<and> m_single_root s' = m_single_root s \<and> (m_shutdown_requested s \<longrightarrow> m_shutdown_requested s')"

definition counters_le :: "manager \<Rightarrow> manager \<Rightarrow> bool" where
  "counters_le s s' \<longleftrightarrow> m_next_pid s \<le> m_next_pid s' \<and> m_next_transaction s \<le> m_next_transaction s'
     \<and> m_next_client s \<le> m_next_client s' \<and> m_next_object s \<le> m_next_object s'"

definition forks_le :: "manager \<Rightarrow> manager \<Rightarrow> bool" where
  "forks_le s s' \<longleftrightarrow>
     (\<forall>i u. txs s' i = Some u \<longrightarrow>
        (if i < m_next_transaction s
         then \<exists>t. txs s i = Some t \<and> t_parent u = t_parent t \<and> child_pid u = child_pid t
                \<and> ft_token (t_ticket u) = ft_token (t_ticket t) \<and> tx_progress (t_state t) (t_state u)
         else m_next_pid s \<le> child_pid u))"

definition execs_le :: "manager \<Rightarrow> manager \<Rightarrow> bool" where
  "execs_le s s' \<longleftrightarrow>
     (\<forall>i y. execs s' i = Some y \<longrightarrow> i < m_next_transaction s \<longrightarrow>
        (\<exists>x. execs s i = Some x \<and> x_process y = x_process x \<and> x_target y = x_target x
           \<and> x_owner y = x_owner x \<and> tx_progress (x_state x) (x_state y)))"

definition processes_le :: "manager \<Rightarrow> manager \<Rightarrow> bool" where
  "processes_le s s' \<longleftrightarrow>
     (\<forall>pid q. procs s' pid = Some q \<longrightarrow> pid < m_next_pid s \<longrightarrow>
        (\<exists>p. procs s pid = Some p \<and> proc_progress (p_state p) (p_state q))
        \<or> (\<exists>i t. txs s i = Some t \<and> i < m_next_transaction s \<and> child_pid t = pid \<and> t_state t = Prepared))"

definition manager_le :: "manager \<Rightarrow> manager \<Rightarrow> bool" where
  "manager_le s s' \<longleftrightarrow> same_config s s' \<and> counters_le s s' \<and> forks_le s s' \<and> execs_le s s' \<and> processes_le s s'"

lemmas le_parts = same_config_def counters_le_def forks_le_def execs_le_def processes_le_def

lemma manager_le_refl [simp]: "manager_inv s \<Longrightarrow> manager_le s s"
  by (auto simp: manager_le_def le_parts manager_inv_def inv_ids_def)

lemma manager_le_trans:
  assumes "manager_le s t" and "manager_le t u"
  shows "manager_le s u"
proof -
  have c: "counters_le s t" "counters_le t u" and f: "forks_le s t" "forks_le t u"
    and x: "execs_le s t" "execs_le t u" and p: "processes_le s t" "processes_le t u"
    using assms by (simp_all add: manager_le_def)
  have "same_config s u" "counters_le s u"
    using assms by (auto simp: manager_le_def same_config_def counters_le_def)
  moreover have "forks_le s u" unfolding forks_le_def
  proof (intro allI impI)
    fix i w
    assume w: "txs u i = Some w"
    show "if i < m_next_transaction s
      then \<exists>t. txs s i = Some t \<and> t_parent w = t_parent t \<and> child_pid w = child_pid t
             \<and> ft_token (t_ticket w) = ft_token (t_ticket t) \<and> tx_progress (t_state t) (t_state w)
      else m_next_pid s \<le> child_pid w"
    proof (cases "i < m_next_transaction t")
      case True
      with f(2) w obtain v where v: "txs t i = Some v" "t_parent w = t_parent v" "child_pid w = child_pid v"
        "ft_token (t_ticket w) = ft_token (t_ticket v)" "tx_progress (t_state v) (t_state w)"
        unfolding forks_le_def by (auto dest!: spec [of _ i])
      have "if i < m_next_transaction s
        then \<exists>t. txs s i = Some t \<and> t_parent v = t_parent t \<and> child_pid v = child_pid t
             \<and> ft_token (t_ticket v) = ft_token (t_ticket t) \<and> tx_progress (t_state t) (t_state v)
        else m_next_pid s \<le> child_pid v" using f(1) v(1) unfolding forks_le_def by blast
      then show ?thesis
      proof (cases "i < m_next_transaction s")
        case True
        with \<open>if _ then _ else _\<close> obtain t0 where "txs s i = Some t0" "t_parent v = t_parent t0"
          "child_pid v = child_pid t0" "ft_token (t_ticket v) = ft_token (t_ticket t0)"
          "tx_progress (t_state t0) (t_state v)" by auto
        with v(2-4) tx_progress_trans [OF this(5) v(5)] True show ?thesis by simp
      next
        case False
        with \<open>if _ then _ else _\<close> v(3) show ?thesis by simp
      qed
    next
      case False
      with f(2) w have "m_next_pid t \<le> child_pid w" unfolding forks_le_def by auto
      with c(1) False show ?thesis by (auto simp: counters_le_def)
    qed
  qed
  moreover have "execs_le s u" unfolding execs_le_def
  proof (intro allI impI)
    fix i y
    assume y: "execs u i = Some y" "i < m_next_transaction s"
    with c(1) have i: "i < m_next_transaction t" by (auto simp: counters_le_def)
    with x(2) y(1) obtain v where v: "execs t i = Some v" "x_process y = x_process v" "x_target y = x_target v"
      "x_owner y = x_owner v" "tx_progress (x_state v) (x_state y)"
      unfolding execs_le_def by blast
    from x(1) v(1) y(2) obtain z where "execs s i = Some z" "x_process v = x_process z" "x_target v = x_target z"
      "x_owner v = x_owner z" "tx_progress (x_state z) (x_state v)"
      unfolding execs_le_def by blast
    with v(2-4) tx_progress_trans [OF this(5) v(5)]
    show "\<exists>x. execs s i = Some x \<and> x_process y = x_process x \<and> x_target y = x_target x
      \<and> x_owner y = x_owner x \<and> tx_progress (x_state x) (x_state y)" by simp
  qed
  moreover have "processes_le s u" unfolding processes_le_def
  proof (intro allI impI)
    fix pid q
    assume q: "procs u pid = Some q" "pid < m_next_pid s"
    with c(1) have "pid < m_next_pid t" by (auto simp: counters_le_def)
    with p(2) q(1) consider (live) r where "procs t pid = Some r" "proc_progress (p_state r) (p_state q)"
      | (new) i v where "txs t i = Some v" "child_pid v = pid" "t_state v = Prepared"
      unfolding processes_le_def by blast
    then show "(\<exists>p. procs s pid = Some p \<and> proc_progress (p_state p) (p_state q))
      \<or> (\<exists>i t. txs s i = Some t \<and> i < m_next_transaction s \<and> child_pid t = pid \<and> t_state t = Prepared)"
    proof cases
      case live
      with p(1) q(2) have "(\<exists>p. procs s pid = Some p \<and> proc_progress (p_state p) (p_state r))
        \<or> (\<exists>i t. txs s i = Some t \<and> i < m_next_transaction s \<and> child_pid t = pid \<and> t_state t = Prepared)"
        unfolding processes_le_def by blast
      with live(2) show ?thesis using proc_progress_trans by blast
    next
      case new
      have old: "if i < m_next_transaction s
        then \<exists>t. txs s i = Some t \<and> t_parent v = t_parent t \<and> child_pid v = child_pid t
             \<and> ft_token (t_ticket v) = ft_token (t_ticket t) \<and> tx_progress (t_state t) (t_state v)
        else m_next_pid s \<le> child_pid v" using f(1) new(1) unfolding forks_le_def by blast
      with new q(2) show ?thesis by (auto simp: tx_progress_Prepared split: if_splits)
    qed
  qed
  ultimately show ?thesis by (simp add: manager_le_def)
qed

section \<open>Elementary updates\<close>

text \<open>Updates that leave the transactions alone and keep or advance the processes.\<close>

lemma manager_le_frame:
  assumes "manager_inv s" and "same_config s s'" and "counters_le s s'"
    and "m_transactions s' = m_transactions s" and "m_exec_transactions s' = m_exec_transactions s"
    and "\<And>pid q. procs s' pid = Some q \<Longrightarrow> pid < m_next_pid s \<Longrightarrow>
      \<exists>p. procs s pid = Some p \<and> proc_progress (p_state p) (p_state q)"
  shows "manager_le s s'"
  using assms by (auto simp: manager_le_def forks_le_def execs_le_def processes_le_def manager_inv_def inv_ids_def)

lemma manager_le_upd_process:
  "manager_inv s \<Longrightarrow> (\<And>p. p_state (f p) = p_state p) \<Longrightarrow> manager_le s (upd_process pid f s)"
  by (erule manager_le_frame)
    (auto simp: same_config_def counters_le_def upd_process_def split: if_splits)

lemma manager_le_map_processes:
  "manager_inv s \<Longrightarrow> (\<And>p. p_state (f p) = p_state p) \<Longrightarrow> manager_le s (s\<lparr>m_processes := fmmap f (m_processes s)\<rparr>)"
  by (erule manager_le_frame) (auto simp: same_config_def counters_le_def)

lemma manager_le_misc [simp]:
  assumes "manager_inv s"
  shows "manager_le s (s\<lparr>m_modules := ms\<rparr>)" "manager_le s (s\<lparr>m_retired_peers := rp\<rparr>)"
    "manager_le s (s\<lparr>m_shutdown_requested := True\<rparr>)" "manager_le s (upd_client c f s)"
    "manager_le s (s\<lparr>m_clients := cs\<rparr>)" "manager_le s (s\<lparr>m_objects := obs\<rparr>)" "manager_le s (collect_objects s)"
  by (rule manager_le_frame [OF assms]; auto simp: same_config_def counters_le_def upd_client_def collect_objects_def)+

lemma manager_le_new_client:
  "manager_inv s \<Longrightarrow> m_next_client s \<noteq> - 1 \<Longrightarrow>
     manager_le s (s\<lparr>m_next_client := m_next_client s + 1, m_clients := cs\<rparr>)"
  by (erule manager_le_frame) (auto simp: same_config_def counters_le_def less_imp_le less_succ_word)

lemma manager_le_add_object:
  "manager_inv s \<Longrightarrow> m_next_object s \<noteq> - 1 \<Longrightarrow>
     manager_le s (s\<lparr>m_next_object := m_next_object s + 1, m_objects := obs\<rparr>)"
  by (erule manager_le_frame) (auto simp: same_config_def counters_le_def less_imp_le less_succ_word)

lemma manager_le_next_pid:
  assumes "manager_inv s" and "m_next_pid s \<le> 0x7FFFFFFF"
  shows "manager_le s (s\<lparr>m_next_pid := m_next_pid s + 1\<rparr>)"
  using pid_succ [OF assms]
  by (intro manager_le_frame [OF assms(1)]) (auto simp: same_config_def counters_le_def)

lemma manager_le_root:
  assumes "manager_inv s" and "m_next_pid s \<le> 0x7FFFFFFF"
  shows "manager_le s (s\<lparr>m_next_pid := m_next_pid s + 1, m_processes := fmupd (m_next_pid s) p (m_processes s)\<rparr>)"
  using pid_succ [OF assms]
  by (intro manager_le_frame [OF assms(1)]) (auto simp: same_config_def counters_le_def split: if_splits)

lemma manager_le_upd_exec:
  assumes "manager_inv s"
    and "\<And>x. execs s i = Some x \<Longrightarrow> x_process (f x) = x_process x \<and> x_target (f x) = x_target x
      \<and> x_owner (f x) = x_owner x \<and> tx_progress (x_state x) (x_state (f x))"
  shows "manager_le s (upd_exec i f s)"
  using assms
  by (auto simp: manager_le_def le_parts upd_exec_def manager_inv_def inv_ids_def split: if_splits)

lemma manager_le_upd_transaction:
  assumes "manager_inv s"
    and "\<And>t. txs s i = Some t \<Longrightarrow> t_parent (f t) = t_parent t \<and> t_ticket (f t) = t_ticket t
      \<and> tx_progress (t_state t) (t_state (f t))"
  shows "manager_le s (upd_transaction i f s)"
  using assms
  by (auto simp: manager_le_def le_parts upd_transaction_def manager_inv_def inv_ids_def split: if_splits)

lemma manager_le_finish:
  assumes "manager_inv s" and t: "txs s i = Some t" "\<not> terminal (t_state t)"
    and fin: "fin = Committed \<and> t_state t = Ready \<or> fin = TAborted"
  shows "manager_le s (upd_process (child_pid t) (p_state_update (\<lambda>_. pst))
    (upd_transaction i (\<lambda>t. t\<lparr>t_state := fin, t_snapshot := None\<rparr>) s))"
proof -
  let ?s = "upd_transaction i (\<lambda>t. t\<lparr>t_state := fin, t_snapshot := None\<rparr>) s"
  have pend: "\<exists>j. p_state p = PPending j" if "procs s (child_pid t) = Some p" for p
    using inv_fork_agrees [OF manager_invD(2) [OF assms(1)] t(1)] t(2) that
    by (auto simp: fork_agrees_def terminal_def split: transaction_state.splits)
  have le: "manager_le s ?s"
    using assms by (intro manager_le_upd_transaction) (auto simp: terminal_def)
  have "processes_le s (upd_process (child_pid t) (p_state_update (\<lambda>_. pst)) ?s)"
    using pend by (force simp: processes_le_def upd_process_def upd_transaction_def split: if_splits)
  with le show ?thesis
    by (simp add: manager_le_def same_config_def counters_le_def forks_le_def execs_le_def upd_process_def)
qed

lemma manager_le_adopt:
  assumes "manager_inv s" and t: "txs s i = Some t" "t_state t = Prepared"
  shows "manager_le s (upd_transaction i (\<lambda>t. t\<lparr>t_snapshot := None, t_state := Adopted\<rparr>) s
           \<lparr>m_processes := fmupd (child_pid t) p (m_processes s)\<rparr>)"
proof -
  have le: "manager_le s (upd_transaction i (\<lambda>t. t\<lparr>t_snapshot := None, t_state := Adopted\<rparr>) s)"
    using assms by (intro manager_le_upd_transaction) auto
  have "i < m_next_transaction s" using inv_ids_transaction [OF manager_invD(1) [OF assms(1)] t(1)] by simp
  with t have "processes_le s (upd_transaction i (\<lambda>t. t\<lparr>t_snapshot := None, t_state := Adopted\<rparr>) s
           \<lparr>m_processes := fmupd (child_pid t) p (m_processes s)\<rparr>)"
    by (auto simp: processes_le_def upd_transaction_def)
  with le show ?thesis
    by (simp add: manager_le_def same_config_def counters_le_def forks_le_def execs_le_def)
qed

lemma manager_le_new_transaction:
  assumes "manager_inv s" and "m_next_transaction s \<noteq> - 1" and "m_next_pid s \<le> child_pid t"
  shows "manager_le s (upd_process pid (p_request_keys_update f)
           (s\<lparr>m_next_transaction := m_next_transaction s + 1,
              m_transactions := fmupd (m_next_transaction s) t (m_transactions s)\<rparr>))"
  using assms less_succ_word [OF assms(2)]
  by (auto simp: manager_le_def le_parts upd_process_def manager_inv_def inv_ids_def split: if_splits)

lemma manager_le_new_exec:
  assumes "manager_inv s" and "m_next_transaction s \<noteq> - 1"
  shows "manager_le s (upd_process pid (p_exec_request_keys_update f)
           (s\<lparr>m_next_transaction := m_next_transaction s + 1,
              m_exec_transactions := fmupd (m_next_transaction s) x (m_exec_transactions s)\<rparr>))"
  using assms less_succ_word [OF assms(2)]
  by (auto simp: manager_le_def le_parts upd_process_def manager_inv_def inv_ids_def split: if_splits)

text \<open>Forgetting: every entry that is left was there before.\<close>

lemma manager_le_shrink:
  assumes "manager_inv s" and "same_config s s'" and "counters_le s s'"
    and "\<And>i u. txs s' i = Some u \<Longrightarrow> \<exists>t. txs s i = Some t \<and> t_parent u = t_parent t \<and> child_pid u = child_pid t
      \<and> ft_token (t_ticket u) = ft_token (t_ticket t) \<and> t_state u = t_state t"
    and "\<And>i x. execs s' i = Some x \<Longrightarrow> execs s i = Some x"
    and "\<And>pid q. procs s' pid = Some q \<Longrightarrow> \<exists>p. procs s pid = Some p \<and> p_state q = p_state p"
  shows "manager_le s s'"
proof -
  have "i < m_next_transaction s" if "txs s i = Some t" for i t
    using inv_ids_transaction [OF manager_invD(1) [OF assms(1)] that] by simp
  then have "forks_le s s'" unfolding forks_le_def using assms(4) by (metis tx_progress_refl)
  moreover have "execs_le s s'" unfolding execs_le_def using assms(5) by (metis tx_progress_refl)
  moreover have "processes_le s s'" unfolding processes_le_def using assms(6) by (metis proc_progress_refl)
  ultimately show ?thesis using assms(2,3) by (simp add: manager_le_def)
qed

lemma manager_le_abort_transaction: "manager_inv s \<Longrightarrow> manager_le s (abort_transaction i s)"
  by (auto simp: abort_transaction_def intro!: manager_le_finish split: option.split)

lemma manager_le_abort_exec: "manager_inv s \<Longrightarrow> manager_le s (abort_exec_transaction i s)"
proof (cases "execs s i")
  case (Some x)
  assume inv: "manager_inv s"
  let ?s = "if x_candidate x \<noteq> None then s\<lparr>m_retired_peers := finsert (x_target x) (m_retired_peers s)\<rparr> else s"
  have "manager_inv ?s" "manager_le s ?s" "execs ?s i = Some x" using inv Some by simp_all
  moreover have "manager_le ?s (upd_exec i (x_state_update (\<lambda>_. TAborted)) ?s)" if "\<not> terminal (x_state x)"
    using calculation that by (intro manager_le_upd_exec) auto
  ultimately have "manager_le s (upd_exec i (x_state_update (\<lambda>_. TAborted)) ?s)" if "\<not> terminal (x_state x)"
    using that manager_le_trans by blast
  with inv Some show ?thesis by (simp add: abort_exec_transaction_def)
qed (simp add: abort_exec_transaction_def)

lemma manager_fold:
  assumes "\<And>i s. manager_inv s \<Longrightarrow> manager_inv (f i s) \<and> manager_le s (f i s)" and "manager_inv s"
  shows "manager_inv (fold f is s) \<and> manager_le s (fold f is s)"
  using assms(2)
proof (induction "is" arbitrary: s)
  case Nil
  then show ?case by simp
next
  case (Cons i "is")
  with assms(1) [OF Cons.prems] show ?case by (auto intro: manager_le_trans)
qed

lemma abort_pending_for_sound:
  "manager_inv s \<Longrightarrow> manager_inv (abort_pending_for pid s) \<and> manager_le s (abort_pending_for pid s)"
  unfolding abort_pending_for_def
  by (rule manager_fold) (simp_all add: manager_inv_abort_transaction manager_le_abort_transaction)

lemma fold_abort_exec_sound:
  "manager_inv s \<Longrightarrow> manager_inv (fold abort_exec_transaction is s) \<and> manager_le s (fold abort_exec_transaction is s)"
  by (rule manager_fold) (simp_all add: manager_inv_abort_exec manager_le_abort_exec)

end
