(* ===== verification/Manager_Fork.thy ===== *)
theory Manager_Fork
  imports Manager_Order
begin

text \<open>
  What \<open>PrepareFork\<close> does to the named state: the child's snapshot names the same states
  as the parent's; a shared state keeps its object, a copied or a reset one gets an
  object of its own. The loop never meets a dangling object, because the invariant
  keeps every snapshot closed.
\<close>

definition copied :: "manager \<Rightarrow> (state_key \<times> u64) list \<Rightarrow> nat" where
  "copied s kvs = length (filter (\<lambda>(k, i). map_option o_fork (fmlookup (m_objects s) i) \<noteq> Some Share) kvs)"

text \<open>The object the child gets for the parent's object, by fork policy.\<close>

definition forked :: "manager \<Rightarrow> manager \<Rightarrow> u64 \<Rightarrow> u64 \<Rightarrow> bool" where
  "forked s s' i j \<longleftrightarrow>
     (case fmlookup (m_objects s) i of
        None \<Rightarrow> False
      | Some ob \<Rightarrow>
          (case o_fork ob of
             Share \<Rightarrow> j = i
           | Copy \<Rightarrow> m_next_object s \<le> j \<and> fmlookup (m_objects s') j = Some ob
           | Reset \<Rightarrow> m_next_object s \<le> j \<and> fmlookup (m_objects s') j = Some (ob\<lparr>o_value := o_initial ob\<rparr>)))"

definition only_objects :: "manager \<Rightarrow> manager \<Rightarrow> bool" where
  "only_objects s s' \<longleftrightarrow>
     (\<exists>n obs. s' = s\<lparr>m_next_object := n, m_objects := obs\<rparr> \<and> m_next_object s \<le> n
        \<and> (\<forall>i. i < m_next_object s \<longrightarrow> fmlookup obs i = fmlookup (m_objects s) i))"

lemma only_objects_refl [simp]: "only_objects s s"
  unfolding only_objects_def by (intro exI [of _ "m_next_object s"] exI [of _ "m_objects s"]) simp

lemma only_objects_trans: "only_objects s t \<Longrightarrow> only_objects t u \<Longrightarrow> only_objects s u"
  unfolding only_objects_def
  by (elim exE conjE, rename_tac n obs n' obs', rule_tac x = n' in exI, rule_tac x = obs' in exI) auto

lemma only_objects_insert:
  "m_next_object s \<noteq> - 1 \<Longrightarrow> insert_object s ob = (i, s') \<Longrightarrow> only_objects s s'"
  unfolding only_objects_def insert_object_def by (intro exI conjI) (auto simp: less_imp_le less_succ_word)

lemma only_objectsD:
  assumes "only_objects s s'"
  shows "m_processes s' = m_processes s" "m_transactions s' = m_transactions s"
    "m_exec_transactions s' = m_exec_transactions s" "m_next_pid s' = m_next_pid s"
    "m_next_transaction s' = m_next_transaction s" "m_exit_records s' = m_exit_records s"
    "m_limits s' = m_limits s" "m_clients s' = m_clients s" "m_retired_peers s' = m_retired_peers s"
    "m_next_object s \<le> m_next_object s'"
    "i < m_next_object s \<Longrightarrow> fmlookup (m_objects s') i = fmlookup (m_objects s) i"
  using assms by (auto simp: only_objects_def)

lemma insert_object_sound:
  assumes "manager_inv s" and "m_next_object s \<noteq> - 1" and "insert_object s ob = (i, s')"
  shows "manager_inv s'" "manager_le s s'" "i = m_next_object s" "fmlookup (m_objects s') i = Some ob"
    "m_next_object s' = m_next_object s + 1"
  using assms manager_inv_add_object [OF assms(1,2)] manager_le_add_object [OF assms(1,2)]
  by (auto simp: insert_object_def)

lemma inv_ids_object: "inv_ids s \<Longrightarrow> contains_key (m_objects s) i \<Longrightarrow> i < m_next_object s"
  by (auto simp: inv_ids_def contains_key_def)

lemma copied_only_objects:
  assumes "only_objects s s'" and "\<forall>(k, i) \<in> set kvs. i < m_next_object s"
  shows "copied s' kvs = copied s kvs"
  unfolding copied_def
  by (rule arg_cong [where f = length], rule filter_cong) (use only_objectsD(11) [OF assms(1)] assms(2) in auto)

lemma forked_earlier:
  assumes "forked s1 s' i j" and "fmlookup (m_objects s1) i = fmlookup (m_objects s) i"
    and "m_next_object s \<le> m_next_object s1"
  shows "forked s s' i j"
proof (cases "fmlookup (m_objects s) i")
  case None
  with assms show ?thesis by (simp add: forked_def)
next
  case (Some ob)
  with assms show ?thesis by (cases "o_fork ob") (auto simp: forked_def)
qed

lemma forked_cong:
  "m_objects s = m_objects t \<Longrightarrow> m_next_object s = m_next_object t \<Longrightarrow> m_objects s' = m_objects t' \<Longrightarrow>
     forked s s' = forked t t'"
  by (intro ext) (simp add: forked_def cong: option.case_cong fork_policy.case_cong)

lemma fork_states_sound:
  assumes "manager_inv s" and "\<forall>(k, i) \<in> set kvs. contains_key (m_objects s) i"
    and "unat (m_next_object s) + copied s kvs \<le> 2 ^ 64 - 1"
  shows "\<exists>out s'. fork_states s kvs = Some (out, s') \<and> manager_inv s' \<and> manager_le s s' \<and> only_objects s s'
    \<and> list_all2 (\<lambda>(k, i) (k', j). k' = k \<and> forked s s' i j) kvs out
    \<and> (\<forall>(k, j) \<in> set out. contains_key (m_objects s') j)"
  using assms
proof (induction kvs arbitrary: s)
  case Nil
  then show ?case by simp
next
  case (Cons kv kvs)
  obtain k i where kv: "kv = (k, i)" by fastforce
  obtain ob where ob: "fmlookup (m_objects s) i = Some ob" using Cons.prems(2) kv by (auto simp: contains_key_def)
  have old: "j < m_next_object s" if "contains_key (m_objects s) j" for j
    using inv_ids_object [OF manager_invD(1) [OF Cons.prems(1)] that] .
  define new where "new = (if o_fork ob = Reset then ob\<lparr>o_value := o_initial ob\<rparr> else ob)"
  show ?case
  proof (cases "o_fork ob = Share")
    case True
    have "copied s (kv # kvs) = copied s kvs" using True ob kv by (simp add: copied_def)
    with Cons.IH [OF Cons.prems(1)] Cons.prems(2,3) obtain out s' where r: "fork_states s kvs = Some (out, s')"
      "manager_inv s'" "manager_le s s'" "only_objects s s'"
      "list_all2 (\<lambda>(k, i) (k', j). k' = k \<and> forked s s' i j) kvs out"
      "\<forall>(k, j) \<in> set out. contains_key (m_objects s') j" by auto
    have "contains_key (m_objects s') i"
      using only_objectsD(11) [OF r(4), of i] old [of i] ob by (simp add: contains_key_def)
    with r True ob kv show ?thesis by (simp add: forked_def)
  next
    case False
    have cnt: "copied s (kv # kvs) = Suc (copied s kvs)" using False ob kv by (simp add: copied_def)
    then have max: "m_next_object s \<noteq> - 1" using Cons.prems(3) by (auto simp: unsigned_minus_1_eq_mask mask_eq_exp_minus_1)
    define s1 where "s1 = snd (insert_object s new)"
    have ins: "insert_object s new = (m_next_object s, s1)" by (simp add: s1_def insert_object_def)
    note s1 = insert_object_sound [OF Cons.prems(1) max ins]
    have o1: "only_objects s s1" by (rule only_objects_insert [OF max ins])
    have keep: "fmlookup (m_objects s1) j = fmlookup (m_objects s) j" if "contains_key (m_objects s) j" for j
      using only_objectsD(11) [OF o1 old [OF that]] .
    have "copied s1 kvs = copied s kvs"
      using old Cons.prems(2) by (intro copied_only_objects [OF o1]) auto
    moreover have "\<forall>(k, i) \<in> set kvs. contains_key (m_objects s1) i"
      using Cons.prems(2) keep by (auto simp: contains_key_def)
    ultimately obtain out s' where r: "fork_states s1 kvs = Some (out, s')"
      "manager_inv s'" "manager_le s1 s'" "only_objects s1 s'"
      "list_all2 (\<lambda>(k, i) (k', j). k' = k \<and> forked s1 s' i j) kvs out"
      "\<forall>(k, j) \<in> set out. contains_key (m_objects s') j"
      using Cons.IH [OF s1(1)] Cons.prems(3) cnt s1(5) max by (auto simp: unat_Suc_no_wrap)
    have "fork_states s (kv # kvs) = Some ((k, m_next_object s) # out, s')"
      using r(1) ins False ob kv by (cases "o_fork ob") (simp_all add: new_def)
    moreover have this': "fmlookup (m_objects s') (m_next_object s) = Some new"
      using only_objectsD(11) [OF r(4), of "m_next_object s"] s1(4,5) less_succ_word [OF max] by simp
    then have "forked s s' i (m_next_object s)"
      using False ob by (cases "o_fork ob") (simp_all add: forked_def new_def)
    moreover have "list_all2 (\<lambda>(k, i) (k', j). k' = k \<and> forked s s' i j) kvs out"
    proof (rule list.rel_mono_strong [OF r(5)])
      fix a b
      assume "a \<in> set kvs" and f: "(\<lambda>(k, i) (k', j). k' = k \<and> forked s1 s' i j) a b"
      then have "fmlookup (m_objects s1) (snd a) = fmlookup (m_objects s) (snd a)" using Cons.prems(2) keep by auto
      moreover have "m_next_object s \<le> m_next_object s1" by (rule only_objectsD(10) [OF o1])
      ultimately show "(\<lambda>(k, i) (k', j). k' = k \<and> forked s s' i j) a b"
        using f by (auto intro: forked_earlier)
    qed
    ultimately show ?thesis
      using r s1(2) o1 this' kv by (auto intro: manager_le_trans only_objects_trans simp: contains_key_def)
  qed
qed

section \<open>Sound results of operations\<close>

text \<open>
  What every operation promises: it does not panic, it keeps the invariant, it only
  moves forward, and an error leaves the state as it was.
\<close>

definition sound :: "manager \<Rightarrow> 'a rpc \<times> manager \<Rightarrow> bool" where
  "sound s x \<longleftrightarrow> fst x \<noteq> Panic \<and> manager_inv (snd x) \<and> manager_le s (snd x) \<and> (\<not> is_ok (fst x) \<longrightarrow> snd x = s)"

lemma sound_Err [simp]: "manager_inv s \<Longrightarrow> sound s (Err e, s)"
  by (simp add: sound_def)

lemma sound_Ok: "manager_inv s' \<Longrightarrow> manager_le s s' \<Longrightarrow> sound s (Ok r, s')"
  by (simp add: sound_def)

lemma sound_read: "manager_inv s \<Longrightarrow> r \<noteq> Panic \<Longrightarrow> sound s (r, s)"
  by (simp add: sound_def)

lemma sound_try: "manager_inv s \<Longrightarrow> r \<noteq> Panic \<Longrightarrow> (\<And>x. r = Ok x \<Longrightarrow> sound s (f x)) \<Longrightarrow> sound s (try_or s r f)"
  by (cases r) (auto simp: sound_def)

lemma check_not_Panic [simp]:
  "check_process_capacity s \<noteq> Panic" "check_object_capacity s n \<noteq> Panic" "validate_name s nm \<noteq> Panic"
  "secure_ticket e \<noteq> Panic"
  by (auto simp: check_process_capacity_def check_object_capacity_def validate_name_def secure_ticket_def Let_def
      split: option.split)

lemma snapshot_values:
  assumes "snapshot_closed s sn"
  shows "\<forall>(k, i) \<in> set (bt_iter (sn_states sn)). contains_key (m_objects s) i"
  using assms by (auto simp: snapshot_closed_def set_bt_iter)

lemma fork_copies_closed:
  assumes "snapshot_closed s sn"
  shows "fork_copies s sn = Some (copied s (bt_iter (sn_states sn)))"
proof -
  have "list_all (\<lambda>i. contains_key (m_objects s) i) (bt_values (sn_states sn))"
    using snapshot_values [OF assms] by (auto simp: list_all_iff bt_values_def)
  then show ?thesis
    by (simp add: fork_copies_def copied_def bt_values_def filter_map comp_def split_def)
qed

text \<open>The child's named state, key by key.\<close>

lemma fmap_of_list_forked:
  assumes "list_all2 (\<lambda>(k, i) (k', j). k' = k \<and> R i j) kvs out"
  shows "rel_option R (map_of kvs k) (fmlookup (fmap_of_list out) k)"
  using assms by (induction rule: list_all2_induct) (auto simp: fmlookup_of_list)

lemma map_of_bt_iter: "map_of (bt_iter m) k = fmlookup m k"
  by (simp add: bt_iter_def)

section \<open>Preparing a fork\<close>

text \<open>What a successful \<open>PrepareFork\<close> with a new request key leaves behind.\<close>

definition fork_prepared ::
    "manager \<Rightarrow> u32 \<Rightarrow> process \<Rightarrow> u64 \<Rightarrow> u32 \<Rightarrow> fork_ticket \<Rightarrow> snapshot \<Rightarrow> manager \<Rightarrow> bool" where
  "fork_prepared s pid p request_key parent_pid ticket sn s' \<longleftrightarrow>
     ft_transaction ticket = m_next_transaction s
     \<and> ft_child ticket = \<lparr>pi_epoch = m_epoch s, pi_pid = m_next_pid s, pi_generation = 1, pi_parent_pid = parent_pid\<rparr>
     \<and> txs s' (m_next_transaction s) = Some \<lparr>t_parent = pid, t_requested_parent = parent_pid, t_ticket = ticket,
          t_snapshot = Some sn, t_state = Prepared\<rparr>
     \<and> procs s' pid = Some (p\<lparr>p_request_keys := fmupd request_key (m_next_transaction s) (p_request_keys p)\<rparr>)
     \<and> (\<forall>q. q \<noteq> pid \<longrightarrow> procs s' q = procs s q)
     \<and> m_next_pid s' = m_next_pid s + 1 \<and> m_next_transaction s' = m_next_transaction s + 1
     \<and> sn_modules sn = sn_modules (p_snapshot p)
     \<and> (\<forall>k. rel_option (forked s s') (fmlookup (sn_states (p_snapshot p)) k) (fmlookup (sn_states sn) k))
     \<and> (\<forall>i. i < m_next_object s \<longrightarrow> fmlookup (m_objects s') i = fmlookup (m_objects s) i)"

lemma fork_registered:
  fixes s s2 s' :: manager
  assumes inv: "manager_inv s" and p: "procs s pid = Some p" and tx: "m_next_transaction s \<noteq> - 1"
    and pids: "m_next_pid s \<le> 0x7FFFFFFF"
    and s2: "manager_inv s2" "manager_le (s\<lparr>m_next_pid := m_next_pid s + 1\<rparr>) s2"
      "only_objects (s\<lparr>m_next_pid := m_next_pid s + 1\<rparr>) s2"
    and sn: "snapshot_closed s2 sn"
    and t: "t_parent t = pid" "t_state t = Prepared" "t_snapshot t = Some sn" "child_pid t = m_next_pid s"
      "ft_transaction (t_ticket t) = m_next_transaction s"
    and s': "s' = upd_process pid (p_request_keys_update (fmupd request_key (m_next_transaction s)))
      (s2\<lparr>m_next_transaction := m_next_transaction s + 1,
          m_transactions := fmupd (m_next_transaction s) t (m_transactions s)\<rparr>)"
  shows "manager_inv s' \<and> manager_le s s'"
proof
  note frame = only_objectsD [OF s2(3), simplified]
  note pidb = pid_succ [OF inv pids]
  have "procs s (m_next_pid s) = None" "fmlookup (m_exit_records s) (m_next_pid s) = None"
    using inv unfolding manager_inv_def inv_ids_def inv_exits_def by (metis less_irrefl not_None_eq)+
  moreover have "0 < m_next_pid s" using inv by (simp add: manager_inv_def inv_ids_def)
  moreover have "child_pid u \<noteq> m_next_pid s" if "txs s i = Some u" for i u
    using inv_ids_fresh_child [OF manager_invD(1) [OF inv] that] .
  ultimately show "manager_inv s'" unfolding s'
    using tx p frame pidb t sn manager_inv_new_transaction [OF s2(1), of t pid sn p request_key] by auto
  have le2: "manager_le s s2"
    by (rule manager_le_trans [OF manager_le_next_pid [OF inv pids] s2(2)])
  have txs': "txs s' i = (if i = m_next_transaction s then Some t else txs s i)" for i
    by (simp add: s' upd_process_def)
  have "forks_le s s'" unfolding forks_le_def txs'
    using manager_le_refl [OF inv] t by (auto simp: manager_le_def forks_le_def)
  moreover have "same_config s s'" "counters_le s s'" "execs_le s s'" "processes_le s s'"
    using le2 frame less_imp_le [OF less_succ_word [OF tx]]
    by (auto simp: manager_le_def s' upd_process_def same_config_def counters_le_def execs_le_def
        processes_le_def split: if_splits)
  ultimately show "manager_le s s'" by (simp add: manager_le_def)
qed

lemma prepare_fork_new_Err:
  assumes closed: "snapshot_closed s (p_snapshot p)"
    and bad: "check_object_capacity s (copied s (bt_iter (sn_states (p_snapshot p)))) \<noteq> Ok ()
      \<or> (\<nexists>token. secure_ticket entropy = Ok token) \<or> m_next_pid s > 0x7FFFFFFF"
  shows "\<exists>e. prepare_fork_new s entropy pid p request_key parent_pid = (Err e, s)"
  using bad check_not_Panic
  by (auto simp: prepare_fork_new_def fork_copies_closed [OF closed] allocate_identity_def
      split: try_or_split)

lemma prepare_fork_new_cases:
  assumes inv: "manager_inv s" and p: "procs s pid = Some p" and tx: "m_next_transaction s \<noteq> - 1"
  shows "(\<exists>e. prepare_fork_new s entropy pid p request_key parent_pid = (Err e, s))
    \<or> (\<exists>ticket sn s'. prepare_fork_new s entropy pid p request_key parent_pid = (Ok (RForkPrepared ticket), s')
        \<and> secure_ticket entropy = Ok (ft_token ticket) \<and> manager_inv s' \<and> manager_le s s'
        \<and> fork_prepared s pid p request_key parent_pid ticket sn s')"
proof -
  have closed: "snapshot_closed s (p_snapshot p)" using manager_invD(5) [OF inv] p by (simp add: inv_objects_def)
  let ?kvs = "bt_iter (sn_states (p_snapshot p))"
  let ?base = "s\<lparr>m_next_pid := m_next_pid s + 1\<rparr>"
  show ?thesis
  proof (cases "check_object_capacity s (copied s ?kvs) \<noteq> Ok ()
      \<or> (\<nexists>token. secure_ticket entropy = Ok token) \<or> m_next_pid s > 0x7FFFFFFF")
    case True
    from prepare_fork_new_Err [OF closed this] show ?thesis by blast
  next
    case False
    then obtain token where ok: "check_object_capacity s (copied s ?kvs) = Ok ()"
      "secure_ticket entropy = Ok token" "m_next_pid s \<le> 0x7FFFFFFF" by auto
    have room: "unat (m_next_object ?base) + copied ?base ?kvs \<le> 2 ^ 64 - 1"
      using ok(1) by (auto simp: check_object_capacity_def copied_def split: if_splits)
    obtain states s2 where f: "fork_states ?base ?kvs = Some (states, s2)" "manager_inv s2" "manager_le ?base s2"
      "only_objects ?base s2" "list_all2 (\<lambda>(k, i) (k', j). k' = k \<and> forked ?base s2 i j) ?kvs states"
      "\<forall>(k, j) \<in> set states. contains_key (m_objects s2) j"
      using fork_states_sound [OF manager_inv_next_pid [OF inv ok(3)] _ room] snapshot_values [OF closed] by auto
    note s2 = only_objectsD [OF f(4), simplified]
    define sn where "sn = (p_snapshot p)\<lparr>sn_states := fmap_of_list states\<rparr>"
    define ticket where "ticket = \<lparr>ft_transaction = m_next_transaction s, ft_token = token,
      ft_child = \<lparr>pi_epoch = m_epoch s, pi_pid = m_next_pid s, pi_generation = 1, pi_parent_pid = parent_pid\<rparr>\<rparr>"
    define t where "t = \<lparr>t_parent = pid, t_requested_parent = parent_pid, t_ticket = ticket,
      t_snapshot = Some sn, t_state = Prepared\<rparr>"
    define s' where "s' = upd_process pid (p_request_keys_update (fmupd request_key (m_next_transaction s)))
      (s2\<lparr>m_next_transaction := m_next_transaction s + 1,
          m_transactions := fmupd (m_next_transaction s) t (m_transactions s)\<rparr>)"
    have run: "prepare_fork_new s entropy pid p request_key parent_pid = (Ok (RForkPrepared ticket), s')"
      using ok f(1) s2(2,5)
      by (simp add: prepare_fork_new_def fork_copies_closed [OF closed] allocate_identity_def Let_def
          s'_def t_def ticket_def sn_def)
    have "snapshot_closed s2 sn"
      using f(6) by (auto simp: snapshot_closed_def sn_def fmlookup_of_list dest!: map_of_SomeD)
    with fork_registered [OF inv p tx ok(3) f(2-4), of sn t s' request_key]
    have good: "manager_inv s' \<and> manager_le s s'" by (simp add: s'_def t_def ticket_def)
    have "forked ?base s2 = forked s s'"
      by (rule forked_cong) (simp_all add: s'_def upd_process_def)
    then have "rel_option (forked s s') (fmlookup (sn_states (p_snapshot p)) k) (fmlookup (sn_states sn) k)" for k
      using fmap_of_list_forked [OF f(5), of k] by (simp add: map_of_bt_iter sn_def)
    moreover have "fmlookup (m_objects s') i = fmlookup (m_objects s) i" if "i < m_next_object s" for i
      using s2(11) [of i] that by (simp add: s'_def upd_process_def)
    ultimately have "fork_prepared s pid p request_key parent_pid ticket sn s'"
      using p s2 by (simp add: fork_prepared_def s'_def upd_process_def t_def) (simp add: ticket_def sn_def)
    moreover have "secure_ticket entropy = Ok (ft_token ticket)" using ok(2) by (simp add: ticket_def)
    ultimately show ?thesis using run good by blast
  qed
qed

lemma prepare_fork_sound:
  assumes "manager_inv s" and "procs s pid = Some p"
  shows "sound s (prepare_fork s entropy pid request_key parent_pid)"
proof -
  have new: "sound s (prepare_fork_new s entropy pid p request_key parent_pid)" if "m_next_transaction s \<noteq> - 1"
    using prepare_fork_new_cases [OF assms that, of entropy request_key parent_pid] assms(1)
    by (auto intro: sound_Ok)
  show ?thesis
  proof (cases "fmlookup (p_request_keys p) request_key")
    case None
    with new assms show ?thesis by (auto simp: prepare_fork_def intro!: sound_try)
  next
    case (Some i)
    with manager_invD(3) [OF assms(1)] assms(2) obtain t where "txs s i = Some t"
      unfolding inv_keys_def by blast
    with Some assms show ?thesis by (auto simp: prepare_fork_def intro: sound_Ok)
  qed
qed

end
