(* ===== verification/Manager_Safety.thy ===== *)
theory Manager_Safety
  imports Manager_Fork
begin

text \<open>
  Every entry point of the process manager is sound: it does not panic, keeps the
  invariant, moves forward in the order of states, and changes nothing when it
  returns an error. The reachable states of the manager therefore satisfy the
  invariant, and no run ends in a panic.
\<close>

section \<open>Workers, modules and named state\<close>

lemma sound_after: "manager_le s t \<Longrightarrow> sound t (Ok r, u) \<Longrightarrow> sound s (Ok r, u)"
  by (auto simp: sound_def dest: manager_le_trans)

lemma upd_process_sound:
  "manager_inv s \<Longrightarrow> benign f \<Longrightarrow> sound s (Ok r, upd_process pid f s)"
  by (intro sound_Ok manager_inv_upd_process manager_le_upd_process) (auto simp: benignD)

lemma prewarm_sound [simp]:
  assumes "manager_inv s"
  shows "sound s (activate_prewarm s pid)" "sound s (reserve_pool_worker s c)"
    "sound s (release_pool_worker s c pid)" "sound s (mark_prewarm s pid p w complaint)"
  using assms
  by (auto simp: activate_prewarm_def reserve_pool_worker_def release_pool_worker_def mark_prewarm_def
      intro!: upd_process_sound split: option.split prod.split)

lemma activate_pool_worker_sound [simp]:
  assumes "manager_inv s"
  shows "sound s (activate_pool_worker s c pid parent launch)"
  using assms
  by (auto simp: activate_pool_worker_def Let_def sound_read intro!: upd_process_sound
      split: option.split prewarm_state.split)

lemma register_module_sound:
  assumes "manager_inv s" and "procs s pid = Some p"
  shows "sound s (register_module s pid m schema)"
proof -
  let ?s = "s\<lparr>m_modules := fmupd m schema (m_modules s)\<rparr>"
  have "manager_inv ?s" "manager_le s ?s" using assms(1) by simp_all
  note step = sound_after [OF this(2) upd_process_sound [OF this(1)]]
  have "sound s (Ok ROk, upd_process pid (p_snapshot_update (sn_modules_update (fmupd m schema))) ?s)"
    by (rule step) simp
  with assms show ?thesis
    by (auto simp: register_module_def Let_def sound_read split: option.split)
qed

lemma define_state_sound:
  assumes "manager_inv s" and "procs s pid = Some p"
  shows "sound s (define_state s pid m nm initial fork)"
proof -
  have obj: "fmlookup (m_objects s) i \<noteq> None" if "fmlookup (sn_states (p_snapshot p)) k = Some i" for k i
    using manager_invD(5) [OF assms(1)] assms(2) that
    unfolding inv_objects_def snapshot_closed_def contains_key_def by blast
  have new: "sound s (Ok (RState i v), upd_process pid (p_snapshot_update (sn_states_update (fmupd k i))) s')"
    if "check_object_capacity s 1 = Ok ()" "insert_object s ob = (i, s')" for k i s' ob v
  proof -
    have max: "m_next_object s \<noteq> - 1"
      using that(1) by (auto simp: check_object_capacity_def unsigned_minus_1_eq_mask mask_eq_exp_minus_1 split: if_splits)
    note s' = insert_object_sound [OF assms(1) max that(2)]
    then have "contains_key (m_objects s') i" by (simp add: contains_key_def)
    with s' have "sound s' (Ok (RState i v), upd_process pid (p_snapshot_update (sn_states_update (fmupd k i))) s')"
      by (auto intro!: sound_Ok manager_inv_add_state manager_le_upd_process)
    with s'(2) show ?thesis by (rule sound_after)
  qed
  show ?thesis
  proof (cases "fmlookup (sn_states (p_snapshot p)) (m, nm)")
    case None
    with assms new show ?thesis
      by (auto simp: define_state_def intro!: sound_try split: prod.split)
  next
    case (Some i)
    with obj obtain ob where "fmlookup (m_objects s) i = Some ob" by blast
    with assms Some show ?thesis by (auto simp: define_state_def sound_read intro!: sound_try)
  qed
qed

lemma state_object_defined:
  assumes "manager_inv s" and "procs s pid = Some p"
  shows "state_object s pid m nm \<noteq> Panic"
    and "state_object s pid m nm = Ok i \<Longrightarrow> \<exists>ob. fmlookup (m_objects s) i = Some ob"
proof -
  show "state_object s pid m nm \<noteq> Panic" using assms(2) by (auto simp: state_object_def split: option.splits)
  show "\<exists>ob. fmlookup (m_objects s) i = Some ob" if "state_object s pid m nm = Ok i"
  proof -
    from that assms(2) have "fmlookup (sn_states (p_snapshot p)) (m, nm) = Some i"
      by (auto simp: state_object_def split: option.splits)
    with manager_invD(5) [OF assms(1)] assms(2) show ?thesis
      unfolding inv_objects_def snapshot_closed_def contains_key_def by blast
  qed
qed

lemma read_state_sound:
  assumes "manager_inv s" and "procs s pid = Some p"
  shows "sound s (read_state s pid m nm, s)"
proof (cases "state_object s pid m nm")
  case (Ok i)
  with state_object_defined(2) [OF assms] obtain ob where "fmlookup (m_objects s) i = Some ob" by blast
  with Ok assms show ?thesis by (simp add: read_state_def sound_read)
qed (use assms state_object_defined [OF assms] in \<open>auto simp: read_state_def sound_read\<close>)

lemma write_state_sound:
  assumes "manager_inv s" and "procs s pid = Some p"
  shows "sound s (write_state s pid m nm v)"
proof (cases "state_object s pid m nm")
  case (Ok i)
  with state_object_defined(2) [OF assms] obtain ob where ob: "fmlookup (m_objects s) i = Some ob" by blast
  with Ok assms show ?thesis by (simp add: write_state_def sound_Ok manager_inv_set_object [OF _ ob])
qed (use assms state_object_defined [OF assms] in \<open>auto simp: write_state_def\<close>)

section \<open>Fork transactions\<close>

lemma owned_transaction_Ok: "owned_transaction s pid i = Ok t \<Longrightarrow> txs s i = Some t \<and> t_parent t = pid"
  by (auto simp: owned_transaction_def split: option.splits if_splits)

lemma owned_transaction_not_Panic [simp]: "owned_transaction s pid i \<noteq> Panic"
  by (simp add: owned_transaction_def split: option.split)

lemma mark_ready_sound:
  assumes "manager_inv s" and "procs s pid = Some p"
  shows "sound s (mark_ready s pid)"
proof (cases "p_state p")
  case (PPending i)
  obtain t where "txs s i = Some t" "t_state t = Adopted \<or> t_state t = Ready"
    using inv_fork_pending [OF manager_invD(2) [OF assms(1)] assms(2) PPending] by blast
  moreover have "manager_inv (upd_transaction i (t_state_update (\<lambda>_. Ready)) s)"
    by (rule manager_inv_set_ready [OF assms PPending])
  moreover have "manager_le s (upd_transaction i (t_state_update (\<lambda>_. Ready)) s)"
    using calculation by (intro manager_le_upd_transaction [OF assms(1)]) auto
  ultimately show ?thesis using assms PPending by (simp add: mark_ready_def sound_Ok)
qed (use assms in \<open>auto simp: mark_ready_def sound_read\<close>)

lemma commit_fork_sound:
  assumes "manager_inv s"
  shows "sound s (commit_fork s pid i)"
proof -
  have "sound s (case fmlookup (m_processes s) (child_pid t) of None \<Rightarrow> (Panic, s)
       | Some _ \<Rightarrow> (Ok ROk, upd_transaction i (t_state_update (\<lambda>_. Committed))
                      (upd_process (child_pid t) (p_state_update (\<lambda>_. PActive)) s)))"
    if t: "txs s i = Some t" "t_state t = Ready" for t
  proof -
    have a: "t_snapshot t = None" "\<exists>p. procs s (child_pid t) = Some p"
      using inv_fork_agrees [OF manager_invD(2) [OF assms] t(1)] t(2) by (auto simp: fork_agrees_def)
    have eq: "upd_transaction i (t_state_update (\<lambda>_. Committed)) (upd_process (child_pid t) (p_state_update (\<lambda>_. PActive)) s)
      = upd_process (child_pid t) (p_state_update (\<lambda>_. PActive))
          (upd_transaction i (\<lambda>t. t\<lparr>t_state := Committed, t_snapshot := None\<rparr>) s)"
      using t(1) a(1) by (auto simp: upd_defs intro!: manager.equality fmap_ext)
    show ?thesis using a(2) assms t
      by (auto simp: eq terminal_def intro!: sound_Ok manager_inv_finish manager_le_finish)
  qed
  with assms show ?thesis
    by (auto simp: commit_fork_def Let_def sound_read dest!: owned_transaction_Ok intro!: sound_try
        split: transaction_state.split)
qed

lemma collect_sound: "manager_inv s' \<Longrightarrow> manager_le s s' \<Longrightarrow> sound s (Ok r, collect_objects s')"
  by (rule sound_after [of s s']) (simp_all add: sound_Ok manager_inv_collect)

lemma abort_fork_sound: "manager_inv s \<Longrightarrow> sound s (abort_fork s pid i)"
  by (auto simp: abort_fork_def intro!: sound_try collect_sound manager_inv_abort_transaction
      manager_le_abort_transaction)

lemma adopt_sound:
  assumes "manager_inv s"
  shows "sound s (adopt s token peer)"
proof -
  have frame: "m_processes (upd_transaction i f s) = m_processes s" for i f by (simp add: upd_transaction_def)
  have new: "sound s (Ok (ft_child (t_ticket t)), upd_transaction i (\<lambda>t. t\<lparr>t_snapshot := None, t_state := Adopted\<rparr>) s
      \<lparr>m_processes := fmupd (child_pid t) p (m_processes s)\<rparr>)"
    if "txs s i = Some t" "t_state t = Prepared" "t_snapshot t = Some sn" "p_identity p = ft_child (t_ticket t)"
      "p_snapshot p = sn" "p_state p = PPending i" "p_request_keys p = fmempty" "p_exec_request_keys p = fmempty"
    for i t sn p
    by (rule sound_Ok [OF manager_inv_adopt [OF assms that] manager_le_adopt [OF assms that(1,2)]])
  show ?thesis
  proof (cases "bt_find (\<lambda>t. secret_equal (ft_token (t_ticket t)) token) (m_transactions s)")
    case None
    with assms show ?thesis by (simp add: adopt_def)
  next
    case (Some it)
    obtain i t where it: "it = (i, t)" by fastforce
    with Some have t: "txs s i = Some t" by (simp add: bt_find_Some)
    have "t_snapshot t \<noteq> None" if "t_state t = Prepared"
      using inv_fork_agrees [OF manager_invD(2) [OF assms] t] that by (simp add: fork_agrees_def)
    with t Some it assms show ?thesis
      by (auto simp: adopt_def Let_def frame intro!: new split: option.split transaction_state.split)
  qed
qed

section \<open>Exec transactions\<close>

lemma exec_key:
  assumes "manager_inv s" and "procs s pid = Some p" and "fmlookup (p_exec_request_keys p) k = Some i"
  obtains x where "execs s i = Some x" "x_process x = pid"
  using manager_invD(3) [OF assms(1)] assms(2,3) unfolding inv_keys_def by blast

lemma exec_process:
  assumes "manager_inv s" and "execs s i = Some x"
  obtains p where "procs s (x_process x) = Some p"
  using manager_invD(4) [OF assms(1)] assms(2) unfolding inv_exec_def contains_key_def by blast

lemma prepare_exec_sound:
  assumes "manager_inv s" and "procs s pid = Some p"
  shows "sound s (prepare_exec s owner pid k target)"
proof (cases "fmlookup (p_exec_request_keys p) k")
  case None
  with assms show ?thesis
    by (auto simp: prepare_exec_def Let_def intro!: sound_Ok manager_inv_new_exec manager_le_new_exec)
next
  case (Some i)
  from exec_key [OF assms Some] obtain x where "execs s i = Some x" .
  with Some assms show ?thesis by (simp add: prepare_exec_def sound_read)
qed

lemma upd_exec_sound:
  assumes "manager_inv s"
    and "\<And>x. execs s i = Some x \<Longrightarrow> x_process (f x) = x_process x \<and> x_target (f x) = x_target x
      \<and> x_owner (f x) = x_owner x \<and> tx_progress (x_state x) (x_state (f x))"
  shows "sound s (Ok r, upd_exec i f s)"
  using assms by (intro sound_Ok manager_inv_upd_exec manager_le_upd_exec) auto

lemma adopt_exec_sound:
  "manager_inv s \<Longrightarrow> execs s i = Some x \<Longrightarrow> sound s (adopt_exec s i c)"
  by (auto simp: adopt_exec_def intro!: upd_exec_sound split: option.split transaction_state.split)

lemma owned_exec_Ok: "owned_exec s owner pid i = Ok x \<Longrightarrow> execs s i = Some x \<and> x_process x = pid \<and> x_owner x = owner"
  by (auto simp: owned_exec_def split: option.splits if_splits)

lemma owned_exec_not_Panic [simp]: "owned_exec s owner pid i \<noteq> Panic"
  by (simp add: owned_exec_def split: option.split)

lemma commit_exec_sound:
  assumes "manager_inv s" and c: "fmlookup (m_clients s) owner = Some c"
  shows "sound s (commit_exec s owner pid i)"
proof (cases "owned_exec s owner pid i")
  case (Ok x)
  from owned_exec_Ok [OF this] have x: "execs s i = Some x" "x_process x = pid" by simp_all
  obtain p where p: "procs s pid = Some p" using exec_process [OF assms(1) x(1)] unfolding x(2) .
  let ?t = "s\<lparr>m_retired_peers := finsert (p_peer p) (m_retired_peers s)\<rparr>"
  let ?u = "upd_client owner (c_kind_update (\<lambda>_. KRetired pid i)) ?t"
  have t: "manager_inv ?t" "manager_le s ?t" using assms(1) by simp_all
  have u: "manager_inv ?u" "manager_le ?t ?u" using t(1) by simp_all
  have same: "m_exec_transactions ?u = m_exec_transactions s" by (simp add: upd_client_def)
  have "sound ?u (Ok ROk, upd_exec i (\<lambda>x. x\<lparr>x_state := Committed, x_retiring := True\<rparr>) ?u)" if "x_state x = Ready"
    using u(1) same x(1) that by (intro upd_exec_sound) auto
  note fin = sound_after [OF t(2) sound_after [OF u(2) this]]
  show ?thesis using assms(1) Ok p c fin by (cases "x_state x") (simp_all add: commit_exec_def sound_read)
qed (use assms in \<open>simp_all add: commit_exec_def\<close>)

lemma abort_exec_sound: "manager_inv s \<Longrightarrow> sound s (abort_exec s owner pid i)"
  by (auto simp: abort_exec_def intro!: sound_try sound_Ok manager_inv_abort_exec manager_le_abort_exec)

lemma candidate_sound:
  assumes "manager_inv s"
  shows "sound s (handle_exec_candidate s c pid i req)"
proof (cases "execs s i")
  case (Some x)
  have ready: "sound s (Ok ROk, upd_exec i (x_state_update (\<lambda>_. Ready)) s)" if "x_state x \<noteq> TAborted" "x_state x \<noteq> Committed"
  proof (rule upd_exec_sound [OF assms])
    have "tx_progress (x_state x) Ready" using that by (cases "x_state x") simp_all
    with Some show "x_process (y\<lparr>x_state := Ready\<rparr>) = x_process y \<and> x_target (y\<lparr>x_state := Ready\<rparr>) = x_target y
      \<and> x_owner (y\<lparr>x_state := Ready\<rparr>) = x_owner y \<and> tx_progress (x_state y) (x_state (y\<lparr>x_state := Ready\<rparr>))"
      if "execs s i = Some y" for y using that by simp
  qed
  have "candidate_register_module p m schema \<noteq> Panic" for p m schema
    by (simp add: candidate_register_module_def split: option.split)
  with assms Some ready show ?thesis
    by (cases req) (auto simp: handle_exec_candidate_def Let_def sound_read split: option.split)
qed (use assms in \<open>simp add: handle_exec_candidate_def\<close>)

section \<open>Disconnection and native exit\<close>

definition forward :: "manager \<Rightarrow> manager \<Rightarrow> bool" where
  "forward s s' \<longleftrightarrow> manager_inv s' \<and> manager_le s s'"

lemma forward_refl [simp]: "manager_inv s \<Longrightarrow> forward s s"
  by (simp add: forward_def)

lemma forward_inv: "forward s s' \<Longrightarrow> manager_inv s'"
  by (simp add: forward_def)

lemma forward_trans [trans]: "forward s t \<Longrightarrow> forward t u \<Longrightarrow> forward s u"
  by (auto simp: forward_def intro: manager_le_trans)

lemma forward_fold:
  "(\<And>i s. manager_inv s \<Longrightarrow> forward s (f i s)) \<Longrightarrow> manager_inv s \<Longrightarrow> forward s (fold f is s)"
  unfolding forward_def by (rule manager_fold) auto

lemma forward_parts:
  assumes "manager_inv s"
  shows "forward s (collect_objects s)" "forward s (abort_pending_for pid s)"
    "forward s (abort_exec_transaction i s)" "forward s (abort_pending_exec_for pid s)"
    "forward s (release_reservations c s)" "forward s (s\<lparr>m_retired_peers := rp\<rparr>)"
    "forward s (s\<lparr>m_clients := fmdrop c (m_clients s)\<rparr>)"
    "forward s (fold abort_exec_transaction is s)"
  using assms abort_pending_for_sound [OF assms] fold_abort_exec_sound [OF assms]
  by (simp_all add: forward_def manager_inv_collect manager_inv_abort_exec manager_le_abort_exec
      abort_pending_exec_for_def release_reservations_def manager_inv_map_processes manager_le_map_processes)

lemma forward_disconnect:
  assumes "manager_inv s"
  shows "forward s (disconnect c s)"
proof -
  let ?s1 = "release_reservations c s"
  let ?s2 = "?s1\<lparr>m_clients := fmdrop c (m_clients ?s1)\<rparr>"
  have s1: "forward s ?s1" by (rule forward_parts [OF assms])
  have s2: "forward s ?s2" by (rule forward_trans [OF s1 forward_parts(7) [OF forward_inv [OF s1]]])
  have col: "forward s (collect_objects t)" if "forward s t" for t
    using forward_trans [OF that forward_parts(1) [OF forward_inv [OF that]]] .
  have ab: "forward s (abort_pending_exec_for pid (abort_pending_for pid ?s2))" for pid
    using forward_trans [OF forward_trans [OF s2 forward_parts(2)] forward_parts(4)] s2 forward_inv forward_trans
      forward_parts(2) by blast
  have ax: "forward s (abort_exec_transaction i ?s2)" for i
    using forward_trans [OF s2 forward_parts(3)] s2 forward_inv by blast
  show ?thesis unfolding disconnect_def Let_def
    using s1 s2 col ab ax by (auto split: option.split client_kind.split)
qed

lemma forward_forget_replaced:
  assumes "manager_inv s"
  shows "forward s (forget_replaced pid s)"
proof -
  let ?T = "bt_retain (\<lambda>_ t. t_parent t \<noteq> pid \<or> \<not> terminal (t_state t)) (m_transactions s)"
  let ?X = "bt_retain (\<lambda>_ t. x_process t \<noteq> pid) (m_exec_transactions s)"
  let ?f = "\<lambda>p. p\<lparr>p_request_keys := bt_retain (\<lambda>_ i. contains_key ?T i) (p_request_keys p), p_exec_request_keys := fmempty\<rparr>"
  let ?s = "upd_process pid ?f (s\<lparr>m_transactions := ?T, m_exec_transactions := ?X\<rparr>)"
  have eq: "forget_replaced pid s = ?s" by (simp add: forget_replaced_def Let_def)
  have "manager_inv ?s"
    by (rule manager_inv_prune [OF assms]) (auto split: option.splits if_splits)
  moreover have "manager_le s ?s"
    by (rule manager_le_shrink [OF assms])
      (auto simp: same_config_def counters_le_def upd_process_def split: option.splits if_splits)
  ultimately show ?thesis by (simp add: eq forward_def)
qed

lemma note_candidate_exit_simps [simp]:
  "x_process (note_candidate_exit peer st x) = x_process x" "x_target (note_candidate_exit peer st x) = x_target x"
  "x_owner (note_candidate_exit peer st x) = x_owner x" "x_state (note_candidate_exit peer st x) = x_state x"
  by (simp_all add: note_candidate_exit_def)

lemma forward_retire_one:
  assumes "manager_inv s" and "retire_one peer status i (s, ds, rs) = (s', ds', rs')"
  shows "forward s s'"
proof (cases "execs s i")
  case None
  with assms show ?thesis by (simp add: retire_one_def)
next
  case (Some x)
  let ?x = "note_candidate_exit peer status x"
  have up: "forward s (upd_exec i (\<lambda>_. y) s)"
    if "y = ?x \<or> y = ?x\<lparr>x_retiring := False\<rparr>" for y
    using that Some assms(1) unfolding forward_def
    by (intro conjI manager_inv_upd_exec manager_le_upd_exec) auto
  have peer: "forward s (upd_process pid (p_peer_update f) t)" if "forward s t" for t pid f
  proof -
    have "forward t (upd_process pid (p_peer_update f) t)"
      using forward_inv [OF that] by (simp add: forward_def manager_inv_upd_process manager_le_upd_process)
    with that show ?thesis by (rule forward_trans)
  qed
  have cl: "forward s (upd_client c f t)" if "forward s t" for t c f
  proof -
    have "forward t (upd_client c f t)" using forward_inv [OF that] by (simp add: forward_def)
    with that show ?thesis by (rule forward_trans)
  qed
  show ?thesis
    using assms(2) Some up [of ?x] up [of "?x\<lparr>x_retiring := False\<rparr>"]
    by (auto simp: retire_one_def Let_def intro!: peer cl split: if_splits option.splits)
qed

lemma forward_retire_images:
  assumes "manager_inv s" and "retire_images peer status s = (s', ds, rs)"
  shows "forward s s'"
proof -
  have "forward s u" if "fold (retire_one peer status) is (s, ds, rs) = (u, ds', rs')" "manager_inv s"
    for "is" s u ds rs ds' rs'
    using that
  proof (induction "is" arbitrary: s ds rs)
    case Nil
    then show ?case by simp
  next
    case (Cons i "is")
    obtain s1 ds1 rs1 where one: "retire_one peer status i (s, ds, rs) = (s1, ds1, rs1)"
      by (metis prod_cases3)
    from forward_retire_one [OF Cons.prems(2) one] have f: "forward s s1" .
    with Cons.IH [of s1 ds1 rs1] Cons.prems(1) one show ?case
      by (auto simp: forward_inv intro: forward_trans [OF f])
  qed
  with assms show ?thesis unfolding retire_images_def by blast
qed

lemma forward_reap_pid:
  assumes "manager_inv s" and r: "reap_pid status pid s = Some s'" and "procs s pid = Some p"
  shows "forward s s'"
proof -
  let ?s1 = "abort_pending_exec_for pid (abort_pending_for pid s)"
  have f2: "forward s (abort_pending_for pid s)" by (rule forward_parts [OF assms(1)])
  have f1: "forward s ?s1" by (rule forward_trans [OF f2 forward_parts(4) [OF forward_inv [OF f2]]])
  from r obtain recs order where
    "s' = ?s1\<lparr>m_exit_records := recs, m_exit_order := order,
      m_processes := fmmap (reparent_process pid) (fmdrop pid (m_processes ?s1)),
      m_transactions := bt_retain (\<lambda>_ t. t_parent t \<noteq> pid) (fmmap (reparent_ticket pid) (m_transactions ?s1)),
      m_exec_transactions := bt_retain (\<lambda>_ t. x_process t \<noteq> pid) (m_exec_transactions ?s1)\<rparr>"
    by (auto simp: reap_pid_def Let_def dest!: record_exit_frame)
  then have "manager_le ?s1 s'"
    by (intro manager_le_shrink [OF forward_inv [OF f1]])
      (auto simp: same_config_def counters_le_def reparent_process_def split: option.splits if_splits)
  with f1 reap_pid_inv [OF assms(1,3), of status] r show ?thesis
    by (auto simp: forward_def intro: manager_le_trans)
qed

lemma forward_reap_pids:
  assumes "manager_inv s" and "distinct pids" and "\<And>pid. pid \<in> set pids \<Longrightarrow> procs s pid \<noteq> None"
  shows "\<exists>s'. reap_pids status pids s = Some s' \<and> forward s s'"
  using assms
proof (induction pids arbitrary: s)
  case Nil
  then show ?case by simp
next
  case (Cons pid pids)
  then obtain p where p: "procs s pid = Some p" by fastforce
  from reap_pid_inv [OF Cons.prems(1) p, of status] obtain s1 where
    s1: "reap_pid status pid s = Some s1" "\<And>q. procs s1 q = None \<longleftrightarrow> q = pid \<or> procs s q = None"
    by blast
  have f: "forward s s1" by (rule forward_reap_pid [OF Cons.prems(1) s1(1) p])
  have "procs s1 q \<noteq> None" if "q \<in> set pids" for q
    using that Cons.prems(2,3) s1(2) [of q] by auto
  with Cons.IH [OF forward_inv [OF f]] Cons.prems(2) obtain s2 where
    "reap_pids status pids s1 = Some s2" "forward s1 s2" by auto
  with s1(1) forward_trans [OF f] show ?case by auto
qed

lemma forward_exit_once:
  assumes "manager_inv s"
  shows "\<exists>s' ds. exit_once peer status s = Some (s', ds) \<and> forward s s'"
proof -
  obtain s1 ds rs where r: "retire_images peer status s = (s1, ds, rs)" by (metis prod_cases3)
  let ?s2 = "fold forget_replaced rs s1"
  let ?s3 = "fold abort_exec_transaction (bt_keys_where (\<lambda>t. x_target t = peer) (m_exec_transactions ?s2)) ?s2"
  let ?s4 = "fold disconnect (bt_keys_where (\<lambda>c. c_peer c = peer) (m_clients ?s3)) ?s3"
  have f1: "forward s s1" by (rule forward_retire_images [OF assms r])
  have f2: "forward s ?s2"
    by (rule forward_trans [OF f1 forward_fold [OF forward_forget_replaced forward_inv [OF f1]]])
  have f3: "forward s ?s3" by (rule forward_trans [OF f2 forward_parts(8) [OF forward_inv [OF f2]]])
  have f4: "forward s ?s4"
    by (rule forward_trans [OF f3 forward_fold [OF forward_disconnect forward_inv [OF f3]]])
  have live: "procs ?s4 pid \<noteq> None" if "pid \<in> set (bt_keys_where (\<lambda>p. p_peer p = peer) (m_processes ?s4))" for pid
    using that by (auto simp: set_bt_keys_where)
  obtain s5 where s5: "reap_pids status (bt_keys_where (\<lambda>p. p_peer p = peer) (m_processes ?s4)) ?s4 = Some s5"
    "forward ?s4 s5"
    using forward_reap_pids [OF forward_inv [OF f4] distinct_bt_keys_where live] by blast
  let ?s6 = "s5\<lparr>m_retired_peers := m_retired_peers s5 |-| {|peer|}\<rparr>"
  have f5: "forward s s5" by (rule forward_trans [OF f4 s5(2)])
  have f6: "forward s ?s6" by (rule forward_trans [OF f5 forward_parts(6) [OF forward_inv [OF f5]]])
  have "forward s (collect_objects ?s6)" by (rule forward_trans [OF f6 forward_parts(1) [OF forward_inv [OF f6]]])
  with r s5(1) show ?thesis by (simp add: exit_once_def Let_def)
qed

lemma forward_process_exits: "manager_inv s \<Longrightarrow> \<exists>s'. process_exits work s = Some s' \<and> forward s s'"
proof (induction work s rule: process_exits.induct)
  case (1 s)
  then show ?case by simp
next
  case (2 peer status work s)
  from forward_exit_once [OF 2(2), of peer status] obtain s1 ds where
    s1: "exit_once peer status s = Some (s1, ds)" "forward s s1" by blast
  from 2(1) [OF s1(1) refl forward_inv [OF s1(2)]] s1 show ?case by (auto intro: forward_trans)
qed

section \<open>The entry points\<close>

lemma prune_sound:
  assumes "manager_inv s" and "manager_inv (upd_process pid f (s\<lparr>m_transactions := T, m_exec_transactions := X\<rparr>))"
    and "\<And>i t. fmlookup T i = Some t \<Longrightarrow> txs s i = Some t"
    and "\<And>i x. fmlookup X i = Some x \<Longrightarrow> execs s i = Some x"
    and "\<And>p. p_state (f p) = p_state p"
  shows "sound s (Ok r, upd_process pid f (s\<lparr>m_transactions := T, m_exec_transactions := X\<rparr>))"
  using assms
  by (intro sound_Ok manager_le_shrink [OF assms(1)])
    (auto simp: same_config_def counters_le_def upd_process_def split: if_splits)

lemma acknowledge_fork_sound:
  assumes "manager_inv s" and t: "txs s i = Some t" "t_parent t = pid" "terminal (t_state t)"
  shows "sound s (Ok (), upd_process pid (p_request_keys_update (forget_key i)) (s\<lparr>m_transactions := fmdrop i (m_transactions s)\<rparr>))"
proof -
  let ?f = "p_request_keys_update (forget_key i)" and ?T = "fmdrop i (m_transactions s)"
  let ?s = "upd_process pid ?f (s\<lparr>m_transactions := ?T, m_exec_transactions := m_exec_transactions s\<rparr>)"
  have key: "\<exists>u. txs s j = Some u" if "procs s pid = Some p" "fmlookup (p_request_keys p) k = Some j" for p k j
    using manager_invD(3) [OF assms(1)] that unfolding inv_keys_def by blast
  have keyX: "\<exists>x. execs s j = Some x" if "procs s pid = Some p" "fmlookup (p_exec_request_keys p) k = Some j" for p k j
    using manager_invD(3) [OF assms(1)] that unfolding inv_keys_def by blast
  have "manager_inv ?s"
    using t key keyX by (intro manager_inv_prune [OF assms(1)])
      (auto simp: forget_key_def contains_key_def split: option.splits if_splits)
  then have "sound s (Ok (), ?s)" by (intro prune_sound [OF assms(1)]) (auto split: if_splits)
  then show ?thesis by simp
qed

lemma acknowledge_exec_sound:
  assumes "manager_inv s" and x: "execs s i = Some x" "x_process x = pid"
  shows "sound s (Ok (), upd_process pid (p_exec_request_keys_update (forget_key i))
    (s\<lparr>m_exec_transactions := fmdrop i (m_exec_transactions s)\<rparr>))"
proof -
  let ?f = "p_exec_request_keys_update (forget_key i)" and ?X = "fmdrop i (m_exec_transactions s)"
  let ?s = "upd_process pid ?f (s\<lparr>m_transactions := m_transactions s, m_exec_transactions := ?X\<rparr>)"
  have key: "\<exists>u. txs s j = Some u" if "procs s pid = Some p" "fmlookup (p_request_keys p) k = Some j" for p k j
    using manager_invD(3) [OF assms(1)] that unfolding inv_keys_def by blast
  have keyX: "\<exists>x. execs s j = Some x" if "procs s pid = Some p" "fmlookup (p_exec_request_keys p) k = Some j" for p k j
    using manager_invD(3) [OF assms(1)] that unfolding inv_keys_def by blast
  have "manager_inv ?s"
    using x key keyX by (intro manager_inv_prune [OF assms(1)])
      (auto simp: forget_key_def contains_key_def split: option.splits if_splits)
  then have "sound s (Ok (), ?s)" by (intro prune_sound [OF assms(1)]) (auto split: if_splits)
  then show ?thesis by simp
qed

lemma acknowledge_sound: "manager_inv s \<Longrightarrow> sound s (acknowledge s client i)"
  by (auto simp: acknowledge_def sound_read intro!: acknowledge_fork_sound acknowledge_exec_sound
      split: option.split client_kind.split)

lemma connect_root_sound:
  assumes "manager_inv s"
  shows "sound s (connect_root s peer)"
  using assms
  by (auto simp: connect_root_def allocate_identity_def
      intro!: sound_try sound_Ok manager_inv_root manager_le_root split: outcome.split)

lemma sound_relabel:
  "sound s x \<Longrightarrow> sound s (case x of (Ok a, s1) \<Rightarrow> (Ok (f a), s1) | (Err e, s1) \<Rightarrow> (Err e, s1) | (Panic, s1) \<Rightarrow> (Panic, s1))"
  by (auto simp: sound_def split: prod.splits outcome.splits)

lemma connect_worker_sound:
  assumes "manager_inv s"
  shows "sound s (connect_worker s h peer)"
proof -
  have "\<exists>x. execs s i = Some x" if "reserved_exec s peer = Some i" for i
    using that by (auto simp: reserved_exec_def dest: bt_find_Some)
  then have "sound s (adopt_exec s i c)" if "reserved_exec s peer = Some i" for i c
    using that adopt_exec_sound [OF assms] by blast
  with assms show ?thesis unfolding connect_worker_def
    by (auto intro!: sound_relabel adopt_sound connect_root_sound split: option.split)
qed

lemma connect_role_sound: "manager_inv s \<Longrightarrow> sound s (connect_role s h peer)"
  by (auto simp: connect_role_def sound_read connect_worker_sound split: client_role.split)

lemma connect_role_next_client:
  "connect_role s h peer = (r, s') \<Longrightarrow> m_next_client s' = m_next_client s"
  by (auto simp: connect_role_def connect_worker_def adopt_exec_def adopt_def connect_root_def
      allocate_identity_def upd_defs Let_def
      split: client_role.splits if_splits option.splits transaction_state.splits prod.splits outcome.splits try_or_splits)

lemma connect_sound:
  assumes "manager_inv s"
  shows "sound s (connect s h peer)"
proof (cases "connect_guard s h peer")
  case (Ok u)
  then have max: "m_next_client s \<noteq> - 1" by (auto simp: connect_guard_def split: if_splits)
  obtain r s1 where r: "connect_role s h peer = (r, s1)" by fastforce
  note good = connect_role_sound [OF assms, of h peer, unfolded r]
  note nc = connect_role_next_client [OF r]
  show ?thesis
  proof (cases r)
    case (Ok pk)
    have inv1: "manager_inv s1" "manager_le s s1" using good by (simp_all add: sound_def)
    have "sound s1 (Ok q, s1\<lparr>m_next_client := m_next_client s1 + 1, m_clients := fmupd (m_next_client s1) c (m_clients s1)\<rparr>)" for c q
      using manager_inv_new_client [OF inv1(1)] manager_le_new_client [OF inv1(1)] max nc by (intro sound_Ok) simp_all
    from sound_after [OF inv1(2) this] show ?thesis
      using \<open>connect_guard s h peer = Ok u\<close> Ok r by (simp add: connect_def split_def)
  qed (use \<open>connect_guard s h peer = Ok u\<close> r good in \<open>auto simp: connect_def sound_def\<close>)
qed (use assms in \<open>auto simp: connect_def connect_guard_def split: if_splits\<close>)

lemma process_memory_target_not_Panic [simp]: "process_memory_target s c t w \<noteq> Panic"
  by (simp add: process_memory_target_def split: option.split)

lemma replies_not_Panic [simp]:
  "native_fork_request s pid i spec \<noteq> Panic" "await_fork_ready s pid i \<noteq> Panic"
  "await_exec_ready s c pid i \<noteq> Panic" "await_exit s pid \<noteq> Panic" "prewarm_ready s pid \<noteq> Panic"
  by (auto simp: native_fork_request_def await_fork_ready_def await_exec_ready_def await_exit_def prewarm_ready_def
      split: option.splits transaction_state.splits if_splits prewarm_state.splits)

lemma controller_sound: "manager_inv s \<Longrightarrow> sound s (handle_controller s c req)"
  by (cases req) (auto simp: handle_controller_def sound_read intro: sound_Ok)

lemma worker_dispatch_sound:
  assumes "manager_inv s" and "procs s pid = Some p" and "fmlookup (m_clients s) c = Some k"
    and "\<not> controller_only req" and "\<And>h. req \<noteq> Hello h" and "req \<noteq> Identity"
  shows "sound s (worker_dispatch s entropy c pid p req)"
proof -
  note ops = register_module_sound define_state_sound read_state_sound write_state_sound mark_ready_sound
    prepare_fork_sound prepare_exec_sound
  note ops' = ops [OF assms(1,2)] commit_fork_sound [OF assms(1)] abort_fork_sound [OF assms(1)]
    commit_exec_sound [OF assms(1,3)] abort_exec_sound [OF assms(1)]
  show ?thesis using assms ops'
    by (cases req; (use assms(5) in blast)?)
      (simp_all add: worker_dispatch_def controller_only_def sound_read split: prewarm_state.split)
qed

lemma handle_sound:
  assumes "manager_inv s"
  shows "sound s (handle s entropy client req)"
proof (cases "fmlookup (m_clients s) client")
  case None
  with assms show ?thesis by (simp add: handle_def)
next
  case (Some k)
  have worker: "sound s (handle_worker s entropy client peer pid req)"
    if "\<not> controller_only req" "\<And>h. req \<noteq> Hello h" for peer pid
    using assms Some that worker_dispatch_sound [OF assms _ Some that]
    by (auto simp: handle_worker_def sound_read split: option.split process_state.split)
  have retired: "sound s (handle_retired s client pid i req)" for pid i
    using assms commit_exec_sound [OF assms Some] abort_exec_sound [OF assms]
    by (cases req) (simp_all add: handle_retired_def Let_def)
  have hello: "(case req of Hello _ \<Rightarrow> True | _ \<Rightarrow> False) \<longleftrightarrow> (\<exists>h. req = Hello h)" by (cases req) simp_all
  show ?thesis
    using assms Some worker retired candidate_sound [OF assms] controller_sound [OF assms]
    unfolding handle_def Let_def hello
    by (cases "c_kind k") (auto simp: is_control_kind_def)
qed

section \<open>The manager as a transition system\<close>

lemma step_forward: "manager_step s s' \<Longrightarrow> manager_inv s \<Longrightarrow> forward s s'"
proof (induction rule: manager_step.induct)
  case (step_connect s h peer r s')
  with connect_sound [of s h peer] show ?case by (simp add: sound_def forward_def)
next
  case (step_handle s entropy client req r s')
  with handle_sound [of s entropy client req] show ?case by (simp add: sound_def forward_def)
next
  case (step_acknowledge s client i r s')
  with acknowledge_sound [of s client i] show ?case by (simp add: sound_def forward_def)
next
  case (step_disconnect client s s')
  with forward_disconnect show ?case by blast
next
  case (step_exit peer status s s')
  with forward_process_exits [of s "[(peer, status)]"] show ?case
    by (auto simp: process_exited_with_status_def)
qed

interpretation mgr: monotone_system manager_initial manager_step manager_inv manager_le
proof unfold_locales
  show "manager_inv s" if "manager_initial s" for s using that by (rule inv_initial)
  show "manager_inv t" if "manager_step s t" "manager_inv s" for s t
    using step_forward [OF that] by (rule forward_inv)
  show "manager_le s s" if "manager_inv s" for s using that by simp
  show "manager_le s u" if "manager_le s t" "manager_le t u" for s t u using that by (rule manager_le_trans)
  show "manager_le s t" if "manager_step s t" "manager_inv s" for s t
    using step_forward [OF that] by (simp add: forward_def)
qed

end
