(* ===== verification/Manager_Peers.thy ===== *)
theory Manager_Peers
  imports Manager_Safety
begin

text \<open>
  Who owns what natively: in every reachable state a native process owns at most one Linux
  process, and the replacement an exec has reserved belongs to that exec alone.
\<close>

section \<open>Owners and images\<close>

definition native_owner :: "manager \<Rightarrow> u32 \<Rightarrow> peer_identity option" where
  "native_owner s pid = map_option p_peer (procs s pid)"

definition reserved_image :: "manager \<Rightarrow> u64 \<Rightarrow> (u32 \<times> peer_identity) option" where
  "reserved_image s i = map_option (\<lambda>x. (x_process x, x_target x)) (execs s i)"

definition one_owner :: "manager \<Rightarrow> bool" where
  "one_owner s \<longleftrightarrow>
     (\<forall>q r peer. native_owner s q = Some peer \<and> native_owner s r = Some peer \<longrightarrow> q = r)
     \<and> (\<forall>i q pid peer. reserved_image s i = Some (pid, peer) \<and> native_owner s q = Some peer \<longrightarrow> q = pid)
     \<and> (\<forall>i j p q peer. reserved_image s i = Some (p, peer) \<and> reserved_image s j = Some (q, peer) \<longrightarrow> i = j)"

text \<open>Most operations keep every owner and every image, or drop them.\<close>

definition sheds :: "manager \<Rightarrow> manager \<Rightarrow> bool" where
  "sheds s s' \<longleftrightarrow> (\<forall>q. native_owner s' q \<in> {None, native_owner s q}) \<and> (\<forall>i. reserved_image s' i \<in> {None, reserved_image s i})"

lemma sheds_refl [simp]: "sheds s s"
  by (simp add: sheds_def)

lemma sheds_trans [trans]: "sheds s t \<Longrightarrow> sheds t u \<Longrightarrow> sheds s u"
  unfolding sheds_def by (metis insert_iff singletonD)

lemma sheds_one_owner: "sheds s s' \<Longrightarrow> one_owner s \<Longrightarrow> one_owner s'"
  unfolding sheds_def one_owner_def by (metis (no_types, lifting) insert_iff option.distinct(1) singletonD)

lemma sheds_fold: "(\<And>i s. sheds s (f i s)) \<Longrightarrow> sheds s (fold f is s)"
  by (induction "is" arbitrary: s) (auto intro: sheds_trans)

lemma sheds_same:
  "m_processes s' = m_processes s \<Longrightarrow> m_exec_transactions s' = m_exec_transactions s \<Longrightarrow> sheds s s'"
  by (simp add: sheds_def native_owner_def reserved_image_def)

lemma sheds_upd [simp]:
  "(\<And>p. p_peer (f p) = p_peer p) \<Longrightarrow> sheds s (upd_process pid f s)"
  "(\<And>x. x_process (g x) = x_process x \<and> x_target (g x) = x_target x) \<Longrightarrow> sheds s (upd_exec i g s)"
  "sheds s (upd_transaction i h s)" "sheds s (upd_client c k s)"
  by (auto simp: sheds_def native_owner_def reserved_image_def upd_defs option.map_comp comp_def)

lemma sheds_after_upd:
  "sheds s t \<Longrightarrow> (\<And>p. p_peer (f p) = p_peer p) \<Longrightarrow> sheds s (upd_process pid f t)"
  "sheds s t \<Longrightarrow> (\<And>x. x_process (g x) = x_process x \<and> x_target (g x) = x_target x) \<Longrightarrow> sheds s (upd_exec i g t)"
  "sheds s t \<Longrightarrow> sheds s (upd_transaction i h t)" "sheds s t \<Longrightarrow> sheds s (upd_client c k t)"
  by (rule sheds_trans, assumption, simp)+

lemma sheds_after_set:
  "sheds s t \<Longrightarrow> sheds s (t\<lparr>m_transactions := T\<rparr>)" "sheds s t \<Longrightarrow> sheds s (t\<lparr>m_clients := C\<rparr>)"
  "sheds s t \<Longrightarrow> sheds s (t\<lparr>m_retired_peers := R\<rparr>)" "sheds s t \<Longrightarrow> sheds s (t\<lparr>m_next_transaction := n\<rparr>)"
  "sheds s t \<Longrightarrow> sheds s (t\<lparr>m_objects := O'\<rparr>)" "sheds s t \<Longrightarrow> sheds s (t\<lparr>m_modules := M\<rparr>)"
  by (simp_all add: sheds_def native_owner_def reserved_image_def)

lemmas sheds_after = sheds_after_upd sheds_after_set

lemma sheds_next_pid [simp]: "sheds (s\<lparr>m_next_pid := n\<rparr>) t = sheds s t" "sheds s (s\<lparr>m_next_pid := n\<rparr>)"
  by (simp_all add: sheds_def native_owner_def reserved_image_def)

section \<open>Requests\<close>

lemma sheds_objects: "only_objects s s' \<Longrightarrow> sheds s s'"
  by (rule sheds_same) (auto simp: only_objects_def)

lemma sheds_pool:
  "sheds s (snd (activate_prewarm s pid))" "sheds s (snd (reserve_pool_worker s c))" "sheds s (snd (release_pool_worker s c pid))"
  "sheds s (snd (mark_prewarm s pid p w complaint))" "sheds s (snd (activate_pool_worker s c pid parent launch))"
  by (auto simp: activate_prewarm_def reserve_pool_worker_def release_pool_worker_def mark_prewarm_def
      activate_pool_worker_def Let_def split: option.split prod.split prewarm_state.split)

lemma sheds_controller: "sheds s (snd (handle_controller s c req))"
  using sheds_same [of "s\<lparr>m_shutdown_requested := True\<rparr>" s]
  by (cases req) (simp_all add: handle_controller_def sheds_pool)

lemma sheds_insert_object: "insert_object s ob = (i, s') \<Longrightarrow> sheds s s'"
  by (rule sheds_same) (auto simp: insert_object_def)

lemma sheds_fork_states: "fork_states s kvs = Some (out, s') \<Longrightarrow> sheds s s'"
proof (induction s kvs arbitrary: out rule: fork_states.induct)
  case (2 s k i rest)
  then show ?case
    by (auto intro: sheds_trans sheds_insert_object split: option.splits fork_policy.splits prod.splits)
qed simp

lemma sheds_state:
  "sheds s (snd (register_module s pid m schema))" "sheds s (snd (define_state s pid m nm initial fork))"
  "sheds s (snd (write_state s pid m nm v))" "sheds s (snd (mark_ready s pid))"
  by (auto simp: register_module_def define_state_def write_state_def mark_ready_def Let_def intro!: sheds_after
      intro: sheds_insert_object split: option.split prod.split process_state.split try_or_splits)

lemma sheds_prepare_fork: "sheds s (snd (prepare_fork s entropy pid k parent))"
  by (auto simp: prepare_fork_def prepare_fork_new_def allocate_identity_def Let_def
      intro!: sheds_after intro: sheds_same dest!: sheds_fork_states
      split: option.split prod.splits outcome.splits try_or_splits)

lemma sheds_abort:
  "sheds s (collect_objects s)" "sheds s (abort_transaction i s)" "sheds s (abort_exec_transaction i s)"
  "sheds s (release_reservations c s)" "sheds s (forget_replaced pid s)"
proof -
  show "sheds s (collect_objects s)" by (rule sheds_same) (simp_all add: collect_objects_def)
  show "sheds s (abort_transaction i s)"
    by (auto simp: abort_transaction_def Let_def intro!: sheds_after split: option.split)
  show "sheds s (abort_exec_transaction i s)"
    by (auto simp: abort_exec_transaction_def Let_def intro!: sheds_after split: option.split)
  show "sheds s (release_reservations c s)"
    by (auto simp: sheds_def native_owner_def reserved_image_def release_reservations_def option.map_comp intro!: option.map_cong0)
  show "sheds s (forget_replaced pid s)"
    by (auto simp: sheds_def native_owner_def reserved_image_def forget_replaced_def upd_process_def Let_def option.map_comp comp_def
        split: option.splits)
qed

lemma sheds_pending: "sheds s (abort_pending_for pid s)" "sheds s (abort_pending_exec_for pid s)"
  by (simp_all add: abort_pending_for_def abort_pending_exec_for_def sheds_fold sheds_abort)

lemma sheds_fork_end: "sheds s (snd (commit_fork s pid i))" "sheds s (snd (abort_fork s pid i))"
  by (auto simp: commit_fork_def abort_fork_def Let_def intro!: sheds_after intro: sheds_trans sheds_abort
      split: option.split transaction_state.split try_or_splits)

lemma sheds_exec_end:
  "sheds s (snd (commit_exec s owner' pid i))" "sheds s (snd (abort_exec s owner' pid i))" "sheds s (snd (adopt_exec s i c))"
  by (auto simp: commit_exec_def abort_exec_def adopt_exec_def Let_def intro!: sheds_after sheds_abort
      split: option.split transaction_state.split try_or_splits)

lemma sheds_candidate: "sheds s (snd (handle_exec_candidate s c pid i req))"
  by (cases req) (auto simp: handle_exec_candidate_def Let_def split: option.split)

lemma sheds_retired: "sheds s (snd (handle_retired s c pid i req))"
  by (cases req) (auto simp: handle_retired_def Let_def sheds_exec_end)

text \<open>The one request that reserves an image: the guards of \<open>prepare_exec\<close> make it new.\<close>

lemma one_owner_prepare_exec:
  assumes "one_owner s"
  shows "one_owner (snd (prepare_exec s owner' pid k target))"
proof -
  have new: "one_owner (upd_process pid f (s\<lparr>m_next_transaction := n, m_exec_transactions := fmupd i x (m_exec_transactions s)\<rparr>))"
    if f: "\<And>p. p_peer (f p) = p_peer p"
      and x: "\<not> bt_any (\<lambda>q. p_peer q = x_target x) (m_processes s)" "\<not> bt_any (\<lambda>t. x_target t = x_target x) (m_exec_transactions s)"
    for f n i x
  proof -
    let ?s = "upd_process pid f (s\<lparr>m_next_transaction := n, m_exec_transactions := fmupd i x (m_exec_transactions s)\<rparr>)"
    have o: "native_owner ?s q = native_owner s q" for q by (simp add: native_owner_def upd_process_def option.map_comp comp_def f)
    have im: "reserved_image ?s j = (if j = i then Some (x_process x, x_target x) else reserved_image s j)" for j
      by (simp add: reserved_image_def upd_process_def)
    have "native_owner s q \<noteq> Some (x_target x)" for q using x(1) by (auto simp: native_owner_def bt_any_iff)
    moreover have "reserved_image s j \<noteq> Some (p, x_target x)" for j p using x(2) by (auto simp: reserved_image_def bt_any_iff)
    ultimately show ?thesis using assms unfolding one_owner_def o im by (auto split: if_splits)
  qed
  show ?thesis using assms by (auto simp: prepare_exec_def Let_def intro!: new split: option.split)
qed

lemma one_owner_worker:
  assumes "one_owner s"
  shows "one_owner (snd (worker_dispatch s entropy c pid p req))"
  using assms sheds_one_owner [OF _ assms]
  by (cases req) (simp_all add: worker_dispatch_def sheds_pool sheds_state sheds_prepare_fork sheds_fork_end sheds_exec_end
      one_owner_prepare_exec)

lemma one_owner_handle:
  assumes "one_owner s"
  shows "one_owner (snd (handle s entropy client req))"
proof -
  note shed = sheds_one_owner [OF _ assms]
  have "one_owner (snd (handle_worker s entropy client peer pid req))" for peer pid
    using assms one_owner_worker [OF assms] by (auto simp: handle_worker_def split: option.split process_state.split)
  then show ?thesis
    using assms shed [OF sheds_candidate] shed [OF sheds_retired] shed [OF sheds_controller]
    by (auto simp: handle_def Let_def split: option.split client_kind.split)
qed

lemma sheds_acknowledge: "sheds s (snd (acknowledge s client i))"
proof -
  have "sheds s (s\<lparr>m_exec_transactions := fmdrop i (m_exec_transactions s)\<rparr>)"
    by (simp add: sheds_def native_owner_def reserved_image_def)
  then show ?thesis
    by (auto simp: acknowledge_def intro!: sheds_after split: option.split client_kind.split)
qed

section \<open>Connections\<close>

text \<open>A new owner has no process yet and is no reserved replacement.\<close>

lemma one_owner_new:
  assumes "one_owner s" and "\<not> known_worker s (p_peer p)" and "reserved_exec s (p_peer p) = None" and "sheds s t"
  shows "one_owner (t\<lparr>m_processes := fmupd pid p (m_processes t)\<rparr>)"
proof -
  let ?t = "t\<lparr>m_processes := fmupd pid p (m_processes t)\<rparr>"
  have o: "native_owner ?t q = (if q = pid then Some (p_peer p) else native_owner t q)" for q by (simp add: native_owner_def)
  have im: "reserved_image ?t i = reserved_image t i" for i by (simp add: reserved_image_def)
  have "native_owner s q \<noteq> Some (p_peer p)" for q using assms(2) by (auto simp: native_owner_def known_worker_def bt_any_iff)
  then have "native_owner t q \<noteq> Some (p_peer p)" for q using assms(4) unfolding sheds_def by (metis insert_iff option.distinct(1) singletonD)
  moreover have "reserved_image s i \<noteq> Some (q, p_peer p)" for i q using assms(3) by (auto simp: reserved_image_def reserved_exec_def bt_find_None)
  then have "reserved_image t i \<noteq> Some (q, p_peer p)" for i q using assms(4) unfolding sheds_def by (metis insert_iff option.distinct(1) singletonD)
  ultimately show ?thesis using sheds_one_owner [OF assms(4,1)] unfolding one_owner_def o im by (auto split: if_splits)
qed

lemma one_owner_root:
  assumes "one_owner s" and "\<not> known_worker s peer" and "reserved_exec s peer = None"
  shows "one_owner (snd (connect_root s peer))"
  using assms one_owner_new [OF assms(1), of _ "s\<lparr>m_next_pid := n\<rparr>" for n]
  by (auto simp: connect_root_def allocate_identity_def intro!: one_owner_new sheds_one_owner [OF _ assms(1)] split: try_or_splits)

lemma one_owner_adopt:
  assumes "one_owner s" and "\<not> known_worker s peer" and "reserved_exec s peer = None"
  shows "one_owner (snd (adopt s token peer))"
  using assms by (auto simp: adopt_def Let_def intro!: one_owner_new sheds_after split: option.split transaction_state.split)

lemma one_owner_connect_role:
  assumes "one_owner s"
  shows "one_owner (snd (connect_role s h peer))"
proof -
  have "one_owner (snd (connect_worker s h peer))"
    using assms one_owner_root [OF assms, of peer] one_owner_adopt [OF assms, of peer] sheds_one_owner [OF sheds_exec_end(3) assms]
    by (auto simp: connect_worker_def split: option.split prod.split outcome.split) (metis snd_conv)+
  then show ?thesis using assms by (simp add: connect_role_def split: client_role.split)
qed

lemma one_owner_connect:
  assumes "one_owner s"
  shows "one_owner (snd (connect s h peer))"
proof -
  have "one_owner (t\<lparr>m_next_client := n, m_clients := C\<rparr>)" if "one_owner t" for t n C
    using that by (rule sheds_one_owner [rotated]) (rule sheds_same; simp)
  then show ?thesis
    using assms one_owner_connect_role [OF assms, of h peer]
    by (auto simp: connect_def split: try_or_splits prod.split outcome.split)
qed

section \<open>Exits\<close>

lemma sheds_disconnect: "sheds s (disconnect c s)"
proof -
  have a: "sheds s t \<Longrightarrow> sheds s (collect_objects t)" "sheds s t \<Longrightarrow> sheds s (abort_exec_transaction i t)"
    "sheds s t \<Longrightarrow> sheds s (abort_pending_exec_for pid (abort_pending_for pid t))" for t i pid
    using sheds_trans sheds_abort(1,3) sheds_pending by meson+
  show ?thesis unfolding disconnect_def Let_def
    by (auto intro!: a sheds_after sheds_abort split: option.split client_kind.split)
qed

text \<open>A committed exec hands its process to the replacement it reserved.\<close>

lemma one_owner_hand_over:
  assumes "one_owner s" and "execs s i = Some x"
  shows "one_owner (upd_process (x_process x) (p_peer_update (\<lambda>_. x_target x)) s)"
proof -
  let ?s = "upd_process (x_process x) (p_peer_update (\<lambda>_. x_target x)) s"
  have o: "native_owner ?s q = (if q = x_process x then map_option (\<lambda>_. x_target x) (native_owner s q) else native_owner s q)" for q
    by (simp add: native_owner_def upd_process_def option.map_comp comp_def)
  have im: "reserved_image ?s j = reserved_image s j" for j by (simp add: reserved_image_def upd_process_def)
  have x: "reserved_image s i = Some (x_process x, x_target x)" using assms(2) by (simp add: reserved_image_def)
  have same: "pid = x_process x" if "reserved_image s j = Some (pid, x_target x)" for j pid
  proof -
    have "j = i" using assms(1) x that unfolding one_owner_def by blast
    then show ?thesis using x that by simp
  qed
  have held: "q = x_process x" if "native_owner s q = Some (x_target x)" for q
    using assms(1) x that unfolding one_owner_def by blast
  have inj: "q = r" if "native_owner s q = Some peer" "native_owner s r = Some peer" for q r peer
    using assms(1) that unfolding one_owner_def by blast
  have old: "q = pid" if "reserved_image s j = Some (pid, peer)" "native_owner s q = Some peer" for j q pid peer
    using assms(1) that unfolding one_owner_def by blast
  have dist: "j = k" if "reserved_image s j = Some (p, peer)" "reserved_image s k = Some (q, peer)" for j k p q peer
    using assms(1) that unfolding one_owner_def by blast
  show ?thesis unfolding one_owner_def o im
  proof (intro conjI allI impI)
    show "q = r" if "(if q = x_process x then map_option (\<lambda>_. x_target x) (native_owner s q) else native_owner s q) = Some peer
      \<and> (if r = x_process x then map_option (\<lambda>_. x_target x) (native_owner s r) else native_owner s r) = Some peer" for q r peer
      using that held inj [of q peer r] by (auto split: if_splits)
    show "q = pid" if "reserved_image s j = Some (pid, peer)
      \<and> (if q = x_process x then map_option (\<lambda>_. x_target x) (native_owner s q) else native_owner s q) = Some peer" for j q pid peer
      using that same [of j pid] old [of j pid peer q] by (auto split: if_splits)
    show "j = k" if "reserved_image s j = Some (p, peer) \<and> reserved_image s k = Some (q, peer)" for j k p q peer
      using that dist by blast
  qed
qed

lemma one_owner_retire_one:
  assumes "one_owner s" and "retire_one peer status i (s, ds, rs) = (s', ds', rs')"
  shows "one_owner s'"
proof (cases "execs s i")
  case None
  with assms show ?thesis by (simp add: retire_one_def)
next
  case (Some x)
  have up: "one_owner (upd_exec i (\<lambda>_. y) s)" "execs (upd_exec i (\<lambda>_. y) s) i = Some y"
    if "x_process y = x_process x" "x_target y = x_target x" for y
  proof -
    have "sheds s (upd_exec i (\<lambda>_. y) s)" using that Some by (simp add: sheds_def native_owner_def reserved_image_def upd_exec_def)
    then show "one_owner (upd_exec i (\<lambda>_. y) s)" using assms(1) by (rule sheds_one_owner)
    show "execs (upd_exec i (\<lambda>_. y) s) i = Some y" using Some by (simp add: upd_exec_def)
  qed
  have cl: "one_owner (upd_client c f t)" if "one_owner t" for c f t using that by (rule sheds_one_owner [rotated]) simp
  let ?y = "(note_candidate_exit peer status x)\<lparr>x_retiring := False\<rparr>"
  have "one_owner (upd_process (x_process x) (p_peer_update (\<lambda>_. x_target x)) (upd_exec i (\<lambda>_. ?y) s))"
    using one_owner_hand_over [OF up [of ?y]] by simp
  then show ?thesis using assms(2) Some up(1) [of "note_candidate_exit peer status x"]
    by (auto simp: retire_one_def Let_def intro!: cl split: if_splits option.splits)
qed

lemma one_owner_retire_images:
  assumes "one_owner s" and "retire_images peer status s = (s', ds, rs)"
  shows "one_owner s'"
proof -
  have "one_owner u" if "fold (retire_one peer status) is (s, ds, rs) = (u, ds', rs')" "one_owner s" for "is" s u ds rs ds' rs'
    using that
  proof (induction "is" arbitrary: s ds rs)
    case (Cons i "is")
    obtain s1 ds1 rs1 where one: "retire_one peer status i (s, ds, rs) = (s1, ds1, rs1)" by (metis prod_cases3)
    show ?case using Cons.IH [of s1 ds1 rs1] Cons.prems one_owner_retire_one [OF Cons.prems(2) one] one by simp
  qed simp
  with assms show ?thesis unfolding retire_images_def by blast
qed

lemma sheds_reap_pid:
  assumes "reap_pid status pid s = Some s'"
  shows "sheds s s'"
proof -
  let ?s1 = "abort_pending_exec_for pid (abort_pending_for pid s)"
  have s1: "sheds s ?s1" using sheds_trans sheds_pending by blast
  from assms obtain recs order where "s' = ?s1\<lparr>m_exit_records := recs, m_exit_order := order,
      m_processes := fmmap (reparent_process pid) (fmdrop pid (m_processes ?s1)),
      m_transactions := bt_retain (\<lambda>_ t. t_parent t \<noteq> pid) (fmmap (reparent_ticket pid) (m_transactions ?s1)),
      m_exec_transactions := bt_retain (\<lambda>_ t. x_process t \<noteq> pid) (m_exec_transactions ?s1)\<rparr>"
    by (auto simp: reap_pid_def Let_def dest!: record_exit_frame)
  moreover have "p_peer (reparent_process pid p) = p_peer p" for p by (simp add: reparent_process_def)
  ultimately have "sheds ?s1 s'"
    by (auto simp: sheds_def native_owner_def reserved_image_def option.map_comp comp_def split: option.splits)
  with s1 show ?thesis by (rule sheds_trans)
qed

lemma sheds_reap_pids: "reap_pids status pids s = Some s' \<Longrightarrow> sheds s s'"
  by (induction pids arbitrary: s) (auto intro: sheds_trans dest: sheds_reap_pid split: option.splits)

lemma one_owner_exit_once:
  assumes "one_owner s" and "exit_once peer status s = Some (s', ds)"
  shows "one_owner s'"
proof -
  obtain s1 rs ds1 where r: "retire_images peer status s = (s1, ds1, rs)" by (metis prod_cases3)
  let ?s2 = "fold forget_replaced rs s1"
  let ?s3 = "fold abort_exec_transaction (bt_keys_where (\<lambda>t. x_target t = peer) (m_exec_transactions ?s2)) ?s2"
  let ?s4 = "fold disconnect (bt_keys_where (\<lambda>c. c_peer c = peer) (m_clients ?s3)) ?s3"
  from assms(2) r obtain s5 where s5: "reap_pids status (bt_keys_where (\<lambda>p. p_peer p = peer) (m_processes ?s4)) ?s4 = Some s5"
      "s' = collect_objects (s5\<lparr>m_retired_peers := m_retired_peers s5 |-| {|peer|}\<rparr>)"
    by (auto simp: exit_once_def Let_def)
  have "sheds s1 ?s2" "sheds ?s2 ?s3" "sheds ?s3 ?s4" by (simp_all add: sheds_fold sheds_abort sheds_disconnect)
  then have "sheds s1 s5" using sheds_reap_pids [OF s5(1)] by (blast intro: sheds_trans)
  then have "sheds s1 (s5\<lparr>m_retired_peers := m_retired_peers s5 |-| {|peer|}\<rparr>)" by (rule sheds_after)
  then have "sheds s1 s'" unfolding s5(2) using sheds_abort(1) by (rule sheds_trans)
  then show ?thesis using one_owner_retire_images [OF assms(1) r] by (rule sheds_one_owner)
qed

lemma one_owner_process_exits: "one_owner s \<Longrightarrow> process_exits work s = Some s' \<Longrightarrow> one_owner s'"
proof (induction work s rule: process_exits.induct)
  case (2 peer status work s)
  from 2(3) obtain s1 ds where e: "exit_once peer status s = Some (s1, ds)" "process_exits (ds @ work) s1 = Some s'"
    by (auto split: option.splits)
  from 2(1) [OF e(1) refl one_owner_exit_once [OF 2(2) e(1)] e(2)] show ?case .
qed simp

section \<open>Every reachable state\<close>

lemma one_owner_step: "manager_step s s' \<Longrightarrow> one_owner s \<Longrightarrow> one_owner s'"
proof (induction rule: manager_step.induct)
  case (step_connect s h peer r s')
  then show ?case using one_owner_connect [of s h peer] by simp
next
  case (step_handle s entropy client req r s')
  then show ?case using one_owner_handle [of s entropy client req] by simp
next
  case (step_acknowledge s client i r s')
  then show ?case using sheds_one_owner [OF sheds_acknowledge [of s client i]] by simp
next
  case (step_disconnect client s s')
  then show ?case using sheds_one_owner [OF sheds_disconnect] by blast
next
  case (step_exit peer status s s')
  then show ?case using one_owner_process_exits [of s "[(peer, status)]" s'] by (simp only: process_exited_with_status_def)
qed

lemma one_owner_initial: "manager_initial s \<Longrightarrow> one_owner s"
  by (auto simp: manager_initial_def one_owner_def native_owner_def reserved_image_def with_limits_def for_process_tree_def new_manager_def)

lemma one_owner_steps: "manager_step\<^sup>*\<^sup>* s0 s \<Longrightarrow> manager_initial s0 \<Longrightarrow> one_owner s"
  by (induction rule: rtranclp_induct) (auto intro: one_owner_initial one_owner_step)

lemma one_ownerD: "one_owner s \<Longrightarrow> procs s q = Some p \<Longrightarrow> procs s r = Some p' \<Longrightarrow> p_peer p = p_peer p' \<Longrightarrow> q = r"
  unfolding one_owner_def native_owner_def by (metis option.simps(9))

end
