(* ===== verification/Manager_Props.thy ===== *)
theory Manager_Props
  imports Manager_Peers
begin

text \<open>
  The properties of the process manager as a whole: what holds of every state a run
  can reach, and what the operations mean to their callers.
\<close>

section \<open>Helpers\<close>

definition reachable :: "manager \<Rightarrow> bool" where
  "reachable s \<longleftrightarrow> (\<exists>s0. manager_initial s0 \<and> manager_step\<^sup>*\<^sup>* s0 s)"

lemma reachable_inv: "reachable s \<Longrightarrow> manager_inv s"
  unfolding reachable_def by (blast intro: mgr.inv_reachable)

lemma reachable_le: "reachable s \<Longrightarrow> manager_step\<^sup>*\<^sup>* s t \<Longrightarrow> manager_le s t"
  by (blast intro: mgr.le_steps reachable_inv)

lemma reachable_initial: "manager_initial s \<Longrightarrow> reachable s"
  unfolding reachable_def by blast

lemma reachable_step: "reachable s \<Longrightarrow> manager_step s t \<Longrightarrow> reachable t"
  unfolding reachable_def by (blast intro: rtranclp.rtrancl_into_rtrancl)

lemma reachable_connect: "reachable s \<Longrightarrow> reachable (snd (connect s h peer))"
  using connect_sound [OF reachable_inv, of s h peer]
  by (auto intro: reachable_step [OF _ manager_step.step_connect] simp: sound_def prod_eq_iff)

lemma reachable_handle: "reachable s \<Longrightarrow> reachable (snd (handle s e c req))"
  using handle_sound [OF reachable_inv, of s e c req]
  by (auto intro: reachable_step [OF _ manager_step.step_handle] simp: sound_def prod_eq_iff)

text \<open>A small run, used to exercise the properties: init connects, prepares a fork, the child adopts it.\<close>

definition demo_hello :: "string option \<Rightarrow> hello" where
  "demo_hello ticket = \<lparr>h_version = PROTOCOL_VERSION, h_token = ''secret'', h_role = RWorker, h_adoption_ticket = ticket\<rparr>"

definition demo_entropy :: "bytes option" where
  "demo_entropy = Some (replicate 32 0xAB)"

definition demo_ticket :: string where
  "demo_ticket = concat (replicate 32 ''ab'')"

definition demo0 :: manager where
  "demo0 = with_limits 1 ''secret'' \<lparr>max_clients = 8, max_processes = 8, max_modules = 8, max_states_per_process = 8,
     max_state_name_bytes = 16, max_request_keys_per_process = 8, max_transactions = 8, max_objects = 8, max_exit_records = 2\<rparr>"

definition demo1 :: manager where "demo1 = snd (connect demo0 (demo_hello None) (PeerIdentity 10 1))"
definition demo2 :: manager where "demo2 = snd (handle demo1 None 1 (RegisterModule 7 1))"
definition demo3 :: manager where "demo3 = snd (handle demo2 None 1 (DefineState 7 ''fds'' 5 Copy))"
definition demo4 :: manager where "demo4 = snd (handle demo3 demo_entropy 1 (PrepareFork 99))"
definition demo5 :: manager where "demo5 = snd (connect demo4 (demo_hello (Some demo_ticket)) (PeerIdentity 11 2))"
definition demo6 :: manager where "demo6 = snd (handle demo5 None 2 MarkReady)"
definition demo7 :: manager where "demo7 = snd (handle demo6 None 1 (CommitFork 1))"

lemma demo_reachable:
  "reachable demo0" "reachable demo1" "reachable demo2" "reachable demo3" "reachable demo4"
  "reachable demo5" "reachable demo6" "reachable demo7"
proof -
  show r0: "reachable demo0"
    by (rule reachable_initial) (auto simp: manager_initial_def demo0_def)
  show r1: "reachable demo1" unfolding demo1_def by (rule reachable_connect [OF r0])
  show r2: "reachable demo2" unfolding demo2_def by (rule reachable_handle [OF r1])
  show r3: "reachable demo3" unfolding demo3_def by (rule reachable_handle [OF r2])
  show r4: "reachable demo4" unfolding demo4_def by (rule reachable_handle [OF r3])
  show r5: "reachable demo5" unfolding demo5_def by (rule reachable_connect [OF r4])
  show r6: "reachable demo6" unfolding demo6_def by (rule reachable_handle [OF r5])
  show r7: "reachable demo7" unfolding demo7_def by (rule reachable_handle [OF r6])
qed

lemma handle_step: "reachable s \<Longrightarrow> manager_step s (snd (handle s e c req))"
  using handle_sound [OF reachable_inv, of s e c req]
  by (auto intro: manager_step.step_handle simp: sound_def prod_eq_iff)

lemma connect_step: "reachable s \<Longrightarrow> manager_step s (snd (connect s h peer))"
  using connect_sound [OF reachable_inv, of s h peer]
  by (auto intro: manager_step.step_connect simp: sound_def prod_eq_iff)

lemma le_fork:
  assumes "manager_le s t" and "inv_ids s" and "txs s i = Some a" and "txs t i = Some b"
  shows "tx_progress (t_state a) (t_state b)"
proof -
  have "i < m_next_transaction s" using inv_ids_transaction [OF assms(2,3)] by simp
  with assms show ?thesis unfolding manager_le_def forks_le_def by (metis option.inject)
qed

lemma le_exec:
  assumes "manager_le s t" and "inv_ids s" and "execs s i = Some x" and "execs t i = Some y"
  shows "tx_progress (x_state x) (x_state y)"
proof -
  have "i < m_next_transaction s" using inv_ids_exec [OF assms(2,3)] by simp
  with assms show ?thesis unfolding manager_le_def execs_le_def by (metis option.inject)
qed

section \<open>Every reachable state\<close>

text \<open>C2: Every state a run of the manager can reach satisfies the representation
  invariant: ids below their counters, fork transactions that agree with the state of
  their child, replay keys and snapshots that point at existing entries, exit records
  that belong to PIDs that are gone.\<close>

theorem manager_reachable_inv:
  assumes "manager_initial s" and "manager_step\<^sup>*\<^sup>* s t"
  shows "manager_inv t"
  using assms by (rule mgr.inv_reachable)

theorem manager_reachable_inv_witness: "manager_inv (snd (handle demo1 None 1 (RegisterModule 7 1)))"
proof -
  have "manager_initial demo0" by (auto simp: manager_initial_def demo0_def)
  moreover have "manager_step demo0 demo1"
    unfolding demo1_def by (rule connect_step [OF demo_reachable(1)])
  moreover have "manager_step demo1 demo2" unfolding demo2_def by (rule handle_step [OF demo_reachable(2)])
  ultimately have "manager_inv demo2"
    by (rule manager_reachable_inv [of demo0, OF _ rtranclp.rtrancl_into_rtrancl [OF r_into_rtranclp]])
  then show ?thesis by (simp add: demo2_def)
qed

text \<open>C1: No call of the transport panics, whatever the request, the credential, the
  client number or the peer: in every reachable state \<open>connect\<close>, \<open>handle\<close> and
  \<open>acknowledge\<close> return a result and the exit of a native process is processed to the end.\<close>

theorem manager_never_panics:
  assumes "reachable s"
  shows "fst (connect s h peer) \<noteq> Panic \<and> fst (handle s entropy client req) \<noteq> Panic
    \<and> fst (acknowledge s client i) \<noteq> Panic \<and> process_exited_with_status peer status s \<noteq> None"
  using connect_sound [OF reachable_inv [OF assms], of h peer] handle_sound [OF reachable_inv [OF assms], of entropy client req]
    acknowledge_sound [OF reachable_inv [OF assms], of client i] forward_process_exits [OF reachable_inv [OF assms], of "[(peer, status)]"]
  by (auto simp: sound_def process_exited_with_status_def)

theorem manager_never_panics_witness:
  "fst (handle demo6 None 1 (CommitFork 1)) \<noteq> Panic \<and> process_exited_with_status (PeerIdentity 10 1) 0 demo6 \<noteq> None"
  using manager_never_panics [OF demo_reachable(7)] by blast

text \<open>C21: A request, a connection attempt or an acknowledgement that is answered with an
  error leaves the manager exactly as it was.\<close>

theorem errors_change_nothing:
  assumes "reachable s"
  shows "(handle s entropy client req = (Err e, s') \<longrightarrow> s' = s)
    \<and> (connect s h peer = (Err e, s') \<longrightarrow> s' = s)
    \<and> (acknowledge s client i = (Err e, s') \<longrightarrow> s' = s)"
  using connect_sound [OF reachable_inv [OF assms], of h peer] handle_sound [OF reachable_inv [OF assms], of entropy client req]
    acknowledge_sound [OF reachable_inv [OF assms], of client i]
  by (auto simp: sound_def)

theorem errors_change_nothing_witness: "snd (handle demo5 None 2 (CommitFork 1)) = demo5"
proof -
  have "fst (handle demo5 None 2 (CommitFork 1)) = Err (error NotReady ''child must await parent commit'')" by code_simp
  then show ?thesis using errors_change_nothing [OF demo_reachable(6)] by (metis prod.collapse)
qed

text \<open>C26: Committed and aborted are final: once a fork or exec transaction has ended, every
  later state that still has it has it with the same outcome.\<close>

theorem terminal_is_final:
  assumes "reachable s" and "manager_step\<^sup>*\<^sup>* s t"
  shows "(txs s i = Some a \<longrightarrow> terminal (t_state a) \<longrightarrow> txs t i = Some b \<longrightarrow> t_state b = t_state a)
    \<and> (execs s i = Some x \<longrightarrow> terminal (x_state x) \<longrightarrow> execs t i = Some y \<longrightarrow> x_state y = x_state x)"
proof (intro conjI impI)
  note le = reachable_le [OF assms] and ids = manager_invD(1) [OF reachable_inv [OF assms(1)]]
  show "t_state b = t_state a" if "txs s i = Some a" "terminal (t_state a)" "txs t i = Some b"
    using le_fork [OF le ids that(1,3)] that(2) by (auto simp: terminal_def)
  show "x_state y = x_state x" if "execs s i = Some x" "terminal (x_state x)" "execs t i = Some y"
    using le_exec [OF le ids that(1,3)] that(2) by (auto simp: terminal_def)
qed

theorem terminal_is_final_witness:
  "\<exists>a b. txs demo7 1 = Some a \<and> txs (snd (handle demo7 None 1 (AbortFork 1))) 1 = Some b \<and> t_state b = Committed"
proof -
  have "map_option t_state (txs demo7 1) = Some Committed" by code_simp
  moreover have "txs (snd (handle demo7 None 1 (AbortFork 1))) 1 \<noteq> None" by code_simp
  ultimately obtain a b where ab: "txs demo7 1 = Some a" "t_state a = Committed"
    "txs (snd (handle demo7 None 1 (AbortFork 1))) 1 = Some b" by auto
  moreover have "t_state b = t_state a"
    using ab terminal_is_final [OF demo_reachable(8) r_into_rtranclp [of manager_step, OF handle_step [OF demo_reachable(8), of None 1 "AbortFork 1"]], of 1 a b]
    by (simp add: terminal_def)
  ultimately show ?thesis by auto
qed

section \<open>Processes and forks\<close>

lemma pid_bound: "(q :: u32) < n \<Longrightarrow> n \<le> 0x80000000 \<Longrightarrow> q \<le> 0x7FFFFFFF"
  by (simp add: word_le_nat_alt word_less_nat_alt)

lemma reachable_steps: "reachable s \<Longrightarrow> manager_step\<^sup>*\<^sup>* s t \<Longrightarrow> reachable t"
  unfolding reachable_def by (blast intro: rtranclp_trans)

text \<open>C30: A PID is a positive signed 32-bit number, and it is never reused: when neither a
  process nor a prepared fork holds an allocated PID, no later state has a process with it.\<close>

theorem pid_never_reused:
  assumes "reachable s" and "manager_step\<^sup>*\<^sup>* s t" and "pid < m_next_pid s" and "procs s pid = None"
    and "\<And>i u. txs s i = Some u \<Longrightarrow> t_state u = Prepared \<Longrightarrow> child_pid u \<noteq> pid"
  shows "procs t pid = None \<and> (\<forall>q p. procs t q = Some p \<longrightarrow> 0 < q \<and> q \<le> 0x7FFFFFFF)"
proof -
  have le: "processes_le s t" using reachable_le [OF assms(1,2)] by (simp add: manager_le_def)
  have ids: "inv_ids t" by (rule manager_invD(1) [OF reachable_inv [OF reachable_steps [OF assms(1,2)]]])
  have "0 < q \<and> q \<le> 0x7FFFFFFF" if "procs t q = Some p" for q p
    using inv_ids_process [OF ids that] ids pid_bound [of q "m_next_pid t"] by (simp add: inv_ids_def)
  moreover have "procs t pid = None"
  proof (cases "procs t pid")
    case (Some q)
    with le assms(3,4) have "\<exists>i u. txs s i = Some u \<and> child_pid u = pid \<and> t_state u = Prepared"
      unfolding processes_le_def by fastforce
    with assms(5) show ?thesis by blast
  qed
  ultimately show ?thesis by blast
qed

definition demo8 :: manager where
  "demo8 = the (process_exited_with_status (PeerIdentity 11 2) 3 demo7)"

lemma demo8_reachable: "reachable demo8"
proof (rule reachable_step [OF demo_reachable(8) step_exit])
  obtain s' where "process_exited_with_status (PeerIdentity 11 2) 3 demo7 = Some s'"
    using forward_process_exits [OF reachable_inv [OF demo_reachable(8)], of "[(PeerIdentity 11 2, 3)]"]
    by (auto simp: process_exited_with_status_def)
  then show "process_exited_with_status (PeerIdentity 11 2) 3 demo7 = Some demo8" by (simp add: demo8_def)
qed

theorem pid_never_reused_witness: "procs (snd (handle demo8 demo_entropy 1 (PrepareFork 100))) 2 = None"
proof -
  have "m_next_pid demo8 = 3" "bt_count (\<lambda>u. t_state u = Prepared) (m_transactions demo8) = 0" by code_simp+
  moreover have "procs demo8 2 = None" by code_simp
  moreover have "t_state u \<noteq> Prepared" if "txs demo8 i = Some u" for i u
    using calculation(2) bt_valuesI [OF that] by (auto simp: bt_count_def filter_empty_conv)
  ultimately show ?thesis
    using pid_never_reused [OF demo8_reachable r_into_rtranclp [of manager_step, OF handle_step [OF demo8_reachable, of demo_entropy 1 "PrepareFork 100"]], of 2]
    by simp
qed

text \<open>C19: A fork is atomic for its child: while the transaction exists, an attached child
  is active exactly when the parent has committed, aborted exactly when the fork was aborted, and otherwise
  pending on this very transaction; before adoption there is no child process at all.\<close>

theorem fork_child_state:
  assumes "reachable s" and "txs s i = Some t"
  shows "(\<forall>p. procs s (child_pid t) = Some p \<longrightarrow>
      (p_state p = PActive \<longleftrightarrow> t_state t = Committed) \<and> (p_state p = PAborted \<longleftrightarrow> t_state t = TAborted)
      \<and> (p_state p = PPending i \<longleftrightarrow> t_state t = Adopted \<or> t_state t = Ready))
    \<and> (t_state t = Prepared \<longrightarrow> procs s (child_pid t) = None)"
  using inv_fork_agrees [OF manager_invD(2) [OF reachable_inv [OF assms(1)]] assms(2)]
  by (cases "t_state t") (auto simp: fork_agrees_def)

theorem fork_child_state_witness: "\<exists>t p. txs demo5 1 = Some t \<and> procs demo5 (child_pid t) = Some p \<and> p_state p \<noteq> PActive"
proof -
  have "map_option t_state (txs demo5 1) = Some Adopted" "map_option child_pid (txs demo5 1) = Some 2" by code_simp+
  then obtain t where t: "txs demo5 1 = Some t" "t_state t = Adopted" "child_pid t = 2" by auto
  moreover have "procs demo5 2 \<noteq> None" by code_simp
  then obtain p where "procs demo5 2 = Some p" by blast
  ultimately show ?thesis using fork_child_state [OF demo_reachable(6) t(1)] by auto
qed

text \<open>C7: What a fork does to named state. A \<open>PrepareFork\<close> with a new request key that
  succeeds reserves the next PID and transaction id, changes no other process, and
  gives the child a snapshot with the same modules and the same state names: a shared state keeps the
  parent's object, a copied one has an object of its own with the same value, a reset one an
  object of its own with the initial value. No existing object changes.\<close>

theorem prepare_fork_snapshot:
  assumes "reachable s" and "procs s pid = Some p" and "fmlookup (p_request_keys p) key = None"
    and "prepare_fork s entropy pid key parent_pid = (Ok r, s')"
  shows "\<exists>ticket sn. r = RForkPrepared ticket \<and> secure_ticket entropy = Ok (ft_token ticket)
    \<and> fork_prepared s pid p key parent_pid ticket sn s'"
proof -
  have tx: "m_next_transaction s \<noteq> - 1" and
    new: "prepare_fork_new s entropy pid p key parent_pid = (Ok r, s')"
    using assms(2-4) by (auto simp: prepare_fork_def split: if_splits try_or_splits)
  show ?thesis
    using prepare_fork_new_cases [OF reachable_inv [OF assms(1)] assms(2) tx, of entropy key parent_pid] new by auto
qed

theorem prepare_fork_snapshot_witness:
  "\<exists>p ticket sn. procs demo3 1 = Some p \<and> fork_prepared demo3 1 p 99 1 ticket sn (snd (prepare_fork demo3 demo_entropy 1 99 1))"
proof -
  have "map_option (\<lambda>p. fmlookup (p_request_keys p) 99) (procs demo3 1) = Some None" by code_simp
  then obtain p where p: "procs demo3 1 = Some p" "fmlookup (p_request_keys p) 99 = None" by auto
  have "is_ok (fst (prepare_fork demo3 demo_entropy 1 99 1))" by code_simp
  then obtain r where "prepare_fork demo3 demo_entropy 1 99 1 = (Ok r, snd (prepare_fork demo3 demo_entropy 1 99 1))"
    by (metis is_ok.elims(2) prod.collapse)
  from prepare_fork_snapshot [OF demo_reachable(4) p this] p(1) show ?thesis by blast
qed

text \<open>Retrying is safe: repeating a \<open>PrepareFork\<close> that succeeded, with the same request
  key and parent, returns the same ticket and changes nothing, whatever entropy is available then.\<close>

theorem prepare_fork_idempotent:
  assumes "reachable s" and "procs s pid = Some p"
    and "prepare_fork s entropy pid key parent_pid = (Ok r, s')"
  shows "prepare_fork s' entropy' pid key parent_pid = (Ok r, s')"
proof (cases "fmlookup (p_request_keys p) key")
  case None
  from prepare_fork_snapshot [OF assms(1,2) None assms(3)] obtain ticket sn where
    "r = RForkPrepared ticket" "fork_prepared s pid p key parent_pid ticket sn s'" by blast
  moreover from this(2) have
    "procs s' pid = Some (p\<lparr>p_request_keys := fmupd key (m_next_transaction s) (p_request_keys p)\<rparr>)"
    "txs s' (m_next_transaction s) = Some \<lparr>t_parent = pid, t_requested_parent = parent_pid, t_ticket = ticket,
       t_snapshot = Some sn, t_state = Prepared\<rparr>"
    unfolding fork_prepared_def by blast+
  ultimately show ?thesis by (simp add: prepare_fork_def)
next
  case (Some i)
  then have "s' = s" using assms(2,3) by (simp add: prepare_fork_def split: option.splits if_splits)
  with Some assms(2,3) show ?thesis by (simp add: prepare_fork_def split: option.splits if_splits)
qed

theorem prepare_fork_idempotent_witness: "fst (prepare_fork demo4 None 1 99 1) = fst (prepare_fork demo3 demo_entropy 1 99 1)"
proof -
  have "procs demo3 1 \<noteq> None" "is_ok (fst (prepare_fork demo3 demo_entropy 1 99 1))" by code_simp+
  then obtain p r where p: "procs demo3 1 = Some p"
    and r: "prepare_fork demo3 demo_entropy 1 99 1 = (Ok r, snd (prepare_fork demo3 demo_entropy 1 99 1))"
    by (metis is_ok.elims(2) not_None_eq prod.collapse)
  have "handle demo3 demo_entropy 1 (PrepareFork 99) = prepare_fork demo3 demo_entropy 1 99 1" by code_simp
  with prepare_fork_idempotent [OF demo_reachable(4) p r, of None] r show ?thesis
    by (metis demo4_def fst_conv)
qed

section \<open>Memory access between processes\<close>

definition parent_rel :: "manager \<Rightarrow> (u32 \<times> u32) set" where
  "parent_rel s = {(a, b). \<exists>p. procs s a = Some p \<and> b = pi_parent_pid (p_identity p) \<and> b \<noteq> 0}"

lemma parent_rel_card: "finite (parent_rel s) \<and> card (parent_rel s) \<le> bt_len (m_processes s)"
proof -
  let ?f = "\<lambda>a. (a, pi_parent_pid (p_identity (the (procs s a))))"
  have sub: "parent_rel s \<subseteq> ?f ` fset (fmdom (m_processes s))"
    by (auto simp: parent_rel_def image_iff intro!: bexI fmdomI)
  have "card (parent_rel s) \<le> card (?f ` fset (fmdom (m_processes s)))"
    by (rule card_mono [OF _ sub]) simp
  also have "\<dots> \<le> card (fset (fmdom (m_processes s)))" by (rule card_image_le) simp
  finally show ?thesis using finite_subset [OF sub] by (simp add: bt_len_def fcard.rep_eq)
qed

lemma memory_walk_iff: "memory_walk s caller n a \<longleftrightarrow> (\<exists>k<n. (a, caller) \<in> parent_rel s ^^ k)"
proof (induction n arbitrary: a)
  case 0
  then show ?case by simp
next
  case (Suc n)
  let ?up = "case procs s a of None \<Rightarrow> 0 | Some e \<Rightarrow> pi_parent_pid (p_identity e)"
  have up: "(a, b) \<in> parent_rel s \<longleftrightarrow> ?up = b \<and> b \<noteq> 0" for b
    by (auto simp: parent_rel_def split: option.splits)
  have "(\<exists>k<Suc n. (a, caller) \<in> parent_rel s ^^ k) \<longleftrightarrow>
      a = caller \<or> (\<exists>k<n. (a, caller) \<in> parent_rel s ^^ Suc k)"
  proof
    assume "\<exists>k<Suc n. (a, caller) \<in> parent_rel s ^^ k"
    then obtain k where "k < Suc n" "(a, caller) \<in> parent_rel s ^^ k" by blast
    then show "a = caller \<or> (\<exists>k<n. (a, caller) \<in> parent_rel s ^^ Suc k)"
      by (cases k) (auto simp del: relpow.simps(2))
  next
    assume "a = caller \<or> (\<exists>k<n. (a, caller) \<in> parent_rel s ^^ Suc k)"
    then show "\<exists>k<Suc n. (a, caller) \<in> parent_rel s ^^ k"
      by (metis Suc_less_eq relpow_0_I zero_less_Suc)
  qed
  also have "(\<exists>k<n. (a, caller) \<in> parent_rel s ^^ Suc k) \<longleftrightarrow> ?up \<noteq> 0 \<and> (\<exists>k<n. (?up, caller) \<in> parent_rel s ^^ k)"
  proof -
    have "(a, caller) \<in> parent_rel s ^^ Suc k \<longleftrightarrow> (\<exists>b. (a, b) \<in> parent_rel s \<and> (b, caller) \<in> parent_rel s ^^ k)" for k
      by (meson relpow_Suc_D2 relpow_Suc_I2)
    then show ?thesis unfolding up by auto
  qed
  finally show ?case by (auto simp: Suc.IH Let_def)
qed

lemma ancestor_iff: "memory_walk s caller (Suc (bt_len (m_processes s))) a \<longleftrightarrow> (a, caller) \<in> (parent_rel s)\<^sup>*"
proof -
  have "(a, caller) \<in> (parent_rel s)\<^sup>*" if "(a, caller) \<in> parent_rel s ^^ k" for k
    using that by (rule relpow_imp_rtrancl)
  moreover have "\<exists>k\<le>bt_len (m_processes s). (a, caller) \<in> parent_rel s ^^ k" if "(a, caller) \<in> (parent_rel s)\<^sup>*"
    using that parent_rel_card [of s] by (auto simp: rtrancl_finite_eq_relpow intro: order_trans)
  ultimately show ?thesis by (auto simp: memory_walk_iff less_Suc_eq_le simp del: memory_walk.simps)
qed

text \<open>C32: Access to another process's memory is granted exactly to itself and its ancestors,
  and only for an active process whose native owner is not being replaced; the
  bounded walk up the parent chain never misses an ancestor.\<close>

theorem memory_access_iff_ancestor:
  "process_memory_target s caller target write_access = Ok (RProcessMemoryTarget hp b) \<longleftrightarrow>
     target \<noteq> 0 \<and> target \<le> 0x7FFFFFFF \<and>
     (\<exists>p. procs s target = Some p \<and> p_state p = PActive \<and> p_peer p |\<notin>| m_retired_peers s
        \<and> host_pid (p_peer p) = hp \<and> birth (p_peer p) = b \<and> (target, caller) \<in> (parent_rel s)\<^sup>*)"
  by (auto simp: process_memory_target_def ancestor_iff simp del: memory_walk.simps split: option.split)

section \<open>Isolation of workers\<close>

lemma procs_upd: "q \<noteq> pid \<Longrightarrow> procs (upd_process pid f s) q = procs s q"
  by (simp add: upd_process_def)

lemma procs_frames [simp]:
  "procs (upd_transaction i f s) q = procs s q" "procs (upd_exec i g s) q = procs s q"
  "procs (upd_client c h s) q = procs s q" "procs (collect_objects s) q = procs s q"
  "procs (abort_exec_transaction i s) q = procs s q"
  by (simp_all add: upd_defs collect_objects_def abort_exec_transaction_def split: option.split)

lemma procs_abort: "\<forall>t. txs s i = Some t \<longrightarrow> child_pid t \<noteq> q \<Longrightarrow> procs (abort_transaction i s) q = procs s q"
  by (auto simp: abort_transaction_def upd_defs split: option.split)

lemma procs_prepare_fork:
  assumes "manager_inv s" and "procs s pid = Some p" and "q \<noteq> pid"
  shows "procs (snd (prepare_fork s entropy pid key parent_pid)) q = procs s q"
proof -
  have "procs (snd (prepare_fork_new s entropy pid p key parent_pid)) q = procs s q" if "m_next_transaction s \<noteq> - 1"
    using prepare_fork_new_cases [OF assms(1,2) that, of entropy key parent_pid] assms(3)
    by (auto simp: fork_prepared_def)
  with assms(2) show ?thesis
    by (auto simp: prepare_fork_def split: option.split try_or_split)
qed

lemma procs_worker_ops:
  assumes "q \<noteq> pid"
  shows "procs (snd (mark_prewarm s pid p w complaint)) q = procs s q"
    "procs (snd (register_module s pid m schema)) q = procs s q"
    "procs (snd (define_state s pid m nm v fork)) q = procs s q"
    "procs (snd (write_state s pid m nm v)) q = procs s q"
    "procs (snd (mark_ready s pid)) q = procs s q"
    "procs (snd (prepare_exec s owner pid key target)) q = procs s q"
    "procs (snd (commit_exec s owner pid i)) q = procs s q"
    "procs (snd (abort_exec s owner pid i)) q = procs s q"
  using assms
  by (simp_all add: mark_prewarm_def register_module_def define_state_def write_state_def mark_ready_def
      prepare_exec_def commit_exec_def abort_exec_def insert_object_def procs_upd Let_def
      split: option.split try_or_split process_state.split transaction_state.split)

lemma procs_fork_ops:
  assumes "\<And>i t. txs s i = Some t \<Longrightarrow> t_parent t = pid \<Longrightarrow> child_pid t \<noteq> q"
  shows "procs (snd (commit_fork s pid i)) q = procs s q" "procs (snd (abort_fork s pid i)) q = procs s q"
proof -
  have "procs (upd_process (child_pid t) f s) q = procs s q" if "txs s i = Some t" "t_parent t = pid" for t f
    using assms [OF that] by (intro procs_upd) auto
  then show "procs (snd (commit_fork s pid i)) q = procs s q"
    by (auto simp: commit_fork_def owned_transaction_def Let_def
        split: option.split transaction_state.split try_or_split)
  show "procs (snd (abort_fork s pid i)) q = procs s q"
  proof (cases "owned_transaction s pid i")
    case (Ok t)
    then have "procs (abort_transaction i s) q = procs s q"
      using assms owned_transaction_Ok [OF Ok] by (intro procs_abort) auto
    with Ok show ?thesis by (simp add: abort_fork_def)
  qed (simp_all add: abort_fork_def)
qed

text \<open>C31: A worker cannot touch a foreign process: whatever it asks, every process other than
  its own and the children of its own forks is left exactly as it was.\<close>

theorem worker_isolation:
  assumes "reachable s" and "fmlookup (m_clients s) client = Some c" and "c_kind c = KWorker pid"
    and "q \<noteq> pid" and "\<And>i t. txs s i = Some t \<Longrightarrow> t_parent t = pid \<Longrightarrow> child_pid t \<noteq> q"
  shows "procs (snd (handle s entropy client req)) q = procs s q"
proof -
  note fork = procs_fork_ops [OF assms(5)] and ops = procs_worker_ops [OF assms(4)]
  have "procs (snd (worker_dispatch s entropy client pid p req)) q = procs s q" if "procs s pid = Some p" for p
    using procs_prepare_fork [OF reachable_inv [OF assms(1)] that assms(4)]
    by (cases req) (simp_all add: worker_dispatch_def ops fork)
  then have "procs (snd (handle_worker s entropy client peer pid req)) q = procs s q" for peer
    by (simp add: handle_worker_def split: option.split process_state.split)
  with assms(2,3) show ?thesis by (simp add: handle_def Let_def is_control_kind_def)
qed

theorem worker_isolation_witness: "procs (snd (handle demo7 None 2 (WriteState 7 ''fds'' 9))) 1 = procs demo7 1"
proof -
  have "map_option c_kind (fmlookup (m_clients demo7) 2) = Some (KWorker 2)" by code_simp
  then obtain c where c: "fmlookup (m_clients demo7) 2 = Some c" "c_kind c = KWorker 2" by auto
  have "bt_count (\<lambda>t. t_parent t = 2) (m_transactions demo7) = 0" by code_simp
  then have "t_parent t \<noteq> 2" if "txs demo7 i = Some t" for i t
    using bt_valuesI [OF that] by (auto simp: bt_count_def filter_empty_conv)
  then show ?thesis using worker_isolation [OF demo_reachable(8) c, of 1] by simp
qed

section \<open>Native exit\<close>

text \<open>The connections and the processes' native owners across the steps of an exit.\<close>

definition same_peers :: "manager \<Rightarrow> manager \<Rightarrow> bool" where
  "same_peers s s' \<longleftrightarrow> (\<forall>q. map_option p_peer (procs s' q) = map_option p_peer (procs s q))"

lemma same_peers_refl [simp]: "same_peers s s" by (simp add: same_peers_def)

lemma same_peers_trans [trans]: "same_peers s t \<Longrightarrow> same_peers t u \<Longrightarrow> same_peers s u" by (simp add: same_peers_def)

lemma same_peers_fold: "(\<And>i s. same_peers s (f i s)) \<Longrightarrow> same_peers s (fold f is s)"
  by (induction "is" arbitrary: s) (auto intro: same_peers_trans)

lemma same_peers_parts [simp]:
  "same_peers s (collect_objects s)" "same_peers s (abort_transaction i s)" "same_peers s (abort_exec_transaction i s)"
  "same_peers s (s\<lparr>m_clients := cs\<rparr>)" "same_peers s (forget_replaced pid s)"
  by (simp_all add: same_peers_def collect_objects_def abort_transaction_def abort_exec_transaction_def
      forget_replaced_def upd_defs option.map_comp comp_def Let_def split: option.split)

lemma same_peers_release [simp]: "same_peers s (release_reservations c s)"
  by (auto simp: same_peers_def release_reservations_def option.map_comp intro!: option.map_cong0)

lemma same_peers_pending [simp]:
  "same_peers s (abort_pending_for pid s)" "same_peers s (abort_pending_exec_for pid s)"
  by (simp_all add: abort_pending_for_def abort_pending_exec_for_def same_peers_fold)

lemma same_peers_disconnect [simp]: "same_peers s (disconnect c s)"
proof -
  have a: "same_peers s t \<Longrightarrow> same_peers s (collect_objects t)" "same_peers s t \<Longrightarrow> same_peers s (abort_exec_transaction i t)"
    "same_peers s t \<Longrightarrow> same_peers s (t\<lparr>m_clients := cs\<rparr>)"
    "same_peers s t \<Longrightarrow> same_peers s (abort_pending_exec_for pid (abort_pending_for pid t))" for t i cs pid
    using same_peers_trans [OF _ same_peers_parts(1)] same_peers_trans [OF _ same_peers_parts(3)]
      same_peers_trans [OF _ same_peers_parts(4)] same_peers_trans [OF same_peers_trans [OF _ same_peers_pending(1)] same_peers_pending(2)]
    by blast+
  show ?thesis unfolding disconnect_def Let_def by (auto intro!: a split: option.split client_kind.split)
qed

lemma clients_frame [simp]:
  "m_clients (collect_objects s) = m_clients s" "m_clients (abort_transaction i s) = m_clients s"
  "m_clients (abort_exec_transaction i s) = m_clients s" "m_clients (release_reservations c s) = m_clients s"
  by (simp_all add: collect_objects_def abort_transaction_def abort_exec_transaction_def release_reservations_def
      upd_defs split: option.split)

lemma clients_fold_frame [simp]:
  "m_clients (fold abort_transaction is s) = m_clients s" "m_clients (fold abort_exec_transaction is s) = m_clients s"
  by (induction "is" arbitrary: s) simp_all

lemma clients_disconnect: "m_clients (disconnect c s) = fmdrop c (m_clients s)"
  by (auto simp: disconnect_def Let_def abort_pending_for_def abort_pending_exec_for_def
      intro!: fmap_ext split: option.split client_kind.split)

lemma clients_fold_disconnect: "fmlookup (m_clients (fold disconnect cs s)) c = (if c \<in> set cs then None else fmlookup (m_clients s) c)"
  by (induction cs arbitrary: s) (auto simp: clients_disconnect)

lemma reap_pid_frame:
  assumes "reap_pid status pid s = Some s'"
  shows "m_clients s' = m_clients s"
    and "map_option p_peer (procs s' q) = (if q = pid then None else map_option p_peer (procs s q))"
proof -
  let ?s1 = "abort_pending_exec_for pid (abort_pending_for pid s)"
  from assms obtain recs order where s': "s' = ?s1\<lparr>m_exit_records := recs, m_exit_order := order,
      m_processes := fmmap (reparent_process pid) (fmdrop pid (m_processes ?s1)),
      m_transactions := bt_retain (\<lambda>_ t. t_parent t \<noteq> pid) (fmmap (reparent_ticket pid) (m_transactions ?s1)),
      m_exec_transactions := bt_retain (\<lambda>_ t. x_process t \<noteq> pid) (m_exec_transactions ?s1)\<rparr>"
    by (auto simp: reap_pid_def Let_def dest!: record_exit_frame)
  show "m_clients s' = m_clients s" by (simp add: s' abort_pending_for_def abort_pending_exec_for_def)
  have p: "p_peer (reparent_process pid p) = p_peer p" for p by (simp add: reparent_process_def)
  have "same_peers s ?s1" by (rule same_peers_trans [OF same_peers_pending])
  then show "map_option p_peer (procs s' q) = (if q = pid then None else map_option p_peer (procs s q))"
    by (simp add: s' same_peers_def option.map_comp comp_def p)
qed

lemma reap_pids_frame:
  "reap_pids status pids s = Some s' \<Longrightarrow> m_clients s' = m_clients s
     \<and> (\<forall>q. map_option p_peer (procs s' q) = (if q \<in> set pids then None else map_option p_peer (procs s q)))"
proof (induction pids arbitrary: s)
  case (Cons pid pids)
  then obtain s1 where "reap_pid status pid s = Some s1" "reap_pids status pids s1 = Some s'"
    by (auto split: option.splits)
  with Cons.IH [of s1] reap_pid_frame [of status pid s s1] show ?case by auto
qed simp

text \<open>Once the exit of a native process is handled, nothing in the manager belongs to it
  any more: no Linux process has it as native owner, no connection is its, and it is
  not listed as a retired image. The exits deferred to replacements that were already dead follow in order.\<close>

theorem exit_releases_peer:
  assumes "exit_once peer status s = Some (s', deferred)"
  shows "(\<forall>pid p. procs s' pid = Some p \<longrightarrow> p_peer p \<noteq> peer) \<and> (\<forall>c k. fmlookup (m_clients s') c = Some k \<longrightarrow> c_peer k \<noteq> peer)
    \<and> peer |\<notin>| m_retired_peers s' \<and> process_exited_with_status peer status s = process_exits deferred s'"
proof -
  obtain s1 rs where r: "retire_images peer status s = (s1, deferred, rs)"
    using assms by (auto simp: exit_once_def Let_def split: prod.splits)
  let ?s2 = "fold forget_replaced rs s1"
  let ?s3 = "fold abort_exec_transaction (bt_keys_where (\<lambda>t. x_target t = peer) (m_exec_transactions ?s2)) ?s2"
  let ?s4 = "fold disconnect (bt_keys_where (\<lambda>c. c_peer c = peer) (m_clients ?s3)) ?s3"
  from assms r obtain s5 where
    reap: "reap_pids status (bt_keys_where (\<lambda>p. p_peer p = peer) (m_processes ?s4)) ?s4 = Some s5"
    and s': "s' = collect_objects (s5\<lparr>m_retired_peers := m_retired_peers s5 |-| {|peer|}\<rparr>)"
    by (auto simp: exit_once_def Let_def)
  note fr = reap_pids_frame [OF reap]
  have "p_peer p \<noteq> peer" if p: "procs s5 pid = Some p" for pid p
  proof -
    let ?pids = "bt_keys_where (\<lambda>p. p_peer p = peer) (m_processes ?s4)"
    from fr have "map_option p_peer (procs s5 pid) = (if pid \<in> set ?pids then None else map_option p_peer (procs ?s4 pid))"
      by blast
    with p have "pid \<notin> set ?pids" "map_option p_peer (procs ?s4 pid) = Some (p_peer p)" by (simp_all split: if_splits)
    then show ?thesis by (auto simp: set_bt_keys_where)
  qed
  moreover have "c_peer k \<noteq> peer" if "fmlookup (m_clients s5) c = Some k" for c k
  proof -
    have "fmlookup (m_clients ?s4) c = Some k" using fr that by simp
    then show ?thesis unfolding clients_fold_disconnect by (auto simp: set_bt_keys_where split: if_splits)
  qed
  moreover have "m_processes s' = m_processes s5" "m_clients s' = m_clients s5"
    "m_retired_peers s' = m_retired_peers s5 |-| {|peer|}" by (simp_all add: s' collect_objects_def)
  ultimately show ?thesis using assms by (simp add: process_exited_with_status_def)
qed

theorem exit_releases_peer_witness: "\<exists>s' ds. exit_once (PeerIdentity 11 2) 3 demo7 = Some (s', ds) \<and> procs s' 1 \<noteq> None
    \<and> (\<forall>pid p. procs s' pid = Some p \<longrightarrow> p_peer p \<noteq> PeerIdentity 11 2)"
proof -
  have "map_option (\<lambda>(s', ds). procs s' 1 \<noteq> None) (exit_once (PeerIdentity 11 2) 3 demo7) = Some True" by code_simp
  then obtain s' ds where "exit_once (PeerIdentity 11 2) 3 demo7 = Some (s', ds)" "procs s' 1 \<noteq> None" by auto
  with exit_releases_peer [OF this(1)] show ?thesis by blast
qed

lemma distinct_singleton: "distinct xs \<Longrightarrow> set xs = {a} \<Longrightarrow> xs = [a]"
  by (cases xs) (auto simp: subset_singleton_iff)

lemma retire_images_none:
  assumes "\<And>i x. execs s i = Some x \<Longrightarrow> x_retiring x \<Longrightarrow> x_owner_peer x \<noteq> peer"
  shows "\<exists>s1. retire_images peer status s = (s1, [], []) \<and> m_processes s1 = m_processes s"
proof -
  have "\<exists>s1. fold (retire_one peer status) is (s, [], []) = (s1, [], []) \<and> m_processes s1 = m_processes s"
    if "\<And>i x. execs s i = Some x \<Longrightarrow> x_retiring x \<Longrightarrow> x_owner_peer x \<noteq> peer" for "is" s
    using that
  proof (induction "is" arbitrary: s)
    case (Cons i "is")
    define s1 where "s1 = (case execs s i of None \<Rightarrow> s | Some x \<Rightarrow> upd_exec i (\<lambda>_. note_candidate_exit peer status x) s)"
    have one: "retire_one peer status i (s, [], []) = (s1, [], [])"
      using Cons.prems [of i] by (auto simp: retire_one_def s1_def Let_def note_candidate_exit_def split: option.split)
    have "x_owner_peer y \<noteq> peer" if "execs s1 j = Some y" "x_retiring y" for j y
      using that Cons.prems by (auto simp: s1_def upd_exec_def note_candidate_exit_def split: option.splits if_splits)
    from Cons.IH [of s1, OF this] one show ?case by (auto simp: s1_def upd_exec_def split: option.splits)
  qed simp
  with assms show ?thesis unfolding retire_images_def by blast
qed

lemma reap_pid_records:
  assumes "reap_pid status pid s = Some s'" and "manager_inv s" and "procs s pid \<noteq> None"
  shows "fmlookup (m_exit_records s') pid = (if max_exit_records (m_limits s) = 0 then None else Some status)" "procs s' pid = None"
proof -
  let ?s1 = "abort_pending_exec_for pid (abort_pending_for pid s)"
  have f: "forward s ?s1"
    using forward_parts(2) [OF assms(2), of pid] forward_parts(4) forward_inv forward_trans by blast
  then have lim: "m_limits ?s1 = m_limits s" by (simp add: forward_def manager_le_def same_config_def)
  have "same_peers s ?s1" by (rule same_peers_trans [OF same_peers_pending])
  then have "map_option p_peer (procs ?s1 pid) = map_option p_peer (procs s pid)" unfolding same_peers_def by blast
  then have "procs ?s1 pid \<noteq> None" using assms(3) by (cases "procs ?s1 pid") simp_all
  then have old: "fmlookup (m_exit_records ?s1) pid = None"
    using manager_invD(6) [OF forward_inv [OF f]] unfolding inv_exits_def by (metis not_None_eq)
  obtain s3 where "record_exit pid status (?s1\<lparr>m_processes := fmdrop pid (m_processes ?s1)\<rparr>) = Some s3"
    "m_exit_records s' = m_exit_records s3"
    using assms(1) by (auto simp: reap_pid_def Let_def)
  then show "fmlookup (m_exit_records s') pid = (if max_exit_records (m_limits s) = 0 then None else Some status)"
    using lim old by (auto simp: record_exit_def)
  show "procs s' pid = None" using reap_pid_frame(2) [OF assms(1), of pid] by simp
qed

text \<open>An owner has exactly the one process, through everything that happens before it is reaped.\<close>

lemma owned_pids:
  assumes "one_owner s" and p: "procs s pid = Some p" and "same_peers s t"
  shows "bt_keys_where (\<lambda>q. p_peer q = p_peer p) (m_processes t) = [pid]"
proof -
  have peers: "map_option p_peer (procs t q) = map_option p_peer (procs s q)" for q
    using assms(3) by (simp add: same_peers_def)
  have "(\<exists>r. procs t q = Some r \<and> p_peer r = p_peer p) \<longleftrightarrow> (\<exists>r. procs s q = Some r \<and> p_peer r = p_peer p)" for q
    using peers [of q] by (cases "procs s q"; cases "procs t q") auto
  then have "set (bt_keys_where (\<lambda>q. p_peer q = p_peer p) (m_processes t)) = {q. \<exists>r. procs s q = Some r \<and> p_peer r = p_peer p}"
    by (simp add: set_bt_keys_where)
  also have "\<dots> = {pid}" using p one_ownerD [OF assms(1) _ p] by blast
  finally show ?thesis by (rule distinct_singleton [OF distinct_bt_keys_where])
qed

text \<open>C36: An exit status reaches whoever waits for it. When the native owner of a process dies, and it is not an
  image that a committed exec has replaced, the process is gone afterwards and \<open>AwaitExit\<close> on its PID returns the
  status, if the manager keeps exit records at all; with a limit of zero records it answers \<open>NotFound\<close>. That the owner has
  no second process whose record could push this one out is proved, for every reachable state.\<close>

theorem exit_status_recorded:
  assumes s: "reachable s" and p: "procs s pid = Some p" "p_peer p = peer"
    and img: "\<And>i x. execs s i = Some x \<Longrightarrow> x_retiring x \<Longrightarrow> x_owner_peer x \<noteq> peer"
  shows "\<exists>s'. process_exited_with_status peer status s = Some s' \<and> procs s' pid = None
    \<and> await_exit s' pid = (if max_exit_records (m_limits s) = 0 then Err (error NotFound ''unknown process or expired exit record'')
        else Ok (RExit status))"
proof -
  note inv = reachable_inv [OF s]
  have one: "one_owner s" using s one_owner_steps unfolding reachable_def by blast
  obtain s1 where r: "retire_images peer status s = (s1, [], [])" "m_processes s1 = m_processes s"
    using retire_images_none [of s peer status] img by blast
  let ?s3 = "fold abort_exec_transaction (bt_keys_where (\<lambda>t. x_target t = peer) (m_exec_transactions s1)) s1"
  let ?s4 = "fold disconnect (bt_keys_where (\<lambda>c. c_peer c = peer) (m_clients ?s3)) ?s3"
  let ?pids = "bt_keys_where (\<lambda>p. p_peer p = peer) (m_processes ?s4)"
  have f1: "forward s s1" by (rule forward_retire_images [OF inv r(1)])
  have f3: "forward s ?s3" by (rule forward_trans [OF f1 forward_parts(8) [OF forward_inv [OF f1]]])
  have f4: "forward s ?s4" by (rule forward_trans [OF f3 forward_fold [OF forward_disconnect forward_inv [OF f3]]])
  have "same_peers s1 ?s4"
    by (rule same_peers_trans [OF same_peers_fold [OF same_peers_parts(3)] same_peers_fold [OF same_peers_disconnect]])
  then have same: "same_peers s ?s4" by (simp add: same_peers_def r(2))
  have pids: "?pids = [pid]" using owned_pids [OF one p(1) same] p(2) by simp
  have "map_option p_peer (procs ?s4 pid) = map_option p_peer (procs s pid)" using same unfolding same_peers_def by blast
  then obtain p4 where p4: "procs ?s4 pid = Some p4" using p(1) by auto
  from reap_pid_inv [OF forward_inv [OF f4] p4, of status] obtain s5 where s5: "reap_pid status pid ?s4 = Some s5" by blast
  have "m_limits ?s4 = m_limits s" using f4 by (simp add: forward_def manager_le_def same_config_def)
  with reap_pid_records [OF s5 forward_inv [OF f4]] p4
  have rec: "fmlookup (m_exit_records s5) pid = (if max_exit_records (m_limits s) = 0 then None else Some status)"
    "procs s5 pid = None" by simp_all
  let ?s6 = "collect_objects (s5\<lparr>m_retired_peers := m_retired_peers s5 |-| {|peer|}\<rparr>)"
  have "process_exited_with_status peer status s = Some ?s6"
    by (simp add: process_exited_with_status_def exit_once_def Let_def r(1) pids s5 del: clients_fold_frame)
  moreover have "0 < pid \<and> pid \<le> 0x7FFFFFFF"
    using inv_ids_process [OF manager_invD(1) [OF inv] p(1)] manager_invD(1) [OF inv] pid_bound [of pid "m_next_pid s"]
    by (simp add: inv_ids_def)
  ultimately show ?thesis using rec by (auto simp: await_exit_def collect_objects_def not_less contains_key_def)
qed

theorem exit_status_recorded_witness:
  "\<exists>s'. process_exited_with_status (PeerIdentity 11 2) 3 demo7 = Some s' \<and> procs s' 2 = None \<and> await_exit s' 2 = Ok (RExit 3)"
proof -
  have ps: "map_option p_peer (procs demo7 2) = Some (PeerIdentity 11 2)" by code_simp
  have xs: "map fst (bt_iter (m_exec_transactions demo7)) = []" and cap: "max_exit_records (m_limits demo7) = 2" by code_simp+
  from ps obtain p where p: "procs demo7 2 = Some p" "p_peer p = PeerIdentity 11 2" by auto
  have "execs demo7 i = None" for i
    using xs set_bt_iter [of "m_exec_transactions demo7"] by (cases "execs demo7 i") auto
  then show ?thesis using exit_status_recorded [OF demo_reachable(8) p, of 3] cap by simp
qed

end
