(* ===== verification/Fixed_Codec.thy ===== *)
theory Fixed_Codec
  imports Rust_Std
begin

text \<open>
  Arrays of fixed-width records in byte buffers, the way the sources persist them:
  every record is written with the same number of little-endian bytes and read back
  with \<open>chunks_exact\<close>. A record type promises a width, the values it can hold and a
  pair of inverse functions on them; the round trips of whole arrays follow once for all of
  them.
\<close>

fun chunks_exact :: "nat \<Rightarrow> 'a list \<Rightarrow> 'a list list" where
  "chunks_exact n xs = (if n = 0 \<or> length xs < n then [] else take n xs # chunks_exact n (drop n xs))"

declare chunks_exact.simps [simp del]

lemma chunks_exact_append:
  assumes "0 < n" and "length xs = n"
  shows "chunks_exact n (xs @ ys) = xs # chunks_exact n ys"
  using assms by (subst chunks_exact.simps) simp

lemma chunks_exact_short [simp]: "length xs < n \<Longrightarrow> chunks_exact n xs = []"
  by (subst chunks_exact.simps) simp

lemma chunks_exact_length: "c \<in> set (chunks_exact n xs) \<Longrightarrow> length c = n"
proof (induction n xs rule: chunks_exact.induct)
  case (1 n xs)
  then show ?case by (subst (asm) (2) chunks_exact.simps) (auto split: if_splits)
qed

lemma length_chunks_exact: "0 < n \<Longrightarrow> length (chunks_exact n xs) = length xs div n"
proof (induction n xs rule: chunks_exact.induct)
  case (1 n xs)
  then show ?case by (subst chunks_exact.simps) (auto simp: le_div_geq not_less)
qed

lemma concat_chunks_exact: "length xs mod n = 0 \<Longrightarrow> 0 < n \<Longrightarrow> concat (chunks_exact n xs) = xs"
proof (induction n xs rule: chunks_exact.induct)
  case (1 n xs)
  show ?case
  proof (cases "length xs < n")
    case True
    with 1 show ?thesis by simp
  next
    case False
    with 1(2) have "length (drop n xs) mod n = 0" by (simp add: le_mod_geq)
    with 1 False show ?thesis by (subst chunks_exact.simps) simp
  qed
qed

locale fixed_codec =
  fixes width :: nat
    and valid :: "'a \<Rightarrow> bool"
    and enc :: "'a \<Rightarrow> bytes"
    and dec :: "bytes \<Rightarrow> 'a"
  assumes width_pos: "0 < width"
    and enc_length: "valid x \<Longrightarrow> length (enc x) = width"
    and dec_enc: "valid x \<Longrightarrow> dec (enc x) = x"
    and dec_valid: "length bs = width \<Longrightarrow> valid (dec bs)"
    and enc_dec: "length bs = width \<Longrightarrow> enc (dec bs) = bs"
begin

lemma length_encode_all: "\<forall>x\<in>set xs. valid x \<Longrightarrow> length (concat (map enc xs)) = width * length xs"
  by (induction xs) (simp_all add: enc_length)

lemma decode_encode_all: "\<forall>x\<in>set xs. valid x \<Longrightarrow> map dec (chunks_exact width (concat (map enc xs))) = xs"
  by (induction xs) (simp_all add: chunks_exact_append width_pos enc_length dec_enc)

lemma decode_all_valid: "x \<in> set (map dec (chunks_exact width bs)) \<Longrightarrow> valid x"
  by (auto simp: chunks_exact_length dec_valid)

lemma encode_decode_all:
  assumes "length bs mod width = 0"
  shows "concat (map enc (map dec (chunks_exact width bs))) = bs"
proof -
  have "map (enc \<circ> dec) (chunks_exact width bs) = map id (chunks_exact width bs)"
    by (rule map_cong) (auto simp: chunks_exact_length enc_dec)
  then show ?thesis using concat_chunks_exact [OF assms width_pos] by simp
qed

end

end
