(* ===== verification/Vfs_Errno.thy ===== *)
theory Vfs_Errno
  imports Fixed_Codec
begin

text \<open>The Linux error numbers of \<^verbatim>\<open>kinakaze-vfs/src/lib.rs\<close> the modelled parts answer with.\<close>

definition EPERM :: i32 where "EPERM = 1"
definition ENOENT :: i32 where "ENOENT = 2"
definition EINTR :: i32 where "EINTR = 4"
definition EIO :: i32 where "EIO = 5"
definition EBADF :: i32 where "EBADF = 9"
definition EAGAIN :: i32 where "EAGAIN = 11"
definition EFAULT :: i32 where "EFAULT = 14"
definition EINVAL :: i32 where "EINVAL = 22"
definition ENOSPC :: i32 where "ENOSPC = 28"
definition EOVERFLOW :: i32 where "EOVERFLOW = 75"
definition ENOTSOCK :: i32 where "ENOTSOCK = 88"
definition ENOPROTOOPT :: i32 where "ENOPROTOOPT = 92"
definition EOPNOTSUPP :: i32 where "EOPNOTSUPP = 95"

end
