(* ===== verification/Classic_Bpf.thy ===== *)
theory Classic_Bpf
  imports Vfs_Errno
begin

text \<open>
  Classic BPF of \<^verbatim>\<open>kinakaze-vfs/src/socket/filter/classic.rs\<close>: the verifier
  (\<open>Program::new\<close>), the interpreter (\<open>Program::run\<close>) and the byte codec. The
  interpreter is written as a step function and a loop over the program counter, which
  only moves forward. An index out of range and an \<open>unreachable!\<close> are
  \<open>Trap\<close>.
\<close>

section \<open>Data\<close>


definition MAX_INSNS :: nat where "MAX_INSNS = 4096"
definition AD_OFF :: u32 where "AD_OFF = - 4096"

record instruction =
  i_code :: u16
  i_jt :: u8
  i_jf :: u8
  i_k :: u32

text \<open>The \<open>Packet\<close> trait. A load yields a value or is out of bounds; an ancillary load may also panic.\<close>

record packet =
  pk_len :: u32
  pk_load :: "i32 \<Rightarrow> nat \<Rightarrow> u32 option"
  pk_ancillary :: "u32 \<Rightarrow> u32 \<Rightarrow> u32 \<Rightarrow> (unit, u32 option) outcome"

type_synonym program = "instruction list"

section \<open>The verifier\<close>

definition op_plain :: "u16 set" where
  "op_plain = {0x00, 0x01, 0x80, 0x81, 0xb1, 0x07, 0x87, 0x06, 0x16}"

definition op_absolute :: "u16 set" where "op_absolute = {0x20, 0x28, 0x30}"
definition op_indirect :: "u16 set" where "op_indirect = {0x40, 0x48, 0x50}"
definition op_scratch :: "u16 set" where "op_scratch = {0x60, 0x61, 0x02, 0x03}"

definition op_alu :: "u16 set" where
  "op_alu = {0x04, 0x0c, 0x14, 0x1c, 0x24, 0x2c, 0x3c, 0x44, 0x4c, 0x54, 0x5c,
             0x6c, 0x7c, 0x84, 0x9c, 0xa4, 0xac}"

definition op_branch :: "u16 set" where
  "op_branch = {0x15, 0x1d, 0x25, 0x2d, 0x35, 0x3d, 0x45, 0x4d}"

definition ancillary_offsets :: "u32 set" where
  "ancillary_offsets = {0, 4, 8, 12, 16, 20, 24, 28, 32, 36, 40, 44, 48, 52, 56, 60}"

definition check_instruction :: "nat \<Rightarrow> instruction \<Rightarrow> bool" where
  "check_instruction remaining i =
     (let c = i_code i; k = i_k i in
      if c \<in> op_plain then True
      else if c \<in> op_absolute then \<not> (AD_OFF \<le> k \<and> k - AD_OFF \<notin> ancillary_offsets)
      else if c \<in> op_indirect then True
      else if c \<in> op_scratch then k < 16
      else if c \<in> op_alu then True
      else if c = 0x34 \<or> c = 0x94 then k \<noteq> 0
      else if c = 0x64 \<or> c = 0x74 then k < 32
      else if c = 0x05 then unat k < remaining
      else if c \<in> op_branch then unat (i_jt i) < remaining \<and> unat (i_jf i) < remaining
      else False)"

text \<open>The first pass: every instruction against the number of instructions after it.\<close>

fun check_all :: "program \<Rightarrow> bool" where
  "check_all [] = True"
| "check_all (i # rest) = (check_instruction (length rest) i \<and> check_all rest)"

text \<open>
  The second pass: scratch words that are initialized on every path. The result is
  \<open>None\<close> for an index panic, \<open>Some False\<close> for a read of a word that may be
  uninitialized.
\<close>

definition mask_and :: "u16 list \<Rightarrow> nat \<Rightarrow> u16 \<Rightarrow> u16 list option" where
  "mask_and masks n w = (if n < length masks then Some (masks[n := masks ! n AND w]) else None)"

fun scan_scratch :: "nat \<Rightarrow> program \<Rightarrow> u16 list \<Rightarrow> u16 \<Rightarrow> bool option" where
  "scan_scratch pc [] masks initialized = Some True"
| "scan_scratch pc (i # rest) masks initialized =
     (if length masks \<le> pc then None
      else
        let now = initialized AND masks ! pc; c = i_code i in
        if c = 0x02 \<or> c = 0x03 then
          scan_scratch (pc + 1) rest masks (now OR push_bit (unat (i_k i)) 1)
        else if (c = 0x60 \<or> c = 0x61) \<and> now AND push_bit (unat (i_k i)) 1 = 0 then Some False
        else if c = 0x05 then
          (case mask_and masks (pc + 1 + unat (i_k i)) now of
             None \<Rightarrow> None
           | Some masks' \<Rightarrow> scan_scratch (pc + 1) rest masks' (- 1))
        else if c \<in> op_branch then
          (case mask_and masks (pc + 1 + unat (i_jt i)) now of
             None \<Rightarrow> None
           | Some masks1 \<Rightarrow>
               (case mask_and masks1 (pc + 1 + unat (i_jf i)) now of
                  None \<Rightarrow> None
                | Some masks2 \<Rightarrow> scan_scratch (pc + 1) rest masks2 (- 1)))
        else scan_scratch (pc + 1) rest masks now)"

definition program_new :: "program \<Rightarrow> (i32, program) outcome" where
  "program_new code =
     (if code = [] \<or> length code > MAX_INSNS then Err EINVAL
      else if \<not> check_all code then Err EINVAL
      else if \<not> (i_code (last code) = 0x06 \<or> i_code (last code) = 0x16) then Err EINVAL
      else case scan_scratch 0 code (replicate (length code) (- 1)) 0 of
        None \<Rightarrow> Panic
      | Some False \<Rightarrow> Err EINVAL
      | Some True \<Rightarrow> Ok code)"

section \<open>The interpreter\<close>

datatype step =
    Return u32
  | Next (s_jump: nat) (s_a: u32) (s_x: u32) (s_memory: "u32 list")
  | Trap

definition load_size :: "u16 \<Rightarrow> nat" where
  "load_size c = (if c AND 0x18 = 0 then 4 else if c AND 0x18 = 8 then 2 else 1)"

definition branch_taken :: "u16 \<Rightarrow> u32 \<Rightarrow> u32 \<Rightarrow> bool option" where
  "branch_taken c a rhs =
     (let op = c AND 0xf0 in
      if op = 0x10 then Some (a = rhs)
      else if op = 0x20 then Some (a > rhs)
      else if op = 0x30 then Some (a \<ge> rhs)
      else if op = 0x40 then Some (a AND rhs \<noteq> 0)
      else None)"

definition alu_step :: "u16 \<Rightarrow> u32 \<Rightarrow> u32 \<Rightarrow> u32 \<Rightarrow> u32 list \<Rightarrow> step" where
  "alu_step c rhs a x memory =
     (let op = c AND 0xf0 in
      if op = 0x00 then Next 0 (a + rhs) x memory
      else if op = 0x10 then Next 0 (a - rhs) x memory
      else if op = 0x20 then Next 0 (a * rhs) x memory
      else if op = 0x30 then (if rhs = 0 then Return 0 else Next 0 (a div rhs) x memory)
      else if op = 0x40 then Next 0 (a OR rhs) x memory
      else if op = 0x50 then Next 0 (a AND rhs) x memory
      else if op = 0x60 then Next 0 (push_bit (unat rhs mod 32) a) x memory
      else if op = 0x70 then Next 0 (drop_bit (unat rhs mod 32) a) x memory
      else if op = 0x80 then Next 0 (- a) x memory
      else if op = 0x90 then (if rhs = 0 then Return 0 else Next 0 (a mod rhs) x memory)
      else if op = 0xa0 then Next 0 (a XOR rhs) x memory
      else Trap)"

definition ancillary_step :: "packet \<Rightarrow> u32 \<Rightarrow> u32 \<Rightarrow> u32 \<Rightarrow> u32 list \<Rightarrow> step" where
  "ancillary_step pk off a x memory =
     (if off = 40 then Next 0 (a XOR x) x memory
      else case pk_ancillary pk off a x of
        Ok (Some v) \<Rightarrow> Next 0 v x memory
      | Ok None \<Rightarrow> Return (if off = 8 \<or> off = 28 then a else 0)
      | _ \<Rightarrow> Trap)"

definition bpf_step :: "packet \<Rightarrow> instruction \<Rightarrow> u32 \<Rightarrow> u32 \<Rightarrow> u32 list \<Rightarrow> step" where
  "bpf_step pk i a x memory =
     (let c = i_code i; k = i_k i; rhs = (if c AND 8 = 0 then k else x) in
      if c = 0x00 then Next 0 k x memory
      else if c = 0x01 then Next 0 a k memory
      else if c = 0x80 then Next 0 (pk_len pk) x memory
      else if c = 0x81 then Next 0 a (pk_len pk) memory
      else if c = 0x60 then (if unat k < length memory then Next 0 (memory ! unat k) x memory else Trap)
      else if c = 0x61 then (if unat k < length memory then Next 0 a (memory ! unat k) memory else Trap)
      else if c = 0x02 then (if unat k < length memory then Next 0 a x (memory[unat k := a]) else Trap)
      else if c = 0x03 then (if unat k < length memory then Next 0 a x (memory[unat k := x]) else Trap)
      else if c = 0x07 then Next 0 a a memory
      else if c = 0x87 then Next 0 x x memory
      else if c = 0x06 then Return k
      else if c = 0x16 then Return a
      else if c \<in> op_absolute \<and> AD_OFF \<le> k then ancillary_step pk (k - AD_OFF) a x memory
      else if c \<in> op_absolute \<or> c \<in> op_indirect then
        (case pk_load pk (if c AND 0xe0 = 0x40 then k + x else k) (load_size c) of
           None \<Rightarrow> Return 0
         | Some v \<Rightarrow> Next 0 v x memory)
      else if c = 0xb1 then
        (case pk_load pk k 1 of
           None \<Rightarrow> Return 0
         | Some v \<Rightarrow> Next 0 a ((v AND 15) * 4) memory)
      else if c = 0x05 then Next (unat k) a x memory
      else if c AND 7 = 5 then
        (case branch_taken c a rhs of
           None \<Rightarrow> Trap
         | Some t \<Rightarrow> Next (unat (if t then i_jt i else i_jf i)) a x memory)
      else alu_step c rhs a x memory)"

function run_loop :: "packet \<Rightarrow> program \<Rightarrow> nat \<Rightarrow> u32 \<Rightarrow> u32 \<Rightarrow> u32 list \<Rightarrow> (i32, u32) outcome" where
  "run_loop pk code pc a x memory =
     (if length code \<le> pc then Panic
      else case bpf_step pk (code ! pc) a x memory of
        Return v \<Rightarrow> Ok v
      | Trap \<Rightarrow> Panic
      | Next jump a' x' memory' \<Rightarrow> run_loop pk code (pc + 1 + jump) a' x' memory')"
  by pat_completeness auto
termination by (relation "measure (\<lambda>(pk, code, pc, a, x, memory). length code - pc)") auto

declare run_loop.simps [simp del]

definition program_run :: "program \<Rightarrow> packet \<Rightarrow> (i32, u32) outcome" where
  "program_run code pk = run_loop pk code 0 0 0 (replicate 16 0)"

section \<open>The byte codec\<close>

definition instruction_encode :: "instruction \<Rightarrow> bytes" where
  "instruction_encode i = u16_le (i_code i) @ [i_jt i, i_jf i] @ u32_le (i_k i)"

definition instruction_decode :: "bytes \<Rightarrow> instruction" where
  "instruction_decode b =
     \<lparr>i_code = word_of_nat (le_nat (take 2 b)), i_jt = b ! 2, i_jf = b ! 3,
      i_k = word_of_nat (le_nat (drop 4 b))\<rparr>"

definition program_encode :: "program \<Rightarrow> bytes" where
  "program_encode code = concat (map instruction_encode code)"

definition program_decode :: "bytes \<Rightarrow> (i32, program) outcome" where
  "program_decode bs =
     (if length bs mod 8 \<noteq> 0 then Err EINVAL
      else program_new (map instruction_decode (chunks_exact 8 bs)))"

end
