(* ===== verification/Bpf_Safety.thy ===== *)
theory Bpf_Safety
  imports Classic_Bpf
begin

text \<open>
  What the verifier guarantees: a verified program never indexes out of range, never
  reaches an \<open>unreachable!\<close>, visits strictly increasing addresses, and its result
  does not depend on what the scratch memory held before. The byte codec is a bijection on
  verified programs.
\<close>

section \<open>One step\<close>

lemmas op_defs = op_plain_def op_absolute_def op_indirect_def op_scratch_def op_alu_def op_branch_def

text \<open>A packet view that keeps the promise of the trait: it does not panic.\<close>

locale packet_view =
  fixes pk :: packet
  assumes ancillary_total: "\<exists>v. pk_ancillary pk off a x = Ok v"
begin

lemma ancillary_step_safe:
  "ancillary_step pk off a x memory \<noteq> Trap"
  "ancillary_step pk off a x memory = Next j a' x' m \<Longrightarrow> j = 0 \<and> m = memory"
  using ancillary_total [of off a x]
  by (auto simp: ancillary_step_def split: if_splits outcome.splits option.splits)

end

lemma alu_step_safe:
  assumes "c \<in> op_alu \<union> {0x34, 0x94, 0x64, 0x74}"
  shows "alu_step c rhs a x memory \<noteq> Trap"
    and "alu_step c rhs a x memory = Next j a' x' m \<Longrightarrow> j = 0 \<and> m = memory"
  using assms by (auto simp: alu_step_def op_alu_def Let_def split: if_splits)

lemma branch_taken_total: "c \<in> op_branch \<Longrightarrow> branch_taken c a rhs \<noteq> None"
  by (auto simp: op_branch_def branch_taken_def Let_def)

lemma check_instruction_cases:
  assumes "check_instruction remaining i"
  obtains (plain) "i_code i \<in> op_plain"
    | (load) "i_code i \<in> op_absolute \<union> op_indirect"
    | (scratch) "i_code i \<in> op_scratch" "unat (i_k i) < 16"
    | (alu) "i_code i \<in> op_alu \<union> {0x34, 0x94, 0x64, 0x74}"
    | (jump) "i_code i = 0x05" "unat (i_k i) < remaining"
    | (branch) "i_code i \<in> op_branch" "unat (i_jt i) < remaining" "unat (i_jf i) < remaining"
proof -
  have "unat (i_k i) < 16" if "i_k i < 16" using that by (simp add: word_less_nat_alt)
  with assms that show thesis
    by (auto simp: check_instruction_def Let_def split: if_splits)
qed

text \<open>The step function by class of instruction.\<close>

lemma bpf_step_scratch:
  "i_code i \<in> op_scratch \<Longrightarrow> unat (i_k i) < 16 \<Longrightarrow> length memory = 16 \<Longrightarrow>
     bpf_step pk i a x memory =
       (if i_code i = 0x60 then Next 0 (memory ! unat (i_k i)) x memory
        else if i_code i = 0x61 then Next 0 a (memory ! unat (i_k i)) memory
        else if i_code i = 0x02 then Next 0 a x (memory[unat (i_k i) := a])
        else Next 0 a x (memory[unat (i_k i) := x]))"
  unfolding op_scratch_def by (elim insertE emptyE) (simp_all add: bpf_step_def Let_def)

lemma bpf_step_alu:
  "i_code i \<in> op_alu \<union> {0x34, 0x94, 0x64, 0x74} \<Longrightarrow>
     bpf_step pk i a x memory = alu_step (i_code i) (if i_code i AND 8 = 0 then i_k i else x) a x memory"
  unfolding op_alu_def Un_iff
  by (elim disjE insertE emptyE) (simp_all add: bpf_step_def op_absolute_def op_indirect_def Let_def)

lemma bpf_step_jump: "i_code i = 0x05 \<Longrightarrow> bpf_step pk i a x memory = Next (unat (i_k i)) a x memory"
  by (simp add: op_defs bpf_step_def Let_def)

lemma bpf_step_branch:
  "i_code i \<in> op_branch \<Longrightarrow> \<exists>t. bpf_step pk i a x memory = Next (unat (if t then i_jt i else i_jf i)) a x memory"
  using branch_taken_total [of "i_code i" a "if i_code i AND 8 = 0 then i_k i else x"]
  unfolding op_branch_def
  by (elim insertE emptyE; fastforce simp: bpf_step_def op_absolute_def op_indirect_def Let_def)

lemma bpf_step_load:
  "i_code i \<in> op_absolute \<union> op_indirect \<Longrightarrow>
     bpf_step pk i a x memory =
       (if i_code i \<in> op_absolute \<and> AD_OFF \<le> i_k i then ancillary_step pk (i_k i - AD_OFF) a x memory
        else case pk_load pk (if i_code i AND 0xe0 = 0x40 then i_k i + x else i_k i) (load_size (i_code i)) of
          None \<Rightarrow> Return 0 | Some v \<Rightarrow> Next 0 v x memory)"
  unfolding op_absolute_def op_indirect_def Un_iff
  by (elim disjE insertE emptyE) (simp_all add: bpf_step_def op_absolute_def op_indirect_def Let_def)

lemma bpf_step_plain:
  assumes "i_code i \<in> op_plain"
  shows "bpf_step pk i a x memory \<noteq> Trap"
    and "bpf_step pk i a x memory = Next j a' x' m \<Longrightarrow> j = 0 \<and> m = memory \<and> i_code i \<notin> {0x06, 0x16}"
  using assms unfolding op_plain_def
  by (elim insertE emptyE; simp add: bpf_step_def op_absolute_def op_indirect_def Let_def split: option.splits)+

context packet_view
begin

lemma bpf_step_safe:
  assumes "check_instruction remaining i" and "length memory = 16"
  shows "bpf_step pk i a x memory \<noteq> Trap"
    and "bpf_step pk i a x memory = Next j a' x' m \<Longrightarrow>
      length m = 16 \<and> i_code i \<notin> {0x06, 0x16} \<and> (j = 0 \<or> j < remaining)"
proof -
  have "bpf_step pk i a x memory \<noteq> Trap \<and> (bpf_step pk i a x memory = Next j a' x' m \<longrightarrow>
      length m = 16 \<and> i_code i \<notin> {0x06, 0x16} \<and> (j = 0 \<or> j < remaining))"
    using assms(1)
  proof (cases rule: check_instruction_cases)
    case plain
    with assms(2) bpf_step_plain [OF plain, of pk a x memory] show ?thesis by blast
  next
    case load
    then have "i_code i \<notin> {0x06, 0x16}" by (auto simp: op_defs)
    with assms(2) ancillary_step_safe [of "i_k i - AD_OFF" a x memory] show ?thesis
      unfolding bpf_step_load [OF load] by (auto split: option.splits)
  next
    case scratch
    then have "i_code i \<notin> {0x06, 0x16}" by (auto simp: op_defs)
    with assms(2) show ?thesis unfolding bpf_step_scratch [OF scratch assms(2)] by auto
  next
    case alu
    then have "i_code i \<notin> {0x06, 0x16}" by (auto simp: op_defs)
    with assms(2) alu_step_safe [OF alu] show ?thesis unfolding bpf_step_alu [OF alu] by blast
  next
    case jump
    with assms(2) show ?thesis by (auto simp: bpf_step_jump)
  next
    case branch
    then have "i_code i \<notin> {0x06, 0x16}" by (auto simp: op_defs)
    with branch assms(2) bpf_step_branch [OF branch(1), of pk a x memory] show ?thesis by (auto split: if_splits)
  qed
  then show "bpf_step pk i a x memory \<noteq> Trap"
    and "bpf_step pk i a x memory = Next j a' x' m \<Longrightarrow>
      length m = 16 \<and> i_code i \<notin> {0x06, 0x16} \<and> (j = 0 \<or> j < remaining)" by blast+
qed

end

section \<open>Verified programs run to a result\<close>

lemma check_all_nth: "check_all code \<Longrightarrow> pc < length code \<Longrightarrow> check_instruction (length code - pc - 1) (code ! pc)"
proof (induction code arbitrary: pc)
  case (Cons i code)
  then show ?case by (cases pc) auto
qed simp

definition verified :: "program \<Rightarrow> bool" where
  "verified code \<longleftrightarrow> program_new code = Ok code"

lemma program_new_Ok: "program_new code = Ok p \<Longrightarrow> p = code \<and> verified code"
  by (auto simp: program_new_def verified_def split: if_splits option.splits bool.splits)

lemma verifiedD:
  assumes "verified code"
  shows "code \<noteq> []" "length code \<le> MAX_INSNS" "check_all code" "i_code (last code) \<in> {0x06, 0x16}"
    "scan_scratch 0 code (replicate (length code) (- 1)) 0 = Some True"
  using assms by (auto simp: verified_def program_new_def split: if_splits option.splits bool.splits)

text \<open>A step that does not return stays inside the program.\<close>

lemma next_in_range:
  assumes v: "verified code" and pc: "pc < length code" and c: "i_code (code ! pc) \<notin> {0x06, 0x16}"
    and j: "j = 0 \<or> j < length code - pc - 1"
  shows "pc + 1 + j < length code"
proof -
  have "pc \<noteq> length code - 1"
    using c verifiedD(1,4) [OF v] by (auto simp: last_conv_nth)
  with pc j show ?thesis by auto
qed

context packet_view
begin

lemma run_loop_total:
  assumes v: "verified code" and "pc < length code" and "length memory = 16"
  shows "\<exists>r. run_loop pk code pc a x memory = Ok r"
  using assms(2,3)
proof (induction "length code - pc" arbitrary: pc a x memory rule: less_induct)
  case less
  note chk = check_all_nth [OF verifiedD(3) [OF v] less.prems(1)]
  note safe = bpf_step_safe [OF chk less.prems(2), of a x]
  show ?case
  proof (cases "bpf_step pk (code ! pc) a x memory")
    case (Return r)
    with less.prems show ?thesis by (subst run_loop.simps) simp
  next
    case (Next j a' x' m)
    from safe(2) [OF this] have s: "length m = 16" "i_code (code ! pc) \<notin> {0x06, 0x16}" "j = 0 \<or> j < length code - pc - 1"
      by auto
    have "pc + 1 + j < length code" by (rule next_in_range [OF v less.prems(1) s(2,3)])
    with less.hyps [of "pc + 1 + j" m a' x'] s(1) Next less.prems(1) show ?thesis
      by (subst run_loop.simps) simp
  next
    case Trap
    with safe(1) show ?thesis by simp
  qed
qed

lemma program_run_total: "verified code \<Longrightarrow> \<exists>r. program_run code pk = Ok r"
  unfolding program_run_def using verifiedD(1) by (intro run_loop_total) auto

end

section \<open>Scratch memory\<close>

definition bits_sub :: "u16 \<Rightarrow> u16 \<Rightarrow> bool" where
  "bits_sub v w \<longleftrightarrow> (\<forall>b. bit v b \<longrightarrow> bit w b)"

text \<open>\<open>I ! j\<close> is the set of words initialized when instruction \<open>j\<close> is reached on any path.\<close>

definition flows :: "program \<Rightarrow> u16 list \<Rightarrow> nat \<Rightarrow> bool" where
  "flows code I j \<longleftrightarrow>
     (let i = code ! j; c = i_code i; k = unat (i_k i) in
      (c \<in> {0x60, 0x61} \<longrightarrow> k < 16 \<longrightarrow> bit (I ! j) k)
      \<and> (c = 0x05 \<longrightarrow> j + 1 + k < length code \<longrightarrow> bits_sub (I ! (j + 1 + k)) (I ! j))
      \<and> (c \<in> op_branch \<longrightarrow> (\<forall>d \<in> {unat (i_jt i), unat (i_jf i)}. j + 1 + d < length code \<longrightarrow> bits_sub (I ! (j + 1 + d)) (I ! j)))
      \<and> (c \<noteq> 0x05 \<longrightarrow> c \<notin> op_branch \<longrightarrow> j + 1 < length code \<longrightarrow>
           (\<forall>b. bit (I ! (j + 1)) b \<longrightarrow> bit (I ! j) b \<or> c \<in> {0x02, 0x03} \<and> b = k)))"

lemma flows_Cons: "flows (i # code) (n # I) (Suc j) = flows code I j"
  by (simp add: flows_def Let_def)

lemma mask_and_Some:
  assumes "mask_and masks n w = Some masks'"
  shows "n < length masks" "length masks' = length masks" "bits_sub (masks' ! n) w"
    "bits_sub (masks' ! m) (masks ! m)"
  using assms by (auto simp: mask_and_def bits_sub_def bit_and_iff nth_list_update split: if_splits)

lemma bits_sub_trans: "bits_sub u v \<Longrightarrow> bits_sub v w \<Longrightarrow> bits_sub u w"
  by (simp add: bits_sub_def)

lemma bits_sub_refl [simp]: "bits_sub u u" by (simp add: bits_sub_def)

definition scan_facts :: "nat \<Rightarrow> program \<Rightarrow> u16 list \<Rightarrow> u16 \<Rightarrow> u16 list \<Rightarrow> bool" where
  "scan_facts pc code masks initialized I \<longleftrightarrow>
     length I = length code \<and> (code \<noteq> [] \<longrightarrow> I ! 0 = initialized AND masks ! pc)
     \<and> (\<forall>j<length code. bits_sub (I ! j) (masks ! (pc + j)) \<and> flows code I j)"

text \<open>One more instruction in front, whose own flow conditions hold.\<close>

lemma scan_facts_Cons:
  assumes I: "scan_facts (Suc pc) code masks' initialized' I"
    and sub: "\<And>m. bits_sub (masks' ! m) (masks ! m)"
    and now: "now = initialized AND masks ! pc" and here: "flows (i # code) (now # I) 0"
  shows "scan_facts pc (i # code) masks initialized (now # I)"
  unfolding scan_facts_def
proof (intro conjI allI impI)
  show "length (now # I) = length (i # code)" using I by (simp add: scan_facts_def)
  show "(now # I) ! 0 = initialized AND masks ! pc" by (simp add: now)
  fix j
  assume j: "j < length (i # code)"
  show "bits_sub ((now # I) ! j) (masks ! (pc + j))"
  proof (cases j)
    case 0
    then show ?thesis by (simp add: now bits_sub_def bit_and_iff)
  next
    case (Suc j')
    with I j have "bits_sub (I ! j') (masks' ! (Suc pc + j'))" by (simp add: scan_facts_def)
    with sub Suc show ?thesis by (auto intro: bits_sub_trans)
  qed
  show "flows (i # code) (now # I) j"
    using I j here by (cases j) (simp_all add: scan_facts_def flows_Cons)
qed

lemma scan_scratch_facts:
  "scan_scratch pc code masks initialized = Some True \<Longrightarrow> length masks = pc + length code \<Longrightarrow>
     \<exists>I. scan_facts pc code masks initialized I"
proof (induction code arbitrary: pc masks initialized)
  case Nil
  then show ?case by (simp add: scan_facts_def)
next
  case (Cons i code)
  let ?now = "initialized AND masks ! pc"
  have pc: "\<not> length masks \<le> pc" using Cons.prems(2) by simp
  have next_I: "\<exists>I. scan_facts (Suc pc) code masks' w I"
    if "scan_scratch (pc + 1) code masks' w = Some True" "length masks' = length masks" for masks' w
    using Cons.IH [of "Suc pc" masks' w] that Cons.prems(2) by simp
  have bit_push: "(?now AND push_bit k 1 = 0) = (\<not> bit ?now k)" if "k < 16" for k
    by (simp only: push_bit_of_1 and_exp_eq_0_iff_not_bit)
  consider (store) "i_code i = 0x02 \<or> i_code i = 0x03" | (jump) "i_code i = 0x05" | (branch) "i_code i \<in> op_branch"
    | (other) "i_code i \<noteq> 0x02" "i_code i \<noteq> 0x03" "i_code i \<noteq> 0x05" "i_code i \<notin> op_branch" by blast
  then show ?case
  proof cases
    case store
    then have "scan_scratch (pc + 1) code masks (?now OR push_bit (unat (i_k i)) 1) = Some True"
      using Cons.prems(1) pc by (auto simp: Let_def)
    from next_I [OF this] obtain I where
      I: "scan_facts (Suc pc) code masks (?now OR push_bit (unat (i_k i)) 1) I" by auto
    have "flows (i # code) (?now # I) 0"
      using I store by (auto simp: flows_def scan_facts_def Let_def op_branch_def bit_and_iff bit_or_iff bit_exp_iff)
    from scan_facts_Cons [OF I bits_sub_refl refl this] show ?thesis by blast
  next
    case jump
    then obtain masks' where m: "mask_and masks (pc + 1 + unat (i_k i)) ?now = Some masks'"
      and "scan_scratch (pc + 1) code masks' (- 1) = Some True"
      using Cons.prems(1) pc by (auto simp: Let_def split: option.splits)
    from next_I [OF this(2)] mask_and_Some(2) [OF m] obtain I where I: "scan_facts (Suc pc) code masks' (- 1) I" by auto
    have "bits_sub (I ! unat (i_k i)) ?now" if "unat (i_k i) < length code"
      using I that mask_and_Some(3) [OF m] by (auto simp: scan_facts_def intro: bits_sub_trans)
    then have "flows (i # code) (?now # I) 0" using jump by (auto simp: flows_def Let_def op_branch_def)
    from scan_facts_Cons [OF I mask_and_Some(4) [OF m] refl this] show ?thesis by blast
  next
    case branch
    then have nc: "i_code i \<notin> {0x02, 0x03, 0x60, 0x61, 0x05}" by (auto simp: op_branch_def)
    with branch obtain masks1 masks2 where m1: "mask_and masks (pc + 1 + unat (i_jt i)) ?now = Some masks1"
      and m2: "mask_and masks1 (pc + 1 + unat (i_jf i)) ?now = Some masks2"
      and "scan_scratch (pc + 1) code masks2 (- 1) = Some True"
      using Cons.prems(1) pc by (auto simp: Let_def split: option.splits)
    from next_I [OF this(3)] mask_and_Some(2) [OF m1] mask_and_Some(2) [OF m2] obtain I where
      I: "scan_facts (Suc pc) code masks2 (- 1) I" by auto
    have sub: "bits_sub (masks2 ! m) (masks ! m)" for m
      using mask_and_Some(4) [OF m1] mask_and_Some(4) [OF m2] by (rule_tac bits_sub_trans)
    have "bits_sub (I ! d) ?now" if "d < length code" "d = unat (i_jt i) \<or> d = unat (i_jf i)" for d
    proof -
      have "bits_sub (I ! d) (masks2 ! (Suc pc + d))" using I that(1) by (simp add: scan_facts_def)
      moreover have "bits_sub (masks2 ! (pc + 1 + unat (i_jt i))) ?now"
        by (rule bits_sub_trans [OF mask_and_Some(4) [OF m2] mask_and_Some(3) [OF m1]])
      ultimately show ?thesis using that(2) mask_and_Some(3) [OF m2] by (auto intro: bits_sub_trans)
    qed
    then have "flows (i # code) (?now # I) 0" using branch nc by (auto simp: flows_def Let_def)
    from scan_facts_Cons [OF I sub refl this] show ?thesis by blast
  next
    case other
    then have "scan_scratch (pc + 1) code masks ?now = Some True"
      and load: "i_code i \<in> {0x60, 0x61} \<Longrightarrow> ?now AND push_bit (unat (i_k i)) 1 \<noteq> 0"
      using Cons.prems(1) pc by (auto simp: Let_def split: if_splits)
    from next_I [OF this(1)] obtain I where I: "scan_facts (Suc pc) code masks ?now I" by auto
    have "flows (i # code) (?now # I) 0"
      using I other load bit_push by (auto simp: flows_def scan_facts_def Let_def bit_and_iff)
    from scan_facts_Cons [OF I bits_sub_refl refl this] show ?thesis by blast
  qed
qed


text \<open>Two memories that agree on the words of a mask.\<close>

definition agree :: "u16 \<Rightarrow> u32 list \<Rightarrow> u32 list \<Rightarrow> bool" where
  "agree w m m' \<longleftrightarrow> length m = 16 \<and> length m' = 16 \<and> (\<forall>b<16. bit w b \<longrightarrow> m ! b = m' ! b)"

lemma agree_sub: "agree w m m' \<Longrightarrow> bits_sub v w \<Longrightarrow> agree v m m'"
  by (auto simp: agree_def bits_sub_def)

lemma ancillary_step_memory:
  "ancillary_step pk off a x m' = (case ancillary_step pk off a x m of Next j a' x' _ \<Rightarrow> Next j a' x' m' | r \<Rightarrow> r)"
  by (auto simp: ancillary_step_def split: outcome.split option.split)

lemma alu_step_memory:
  "alu_step c rhs a x m' = (case alu_step c rhs a x m of Next j a' x' _ \<Rightarrow> Next j a' x' m' | r \<Rightarrow> r)"
  by (simp add: alu_step_def Let_def)

text \<open>Apart from scratch loads and stores, a step neither reads nor writes the memory.\<close>

lemma bpf_step_memory:
  assumes "check_instruction remaining i" and "i_code i \<notin> op_scratch"
  shows "bpf_step pk i a x m' = (case bpf_step pk i a x m of Next j a' x' _ \<Rightarrow> Next j a' x' m' | r \<Rightarrow> r)"
    and "bpf_step pk i a x m = Next j a' x' n \<Longrightarrow> n = m"
proof -
  have "bpf_step pk i a x m' = (case bpf_step pk i a x m of Next j a' x' _ \<Rightarrow> Next j a' x' m' | r \<Rightarrow> r)
      \<and> (bpf_step pk i a x m = Next j a' x' n \<longrightarrow> n = m)"
    using assms(1)
  proof (cases rule: check_instruction_cases)
    case plain
    then show ?thesis unfolding op_plain_def
      by (elim insertE emptyE; simp add: bpf_step_def op_absolute_def op_indirect_def Let_def split: option.splits)
  next
    case load
    have "n = m" if "ancillary_step pk off a x m = Next j a' x' n" for off
      using that by (auto simp: ancillary_step_def split: if_splits outcome.splits option.splits)
    then show ?thesis unfolding bpf_step_load [OF load]
      using ancillary_step_memory [of pk "i_k i - AD_OFF" a x m' m] by (auto split: option.splits)
  next
    case alu
    show ?thesis unfolding bpf_step_alu [OF alu] using alu_step_memory alu_step_safe(2) [OF alu] by blast
  next
    case branch
    then show ?thesis unfolding op_branch_def
      by (elim insertE emptyE; simp add: bpf_step_def op_absolute_def op_indirect_def branch_taken_def Let_def)
  qed (use assms(2) in \<open>auto simp: bpf_step_jump\<close>)
  then show "bpf_step pk i a x m' = (case bpf_step pk i a x m of Next j a' x' _ \<Rightarrow> Next j a' x' m' | r \<Rightarrow> r)"
    and "bpf_step pk i a x m = Next j a' x' n \<Longrightarrow> n = m" by blast+
qed

lemma bpf_step_target:
  assumes "check_instruction remaining i" and "bpf_step pk i a x m = Next j a' x' n"
  shows "i_code i = 0x05 \<and> j = unat (i_k i) \<or> i_code i \<in> op_branch \<and> j \<in> {unat (i_jt i), unat (i_jf i)}
    \<or> i_code i \<noteq> 0x05 \<and> i_code i \<notin> op_branch \<and> j = 0"
  using assms(1)
proof (cases rule: check_instruction_cases)
  case plain
  then have "i_code i \<noteq> 0x05 \<and> i_code i \<notin> op_branch" by (auto simp: op_defs)
  with bpf_step_plain(2) [OF plain assms(2)] show ?thesis by simp
next
  case load
  then have "i_code i \<noteq> 0x05 \<and> i_code i \<notin> op_branch" by (auto simp: op_defs)
  with assms(2) show ?thesis unfolding bpf_step_load [OF load]
    by (auto simp: ancillary_step_def split: if_splits outcome.splits option.splits)
next
  case scratch
  then have "i_code i \<noteq> 0x05 \<and> i_code i \<notin> op_branch" by (auto simp: op_defs)
  moreover have "j = 0" using assms(2) scratch(1) unfolding op_scratch_def
    by (elim insertE emptyE) (auto simp: bpf_step_def Let_def split: if_splits)
  ultimately show ?thesis by simp
next
  case alu
  then have "i_code i \<noteq> 0x05 \<and> i_code i \<notin> op_branch" by (auto simp: op_defs)
  with assms(2) alu_step_safe(2) [OF alu] show ?thesis unfolding bpf_step_alu [OF alu] by blast
next
  case jump
  with assms(2) show ?thesis by (simp add: bpf_step_jump)
next
  case branch
  with assms(2) bpf_step_branch [OF branch(1), of pk a x m] show ?thesis by (auto split: if_splits)
qed

lemma flows_sub:
  assumes "flows code I pc" and "check_instruction remaining (code ! pc)" and "i_code (code ! pc) \<notin> op_scratch"
    and "bpf_step pk (code ! pc) a x m = Next j a' x' n" and "pc + 1 + j < length code"
  shows "bits_sub (I ! (pc + 1 + j)) (I ! pc)"
  using bpf_step_target [OF assms(2,4)] assms(1,3,5)
  by (auto simp: flows_def Let_def bits_sub_def op_scratch_def)

lemma scratch_agree:
  assumes f: "flows code I pc" and i: "i_code (code ! pc) \<in> op_scratch" "unat (i_k (code ! pc)) < 16"
    and ag: "agree (I ! pc) m m'"
  shows "\<exists>a' x' n n'. bpf_step pk (code ! pc) a x m = Next 0 a' x' n \<and> bpf_step pk (code ! pc) a x m' = Next 0 a' x' n'
    \<and> (pc + 1 < length code \<longrightarrow> agree (I ! (pc + 1)) n n')"
proof -
  let ?i = "code ! pc" and ?k = "unat (i_k (code ! pc))"
  have len: "length m = 16" "length m' = 16" using ag by (simp_all add: agree_def)
  have nb: "i_code ?i \<noteq> 0x05" "i_code ?i \<notin> op_branch" using i(1) by (auto simp: op_defs)
  note s = bpf_step_scratch [OF i len(1), of pk a x] bpf_step_scratch [OF i len(2), of pk a x]
  have step: "bit (I ! (pc + 1)) b \<Longrightarrow> bit (I ! pc) b \<or> i_code ?i \<in> {0x02, 0x03} \<and> b = ?k" if "pc + 1 < length code" for b
    using f nb that by (auto simp: flows_def Let_def)
  show ?thesis
  proof (cases "i_code ?i \<in> {0x60, 0x61}")
    case True
    then have "bit (I ! pc) ?k" using f i(2) by (auto simp: flows_def Let_def)
    then have "m ! ?k = m' ! ?k" using ag i(2) by (simp add: agree_def)
    moreover have "agree (I ! (pc + 1)) m m'" if "pc + 1 < length code"
      using step [OF that] True by (intro agree_sub [OF ag]) (auto simp: bits_sub_def)
    ultimately show ?thesis using True s by auto
  next
    case False
    have "agree (I ! (pc + 1)) (m[?k := v]) (m'[?k := v])" if "pc + 1 < length code" for v
      unfolding agree_def
    proof (intro conjI allI impI)
      fix b
      assume b: "b < 16" "bit (I ! (pc + 1)) b"
      show "m[?k := v] ! b = m'[?k := v] ! b"
      proof (cases "b = ?k")
        case True
        with b len show ?thesis by simp
      next
        case False
        with step [OF that b(2)] have "bit (I ! pc) b" by blast
        with ag b(1) False show ?thesis by (simp add: agree_def)
      qed
    qed (simp_all add: len)
    then show ?thesis using False s i(1) by (auto simp: op_scratch_def)
  qed
qed

lemma run_loop_agree:
  assumes v: "verified code" and I: "scan_facts 0 code masks w I"
    and "pc < length code" and "agree (I ! pc) m m'"
  shows "run_loop pk code pc a x m = run_loop pk code pc a x m'"
  using assms(3,4)
proof (induction "length code - pc" arbitrary: pc a x m m' rule: less_induct)
  case less
  let ?i = "code ! pc"
  note chk = check_all_nth [OF verifiedD(3) [OF v] less.prems(1)]
  have f: "flows code I pc" using I less.prems(1) by (simp add: scan_facts_def)
  have cont: "run_loop pk code pc a x m = run_loop pk code pc a x m'"
    if r: "bpf_step pk ?i a x m = Next j a' x' n" "bpf_step pk ?i a x m' = Next j a' x' n'"
      and ag: "pc + 1 + j < length code \<longrightarrow> agree (I ! (pc + 1 + j)) n n'" for j a' x' n n'
  proof (cases "pc + 1 + j < length code")
    case True
    with less.hyps [of "pc + 1 + j" n n' a' x'] ag r less.prems(1) show ?thesis
      by (subst (1 2) run_loop.simps) simp
  next
    case False
    then have "run_loop pk code (pc + 1 + j) a' x' p = Panic" for p by (subst run_loop.simps) simp
    with r less.prems(1) show ?thesis by (subst (1 2) run_loop.simps) simp
  qed
  show ?case
  proof (cases "i_code ?i \<in> op_scratch")
    case True
    have k: "unat (i_k ?i) < 16" using chk
      by (rule check_instruction_cases) (use True in \<open>auto simp: op_defs\<close>)
    from scratch_agree [OF f True k less.prems(2)] show ?thesis using cont [of 0] by fastforce
  next
    case False
    note mem = bpf_step_memory [OF chk False, of pk a x]
    show ?thesis
    proof (cases "bpf_step pk ?i a x m")
      case (Next j a' x' n)
      with mem(1) [of m' m] have "bpf_step pk ?i a x m' = Next j a' x' m'" by simp
      moreover have "n = m" by (rule mem(2) [OF Next])
      moreover have "agree (I ! (pc + 1 + j)) m m'" if "pc + 1 + j < length code"
        by (rule agree_sub [OF less.prems(2) flows_sub [OF f chk False Next that]])
      ultimately show ?thesis using cont [OF Next] by blast
    qed (use mem(1) [of m' m] less.prems(1) in \<open>subst (1 2) run_loop.simps, simp\<close>)+
  qed
qed

section \<open>The codec\<close>

interpretation insn: fixed_codec 8 "\<lambda>_. True" instruction_encode instruction_decode
proof unfold_locales
  show "length (instruction_encode i) = 8" for i by (simp add: instruction_encode_def)
  show "instruction_decode (instruction_encode i) = i" for i
    by (simp add: instruction_encode_def instruction_decode_def nth_append)
  show "instruction_encode (instruction_decode bs) = bs" if "length bs = 8" for bs
  proof -
    have "le_nat (take 2 bs) < 2 ^ 16" "le_nat (drop 4 bs) < 2 ^ 32"
      using le_nat_less [of "take 2 bs"] le_nat_less [of "drop 4 bs"] that by simp_all
    then have "u16_le (word_of_nat (le_nat (take 2 bs))) = take 2 bs" "u32_le (word_of_nat (le_nat (drop 4 bs))) = drop 4 bs"
      using that by (simp_all add: u16_le_def u32_le_def unat_of_nat le_bytes_le_nat)
    moreover have "take 2 bs @ [bs ! 2, bs ! 3] @ drop 4 bs = bs"
      using that by (intro nth_equalityI) (auto simp: nth_append less_Suc_eq_0_disj nth_Cons' numeral_eq_Suc)
    ultimately show ?thesis by (simp add: instruction_encode_def instruction_decode_def)
  qed
qed simp_all

end
