(* ===== verification/Socket_Filter.thy ===== *)
theory Socket_Filter
  imports Bpf_Safety
begin

text \<open>
  Socket filters: the packet view of local sockets
  (\<^verbatim>\<open>kinakaze-vfs/src/socket/filter/packet.rs\<close>) and the persistent filter state with its
  options (\<^verbatim>\<open>kinakaze-vfs/src/socket/filter.rs\<close>). The processor number and the random
  word that two ancillary loads ask the host for are arguments of the view, so one run sees
  one answer. Caller memory is an argument of \<open>filter_set\<close>, and the description store is the
  payload it rewrites; promoting a descriptor to a stored description and publishing the
  new bytes to the peer are host services and not modelled.
\<close>

section \<open>Local packets\<close>

definition be_nat :: "bytes \<Rightarrow> nat" where "be_nat bs = le_nat (rev bs)"

definition local_load :: "bytes \<Rightarrow> i32 \<Rightarrow> nat \<Rightarrow> u32 option" where
  "local_load data offset width =
     (if sint offset < 0 then None
      else
        let start = nat (sint offset) in
        if length data < start + width then None
        else if width = 1 \<or> width = 2 \<or> width = 4
        then Some (word_of_nat (be_nat (take width (drop start data)))) else None)"

text \<open>
  The loop over netlink attributes. \<open>checked_add\<close> against an end that is itself a
  \<open>usize\<close> is plain addition; a slice past the data is \<open>Panic\<close>.
\<close>

function find_attribute :: "bytes \<Rightarrow> nat \<Rightarrow> nat \<Rightarrow> u32 \<Rightarrow> (unit, u32) outcome" where
  "find_attribute data start last_byte kind =
     (if start + 4 \<le> last_byte then
        if length data < start + 4 then Panic
        else
          let n = le_nat (take 2 (drop start data)) in
          if n < 4 \<or> start + n > last_byte then Ok 0
          else if word_of_nat (le_nat (take 2 (drop (start + 2) data)) mod 0x4000) = kind
          then Ok (word_of_nat start)
          else find_attribute data (start + (n + 3) div 4 * 4) last_byte kind
      else Ok 0)"
  by pat_completeness auto
termination
  by (relation "measure (\<lambda>(data, start, last_byte, kind). last_byte - start)") auto

declare find_attribute.simps [simp del]

definition map_ok :: "('a \<Rightarrow> 'b) \<Rightarrow> ('e, 'a) outcome \<Rightarrow> ('e, 'b) outcome" where
  "map_ok f r = and_then r (\<lambda>x. Ok (f x))"

definition local_ancillary ::
    "bytes \<Rightarrow> u32 \<Rightarrow> u32 option \<Rightarrow> u32 \<Rightarrow> u32 \<Rightarrow> u32 \<Rightarrow> (unit, u32 option) outcome" where
  "local_ancillary data cpu random off a x =
     (if off \<in> {0, 4, 20, 24, 32, 44, 48, 52, 60} then Ok (Some 0)
      else if off = 8 \<or> off = 28 then Ok None
      else if off = 12 then map_ok Some (find_attribute data (unat a) (length data) x)
      else if off = 16 then
        (let start = unat a in
         if length data < start + 2 then Ok (Some 0)
         else
           let n = le_nat (take 2 (drop start data)) in
           if n < 4 \<or> start + n > length data then Ok (Some 0)
           else map_ok Some (find_attribute data (start + 4) (start + n) x))
      else if off = 36 then Ok (Some cpu)
      else if off = 56 then Ok random
      else Ok None)"

definition local_packet :: "bytes \<Rightarrow> u32 \<Rightarrow> u32 option \<Rightarrow> packet" where
  "local_packet data cpu random =
     \<lparr>pk_len = word_of_nat (min (length data) (2 ^ 32 - 1)), pk_load = local_load data,
      pk_ancillary = local_ancillary data cpu random\<rparr>"

lemma find_attribute_total:
  "last_byte \<le> length data \<Longrightarrow> \<exists>v. find_attribute data start last_byte kind = Ok v"
proof (induction data start last_byte kind rule: find_attribute.induct)
  case (1 data start last_byte kind)
  then show ?case by (subst find_attribute.simps) (auto simp: Let_def)
qed

interpretation loc: packet_view "local_packet data cpu random" for data cpu random
proof unfold_locales
  fix off a x
  have "\<exists>v. map_ok Some (find_attribute data start n k) = Ok v" if "n \<le> length data" for start n k
    using find_attribute_total [OF that, of start k] by (auto simp: map_ok_def)
  then show "\<exists>v. pk_ancillary (local_packet data cpu random) off a x = Ok v"
    by (simp add: local_packet_def local_ancillary_def Let_def)
qed

section \<open>Filter state\<close>

definition SO_ATTACH_FILTER :: i32 where "SO_ATTACH_FILTER = 26"
definition SO_DETACH_FILTER :: i32 where "SO_DETACH_FILTER = 27"
definition SO_LOCK_FILTER :: i32 where "SO_LOCK_FILTER = 44"

record filter_state =
  fl_program :: "program option"
  fl_locked :: bool

definition filter_default :: filter_state where
  "filter_default = \<lparr>fl_program = None, fl_locked = False\<rparr>"

definition CBF1 :: bytes where "CBF1 = [0x43, 0x42, 0x46, 0x31]"

definition validate_encoding :: "bytes \<Rightarrow> (i32, unit) outcome" where
  "validate_encoding bs =
     (if bs = [] then Ok ()
      else if length bs < 8 \<or> length bs > 8 + MAX_INSNS * 8 \<or> length bs mod 8 \<noteq> 0
              \<or> take 4 bs \<noteq> CBF1 \<or> bs ! 4 > 1 \<or> take 3 (drop 5 bs) \<noteq> [0, 0, 0]
      then Err EIO else Ok ())"

definition filter_decode :: "bytes \<Rightarrow> (i32, filter_state) outcome" where
  "filter_decode bs =
     (if bs = [] then Ok filter_default
      else and_then (validate_encoding bs) (\<lambda>_.
        if length bs = 8 then Ok \<lparr>fl_program = None, fl_locked = bs ! 4 \<noteq> 0\<rparr>
        else case program_decode (drop 8 bs) of
          Ok p \<Rightarrow> Ok \<lparr>fl_program = Some p, fl_locked = bs ! 4 \<noteq> 0\<rparr>
        | Err _ \<Rightarrow> Err EIO
        | Panic \<Rightarrow> Panic))"

definition filter_encode :: "filter_state \<Rightarrow> bytes" where
  "filter_encode st =
     CBF1 @ [if fl_locked st then 1 else 0, 0, 0, 0]
     @ (case fl_program st of None \<Rightarrow> [] | Some p \<Rightarrow> program_encode p)"

definition filter_run :: "filter_state \<Rightarrow> packet \<Rightarrow> nat \<Rightarrow> (i32, nat option) outcome" where
  "filter_run st pk cap =
     (case fl_program st of
        None \<Rightarrow> Ok (Some (unat (pk_len pk)))
      | Some p \<Rightarrow> map_ok (\<lambda>r. if r = 0 then None else Some (min (max (unat r) cap) (unat (pk_len pk))))
                    (program_run p pk))"

definition apply_option :: "i32 \<Rightarrow> program option \<Rightarrow> bool \<Rightarrow> filter_state \<Rightarrow> (i32, filter_state) outcome" where
  "apply_option name prog flag st =
     (if name = SO_ATTACH_FILTER then
        (if fl_locked st then Err EPERM else Ok (st\<lparr>fl_program := prog\<rparr>))
      else if name = SO_DETACH_FILTER then
        (if fl_locked st then Err EPERM
         else if fl_program st = None then Err ENOENT
         else Ok (st\<lparr>fl_program := None\<rparr>))
      else if name = SO_LOCK_FILTER then
        (if fl_locked st \<and> \<not> flag then Err EPERM else Ok (st\<lparr>fl_locked := flag\<rparr>))
      else Err ENOPROTOOPT)"

text \<open>The length a query reports and the bytes it copies out.\<close>

definition filter_get :: "i32 \<Rightarrow> i32 \<Rightarrow> filter_state \<Rightarrow> (i32, i32 \<times> bytes) outcome" where
  "filter_get name capacity st =
     (if sint capacity < 0 then Err EINVAL
      else if name = SO_ATTACH_FILTER then
        (let count = (case fl_program st of None \<Rightarrow> 0 | Some p \<Rightarrow> length p) in
         if count > 0 \<and> capacity \<noteq> 0 then
           (if unat capacity < count then Err EINVAL
            else case fl_program st of
              None \<Rightarrow> Panic
            | Some p \<Rightarrow> Ok (word_of_nat count, program_encode p))
         else Ok (word_of_nat count, []))
      else if name = SO_LOCK_FILTER then
        (let n = min (unat capacity) 4 in
         Ok (word_of_nat n, take n (le_bytes 4 (if fl_locked st then 1 else 0))))
      else Err ENOPROTOOPT)"

section \<open>Setting an option on a description\<close>

text \<open>
  The kinds of descriptor \<open>check_socket\<close> tells apart; a packet socket delegates to the
  user-mode network and is not modelled. Caller memory is a partial function from an address
  and a length to the bytes the host could read there.
\<close>

datatype fd_kind = Socket | UnixSocket | NetlinkSocket | OtherKind

type_synonym user_memory = "u64 \<Rightarrow> nat \<Rightarrow> bytes option"

definition check_socket :: "fd_kind \<Rightarrow> (i32, unit) outcome" where
  "check_socket kind = (if kind = OtherKind then Err ENOTSOCK else Ok ())"

definition copy_in :: "user_memory \<Rightarrow> u64 \<Rightarrow> nat \<Rightarrow> (i32, bytes) outcome" where
  "copy_in mem source n =
     (if n = 0 then Ok []
      else if source = 0 \<or> 2 ^ 64 \<le> uint source + int n then Err EFAULT
      else case mem source n of
        None \<Rightarrow> Err EFAULT
      | Some bs \<Rightarrow> if length bs \<noteq> n then Err EFAULT else Ok bs)"

text \<open>The filter part of a description's payload starts after its 16-byte header.\<close>

definition filter_snapshot :: "bytes \<Rightarrow> (i32, filter_state) outcome" where
  "filter_snapshot payload = (if length payload < 16 then Err EIO else filter_decode (drop 16 payload))"

definition read_program :: "user_memory \<Rightarrow> u64 \<Rightarrow> i32 \<Rightarrow> bytes \<Rightarrow> (i32, program) outcome" where
  "read_program mem value_ptr len payload =
     (if len \<noteq> 16 then Err EINVAL
      else and_then (copy_in mem value_ptr 16) (\<lambda>header.
        and_then (filter_snapshot payload) (\<lambda>st.
          if fl_locked st then Err EPERM
          else
            let count = le_nat (take 2 header) in
            if count = 0 \<or> count > MAX_INSNS then Err EINVAL
            else and_then (copy_in mem (word_of_nat (le_nat (drop 8 header))) (count * 8))
                   program_decode)))"

definition update_payload ::
    "i32 \<Rightarrow> program option \<Rightarrow> bool \<Rightarrow> bytes \<Rightarrow> (i32, bytes) outcome" where
  "update_payload name prog flag payload =
     and_then (filter_snapshot payload) (\<lambda>st.
       map_ok (\<lambda>st'. take 16 payload @ filter_encode st') (apply_option name prog flag st))"

definition filter_set ::
    "fd_kind \<Rightarrow> user_memory \<Rightarrow> i32 \<Rightarrow> u64 \<Rightarrow> i32 \<Rightarrow> bytes \<Rightarrow> (i32, bytes) outcome" where
  "filter_set kind mem name value_ptr len payload =
     and_then (check_socket kind) (\<lambda>_.
       if sint len < 4 then Err EINVAL
       else and_then (copy_in mem value_ptr 4) (\<lambda>scalar.
         and_then (if name = SO_ATTACH_FILTER
                   then map_ok Some (read_program mem value_ptr len payload) else Ok None) (\<lambda>prog.
           if name = SO_ATTACH_FILTER \<and> kind = Socket then Err EOPNOTSUPP
           else update_payload name prog (le_nat scalar \<noteq> 0) payload)))"

end
