(* ===== verification/Filter_Props.thy ===== *)
theory Filter_Props
  imports Socket_Filter
begin

text \<open>
  Properties of the socket filter: the verifier and the interpreter are total on everything a
  description can hold, a program takes at most 4096 steps and never sees stale scratch
  memory, the stored bytes implement the option state machine, and the lock is permanent.
\<close>

section \<open>The verifier does not panic\<close>

lemma scan_scratch_total:
  "check_all code \<Longrightarrow> length masks = pc + length code \<Longrightarrow> scan_scratch pc code masks w \<noteq> None"
proof (induction code arbitrary: pc masks w)
  case (Cons i code)
  have "unat (i_k i) < length code" if "i_code i = 5"
    using Cons.prems(1) that by (auto simp: check_instruction_def op_defs Let_def)
  moreover have "unat (i_jt i) < length code \<and> unat (i_jf i) < length code" if "i_code i \<in> op_branch"
    using Cons.prems(1) that by (auto simp: check_instruction_def op_defs Let_def)
  ultimately show ?case using Cons
    by (auto simp: Let_def mask_and_def)
qed simp

lemma program_new_total: "program_new code \<noteq> Panic"
  using scan_scratch_total [of code "replicate (length code) (- 1)" 0 0]
  by (auto simp: program_new_def split: option.splits bool.splits)

lemma program_decode_Ok:
  assumes "program_decode bs = Ok p"
  shows "verified p" and "program_encode p = bs"
proof -
  from assms have m: "length bs mod 8 = 0" and new: "program_new (map instruction_decode (chunks_exact 8 bs)) = Ok p"
    by (auto simp: program_decode_def split: if_splits)
  from program_new_Ok [OF new] show "verified p" by simp
  from program_new_Ok [OF new] insn.encode_decode_all [OF m] show "program_encode p = bs"
    by (simp add: program_encode_def)
qed

lemma program_decode_encode: "verified p \<Longrightarrow> program_decode (program_encode p) = Ok p"
  using insn.decode_encode_all [of p] insn.length_encode_all [of p]
  by (simp add: program_decode_def program_encode_def verified_def)

lemma length_program_encode: "length (program_encode p) = 8 * length p"
  using insn.length_encode_all [of p] by (simp add: program_encode_def)

section \<open>The interpreter\<close>

lemma program_run_memory:
  assumes v: "verified code" and "length m = 16"
  shows "run_loop pk code 0 0 0 m = program_run code pk"
proof -
  from scan_scratch_facts [OF verifiedD(5) [OF v]] obtain I
    where I: "scan_facts 0 code (replicate (length code) (- 1)) 0 I" by auto
  with verifiedD(1) [OF v] have "I ! 0 = 0" by (simp add: scan_facts_def)
  with assms(2) have "agree (I ! 0) m (replicate 16 0)" by (simp add: agree_def)
  from run_loop_agree [OF v I _ this, of pk 0 0] verifiedD(1) [OF v] show ?thesis
    by (simp add: program_run_def)
qed

text \<open>The instructions a run executes, in order.\<close>

function run_trace :: "packet \<Rightarrow> program \<Rightarrow> nat \<Rightarrow> u32 \<Rightarrow> u32 \<Rightarrow> u32 list \<Rightarrow> nat list" where
  "run_trace pk code pc a x memory =
     (if length code \<le> pc then []
      else pc # (case bpf_step pk (code ! pc) a x memory of
        Next jump a' x' memory' \<Rightarrow> run_trace pk code (pc + 1 + jump) a' x' memory'
      | _ \<Rightarrow> []))"
  by pat_completeness auto
termination by (relation "measure (\<lambda>(pk, code, pc, a, x, memory). length code - pc)") auto

declare run_trace.simps [simp del]

lemma run_trace_forward:
  "set (run_trace pk code pc a x m) \<subseteq> {pc..<length code} \<and> sorted_wrt (<) (run_trace pk code pc a x m)"
proof (induction pk code pc a x m rule: run_trace.induct)
  case (1 pk code pc a x memory)
  show ?case
  proof (cases "pc < length code \<and> (\<exists>j a' x' m. bpf_step pk (code ! pc) a x memory = Next j a' x' m)")
    case True
    then obtain j a' x' m where s: "pc < length code" "bpf_step pk (code ! pc) a x memory = Next j a' x' m"
      by auto
    then have "run_trace pk code pc a x memory = pc # run_trace pk code (pc + 1 + j) a' x' m"
      by (subst run_trace.simps) simp
    with 1 [of j a' x' m] s show ?thesis by fastforce
  next
    case False
    then show ?thesis by (subst (1 2) run_trace.simps) (auto split: step.split)
  qed
qed

lemma run_trace_length: "length (run_trace pk code 0 a x m) \<le> length code"
proof -
  note f = run_trace_forward [of pk code 0 a x m]
  then have "distinct (run_trace pk code 0 a x m)" by (simp add: strict_sorted_iff)
  then have "length (run_trace pk code 0 a x m) = card (set (run_trace pk code 0 a x m))"
    by (simp add: distinct_card)
  also have "\<dots> \<le> card {0..<length code}" using f by (intro card_mono) auto
  finally show ?thesis by simp
qed

section \<open>The stored state\<close>

definition filter_ok :: "filter_state \<Rightarrow> bool" where
  "filter_ok st \<longleftrightarrow> (case fl_program st of None \<Rightarrow> True | Some p \<Rightarrow> verified p)"

lemma filter_decode_ok: "filter_decode bs = Ok st \<Longrightarrow> filter_ok st"
  by (auto simp: filter_decode_def filter_default_def filter_ok_def program_decode_Ok
      split: if_splits outcome.splits)

lemma filter_decode_encode:
  assumes "filter_ok st"
  shows "filter_decode (filter_encode st) = Ok st"
proof (cases "fl_program st")
  case None
  then show ?thesis by (cases st) (simp add: filter_decode_def filter_encode_def validate_encoding_def CBF1_def)
next
  case (Some p)
  with assms have v: "verified p" by (simp add: filter_ok_def)
  have n: "0 < length (program_encode p)" "length (program_encode p) \<le> MAX_INSNS * 8"
    using verifiedD(1,2) [OF v] by (simp_all add: length_program_encode)
  have "validate_encoding (filter_encode st) = Ok ()"
    using Some n by (simp add: validate_encoding_def filter_encode_def CBF1_def length_program_encode)
  moreover have "drop 8 (filter_encode st) = program_encode p" "length (filter_encode st) = 8 + length (program_encode p)"
    "filter_encode st ! 4 = (if fl_locked st then 1 else 0)"
    using Some by (simp_all add: filter_encode_def CBF1_def)
  ultimately show ?thesis using Some n program_decode_encode [OF v]
    by (cases st) (auto simp: filter_decode_def)
qed

lemma filter_decode_total: "filter_decode bs \<noteq> Panic"
  using program_new_total
  by (auto simp: filter_decode_def validate_encoding_def program_decode_def
      split: if_splits outcome.splits)

lemma apply_option_ok:
  "apply_option name prog flag st = Ok st' \<Longrightarrow> filter_ok st \<Longrightarrow> (\<And>p. prog = Some p \<Longrightarrow> verified p) \<Longrightarrow>
     filter_ok st'"
  by (cases prog) (auto simp: apply_option_def filter_ok_def split: if_splits)

lemma snapshot_ok: "filter_snapshot payload = Ok st \<Longrightarrow> filter_ok st \<and> 16 \<le> length payload"
  by (auto simp: filter_snapshot_def filter_decode_ok split: if_splits)

lemma update_payload_Ok:
  assumes "update_payload name prog flag payload = Ok payload'" and "\<And>p. prog = Some p \<Longrightarrow> verified p"
  shows "take 16 payload' = take 16 payload"
    and "and_then (filter_snapshot payload) (apply_option name prog flag) = filter_snapshot payload'"
proof -
  from assms(1) obtain st st' where st: "filter_snapshot payload = Ok st" "apply_option name prog flag st = Ok st'"
    "payload' = take 16 payload @ filter_encode st'"
    by (auto simp: update_payload_def map_ok_def split: outcome.splits)
  with snapshot_ok [OF st(1)] have "filter_ok st'" "16 \<le> length payload"
    using apply_option_ok assms(2) by blast+
  with st show "take 16 payload' = take 16 payload"
    "and_then (filter_snapshot payload) (apply_option name prog flag) = filter_snapshot payload'"
    by (simp_all add: filter_snapshot_def filter_decode_encode)
qed

lemma read_program_verified: "read_program mem v n payload = Ok p \<Longrightarrow> verified p"
  by (auto simp: read_program_def Let_def program_decode_Ok split: if_splits outcome.splits)

lemma filter_set_Ok:
  assumes "filter_set kind mem name v n payload = Ok payload'"
  obtains prog flag where "update_payload name prog flag payload = Ok payload'"
    "\<And>p. prog = Some p \<Longrightarrow> verified p" "name = SO_ATTACH_FILTER \<Longrightarrow> prog \<noteq> None"
proof -
  from assms obtain scalar prog where *: "update_payload name prog (le_nat scalar \<noteq> 0) payload = Ok payload'"
    "(if name = SO_ATTACH_FILTER then map_ok Some (read_program mem v n payload) else Ok None) = Ok prog"
    by (auto simp: filter_set_def split: if_splits outcome.splits)
  from *(2) have "verified p" if "prog = Some p" for p
    using that by (auto simp: map_ok_def read_program_verified split: if_splits outcome.splits)
  moreover from *(2) have "name = SO_ATTACH_FILTER \<Longrightarrow> prog \<noteq> None"
    by (auto simp: map_ok_def split: if_splits outcome.splits)
  ultimately show thesis using that [OF *(1)] by blast
qed

section \<open>The option state machine\<close>

text \<open>What a caller can ask for.\<close>

datatype filter_request = Attach program | Detach | SetLock bool

text \<open>How the memory of the caller spells a request out: the option, the address of the value and its length.\<close>

inductive asks :: "user_memory \<Rightarrow> u64 \<Rightarrow> i32 \<Rightarrow> i32 \<Rightarrow> filter_request \<Rightarrow> bool" for mem v where
  asks_attach: "copy_in mem v 4 = Ok scalar \<Longrightarrow> copy_in mem v 16 = Ok (u16_le count @ pad @ u64_le address) \<Longrightarrow> length pad = 6
    \<Longrightarrow> unat count = length p \<Longrightarrow> verified p \<Longrightarrow> copy_in mem address (8 * length p) = Ok (program_encode p)
    \<Longrightarrow> asks mem v SO_ATTACH_FILTER 16 (Attach p)"
| asks_detach: "4 \<le> sint n \<Longrightarrow> copy_in mem v 4 = Ok scalar \<Longrightarrow> asks mem v SO_DETACH_FILTER n Detach"
| asks_lock: "4 \<le> sint n \<Longrightarrow> copy_in mem v 4 = Ok scalar \<Longrightarrow> asks mem v SO_LOCK_FILTER n (SetLock (scalar \<noteq> [0, 0, 0, 0]))"

text \<open>When the state allows a request, and what it leads to.\<close>

inductive filter_move :: "filter_request \<Rightarrow> filter_state \<Rightarrow> filter_state \<Rightarrow> bool" where
  move_attach: "filter_move (Attach p) \<lparr>fl_program = old, fl_locked = False\<rparr> \<lparr>fl_program = Some p, fl_locked = False\<rparr>"
| move_detach: "filter_move Detach \<lparr>fl_program = Some p, fl_locked = False\<rparr> \<lparr>fl_program = None, fl_locked = False\<rparr>"
| move_lock: "filter_move (SetLock True) \<lparr>fl_program = prog, fl_locked = b\<rparr> \<lparr>fl_program = prog, fl_locked = True\<rparr>"
| move_unlocked: "filter_move (SetLock False) \<lparr>fl_program = prog, fl_locked = False\<rparr> \<lparr>fl_program = prog, fl_locked = False\<rparr>"

inductive_cases asks_cases: "asks mem v name n req"
inductive_cases filter_move_cases: "filter_move req st st'"

lemma copy_in_length: "copy_in mem v n = Ok bs \<Longrightarrow> length bs = n"
  by (auto simp: copy_in_def split: if_splits option.splits)

lemma le_nat_zero: "length bs = 4 \<Longrightarrow> le_nat bs = 0 \<longleftrightarrow> bs = [0, 0, 0, 0]"
proof -
  have "le_nat bs = 0 \<longleftrightarrow> bs = replicate (length bs) 0" for bs
    by (induction bs) (auto simp: unat_eq_0)
  then show "length bs = 4 \<Longrightarrow> le_nat bs = 0 \<longleftrightarrow> bs = [0, 0, 0, 0]" by (simp add: numeral_eq_Suc)
qed

text \<open>The 16 bytes of a program header: the count, six bytes nobody reads and the address.\<close>

lemma header_parts:
  assumes "length header = 16"
  shows "\<exists>count pad address. header = u16_le count @ pad @ u64_le address \<and> length pad = 6
    \<and> unat count = le_nat (take 2 header) \<and> address = word_of_nat (le_nat (drop 8 header))"
proof -
  define count :: u16 where "count = word_of_nat (le_nat (take 2 header))"
  define address :: u64 where "address = word_of_nat (le_nat (drop 8 header))"
  have "le_nat (take 2 header) < 2 ^ 16" "le_nat (drop 8 header) < 2 ^ 64"
    using le_nat_less [of "take 2 header"] le_nat_less [of "drop 8 header"] assms by simp_all
  then have un: "unat count = le_nat (take 2 header)" "unat address = le_nat (drop 8 header)"
    by (simp_all add: count_def address_def unat_of_nat take_bit_nat_eq_self)
  then have "u16_le count = take 2 header" "u64_le address = drop 8 header"
    using assms by (simp_all add: u16_le_def u64_le_def le_bytes_le_nat)
  moreover have "header = take 2 header @ take 6 (drop 2 header) @ drop 8 header"
    using append_take_drop_id [of 2 header] append_take_drop_id [of 6 "drop 2 header"] by simp
  ultimately show ?thesis using un(1) assms by (intro exI [of _ count] exI [of _ "take 6 (drop 2 header)"] exI [of _ address]) (simp add: address_def)
qed

lemma read_program_asks:
  assumes "copy_in mem v 4 = Ok scalar"
  shows "read_program mem v n payload = Ok p \<longleftrightarrow> asks mem v SO_ATTACH_FILTER n (Attach p)
    \<and> (\<exists>st. filter_snapshot payload = Ok st \<and> \<not> fl_locked st)"
proof
  assume r: "read_program mem v n payload = Ok p"
  then obtain header st where h: "n = 16" "copy_in mem v 16 = Ok header" "filter_snapshot payload = Ok st" "\<not> fl_locked st"
      "le_nat (take 2 header) \<noteq> 0"
      "and_then (copy_in mem (word_of_nat (le_nat (drop 8 header))) (le_nat (take 2 header) * 8)) program_decode = Ok p"
    unfolding read_program_def Let_def by (cases "copy_in mem v 16"; cases "filter_snapshot payload") (simp_all split: if_splits)
  from header_parts [OF copy_in_length [OF h(2)]] obtain count pad address where
    c: "header = u16_le count @ pad @ u64_le address" "length pad = 6" "unat count = le_nat (take 2 header)"
      "address = word_of_nat (le_nat (drop 8 header))" by blast
  from h(6) obtain code where code: "copy_in mem address (unat count * 8) = Ok code" "program_decode code = Ok p"
    unfolding c(3,4) by (cases "copy_in mem (word_of_nat (le_nat (drop 8 header))) (le_nat (take 2 header) * 8)") simp_all
  note p = program_decode_Ok [OF code(2)]
  have "8 * length p = unat count * 8" using copy_in_length [OF code(1)] p(2) by (simp add: length_program_encode [symmetric])
  then show "asks mem v SO_ATTACH_FILTER n (Attach p) \<and> (\<exists>st. filter_snapshot payload = Ok st \<and> \<not> fl_locked st)"
    using asks_attach [of mem v scalar count pad address p] h(1-4) c(1,2) p code(1) assms by (simp add: mult.commute)
next
  assume "asks mem v SO_ATTACH_FILTER n (Attach p) \<and> (\<exists>st. filter_snapshot payload = Ok st \<and> \<not> fl_locked st)"
  then obtain st where a: "asks mem v SO_ATTACH_FILTER n (Attach p)" and st: "filter_snapshot payload = Ok st" "\<not> fl_locked st" by blast
  from a show "read_program mem v n payload = Ok p"
  proof (cases rule: asks.cases)
    case (asks_attach scalar count pad address)
    have "le_nat (take 2 (u16_le count @ pad @ u64_le address)) = length p"
      "word_of_nat (le_nat (drop 8 (u16_le count @ pad @ u64_le address))) = address"
      using asks_attach by simp_all
    then show ?thesis using asks_attach st verifiedD(1,2) [OF asks_attach(6)] program_decode_encode [OF asks_attach(6)]
      by (simp add: read_program_def Let_def mult.commute)
  qed
qed

lemma filter_move_iff:
  "filter_move (Attach p) st st' \<longleftrightarrow> \<not> fl_locked st \<and> st' = st\<lparr>fl_program := Some p\<rparr>"
  "filter_move Detach st st' \<longleftrightarrow> \<not> fl_locked st \<and> fl_program st \<noteq> None \<and> st' = st\<lparr>fl_program := None\<rparr>"
  "filter_move (SetLock b) st st' \<longleftrightarrow> (fl_locked st \<longrightarrow> b) \<and> st' = st\<lparr>fl_locked := b\<rparr>"
  by (cases st; cases st'; auto elim!: filter_move_cases intro: filter_move.intros; (cases b; auto elim!: filter_move_cases intro: filter_move.intros)?)+

lemma asks_name: "asks mem v name n req \<Longrightarrow> 4 \<le> sint n \<and> (\<exists>scalar. copy_in mem v 4 = Ok scalar)"
  by (auto elim: asks_cases)

lemmas filter_names = SO_ATTACH_FILTER_def SO_DETACH_FILTER_def SO_LOCK_FILTER_def

lemma asks_attach_only: "asks mem v SO_ATTACH_FILTER n req \<longleftrightarrow> (\<exists>p. req = Attach p \<and> asks mem v SO_ATTACH_FILTER n (Attach p))"
proof -
  have "\<exists>p. req = Attach p" if "asks mem v SO_ATTACH_FILTER n req"
    using that by cases (simp_all add: filter_names)
  then show ?thesis by blast
qed

lemma asks_detach_iff:
  "copy_in mem v 4 = Ok scalar \<Longrightarrow> asks mem v SO_DETACH_FILTER n req \<longleftrightarrow> 4 \<le> sint n \<and> req = Detach"
  using asks_detach [of n mem v scalar] by (auto elim: asks.cases simp: filter_names)

lemma asks_lock_iff:
  assumes "copy_in mem v 4 = Ok scalar"
  shows "asks mem v SO_LOCK_FILTER n req \<longleftrightarrow> 4 \<le> sint n \<and> req = SetLock (le_nat scalar \<noteq> 0)"
proof
  assume "asks mem v SO_LOCK_FILTER n req"
  then show "4 \<le> sint n \<and> req = SetLock (le_nat scalar \<noteq> 0)"
    using assms le_nat_zero [OF copy_in_length [OF assms]] by cases (simp_all add: filter_names)
next
  assume "4 \<le> sint n \<and> req = SetLock (le_nat scalar \<noteq> 0)"
  then show "asks mem v SO_LOCK_FILTER n req"
    using asks_lock [OF _ assms, of n] le_nat_zero [OF copy_in_length [OF assms]] by simp
qed

lemma asks_known: "asks mem v name n req \<Longrightarrow> name \<in> {SO_ATTACH_FILTER, SO_DETACH_FILTER, SO_LOCK_FILTER}"
  by (auto elim: asks.cases)

lemma update_payload_iff:
  "update_payload name prog flag payload = Ok payload' \<longleftrightarrow> (\<exists>st st'. filter_snapshot payload = Ok st
     \<and> apply_option name prog flag st = Ok st' \<and> payload' = take 16 payload @ filter_encode st')"
  by (auto simp: update_payload_def map_ok_def split: outcome.splits)

lemma filter_set_parts:
  "filter_set kind mem name v n payload = Ok payload' \<longleftrightarrow>
     kind \<noteq> OtherKind \<and> \<not> (name = SO_ATTACH_FILTER \<and> kind = Socket) \<and> 4 \<le> sint n
     \<and> (\<exists>scalar prog. copy_in mem v 4 = Ok scalar
         \<and> (if name = SO_ATTACH_FILTER then \<exists>p. prog = Some p \<and> read_program mem v n payload = Ok p else prog = None)
         \<and> update_payload name prog (le_nat scalar \<noteq> 0) payload = Ok payload')"
proof (cases "copy_in mem v 4")
  case (Ok scalar)
  show ?thesis
    by (cases "read_program mem v n payload")
      (simp_all add: filter_set_def check_socket_def map_ok_def Ok not_less)
qed (simp_all add: filter_set_def check_socket_def)

lemma move_snapshot:
  assumes "filter_snapshot payload = Ok st" and "filter_move req st st'" and "asks mem v name n req"
  shows "filter_snapshot (take 16 payload @ filter_encode st') = Ok st'"
proof -
  have "verified p" if "req = Attach p" for p using assms(3) that by cases simp_all
  then have "filter_ok st'" using snapshot_ok [OF assms(1)] assms(2)
    by (cases req) (auto simp: filter_ok_def filter_move_iff)
  then show ?thesis using snapshot_ok [OF assms(1)] by (simp add: filter_snapshot_def filter_decode_encode)
qed

lemma update_asked:
  assumes "copy_in mem v 4 = Ok scalar" and "4 \<le> sint n"
  shows "(\<exists>prog. (if name = SO_ATTACH_FILTER then \<exists>p. prog = Some p \<and> read_program mem v n payload = Ok p else prog = None)
      \<and> update_payload name prog (le_nat scalar \<noteq> 0) payload = Ok payload')
    \<longleftrightarrow> (\<exists>req st st'. asks mem v name n req \<and> filter_snapshot payload = Ok st \<and> filter_move req st st'
      \<and> payload' = take 16 payload @ filter_encode st')"
proof -
  consider "name = SO_ATTACH_FILTER" | "name = SO_DETACH_FILTER" | "name = SO_LOCK_FILTER"
    | "name \<notin> {SO_ATTACH_FILTER, SO_DETACH_FILTER, SO_LOCK_FILTER}" by auto
  then show ?thesis
  proof cases
    case 1
    have "(\<exists>req st st'. asks mem v name n req \<and> filter_snapshot payload = Ok st \<and> filter_move req st st'
        \<and> payload' = take 16 payload @ filter_encode st')
      \<longleftrightarrow> (\<exists>p st. asks mem v name n (Attach p) \<and> filter_snapshot payload = Ok st \<and> \<not> fl_locked st
        \<and> payload' = take 16 payload @ filter_encode (st\<lparr>fl_program := Some p\<rparr>))"
      (is "?l = ?r")
    proof
      assume ?l
      then obtain req st st' where l: "asks mem v name n req" "filter_snapshot payload = Ok st" "filter_move req st st'"
        "payload' = take 16 payload @ filter_encode st'" by blast
      from l(1) obtain p where "req = Attach p" using asks_attach_only [of mem v n req] 1 by auto
      with l show ?r by (auto simp: filter_move_iff)
    next
      assume ?r
      then show ?l by (metis filter_move_iff(1))
    qed
    moreover have "update_payload SO_ATTACH_FILTER (Some p) flag payload = Ok payload' \<longleftrightarrow> (\<exists>st. filter_snapshot payload = Ok st
        \<and> \<not> fl_locked st \<and> payload' = take 16 payload @ filter_encode (st\<lparr>fl_program := Some p\<rparr>))" for p flag
      by (auto simp: update_payload_iff apply_option_def split: if_splits)
    ultimately show ?thesis unfolding 1 read_program_asks [OF assms(1)] by auto
  next
    case 2
    have "SO_DETACH_FILTER \<noteq> SO_ATTACH_FILTER" by (simp add: filter_names)
    then show ?thesis using assms(2)
      unfolding 2 update_payload_iff asks_detach_iff [OF assms(1)] by (auto simp: filter_move_iff apply_option_def split: if_splits)
  next
    case 3
    have "SO_LOCK_FILTER \<noteq> SO_ATTACH_FILTER" "SO_LOCK_FILTER \<noteq> SO_DETACH_FILTER" by (simp_all add: filter_names)
    then show ?thesis using assms(2)
      unfolding 3 update_payload_iff asks_lock_iff [OF assms(1)] by (auto simp: filter_move_iff apply_option_def split: if_splits)
  next
    case 4
    then have "\<not> asks mem v name n req" for req using asks_known by blast
    with 4 show ?thesis by (simp add: update_payload_iff apply_option_def)
  qed
qed

section \<open>Concrete inputs\<close>

definition demo_insn :: "u16 \<Rightarrow> u8 \<Rightarrow> u8 \<Rightarrow> u32 \<Rightarrow> instruction" where
  "demo_insn c t f k = \<lparr>i_code = c, i_jt = t, i_jf = f, i_k = k\<rparr>"

text \<open>Drop packets of more than three bytes; accept two bytes of the others through scratch word 1.\<close>

definition demo_program :: program where
  "demo_program =
     [demo_insn 0x80 0 0 0, demo_insn 0x25 0 1 3, demo_insn 0x06 0 0 0,
      demo_insn 0x00 0 0 2, demo_insn 0x02 0 0 1, demo_insn 0x60 0 0 1, demo_insn 0x16 0 0 0]"

definition demo_memory :: user_memory where
  "demo_memory addr n =
     (if addr = 64 \<and> n = 4 then Some [7, 0, 0, 0]
      else if addr = 64 \<and> n = 16 then Some ([7, 0, 0, 0, 0, 0, 0, 0] @ u64_le 128)
      else if addr = 128 \<and> n = 56 then Some (program_encode demo_program)
      else None)"

definition demo_payload :: bytes where "demo_payload = replicate 16 9"

lemma demo_verified: "verified demo_program"
  unfolding verified_def by code_simp

lemma demo_copies:
  "copy_in demo_memory 64 4 = Ok [7, 0, 0, 0]"
  "copy_in demo_memory 64 16 = Ok ([7, 0, 0, 0, 0, 0, 0, 0] @ u64_le 128)"
  "copy_in demo_memory 128 56 = Ok (program_encode demo_program)"
  by (simp_all add: copy_in_def demo_memory_def length_program_encode) (simp add: demo_program_def)

lemma demo_snapshot: "filter_snapshot demo_payload = Ok filter_default"
  by (simp add: filter_snapshot_def demo_payload_def filter_decode_def)

lemma demo_read_program: "read_program demo_memory 64 16 demo_payload = Ok demo_program"
  by (simp add: read_program_def demo_copies demo_snapshot filter_default_def MAX_INSNS_def
      program_decode_encode demo_verified)

lemma demo_attach:
  "filter_set UnixSocket demo_memory SO_ATTACH_FILTER 64 16 demo_payload
     = Ok (demo_payload @ filter_encode \<lparr>fl_program = Some demo_program, fl_locked = False\<rparr>)"
  by (simp add: filter_set_def check_socket_def demo_copies demo_read_program map_ok_def update_payload_def
      demo_snapshot apply_option_def filter_default_def) (simp add: demo_payload_def)

lemma demo_run: "program_run demo_program (local_packet [1, 2, 3] 0 None) = Ok 2"
proof -
  have "local_packet [1, 2, 3] 0 None =
      \<lparr>pk_len = 3, pk_load = local_load [1, 2, 3], pk_ancillary = local_ancillary [1, 2, 3] 0 None\<rparr>"
    by (simp add: local_packet_def)
  moreover have "program_run demo_program
      \<lparr>pk_len = 3, pk_load = local_load [1, 2, 3], pk_ancillary = local_ancillary [1, 2, 3] 0 None\<rparr> = Ok 2"
    by code_simp
  ultimately show ?thesis by (simp only:)
qed

section \<open>Properties\<close>

text \<open>C37: (safety) the verifier of classic BPF programs never panics: on any list of
  instructions, of any length and with any opcodes, it accepts the program unchanged or
  answers \<open>EINVAL\<close>, and what it accepts has between 1 and 4096 instructions and ends in a
  return.\<close>

theorem verifier_total:
  "program_new code = Err EINVAL
   \<or> program_new code = Ok code \<and> code \<noteq> [] \<and> length code \<le> MAX_INSNS \<and> i_code (last code) \<in> {0x06, 0x16}"
proof (cases "program_new code")
  case (Ok p)
  with program_new_Ok [OF Ok] verifiedD [of code] show ?thesis by (auto simp: verified_def)
next
  case (Err e)
  then show ?thesis by (auto simp: program_new_def split: if_splits option.splits bool.splits)
qed (simp add: program_new_total)

text \<open>C4: (termination) a verified program runs to a result on every local packet, whatever the
  processor number and random word the host supplies: no index out of range, no
  unreachable arm and no endless loop. The addresses it executes strictly increase, so it takes
  at most as many steps as it has instructions, and never more than 4096.\<close>

theorem verified_program_terminates:
  assumes "verified code"
  shows "(\<exists>r. program_run code (local_packet data cpu random) = Ok r)
    \<and> sorted_wrt (<) (run_trace (local_packet data cpu random) code 0 0 0 (replicate 16 0))
    \<and> length (run_trace (local_packet data cpu random) code 0 0 0 (replicate 16 0)) \<le> MAX_INSNS"
  using loc.program_run_total [OF assms] run_trace_forward
    le_trans [OF run_trace_length verifiedD(2) [OF assms]] by blast

theorem verified_program_terminates_witness:
  "\<exists>r. program_run demo_program (local_packet [1, 2, 3] 0 None) = Ok r"
  using verified_program_terminates [OF demo_verified] by blast

text \<open>C10: (safety) a verified program never reads a scratch word it has not written: its result
  on any packet view, one that panics included, is the same from every initial content of
  the sixteen scratch words as from the zeroed memory the interpreter starts with.\<close>

theorem scratch_memory_irrelevant:
  assumes "verified code" and "length m = 16"
  shows "run_loop pk code 0 0 0 m = program_run code pk"
  using assms by (rule program_run_memory)

theorem scratch_memory_irrelevant_witness:
  "run_loop (local_packet [1, 2, 3] 0 None) demo_program 0 0 0 (replicate 16 77) = Ok 2"
  using scratch_memory_irrelevant [OF demo_verified, of "replicate 16 77" "local_packet [1, 2, 3] 0 None"]
    demo_run by simp

text \<open>The byte codec of programs is exact in both directions: decoding any bytes
  to a program and encoding it gives back the same bytes, and every verified program survives
  encoding and decoding.\<close>

theorem program_codec_exact:
  "(program_decode bs = Ok p \<longrightarrow> verified p \<and> program_encode p = bs)
   \<and> (verified p \<longrightarrow> program_decode (program_encode p) = Ok p)"
  using program_decode_Ok program_decode_encode by blast

theorem program_codec_exact_witness:
  "program_decode (program_encode demo_program) = Ok demo_program"
  using program_codec_exact [of "[]" demo_program] demo_verified by blast

text \<open>The verdict of the filter a description stores: every payload that decodes
  gives, on every local packet below 4 GiB, either a drop or a number of bytes that is at most the packet's
  length and at least the caller's floor \<open>cap\<close> as far as the packet has that many.\<close>

theorem filter_verdict_bounds:
  assumes "filter_snapshot payload = Ok st" and "length data < 2 ^ 32"
  shows "filter_run st (local_packet data cpu random) cap = Ok None
    \<or> (\<exists>n. filter_run st (local_packet data cpu random) cap = Ok (Some n)
           \<and> min cap (length data) \<le> n \<and> n \<le> length data)"
proof -
  have len: "unat (pk_len (local_packet data cpu random)) = length data"
    using assms(2) by (simp add: local_packet_def unat_of_nat min_def)
  show ?thesis
  proof (cases "fl_program st")
    case (Some p)
    with snapshot_ok [OF assms(1)] have "verified p" by (simp add: filter_ok_def)
    then obtain r where "program_run p (local_packet data cpu random) = Ok r"
      using loc.program_run_total by blast
    with Some len show ?thesis by (auto simp: filter_run_def map_ok_def)
  qed (simp add: filter_run_def len)
qed

theorem filter_verdict_bounds_witness:
  "\<exists>st. filter_snapshot demo_payload = Ok st \<and> filter_run st (local_packet [1, 2, 3] 0 None) 2 \<noteq> Panic"
  using filter_verdict_bounds [OF demo_snapshot, of "[1, 2, 3]" 0 None 2] demo_snapshot by auto

text \<open>C27: (refinement) the bytes of a description implement the filter state machine. A \<open>setsockopt\<close> succeeds
  exactly when the descriptor is a socket that can have the option, the caller's memory spells out a request and the
  stored state allows it; then the header is kept and the new bytes are read back as the state the request leads to.
  Attaching takes the instructions at the address in the caller's header, exactly as many as it says, if they verify;
  the lock is set or cleared by whether the four bytes of the value are zero.\<close>

theorem filter_set_refines:
  "filter_set kind mem name v n payload = Ok payload' \<longleftrightarrow>
     kind \<noteq> OtherKind \<and> \<not> (name = SO_ATTACH_FILTER \<and> kind = Socket) \<and>
     (\<exists>req st st'. asks mem v name n req \<and> filter_snapshot payload = Ok st \<and> filter_move req st st'
        \<and> filter_snapshot payload' = Ok st' \<and> payload' = take 16 payload @ filter_encode st')"
proof (cases "4 \<le> sint n \<and> (\<exists>scalar. copy_in mem v 4 = Ok scalar)")
  case True
  then obtain scalar where s: "copy_in mem v 4 = Ok scalar" "4 \<le> sint n" by blast
  have "(\<exists>req st st'. asks mem v name n req \<and> filter_snapshot payload = Ok st \<and> filter_move req st st'
      \<and> payload' = take 16 payload @ filter_encode st')
    \<longleftrightarrow> (\<exists>req st st'. asks mem v name n req \<and> filter_snapshot payload = Ok st \<and> filter_move req st st'
        \<and> filter_snapshot payload' = Ok st' \<and> payload' = take 16 payload @ filter_encode st')"
    using move_snapshot by blast
  then show ?thesis using s update_asked [OF s, of name payload payload'] unfolding filter_set_parts by simp
next
  case False
  then show ?thesis using asks_name [of mem v name n] unfolding filter_set_parts by blast
qed

theorem filter_set_refines_witness:
  "\<exists>p. asks demo_memory 64 SO_ATTACH_FILTER 16 (Attach p)
     \<and> filter_snapshot (demo_payload @ filter_encode \<lparr>fl_program = Some demo_program, fl_locked = False\<rparr>)
       = Ok \<lparr>fl_program = Some p, fl_locked = False\<rparr>"
proof -
  from filter_set_refines [THEN iffD1, OF demo_attach] obtain req st st' where
    r: "asks demo_memory 64 SO_ATTACH_FILTER 16 req" "filter_snapshot demo_payload = Ok st" "filter_move req st st'"
      "filter_snapshot (demo_payload @ filter_encode \<lparr>fl_program = Some demo_program, fl_locked = False\<rparr>) = Ok st'"
    by blast
  from r(1) obtain p where "req = Attach p" using asks_attach_only by blast
  with r demo_snapshot show ?thesis by (auto simp: filter_move_iff filter_default_def)
qed

lemma locked_step:
  assumes "filter_set kind mem name v n payload = Ok payload'" and "filter_snapshot payload = Ok st" and "fl_locked st"
  shows "filter_snapshot payload' = Ok st" "name = SO_LOCK_FILTER"
proof -
  from filter_set_Ok [OF assms(1)] obtain prog flag where u: "update_payload name prog flag payload = Ok payload'"
    "\<And>p. prog = Some p \<Longrightarrow> verified p" by metis
  from u(1) assms(2) obtain st' where st': "apply_option name prog flag st = Ok st'"
    by (auto simp: update_payload_def map_ok_def)
  with assms(3) have "st' = st" "name = SO_LOCK_FILTER"
    by (cases st, auto simp: apply_option_def split: if_splits)+
  with update_payload_Ok(2) [OF u(1,2)] assms(2) st' show "filter_snapshot payload' = Ok st" "name = SO_LOCK_FILTER"
    by simp_all
qed

fun filter_sets :: "fd_kind \<Rightarrow> (user_memory \<times> i32 \<times> u64 \<times> i32) list \<Rightarrow> bytes \<Rightarrow> bytes" where
  "filter_sets kind [] payload = payload"
| "filter_sets kind ((mem, name, v, n) # rest) payload =
     filter_sets kind rest
       (case filter_set kind mem name v n payload of Ok payload' \<Rightarrow> payload' | _ \<Rightarrow> payload)"

text \<open>C20: (invariant) a locked filter is locked for good: whatever options are set afterwards, in
  any order, with any memory and on any kind of socket, the stored state never changes
  again; every attach or detach is refused.\<close>

theorem lock_is_permanent:
  assumes "filter_snapshot payload = Ok st" and "fl_locked st"
  shows "filter_snapshot (filter_sets kind sets payload) = Ok st
    \<and> (\<forall>mem v n payload'. filter_set kind mem SO_ATTACH_FILTER v n (filter_sets kind sets payload) \<noteq> Ok payload'
         \<and> filter_set kind mem SO_DETACH_FILTER v n (filter_sets kind sets payload) \<noteq> Ok payload')"
proof -
  have keep: "filter_snapshot (filter_sets kind sets payload) = Ok st"
    using assms(1)
  proof (induction sets arbitrary: payload)
    case (Cons s sets)
    obtain mem name v n where s: "s = (mem, name, v, n)" by (metis prod_cases4)
    show ?case
    proof (cases "filter_set kind mem name v n payload")
      case (Ok p)
      from Cons.IH [OF locked_step(1) [OF Ok Cons.prems assms(2)]] s Ok show ?thesis by simp
    qed (simp_all add: s Cons)
  qed simp
  have "filter_set kind mem name v n (filter_sets kind sets payload) \<noteq> Ok payload'"
    if "name \<in> {SO_ATTACH_FILTER, SO_DETACH_FILTER}" for mem name v n payload'
    using that locked_step(2) [OF _ keep assms(2), of kind mem name v n payload']
    by (auto simp: SO_ATTACH_FILTER_def SO_DETACH_FILTER_def SO_LOCK_FILTER_def)
  with keep show ?thesis by simp
qed

theorem lock_is_permanent_witness:
  "filter_snapshot (filter_sets UnixSocket [(demo_memory, SO_DETACH_FILTER, 64, 4), (demo_memory, SO_LOCK_FILTER, 0, 4)]
     (demo_payload @ filter_encode \<lparr>fl_program = Some demo_program, fl_locked = True\<rparr>))
   = Ok \<lparr>fl_program = Some demo_program, fl_locked = True\<rparr>"
proof (rule lock_is_permanent [THEN conjunct1])
  have "filter_decode (filter_encode \<lparr>fl_program = Some demo_program, fl_locked = True\<rparr>)
      = Ok \<lparr>fl_program = Some demo_program, fl_locked = True\<rparr>"
    by (rule filter_decode_encode) (simp add: filter_ok_def demo_verified)
  then show "filter_snapshot (demo_payload @ filter_encode \<lparr>fl_program = Some demo_program, fl_locked = True\<rparr>)
      = Ok \<lparr>fl_program = Some demo_program, fl_locked = True\<rparr>"
    by (simp add: filter_snapshot_def demo_payload_def)
qed simp

end
