(* ===== verification/Record_Lock.thy ===== *)
theory Record_Lock
  imports Vfs_Errno "HOL-Library.Product_Lexorder" "HOL-Library.List_Lexorder"
begin

text \<open>
  Advisory record locks of \<^verbatim>\<open>kinakaze-vfs/src/record_lock.rs\<close>: ranges, owners, the lock
  and waiter lists with their operations, the two-bank shared section, and the calls that run
  as transactions on it. Endpoints of ranges are 64-bit words and every addition on them is
  the wrapping word addition. What the host is asked for (the process registry, threads,
  descriptors, events and waits) is an argument of the definitions that use it.
\<close>

section \<open>Data\<close>

definition EDEADLK :: i32 where "EDEADLK = 35"
definition ENOLCK :: i32 where "ENOLCK = 37"
definition LOCK_CAPACITY :: nat where "LOCK_CAPACITY = 32768"
definition WAITER_CAPACITY :: nat where "WAITER_CAPACITY = 4096"

record lock_range =
  rg_start :: u64
  rg_end :: u64

definition range_new :: "u64 \<Rightarrow> u64 \<Rightarrow> (i32, lock_range) outcome" where
  "range_new start last_byte =
     (if start > last_byte \<or> last_byte > 0x7FFFFFFFFFFFFFFF then Err EINVAL
      else Ok \<lparr>rg_start = start, rg_end = last_byte\<rparr>)"

definition overlaps :: "lock_range \<Rightarrow> lock_range \<Rightarrow> bool" where
  "overlaps r other \<longleftrightarrow> rg_start r \<le> rg_end other \<and> rg_start other \<le> rg_end r"

datatype lock_kind = Read | Write

fun kind_raw :: "lock_kind \<Rightarrow> u32" where
  "kind_raw Read = 0"
| "kind_raw Write = 1"

record inode =
  in_backing :: u64
  in_volume :: u64
  in_id :: bytes

record owner =
  ow_pid :: u32
  ow_namespace :: u32
  ow_born :: u64

record lock_record =
  rc_inode :: inode
  rc_owner :: owner
  rc_range :: lock_range
  rc_kind :: u32
  rc_reserved :: u32

definition conflicts :: "lock_record \<Rightarrow> lock_record \<Rightarrow> bool" where
  "conflicts r wanted \<longleftrightarrow>
     rc_inode r = rc_inode wanted \<and> rc_owner r \<noteq> rc_owner wanted
     \<and> overlaps (rc_range r) (rc_range wanted)
     \<and> (rc_kind r = kind_raw Write \<or> rc_kind wanted = kind_raw Write)"

record waiter =
  wt_wanted :: lock_record
  wt_process :: owner
  wt_host :: u32
  wt_thread :: u32

definition same_thread :: "waiter \<Rightarrow> waiter \<Rightarrow> bool" where
  "same_thread w other \<longleftrightarrow> wt_host w = wt_host other \<and> wt_thread w = wt_thread other"

section \<open>Owners and the process registry\<close>

text \<open>What the registry of processes, the open descriptions and the threads of the host answer.\<close>

record job_entry =
  je_pid :: u32
  je_namespace_pid :: u32
  je_namespace :: u32
  je_start_ticks :: u64
  je_flags :: u32

record lock_host =
  lh_lookup :: "u32 \<Rightarrow> job_entry option"
  lh_pinnable :: "u64 \<Rightarrow> bool"
  lh_thread_runs :: "u32 \<Rightarrow> u32 \<Rightarrow> bool"

definition FLAG_ZOMBIE :: u32 where "FLAG_ZOMBIE = 4"

definition owner_description :: "u64 \<Rightarrow> owner" where
  "owner_description ident = \<lparr>ow_pid = 0, ow_namespace = 0, ow_born = ident\<rparr>"

definition is_description :: "owner \<Rightarrow> bool" where
  "is_description ow \<longleftrightarrow> ow_pid ow = 0"

definition owner_from_entry :: "job_entry \<Rightarrow> owner" where
  "owner_from_entry e =
     \<lparr>ow_pid = je_namespace_pid e, ow_namespace = je_namespace e, ow_born = je_start_ticks e\<rparr>"

definition live_entry :: "lock_host \<Rightarrow> owner \<Rightarrow> job_entry option" where
  "live_entry h ow =
     (case lh_lookup h (ow_pid ow) of
        None \<Rightarrow> None
      | Some e \<Rightarrow> if owner_from_entry e = ow \<and> je_flags e AND FLAG_ZOMBIE = 0 then Some e else None)"

definition owner_alive :: "lock_host \<Rightarrow> owner \<Rightarrow> bool" where
  "owner_alive h ow =
     (if is_description ow then lh_pinnable h (ow_born ow) else live_entry h ow \<noteq> None)"

section \<open>The lock state\<close>

record lock_state =
  st_locks :: "lock_record list"
  st_waiters :: "waiter list"
  st_dirty :: bool
  st_wake :: bool

definition conflict :: "lock_state \<Rightarrow> lock_record \<Rightarrow> lock_record option" where
  "conflict st wanted = find (\<lambda>r. conflicts r wanted) (st_locks st)"

text \<open>What is left of one record when the wanted range is taken out of it.\<close>

definition cut_out :: "lock_record \<Rightarrow> lock_record \<Rightarrow> lock_record list" where
  "cut_out wanted old =
     (if rc_inode old \<noteq> rc_inode wanted \<or> rc_owner old \<noteq> rc_owner wanted
         \<or> \<not> overlaps (rc_range old) (rc_range wanted)
      then [old]
      else
        (if rg_start (rc_range old) < rg_start (rc_range wanted)
         then [old\<lparr>rc_range := \<lparr>rg_start = rg_start (rc_range old), rg_end = rg_start (rc_range wanted) - 1\<rparr>\<rparr>]
         else [])
        @ (if rg_end (rc_range old) > rg_end (rc_range wanted)
           then [old\<lparr>rc_range := \<lparr>rg_start = rg_end (rc_range wanted) + 1, rg_end = rg_end (rc_range old)\<rparr>\<rparr>]
           else []))"

text \<open>
  The derived lexicographic order of inodes and owners. The source sorts with an unstable
  sort; the keys of the list it sorts are distinct, so the result is the one of
  \<open>sort_key\<close>.
\<close>

definition rc_key :: "lock_record \<Rightarrow> (u64 \<times> u64 \<times> bytes) \<times> (u32 \<times> u32 \<times> u64) \<times> u64" where
  "rc_key r =
     ((in_backing (rc_inode r), in_volume (rc_inode r), in_id (rc_inode r)),
      (ow_pid (rc_owner r), ow_namespace (rc_owner r), ow_born (rc_owner r)),
      rg_start (rc_range r))"

definition mergeable :: "lock_record \<Rightarrow> lock_record \<Rightarrow> bool" where
  "mergeable l r \<longleftrightarrow>
     rc_inode l = rc_inode r \<and> rc_owner l = rc_owner r \<and> rc_kind l = rc_kind r
     \<and> rg_end (rc_range l) + 1 \<ge> rg_start (rc_range r)"

definition extend_to :: "lock_record \<Rightarrow> lock_record \<Rightarrow> lock_record" where
  "extend_to l r = l\<lparr>rc_range := (rc_range l)\<lparr>rg_end := max (rg_end (rc_range l)) (rg_end (rc_range r))\<rparr>\<rparr>"

definition merge_push :: "lock_record list \<Rightarrow> lock_record \<Rightarrow> lock_record list" where
  "merge_push merged r =
     (if merged \<noteq> [] \<and> mergeable (last merged) r then butlast merged @ [extend_to (last merged) r]
      else merged @ [r])"

definition replaced :: "lock_record list \<Rightarrow> lock_record \<Rightarrow> bool \<Rightarrow> lock_record list" where
  "replaced locks wanted unlock =
     foldl merge_push []
       (sort_key rc_key (concat (map (cut_out wanted) locks) @ (if unlock then [] else [wanted])))"

definition replace :: "lock_record \<Rightarrow> bool \<Rightarrow> lock_state \<Rightarrow> (i32, unit) outcome \<times> lock_state" where
  "replace wanted unlock st =
     (let merged = replaced (st_locks st) wanted unlock in
      if length merged > LOCK_CAPACITY then (Err ENOLCK, st)
      else
        let wake = (st_wake st \<or> st_locks st \<noteq> merged) in
        (Ok (), st\<lparr>st_wake := wake, st_dirty := st_dirty st \<or> wake, st_locks := merged\<rparr>))"

definition remove_waiter :: "waiter \<Rightarrow> lock_state \<Rightarrow> lock_state" where
  "remove_waiter w st =
     (let kept = filter (\<lambda>c. \<not> same_thread c w) (st_waiters st) in
      st\<lparr>st_waiters := kept, st_dirty := st_dirty st \<or> length (st_waiters st) \<noteq> length kept\<rparr>)"

text \<open>The owners of the locks that stop a request.\<close>

definition blockers :: "lock_record list \<Rightarrow> lock_record \<Rightarrow> owner list" where
  "blockers locks wanted = map rc_owner (filter (\<lambda>r. conflicts r wanted) locks)"

definition waited_for :: "lock_state \<Rightarrow> owner \<Rightarrow> owner list" where
  "waited_for st ow =
     concat (map (\<lambda>w. blockers (st_locks st) (wt_wanted w))
       (filter (\<lambda>w. rc_owner (wt_wanted w) = ow) (st_waiters st)))"

text \<open>The search pops from the end of its stack and stops at the owner of the request.\<close>

lemma set_waited_for: "set (waited_for st ow) \<subseteq> set (map rc_owner (st_locks st))"
  by (auto simp: waited_for_def blockers_def)

function deadlock_search :: "lock_state \<Rightarrow> owner \<Rightarrow> owner list \<Rightarrow> owner list \<Rightarrow> bool" where
  "deadlock_search st target pending visited =
     (if pending = [] then False
      else
        let ow = last pending; rest = butlast pending in
        if ow = target then True
        else if ow \<in> set visited then deadlock_search st target rest visited
        else deadlock_search st target (rest @ waited_for st ow) (ow # visited))"
  by pat_completeness auto
termination
proof (relation "measures [\<lambda>(st, target, pending, visited).
    card (set (map rc_owner (st_locks st)) \<union> set pending - set visited),
    \<lambda>(st, target, pending, visited). length pending]", goal_cases)
  case 1
  then show ?case by simp
next
  case (2 st target pending visited ow rest)
  then have "set pending = insert ow (set rest)" "length rest < length pending"
    by (cases pending rule: rev_cases; simp)+
  moreover have "set (map rc_owner (st_locks st)) \<union> set pending - set visited
      = set (map rc_owner (st_locks st)) \<union> set rest - set visited"
    using 2 calculation by auto
  ultimately show ?case by simp
next
  case (3 st target pending visited ow rest)
  then have "set pending = insert ow (set rest)"
    by (cases pending rule: rev_cases) auto
  then have "set (map rc_owner (st_locks st)) \<union> set (rest @ waited_for st ow) - set (ow # visited)
      \<subset> set (map rc_owner (st_locks st)) \<union> set pending - set visited"
    using 3 set_waited_for [of st ow] by auto
  then show ?case by (simp add: psubset_card_mono)
qed

declare deadlock_search.simps [simp del]

definition would_deadlock :: "lock_state \<Rightarrow> lock_record \<Rightarrow> bool" where
  "would_deadlock st wanted =
     deadlock_search st (rc_owner wanted) (blockers (st_locks st) wanted) []"

definition waiter_alive :: "lock_host \<Rightarrow> waiter \<Rightarrow> bool" where
  "waiter_alive h w =
     (if \<not> owner_alive h (rc_owner (wt_wanted w)) then False
      else case live_entry h (wt_process w) of
        None \<Rightarrow> False
      | Some e \<Rightarrow> je_pid e = wt_host w \<and> lh_thread_runs h (wt_thread w) (wt_host w))"

definition reap :: "lock_host \<Rightarrow> lock_state \<Rightarrow> lock_state" where
  "reap h st =
     (let locks = filter (\<lambda>r. owner_alive h (rc_owner r)) (st_locks st);
          gone = (length (st_locks st) \<noteq> length locks);
          waiters = filter (waiter_alive h) (st_waiters st) in
      \<lparr>st_locks = locks, st_waiters = waiters,
       st_dirty = (st_dirty st \<or> gone \<or> length (st_waiters st) \<noteq> length waiters),
       st_wake = (st_wake st \<or> gone)\<rparr>)"

section \<open>The shared section\<close>

text \<open>
  The section holds two banks and the number of the active one. A commit fills the other
  bank with four separate writes and publishes it with the last one; a process may die
  between any two of them.
\<close>

record bank =
  bk_lock_count :: u32
  bk_waiter_count :: u32
  bk_locks :: "lock_record list"
  bk_waiters :: "waiter list"

record lock_section =
  sec_active :: u32
  sec_bank0 :: bank
  sec_bank1 :: bank

definition MAGIC :: u64 where "MAGIC = 0x314B4C4345525943"
definition LOCK_SECTION_SIZE :: u64 where "LOCK_SECTION_SIZE = 5505064"

text \<open>Attaching to the header: a fresh section is zero-filled and gets its size and magic.\<close>

definition open_header :: "u64 \<Rightarrow> u64 \<Rightarrow> (i32, u64 \<times> u64) outcome" where
  "open_header magic bytes =
     (let (m, n) = (if magic = 0 then (MAGIC, LOCK_SECTION_SIZE) else (magic, bytes)) in
      if m \<noteq> MAGIC \<or> n \<noteq> LOCK_SECTION_SIZE then Err EIO else Ok (m, n))"

definition get_bank :: "lock_section \<Rightarrow> u32 \<Rightarrow> bank" where
  "get_bank sec index = (if index = 0 then sec_bank0 sec else sec_bank1 sec)"

definition put_bank :: "u32 \<Rightarrow> bank \<Rightarrow> lock_section \<Rightarrow> lock_section" where
  "put_bank index b sec = (if index = 0 then sec\<lparr>sec_bank0 := b\<rparr> else sec\<lparr>sec_bank1 := b\<rparr>)"

definition load :: "lock_section \<Rightarrow> (i32, lock_state) outcome" where
  "load sec =
     (if sec_active sec > 1 then Err EIO
      else
        let b = get_bank sec (sec_active sec);
            lock_count = unat (bk_lock_count b); waiter_count = unat (bk_waiter_count b) in
        if lock_count > LOCK_CAPACITY \<or> waiter_count > WAITER_CAPACITY then Err EIO
        else Ok \<lparr>st_locks = take lock_count (bk_locks b), st_waiters = take waiter_count (bk_waiters b),
                 st_dirty = False, st_wake = False\<rparr>)"

definition overwrite :: "'a list \<Rightarrow> 'a list \<Rightarrow> 'a list" where
  "overwrite xs arr = xs @ drop (length xs) arr"

definition commit_steps :: "u32 \<Rightarrow> lock_state \<Rightarrow> (lock_section \<Rightarrow> lock_section) list" where
  "commit_steps next st =
     (let bank_step = (\<lambda>f sec. put_bank next (f (get_bank sec next)) sec) in
      [bank_step (\<lambda>b. b\<lparr>bk_locks := overwrite (st_locks st) (bk_locks b)\<rparr>),
       bank_step (\<lambda>b. b\<lparr>bk_waiters := overwrite (st_waiters st) (bk_waiters b)\<rparr>),
       bank_step (\<lambda>b. b\<lparr>bk_lock_count := word_of_nat (length (st_locks st))\<rparr>),
       bank_step (\<lambda>b. b\<lparr>bk_waiter_count := word_of_nat (length (st_waiters st))\<rparr>),
       (\<lambda>sec. sec\<lparr>sec_active := next\<rparr>)])"

definition commit :: "lock_state \<Rightarrow> lock_section \<Rightarrow> (i32, unit) outcome \<times> lock_section" where
  "commit st sec =
     (if length (st_locks st) > LOCK_CAPACITY \<or> length (st_waiters st) > WAITER_CAPACITY
      then (Err ENOLCK, sec)
      else (Ok (), fold (\<lambda>f. f) (commit_steps (1 - sec_active sec) st) sec))"

type_synonym 'a lock_body = "lock_state \<Rightarrow> (i32, 'a) outcome \<times> lock_state"

text \<open>A transaction returns its result, the section and the waiters it signals.\<close>

definition lock_transaction ::
    "lock_host \<Rightarrow> 'a lock_body \<Rightarrow> lock_section \<Rightarrow> (i32, 'a) outcome \<times> lock_section \<times> waiter list" where
  "lock_transaction h body sec =
     (case load sec of
        Ok st0 \<Rightarrow>
          (case body (reap h st0) of
             (Panic, _) \<Rightarrow> (Panic, sec, [])
           | (result, st) \<Rightarrow>
               (if st_dirty st then
                  (case commit st sec of
                     (Ok _, sec') \<Rightarrow> (result, sec', if st_wake st then st_waiters st else [])
                   | (Err e, _) \<Rightarrow> (Err e, sec, [])
                   | (Panic, _) \<Rightarrow> (Panic, sec, []))
                else (result, sec, if st_wake st then st_waiters st else [])))
      | Err e \<Rightarrow> (Err e, sec, [])
      | Panic \<Rightarrow> (Panic, sec, []))"

section \<open>Queries and requests\<close>

record lock_conflict =
  cf_kind :: lock_kind
  cf_range :: lock_range
  cf_pid :: i32

definition make_wanted :: "inode \<Rightarrow> owner \<Rightarrow> lock_range \<Rightarrow> lock_kind \<Rightarrow> lock_record" where
  "make_wanted ino ow rng kind =
     \<lparr>rc_inode = ino, rc_owner = ow, rc_range = rng, rc_kind = kind_raw kind, rc_reserved = 0\<rparr>"

text \<open>\<open>current\<close> is the comparison of the descriptor's generation with the one first seen.\<close>

definition query_body :: "(i32, bool) outcome \<Rightarrow> lock_record \<Rightarrow> lock_conflict option lock_body" where
  "query_body current wanted st =
     (and_then current (\<lambda>same.
        if \<not> same then Err EBADF
        else Ok (map_option (\<lambda>r.
          \<lparr>cf_kind = (if rc_kind r = 0 then Read else Write), cf_range = rc_range r,
           cf_pid = (if is_description (rc_owner r) then - 1 else ow_pid (rc_owner r))\<rparr>)
          (conflict st wanted))), st)"

definition query_owned ::
    "lock_host \<Rightarrow> (i32, bool) outcome \<Rightarrow> inode \<Rightarrow> owner \<Rightarrow> lock_range \<Rightarrow> lock_kind \<Rightarrow> lock_section
      \<Rightarrow> (i32, lock_conflict option) outcome \<times> lock_section \<times> waiter list" where
  "query_owned h current ino ow rng kind sec =
     (case range_new (rg_start rng) (rg_end rng) of
        Ok _ \<Rightarrow> lock_transaction h (query_body current (make_wanted ino ow rng kind)) sec
      | Err e \<Rightarrow> (Err e, sec, [])
      | Panic \<Rightarrow> (Panic, sec, []))"

text \<open>
  One iteration of the loop of \<open>set_owned\<close>. \<open>event\<close> says whether the wait handle exists
  already and \<open>create\<close> is what creating it answers; the result carries the owner to wait
  for, if any, and whether the handle exists now.
\<close>

record set_request =
  sq_wanted :: lock_record
  sq_unlock :: bool
  sq_wait :: bool
  sq_ofd :: bool
  sq_waiter :: waiter

definition enqueue_waiter :: "waiter \<Rightarrow> owner \<Rightarrow> (owner option \<times> bool) lock_body" where
  "enqueue_waiter w blocker st =
     (if \<not> (\<exists>c \<in> set (st_waiters st). same_thread c w) then
        if length (st_waiters st) = WAITER_CAPACITY then (Err ENOLCK, st)
        else (Ok (Some blocker, True), st\<lparr>st_waiters := st_waiters st @ [w], st_dirty := True\<rparr>)
      else (Ok (Some blocker, True), st))"

definition set_attempt ::
    "set_request \<Rightarrow> bool \<Rightarrow> (i32, unit) outcome \<Rightarrow> bool \<Rightarrow> (owner option \<times> bool) lock_body" where
  "set_attempt q current create event st =
     (if \<not> current then (Err EBADF, remove_waiter (sq_waiter q) st)
      else case (if sq_unlock q then None else conflict st (sq_wanted q)) of
        Some blocker \<Rightarrow>
          if \<not> sq_wait q then (Err EAGAIN, st)
          else if \<not> sq_ofd q \<and> would_deadlock st (sq_wanted q)
          then (Err EDEADLK, remove_waiter (sq_waiter q) st)
          else
            (case (if event then Ok () else create) of
               Ok _ \<Rightarrow> enqueue_waiter (sq_waiter q) (rc_owner blocker) st
             | Err e \<Rightarrow> (Err e, st)
             | Panic \<Rightarrow> (Panic, st))
      | None \<Rightarrow>
          (case replace (sq_wanted q) (sq_unlock q) (remove_waiter (sq_waiter q) st) of
             (Ok _, st') \<Rightarrow> (Ok (None, event), st')
           | (Err e, st') \<Rightarrow> (Err e, st')
           | (Panic, st') \<Rightarrow> (Panic, st')))"

text \<open>The wait for a change, from what the host answers on the way.\<close>

record wait_env =
  we_host :: lock_host
  we_open :: "(i32, unit) outcome"
  we_gone_after :: bool
  we_no_interrupt :: bool
  we_pending :: bool
  we_value :: u32
  we_pending_after :: bool

definition wait_objects :: "wait_env \<Rightarrow> (i32, unit) outcome" where
  "wait_objects env =
     (if we_no_interrupt env then Err EIO
      else if we_pending env then Err EINTR
      else if we_value env = 0 \<or> we_value env = 258 \<or> we_value env = 2 then Ok ()
      else if we_value env = 1 then (if we_pending_after env then Err EINTR else Ok ())
      else Err EIO)"

definition wait_for_change :: "wait_env \<Rightarrow> owner \<Rightarrow> (i32, unit) outcome" where
  "wait_for_change env blocker =
     (if is_description blocker then
        (if \<not> owner_alive (we_host env) blocker then Ok () else wait_objects env)
      else if live_entry (we_host env) blocker = None then Ok ()
      else case we_open env of
        Ok _ \<Rightarrow> wait_objects env
      | Err e \<Rightarrow> if we_gone_after env then Ok () else Err e
      | Panic \<Rightarrow> Panic)"

text \<open>
  The loop of \<open>set_owned\<close>, one round per element: what the host answers in the round, and
  what the other processes do to the section while the caller waits. Running out of
  rounds is a caller that still waits.
\<close>

record set_round =
  sr_host :: lock_host
  sr_current :: bool
  sr_create :: "(i32, unit) outcome"
  sr_wait :: wait_env
  sr_others :: "lock_section \<Rightarrow> lock_section"
  sr_host_after :: lock_host

definition cancel_body :: "waiter \<Rightarrow> unit lock_body" where
  "cancel_body w st = (Ok (), remove_waiter w st)"

fun set_loop ::
    "set_request \<Rightarrow> set_round list \<Rightarrow> bool \<Rightarrow> lock_section \<Rightarrow> ((i32, unit) outcome \<times> lock_section) option" where
  "set_loop q [] event sec = None"
| "set_loop q (r # rounds) event sec =
     (case lock_transaction (sr_host r) (set_attempt q (sr_current r) (sr_create r) event) sec of
        (Ok (None, _), sec1, _) \<Rightarrow> Some (Ok (), sec1)
      | (Ok (Some blocker, event'), sec1, _) \<Rightarrow>
          if \<not> event' then Some (Err EIO, sec1)
          else
            let sec2 = sr_others r sec1 in
            (case wait_for_change (sr_wait r) blocker of
               Ok _ \<Rightarrow> set_loop q rounds event' sec2
             | Err e \<Rightarrow>
                 (case lock_transaction (sr_host_after r) (cancel_body (sq_waiter q)) sec2 of
                    (Ok _, sec3, _) \<Rightarrow> Some (Err e, sec3)
                  | (Err e', sec3, _) \<Rightarrow> Some (Err e', sec3)
                  | (Panic, sec3, _) \<Rightarrow> Some (Panic, sec3))
             | Panic \<Rightarrow> Some (Panic, sec2))
      | (Err e, sec1, _) \<Rightarrow> Some (Err e, sec1)
      | (Panic, sec1, _) \<Rightarrow> Some (Panic, sec1))"

definition set_owned ::
    "inode \<Rightarrow> owner \<Rightarrow> lock_range \<Rightarrow> lock_kind option \<Rightarrow> bool \<Rightarrow> bool \<Rightarrow> owner \<Rightarrow> u32 \<Rightarrow> u32
      \<Rightarrow> set_round list \<Rightarrow> lock_section \<Rightarrow> ((i32, unit) outcome \<times> lock_section) option" where
  "set_owned ino ow rng kind wait ofd process host thread rounds sec =
     (case range_new (rg_start rng) (rg_end rng) of
        Ok _ \<Rightarrow>
          (let wanted = make_wanted ino ow rng (case kind of None \<Rightarrow> Read | Some k \<Rightarrow> k) in
           set_loop
             \<lparr>sq_wanted = wanted, sq_unlock = (kind = None), sq_wait = wait, sq_ofd = ofd,
              sq_waiter = \<lparr>wt_wanted = wanted, wt_process = process, wt_host = host, wt_thread = thread\<rparr>\<rparr>
             rounds False sec)
      | Err e \<Rightarrow> Some (Err e, sec)
      | Panic \<Rightarrow> Some (Panic, sec))"

section \<open>Closing descriptors and exec\<close>

definition release_body :: "owner \<Rightarrow> inode list \<Rightarrow> unit lock_body" where
  "release_body ow inodes st =
     (let kept = filter (\<lambda>r. rc_owner r \<noteq> ow \<or> rc_inode r \<notin> set inodes) (st_locks st);
          gone = (length (st_locks st) \<noteq> length kept) in
      (Ok (), st\<lparr>st_locks := kept, st_dirty := st_dirty st \<or> gone, st_wake := st_wake st \<or> gone\<rparr>))"

definition release_inodes ::
    "lock_host \<Rightarrow> owner \<Rightarrow> inode list \<Rightarrow> lock_section \<Rightarrow> (i32, unit) outcome \<times> lock_section \<times> waiter list" where
  "release_inodes h ow inodes = lock_transaction h (release_body ow inodes)"

datatype file_kind = File | Directory | TmpfsFile | TmpfsDirectory | OtherFile

text \<open>A descriptor with what the host says of the file behind it.\<close>

record lock_fd =
  fe_path_only :: bool
  fe_cloexec :: bool
  fe_kind :: file_kind
  fe_raw :: u64
  fe_tmpfs :: "(i32, u64 \<times> u64) outcome"
  fe_info :: "(i32, u64 \<times> bytes) outcome"

definition inode_from_entry :: "lock_fd \<Rightarrow> (i32, inode) outcome" where
  "inode_from_entry e =
     (if \<not> fe_path_only e \<and> (fe_kind e = TmpfsFile \<or> fe_kind e = TmpfsDirectory) then
        and_then (fe_tmpfs e) (\<lambda>(volume, node).
          Ok \<lparr>in_backing = 1, in_volume = volume, in_id = u64_le node @ replicate 8 0\<rparr>)
      else if fe_path_only e \<or> \<not> (fe_kind e = File \<or> fe_kind e = Directory) \<or> fe_raw e = 0
      then Err EBADF
      else and_then (fe_info e) (\<lambda>(volume, ident).
        Ok \<lparr>in_backing = 0, in_volume = volume, in_id = ident\<rparr>))"

definition lockable_fd :: "lock_fd \<Rightarrow> bool" where
  "lockable_fd e \<longleftrightarrow> fe_kind e \<noteq> OtherFile \<and> \<not> fe_path_only e"

text \<open>\<open>cached\<close> says whether the section is mapped; \<open>self_owner\<close> is the caller's identity, if it has one.\<close>

definition descriptor_closed ::
    "lock_host \<Rightarrow> bool \<Rightarrow> owner option \<Rightarrow> lock_fd \<Rightarrow> lock_section
      \<Rightarrow> (i32, unit) outcome \<times> lock_section \<times> waiter list" where
  "descriptor_closed h cached self_owner e sec =
     (if \<not> cached \<or> \<not> lockable_fd e then (Ok (), sec, [])
      else case self_owner of
        None \<Rightarrow> (Ok (), sec, [])
      | Some ow \<Rightarrow>
          (case inode_from_entry e of
             Ok ino \<Rightarrow> release_inodes h ow [ino] sec
           | Err err \<Rightarrow> (Err err, sec, [])
           | Panic \<Rightarrow> (Panic, sec, [])))"

definition inode_key :: "inode \<Rightarrow> u64 \<times> u64 \<times> bytes" where
  "inode_key i = (in_backing i, in_volume i, in_id i)"

definition inode_encode :: "inode \<Rightarrow> bytes" where
  "inode_encode i = u64_le (in_backing i) @ u64_le (in_volume i) @ in_id i"

definition inode_decode :: "bytes \<Rightarrow> inode" where
  "inode_decode bs =
     \<lparr>in_backing = word_of_nat (le_nat (take 8 bs)), in_volume = word_of_nat (le_nat (take 8 (drop 8 bs))),
      in_id = drop 16 bs\<rparr>"

fun closed_inodes :: "lock_fd list \<Rightarrow> (i32, inode list) outcome" where
  "closed_inodes [] = Ok []"
| "closed_inodes (e # rest) =
     (if fe_cloexec e \<and> lockable_fd e
      then and_then (inode_from_entry e) (\<lambda>i. and_then (closed_inodes rest) (\<lambda>is. Ok (i # is)))
      else closed_inodes rest)"

text \<open>The ordered set of inodes, in the order of the derived comparison.\<close>

definition serialize_exec_closed :: "lock_fd list \<Rightarrow> (i32, bytes) outcome" where
  "serialize_exec_closed entries =
     and_then (closed_inodes entries) (\<lambda>is.
       Ok (concat (map inode_encode (sort_key inode_key (remdups is)))))"

definition restore ::
    "lock_host \<Rightarrow> owner option \<Rightarrow> bytes \<Rightarrow> lock_section \<Rightarrow> bool \<times> lock_section \<times> waiter list" where
  "restore h self_owner payload sec =
     (if length payload mod 32 \<noteq> 0 then (False, sec, [])
      else case self_owner of
        None \<Rightarrow> (False, sec, [])
      | Some ow \<Rightarrow>
          (case release_inodes h ow (map inode_decode (chunks_exact 32 payload)) sec of
             (r, sec', woken) \<Rightarrow> (r = Ok (), sec', woken)))"

end
