(* ===== verification/Lock_Refine.thy ===== *)
theory Lock_Refine
  imports Record_Lock
begin

text \<open>
  The meaning of a lock list is the set of (inode, owner, byte, kind) it covers. Replacing a
  range changes exactly the bytes of that range for that owner, and keeps the list
  sorted, disjoint and merged. No two owners ever hold conflicting locks.
\<close>

section \<open>Ranges as sets of bytes\<close>

definition rng :: "lock_record \<Rightarrow> nat set" where
  "rng r = {unat (rg_start (rc_range r))..unat (rg_end (rc_range r))}"

definition valid_record :: "lock_record \<Rightarrow> bool" where
  "valid_record r \<longleftrightarrow>
     rg_start (rc_range r) \<le> rg_end (rc_range r) \<and> rg_end (rc_range r) \<le> 0x7FFFFFFFFFFFFFFF"

lemma overlaps_iff:
  "valid_record r \<Longrightarrow> valid_record s \<Longrightarrow> overlaps (rc_range r) (rc_range s) \<longleftrightarrow> rng r \<inter> rng s \<noteq> {}"
  unfolding overlaps_def rng_def valid_record_def by (auto simp: word_le_nat_alt)

lemma unat_pred: "v < w \<Longrightarrow> unat (w - 1) = unat w - 1" for v w :: u64
  by (rule unat_minus_one) (auto simp: word_less_nat_alt)

lemma unat_succ: "v < w \<Longrightarrow> unat (v + 1) = unat v + 1" for v w :: u64
  using unat_bound [of w] by (simp add: unat_word_ariths word_less_nat_alt)

lemma unat_end_plus_one: "valid_record r \<Longrightarrow> unat (rg_end (rc_range r) + 1) = unat (rg_end (rc_range r)) + 1"
  by (rule unat_succ [of _ "- 1"]) (auto simp: valid_record_def intro: le_less_trans)

definition cover :: "lock_record \<Rightarrow> (inode \<times> owner \<times> nat \<times> u32) set" where
  "cover r = {(rc_inode r, rc_owner r, b, rc_kind r) | b. b \<in> rng r}"

definition covered :: "lock_record list \<Rightarrow> (inode \<times> owner \<times> nat \<times> u32) set" where
  "covered locks = (\<Union>r \<in> set locks. cover r)"

definition apart :: "lock_record \<Rightarrow> lock_record \<Rightarrow> bool" where
  "apart r s \<longleftrightarrow> rc_inode r = rc_inode s \<longrightarrow> rc_owner r = rc_owner s \<longrightarrow> rng r \<inter> rng s = {}"

lemma apart_sym: "apart r s \<Longrightarrow> apart s r" by (auto simp: apart_def)

text \<open>The order of a stored list: by key, disjoint, and with a gap between ranges of one kind.\<close>

definition before :: "lock_record \<Rightarrow> lock_record \<Rightarrow> bool" where
  "before r s \<longleftrightarrow> rc_key r < rc_key s
     \<and> (rc_inode r = rc_inode s \<and> rc_owner r = rc_owner s \<longrightarrow>
          rg_end (rc_range r) < rg_start (rc_range s))"

definition gapped :: "lock_record \<Rightarrow> lock_record \<Rightarrow> bool" where
  "gapped r s \<longleftrightarrow> before r s
     \<and> (rc_inode r = rc_inode s \<and> rc_owner r = rc_owner s \<and> rc_kind r = rc_kind s \<longrightarrow>
          unat (rg_end (rc_range r)) + 1 < unat (rg_start (rc_range s)))"

definition locks_wf :: "lock_record list \<Rightarrow> bool" where
  "locks_wf locks \<longleftrightarrow> (\<forall>r \<in> set locks. valid_record r) \<and> sorted_wrt gapped locks"

section \<open>Cutting\<close>

lemma cut_out_props:
  assumes v: "valid_record wanted" "valid_record old" and s: "s \<in> set (cut_out wanted old)"
  shows "valid_record s" "rng s \<subseteq> rng old" "rc_inode s = rc_inode old" "rc_owner s = rc_owner old"
    "rc_kind s = rc_kind old" "apart s wanted"
proof -
  have a: "rg_start (rc_range old) < rg_start (rc_range wanted) \<Longrightarrow>
      unat (rg_start (rc_range wanted) - 1) = unat (rg_start (rc_range wanted)) - 1"
    by (rule unat_pred)
  have b: "rg_end (rc_range wanted) < rg_end (rc_range old) \<Longrightarrow>
      unat (rg_end (rc_range wanted) + 1) = unat (rg_end (rc_range wanted)) + 1"
    by (rule unat_succ)
  show "rc_inode s = rc_inode old" "rc_owner s = rc_owner old" "rc_kind s = rc_kind old"
    using s by (auto simp: cut_out_def split: if_splits)
  show "valid_record s" "rng s \<subseteq> rng old"
    using s v by (auto simp: cut_out_def valid_record_def rng_def word_le_nat_alt word_less_nat_alt a b
        overlaps_def split: if_splits)
  show "apart s wanted"
    using s v overlaps_iff [of old wanted]
    by (auto simp: cut_out_def apart_def valid_record_def rng_def word_le_nat_alt word_less_nat_alt a b split: if_splits)
qed

lemma cut_out_apart:
  assumes "valid_record wanted" "valid_record old"
  shows "sorted_wrt apart (cut_out wanted old)"
proof -
  have a: "rg_start (rc_range old) < rg_start (rc_range wanted) \<Longrightarrow>
      unat (rg_start (rc_range wanted) - 1) = unat (rg_start (rc_range wanted)) - 1"
    by (rule unat_pred)
  have b: "rg_end (rc_range wanted) < rg_end (rc_range old) \<Longrightarrow>
      unat (rg_end (rc_range wanted) + 1) = unat (rg_end (rc_range wanted)) + 1"
    by (rule unat_succ)
  show ?thesis using assms
    by (auto simp: cut_out_def apart_def valid_record_def rng_def word_le_nat_alt word_less_nat_alt a b split: if_splits)
qed


definition hole :: "lock_record \<Rightarrow> (inode \<times> owner \<times> nat \<times> u32) set" where
  "hole wanted = {(rc_inode wanted, rc_owner wanted, b, k) | b k. b \<in> rng wanted}"

lemma covered_append [simp]: "covered (xs @ ys) = covered xs \<union> covered ys"
  by (auto simp: covered_def)

lemma covered_Nil [simp]: "covered [] = {}" by (simp add: covered_def)

lemma covered_Cons [simp]: "covered (r # rs) = cover r \<union> covered rs" by (simp add: covered_def)

lemma covered_cut:
  assumes v: "valid_record wanted" "valid_record old"
  shows "covered (cut_out wanted old) = cover old - hole wanted"
proof -
  have a: "rg_start (rc_range old) < rg_start (rc_range wanted) \<Longrightarrow>
      unat (rg_start (rc_range wanted) - 1) = unat (rg_start (rc_range wanted)) - 1"
    by (rule unat_pred)
  have b: "rg_end (rc_range wanted) < rg_end (rc_range old) \<Longrightarrow>
      unat (rg_end (rc_range wanted) + 1) = unat (rg_end (rc_range wanted)) + 1"
    by (rule unat_succ)
  show ?thesis
  proof (cases "rc_inode old \<noteq> rc_inode wanted \<or> rc_owner old \<noteq> rc_owner wanted \<or> \<not> overlaps (rc_range old) (rc_range wanted)")
    case True
    then show ?thesis using overlaps_iff [OF v(2,1)] by (auto simp: cut_out_def cover_def hole_def)
  next
    case False
    then show ?thesis using v
      by (auto simp: cut_out_def cover_def hole_def rng_def valid_record_def overlaps_def
          word_le_nat_alt word_less_nat_alt a b)
  qed
qed

lemma covered_cut_all:
  assumes "valid_record wanted" "\<forall>r \<in> set locks. valid_record r"
  shows "covered (concat (map (cut_out wanted) locks)) = covered locks - hole wanted"
  using assms(2) by (induction locks) (auto simp: covered_cut [OF assms(1)])

section \<open>Sorting\<close>

lemma lex_between:
  "(a, b, c) \<le> (a', b', c') \<Longrightarrow> (a', b', c') \<le> (a, b, c'') \<Longrightarrow> a' = a \<and> b' = b"
  for a a' :: "'a::linorder" and b b' :: "'b::linorder" and c c' c'' :: "'c::linorder"
  by (auto simp: less_eq_prod_def)

lemma inode_eqI: "(in_backing i, in_volume i, in_id i) = (in_backing j, in_volume j, in_id j) \<Longrightarrow> i = j" for i j :: inode
  by simp

lemma owner_eqI: "(ow_pid i, ow_namespace i, ow_born i) = (ow_pid j, ow_namespace j, ow_born j) \<Longrightarrow> i = j" for i j :: owner
  by simp

lemma rc_key_same: "rc_key r = rc_key s \<Longrightarrow> rc_inode r = rc_inode s \<and> rc_owner r = rc_owner s"
  unfolding rc_key_def by (auto intro: inode_eqI owner_eqI)

lemma rc_key_between:
  assumes "rc_key r \<le> rc_key m" "rc_key m \<le> rc_key s" "rc_inode r = rc_inode s" "rc_owner r = rc_owner s"
  shows "rc_inode m = rc_inode r \<and> rc_owner m = rc_owner r"
proof -
  from lex_between [OF assms(1) [unfolded rc_key_def] assms(2) [unfolded rc_key_def assms(3,4) [symmetric]]]
  show ?thesis using inode_eqI [of "rc_inode m" "rc_inode r"] owner_eqI [of "rc_owner m" "rc_owner r"] by blast
qed

lemma rng_nonempty: "valid_record r \<Longrightarrow> rng r \<noteq> {}"
  by (auto simp: valid_record_def rng_def word_le_nat_alt)

lemma disj_before:
  assumes v: "valid_record r" "valid_record s" and d: "apart r s" and k: "rc_key r \<le> rc_key s"
  shows "before r s"
proof (cases "rc_inode r = rc_inode s \<and> rc_owner r = rc_owner s")
  case True
  with k have "rg_start (rc_range r) \<le> rg_start (rc_range s)" by (simp add: rc_key_def less_eq_prod_def)
  with d v True have "rg_end (rc_range r) < rg_start (rc_range s)"
    by (auto simp: apart_def rng_def valid_record_def word_le_nat_alt word_less_nat_alt)
  moreover from this v have "rg_start (rc_range r) < rg_start (rc_range s)"
    by (auto simp: valid_record_def)
  ultimately show ?thesis using True by (simp add: before_def rc_key_def less_prod_def)
next
  case False
  then have "rc_key r \<noteq> rc_key s" using rc_key_same by blast
  with k False show ?thesis by (auto simp: before_def)
qed

lemma sort_before:
  assumes v: "\<forall>r \<in> set L. valid_record r" and d: "sorted_wrt apart L"
  shows "sorted_wrt before (sort_key rc_key L)"
proof -
  have refl: "\<not> apart r r" if "r \<in> set L" for r
    using v that rng_nonempty by (auto simp: apart_def)
  have "distinct L" using d refl by (induction L) auto
  have pw: "apart r s" if "r \<in> set L" "s \<in> set L" "r \<noteq> s" for r s
    using d that by (induction L) (auto dest: apart_sym)
  let ?S = "sort_key rc_key L"
  have "distinct ?S" "set ?S = set L" "sorted (map rc_key ?S)" using \<open>distinct L\<close> by simp_all
  then show ?thesis
    unfolding sorted_wrt_iff_nth_less
    by (auto intro!: disj_before pw simp: v nth_eq_iff_index_eq sorted_iff_nth_mono simp del: set_sort)
      (metis nth_mem length_sort less_trans set_sort v)+
qed

section \<open>Merging\<close>

fun merge_from :: "lock_record \<Rightarrow> lock_record list \<Rightarrow> lock_record list" where
  "merge_from l [] = [l]"
| "merge_from l (r # rs) =
     (if mergeable l r then merge_from (extend_to l r) rs else l # merge_from r rs)"

lemma merge_push_from: "foldl merge_push (xs @ [l]) rs = xs @ merge_from l rs"
proof (induction rs arbitrary: xs l)
  case (Cons r rs)
  show ?case
  proof (cases "mergeable l r")
    case True
    then show ?thesis using Cons [of xs "extend_to l r"] by (simp add: merge_push_def)
  next
    case False
    then show ?thesis using Cons [of "xs @ [l]" r] by (simp add: merge_push_def)
  qed
qed simp

lemma merge_push_all: "foldl merge_push [] (r # rs) = merge_from r rs"
  using merge_push_from [of "[]" r rs] by (simp add: merge_push_def)

lemma extend_to_simps [simp]:
  "rc_inode (extend_to l r) = rc_inode l" "rc_owner (extend_to l r) = rc_owner l" "rc_kind (extend_to l r) = rc_kind l"
  "rg_start (rc_range (extend_to l r)) = rg_start (rc_range l)" "rc_key (extend_to l r) = rc_key l"
  "rg_end (rc_range (extend_to l r)) = max (rg_end (rc_range l)) (rg_end (rc_range r))"
  by (simp_all add: extend_to_def rc_key_def)

lemma valid_extend: "valid_record l \<Longrightarrow> valid_record r \<Longrightarrow> valid_record (extend_to l r)"
  by (auto simp: valid_record_def max_def)

lemma cover_extend:
  assumes "valid_record l" "valid_record r" "before l r" "mergeable l r"
  shows "cover (extend_to l r) = cover l \<union> cover r"
proof -
  have "unat (rg_start (rc_range r)) = unat (rg_end (rc_range l)) + 1"
    using assms unat_end_plus_one [OF assms(1)]
    by (auto simp: before_def mergeable_def word_le_nat_alt word_less_nat_alt)
  then have "rng (extend_to l r) = rng l \<union> rng r"
    using assms(1,2) by (auto simp: rng_def valid_record_def word_le_nat_alt max_def)
  with assms(4) show ?thesis by (auto simp: cover_def mergeable_def)
qed

lemma before_extend:
  assumes "mergeable l r" "before l y" "before r y"
  shows "before (extend_to l r) y"
  using assms by (auto simp: before_def mergeable_def)

text \<open>Merging keeps starts, kinds and holders: each merged range begins with one of the originals.\<close>

lemma merge_from_origin:
  "x \<in> set (merge_from l rs) \<Longrightarrow>
     \<exists>y \<in> set (l # rs). rc_key x = rc_key y \<and> rc_inode x = rc_inode y \<and> rc_owner x = rc_owner y
       \<and> rc_kind x = rc_kind y \<and> rg_start (rc_range x) = rg_start (rc_range y)"
proof (induction l rs rule: merge_from.induct)
  case (2 l r rs)
  show ?case
  proof (cases "mergeable l r")
    case True
    with 2 show ?thesis by auto
  next
    case False
    with 2 show ?thesis by auto
  qed
qed simp

lemma gapped_head:
  assumes v: "\<forall>x \<in> set (l # r # rs). valid_record x" and s: "sorted_wrt before (l # r # rs)"
    and m: "\<not> mergeable l r" and y: "y \<in> set (r # rs)"
  shows "gapped l y"
proof -
  have b: "before l y" using s y by auto
  moreover have "unat (rg_end (rc_range l)) + 1 < unat (rg_start (rc_range y))"
    if same: "rc_inode l = rc_inode y" "rc_owner l = rc_owner y" "rc_kind l = rc_kind y"
  proof (cases "y = r")
    case True
    with m same have "rg_end (rc_range l) + 1 < rg_start (rc_range r)" by (auto simp: mergeable_def)
    with True unat_end_plus_one [of l] v show ?thesis by (simp add: word_less_nat_alt)
  next
    case False
    with s y have lr: "before l r" and ry: "before r y" by auto
    then have "rc_key l \<le> rc_key r" "rc_key r \<le> rc_key y" by (auto simp: before_def)
    with rc_key_between [of l r y] same have "rc_inode r = rc_inode l \<and> rc_owner r = rc_owner l" by simp
    with lr ry same v show ?thesis by (auto simp: before_def valid_record_def word_less_nat_alt word_le_nat_alt)
  qed
  ultimately show ?thesis by (simp add: gapped_def)
qed

lemma gapped_cong:
  "gapped l y \<Longrightarrow> rc_key x = rc_key y \<Longrightarrow> rc_inode x = rc_inode y \<Longrightarrow> rc_owner x = rc_owner y \<Longrightarrow>
     rc_kind x = rc_kind y \<Longrightarrow> rg_start (rc_range x) = rg_start (rc_range y) \<Longrightarrow> gapped l x"
  by (simp add: gapped_def before_def)

lemma merge_from_wf:
  "\<forall>x \<in> set (l # rs). valid_record x \<Longrightarrow> sorted_wrt before (l # rs) \<Longrightarrow>
     locks_wf (merge_from l rs) \<and> covered (merge_from l rs) = covered (l # rs)"
proof (induction l rs rule: merge_from.induct)
  case (1 l)
  then show ?case by (simp add: locks_wf_def)
next
  case (2 l r rs)
  show ?case
  proof (cases "mergeable l r")
    case True
    have "sorted_wrt before (extend_to l r # rs)"
      using 2(4) before_extend [OF True] by auto
    moreover have "cover (extend_to l r) = cover l \<union> cover r"
      using 2(3,4) True by (intro cover_extend) auto
    ultimately show ?thesis using 2(1) [OF True] 2(3) True by (auto simp: valid_extend)
  next
    case False
    have "locks_wf (merge_from r rs) \<and> covered (merge_from r rs) = covered (r # rs)"
      using 2(2) [OF False] 2(3,4) by simp
    moreover have "gapped l x" if "x \<in> set (merge_from r rs)" for x
    proof -
      from merge_from_origin [OF that] obtain y where y: "y \<in> set (r # rs)" "rc_key x = rc_key y" "rc_inode x = rc_inode y"
        "rc_owner x = rc_owner y" "rc_kind x = rc_kind y" "rg_start (rc_range x) = rg_start (rc_range y)" by blast
      from gapped_cong [OF gapped_head [OF 2(3,4) False y(1)] y(2-6)] show ?thesis .
    qed
    ultimately show ?thesis using False 2(3) by (simp add: locks_wf_def)
  qed
qed

section \<open>Replacing\<close>

lemma gapped_disj: "gapped r s \<Longrightarrow> apart r s"
  by (auto simp: gapped_def before_def apart_def rng_def word_less_nat_alt)

lemma cut_all_apart:
  assumes w: "valid_record wanted"
  shows "\<forall>r \<in> set locks. valid_record r \<Longrightarrow> sorted_wrt apart locks \<Longrightarrow>
    sorted_wrt apart (concat (map (cut_out wanted) locks))"
proof (induction locks)
  case (Cons r rs)
  have one: "sorted_wrt apart (cut_out wanted r)"
    using cut_out_apart [OF w] Cons.prems(1) by simp
  have "apart x y" if "x \<in> set (cut_out wanted r)" "s \<in> set rs" "y \<in> set (cut_out wanted s)" for x y s
  proof -
    have v: "valid_record r" "valid_record s" and rs: "apart r s" using that Cons.prems by auto
    note x = cut_out_props(2-4) [OF w v(1) that(1)] and y = cut_out_props(2-4) [OF w v(2) that(3)]
    from rs show ?thesis unfolding apart_def x(2,3) y(2,3) using x(1) y(1) by blast
  qed
  with one Cons show ?case by (auto simp: sorted_wrt_append)
qed simp

lemma replaced_correct:
  assumes wf: "locks_wf locks" and w: "valid_record wanted"
  shows "locks_wf (replaced locks wanted unlock)"
    and "covered (replaced locks wanted unlock) =
      (covered locks - hole wanted) \<union> (if unlock then {} else cover wanted)"
proof -
  let ?L = "concat (map (cut_out wanted) locks) @ (if unlock then [] else [wanted])"
  have v: "\<forall>r \<in> set locks. valid_record r" and "sorted_wrt apart locks"
    using wf gapped_disj by (auto simp: locks_wf_def intro: sorted_wrt_mono_rel)
  then have d: "sorted_wrt apart (concat (map (cut_out wanted) locks))" using cut_all_apart [OF w] by blast
  have "apart x wanted" if "x \<in> set (concat (map (cut_out wanted) locks))" for x
    using that cut_out_props(6) [OF w] v by auto
  with d have L: "sorted_wrt apart ?L" by (auto simp: sorted_wrt_append)
  have vL: "\<forall>r \<in> set ?L. valid_record r" using v w cut_out_props(1) [OF w] by auto
  have cov: "covered ?L = (covered locks - hole wanted) \<union> (if unlock then {} else cover wanted)"
    using covered_cut_all [OF w v] by simp
  have perm: "covered (sort_key rc_key ?L) = covered ?L" by (simp only: covered_def set_sort)
  have vS: "\<forall>r \<in> set (sort_key rc_key ?L). valid_record r" using vL by (simp only: set_sort)
  have "locks_wf (replaced locks wanted unlock) \<and> covered (replaced locks wanted unlock) = covered (sort_key rc_key ?L)"
  proof (cases "sort_key rc_key ?L")
    case Nil
    then show ?thesis by (simp add: replaced_def locks_wf_def)
  next
    case (Cons r rs)
    then show ?thesis using merge_from_wf [of r rs] sort_before [OF vL L] vS
      by (simp add: replaced_def merge_push_all del: foldl_Cons)
  qed
  with perm cov show "locks_wf (replaced locks wanted unlock)"
    and "covered (replaced locks wanted unlock) =
      (covered locks - hole wanted) \<union> (if unlock then {} else cover wanted)" by simp_all
qed

end
