(* ===== verification/Lock_Inv.thy ===== *)
theory Lock_Inv
  imports Lock_Refine
begin

text \<open>
  The invariant of the lock state, the deadlock search against reachability in the
  waits-for graph, and the atomicity of the two-bank commit under a death of the
  writing process.
\<close>

section \<open>Exclusion\<close>

definition exclusive :: "(inode \<times> owner \<times> nat \<times> u32) set \<Rightarrow> bool" where
  "exclusive C \<longleftrightarrow>
     (\<forall>i p q b k l. (i, p, b, k) \<in> C \<longrightarrow> (i, q, b, l) \<in> C \<longrightarrow> p \<noteq> q \<longrightarrow> k \<noteq> kind_raw Write)"

lemma exclusive_mono: "exclusive C \<Longrightarrow> D \<subseteq> C \<Longrightarrow> exclusive D"
  unfolding exclusive_def by blast

lemma coveredE:
  assumes "(i, p, b, k) \<in> covered locks"
  obtains r where "r \<in> set locks" "rc_inode r = i" "rc_owner r = p" "b \<in> rng r" "rc_kind r = k"
  using assms by (auto simp: covered_def cover_def)

lemma covered_filter: "covered (filter P locks) \<subseteq> covered locks"
  by (auto simp: covered_def)

lemma no_conflict_exclusive:
  assumes ex: "exclusive (covered locks)" and v: "\<forall>r \<in> set locks. valid_record r" "valid_record wanted"
    and none: "\<forall>r \<in> set locks. \<not> conflicts r wanted"
  shows "exclusive ((covered locks - hole wanted) \<union> cover wanted)"
proof -
  have clash: "k \<noteq> kind_raw Write \<and> rc_kind wanted \<noteq> kind_raw Write"
    if c: "(rc_inode wanted, p, b, k) \<in> covered locks" and p: "p \<noteq> rc_owner wanted" and b: "b \<in> rng wanted" for p b k
  proof -
    from c obtain r where r: "r \<in> set locks" "rc_inode r = rc_inode wanted" "rc_owner r = p" "b \<in> rng r" "rc_kind r = k"
      by (rule coveredE)
    with b have "overlaps (rc_range r) (rc_range wanted)" using overlaps_iff [of r wanted] v by auto
    with none r p show ?thesis by (auto simp: conflicts_def)
  qed
  show ?thesis
    unfolding exclusive_def
  proof (intro allI impI)
    fix i p q b k l
    assume a: "(i, p, b, k) \<in> (covered locks - hole wanted) \<union> cover wanted"
      and c: "(i, q, b, l) \<in> (covered locks - hole wanted) \<union> cover wanted" and "p \<noteq> q"
    then have a': "(i, p, b, k) \<in> covered locks \<or> i = rc_inode wanted \<and> p = rc_owner wanted \<and> b \<in> rng wanted \<and> k = rc_kind wanted"
      and c': "(i, q, b, l) \<in> covered locks \<or> i = rc_inode wanted \<and> q = rc_owner wanted \<and> b \<in> rng wanted \<and> l = rc_kind wanted"
      by (auto simp: cover_def)
    have e: "(i, p, b, k) \<in> covered locks \<Longrightarrow> (i, q, b, l) \<in> covered locks \<Longrightarrow> k \<noteq> kind_raw Write"
      using ex \<open>p \<noteq> q\<close> unfolding exclusive_def by blast
    from a' c' e clash [of p b k] clash [of q b l] \<open>p \<noteq> q\<close> show "k \<noteq> kind_raw Write" by auto
  qed
qed

section \<open>The invariant of the state\<close>

definition thread_key :: "waiter \<Rightarrow> u32 \<times> u32" where
  "thread_key w = (wt_host w, wt_thread w)"

lemma same_thread_iff: "same_thread c w \<longleftrightarrow> thread_key c = thread_key w"
  by (simp add: same_thread_def thread_key_def)

definition st_ok :: "lock_state \<Rightarrow> bool" where
  "st_ok st \<longleftrightarrow> locks_wf (st_locks st) \<and> exclusive (covered (st_locks st))
     \<and> length (st_locks st) \<le> LOCK_CAPACITY \<and> length (st_waiters st) \<le> WAITER_CAPACITY
     \<and> distinct (map thread_key (st_waiters st))"

lemma st_ok_shrink:
  assumes "st_ok st" and "st_locks st' = filter P (st_locks st)" and "st_waiters st' = filter Q (st_waiters st)"
  shows "st_ok st'"
  using assms exclusive_mono [OF _ covered_filter, of "st_locks st" P]
    le_trans [OF length_filter_le, of "st_locks st" LOCK_CAPACITY P]
    le_trans [OF length_filter_le, of "st_waiters st" WAITER_CAPACITY Q]
  by (auto simp: st_ok_def locks_wf_def sorted_wrt_filter distinct_map_filter)

lemma st_ok_reap: "st_ok st \<Longrightarrow> st_ok (reap h st)"
  by (rule st_ok_shrink) (simp_all add: reap_def Let_def)

lemma st_ok_remove_waiter: "st_ok st \<Longrightarrow> st_ok (remove_waiter w st)"
  by (rule st_ok_shrink [where P = "\<lambda>_. True"]) (simp_all add: remove_waiter_def Let_def)

lemma remove_waiter_simps [simp]:
  "st_locks (remove_waiter w st) = st_locks st"
  "set (st_waiters (remove_waiter w st)) = {c \<in> set (st_waiters st). thread_key c \<noteq> thread_key w}"
  by (auto simp: remove_waiter_def Let_def same_thread_iff)

lemma conflict_None: "conflict st wanted = None \<longleftrightarrow> (\<forall>r \<in> set (st_locks st). \<not> conflicts r wanted)"
  by (auto simp: conflict_def find_None_iff)

lemma replace_unlock_exclusive:
  "exclusive (covered locks) \<Longrightarrow> exclusive ((covered locks - hole wanted) \<union> {})"
  by (erule exclusive_mono) auto

lemma replace_ok:
  assumes st: "st_ok st" and w: "valid_record wanted" and c: "unlock \<or> conflict st wanted = None"
    and r: "replace wanted unlock st = (res, st')"
  shows "st_ok st'" "st_waiters st' = st_waiters st" "st_dirty st \<Longrightarrow> st_dirty st'"
    "res = Ok () \<Longrightarrow> st_locks st' = replaced (st_locks st) wanted unlock"
    "res \<noteq> Ok () \<Longrightarrow> res = Err ENOLCK \<and> st' = st"
    "st_dirty st' \<or> st_locks st' = st_locks st"
proof -
  have wf: "locks_wf (st_locks st)" and ex: "exclusive (covered (st_locks st))" using st by (simp_all add: st_ok_def)
  note rep = replaced_correct [OF wf w, of unlock]
  have "exclusive (covered (replaced (st_locks st) wanted unlock))"
  proof (cases unlock)
    case True
    with rep(2) replace_unlock_exclusive [OF ex] show ?thesis by simp
  next
    case False
    with c rep(2) no_conflict_exclusive [OF ex _ w] wf show ?thesis by (simp add: conflict_None locks_wf_def)
  qed
  with rep(1) st r show "st_ok st'" by (auto simp: replace_def st_ok_def Let_def split: if_splits)
  show "st_waiters st' = st_waiters st" "st_dirty st \<Longrightarrow> st_dirty st'"
    "res = Ok () \<Longrightarrow> st_locks st' = replaced (st_locks st) wanted unlock"
    "res \<noteq> Ok () \<Longrightarrow> res = Err ENOLCK \<and> st' = st"
    "st_dirty st' \<or> st_locks st' = st_locks st"
    using r by (auto simp: replace_def Let_def split: if_splits)
qed

section \<open>The deadlock search\<close>

definition waits_for :: "lock_state \<Rightarrow> owner rel" where
  "waits_for st =
     {(p, q). \<exists>w \<in> set (st_waiters st). rc_owner (wt_wanted w) = p \<and> q \<in> set (blockers (st_locks st) (wt_wanted w))}"

lemma set_waited_for_eq: "set (waited_for st p) = waits_for st `` {p}"
  by (auto simp: waited_for_def waits_for_def)

text \<open>
  The invariant of the search: the visited owners are not the target, and what they wait for
  has been visited or is pending.
\<close>

definition search_inv :: "lock_state \<Rightarrow> owner \<Rightarrow> owner list \<Rightarrow> owner list \<Rightarrow> bool" where
  "search_inv st target pending visited \<longleftrightarrow>
     target \<notin> set visited \<and> waits_for st `` set visited \<subseteq> set visited \<union> set pending"

lemma deadlock_search_sound:
  "deadlock_search st target pending visited \<Longrightarrow> \<exists>p \<in> set pending. (p, target) \<in> (waits_for st)\<^sup>*"
proof (induction st target pending visited rule: deadlock_search.induct)
  case (1 st target pending visited)
  let ?ow = "last pending" and ?rest = "butlast pending"
  from 1(3) have ne: "pending \<noteq> []" by (subst (asm) deadlock_search.simps) (auto split: if_splits)
  then have pend: "set pending = insert ?ow (set ?rest)" by (cases pending rule: rev_cases) auto
  show ?case
  proof (cases "?ow = target")
    case True
    with pend show ?thesis by auto
  next
    case False
    show ?thesis
    proof (cases "?ow \<in> set visited")
      case True
      with 1(3) ne False have "deadlock_search st target ?rest visited"
        by (subst (asm) deadlock_search.simps) (simp add: Let_def)
      from 1(1) [OF ne refl refl False True this] pend show ?thesis by auto
    next
      case nv: False
      with 1(3) ne False have "deadlock_search st target (?rest @ waited_for st ?ow) (?ow # visited)"
        by (subst (asm) deadlock_search.simps) (simp add: Let_def)
      from 1(2) [OF ne refl refl False nv this] obtain p where
        "p \<in> set ?rest \<or> (?ow, p) \<in> waits_for st" "(p, target) \<in> (waits_for st)\<^sup>*"
        by (auto simp: set_waited_for_eq)
      with pend show ?thesis by (auto intro: converse_rtrancl_into_rtrancl)
    qed
  qed
qed

lemma closed_reach:
  assumes "R `` V \<subseteq> V" and "(p, t) \<in> R\<^sup>*" and "p \<in> V"
  shows "t \<in> V"
  using assms(2,3) by (induction rule: rtrancl_induct) (use assms(1) in auto)

lemma deadlock_search_complete:
  "search_inv st target pending visited \<Longrightarrow> \<not> deadlock_search st target pending visited \<Longrightarrow>
     p \<in> set pending \<union> set visited \<Longrightarrow> (p, target) \<notin> (waits_for st)\<^sup>*"
proof (induction st target pending visited rule: deadlock_search.induct)
  case (1 st target pending visited)
  let ?ow = "last pending" and ?rest = "butlast pending"
  show ?case
  proof (cases "pending = []")
    case True
    with 1(3,5) show ?thesis using closed_reach [of "waits_for st" "set visited" p target]
      by (auto simp: search_inv_def)
  next
    case ne: False
    then have pend: "set pending = insert ?ow (set ?rest)" by (cases pending rule: rev_cases) auto
    from 1(4) ne have nt: "?ow \<noteq> target"
      by (subst (asm) deadlock_search.simps) (auto simp: Let_def)
    show ?thesis
    proof (cases "?ow \<in> set visited")
      case True
      with 1(4) ne nt have "\<not> deadlock_search st target ?rest visited"
        by (subst (asm) deadlock_search.simps) (simp add: Let_def)
      moreover have "search_inv st target ?rest visited" "p \<in> set ?rest \<union> set visited"
        using 1(3,5) pend True by (auto simp: search_inv_def)
      ultimately show ?thesis using 1(1) [OF ne refl refl nt True] by blast
    next
      case nv: False
      with 1(4) ne nt have "\<not> deadlock_search st target (?rest @ waited_for st ?ow) (?ow # visited)"
        by (subst (asm) deadlock_search.simps) (simp add: Let_def)
      moreover have "search_inv st target (?rest @ waited_for st ?ow) (?ow # visited)"
        using 1(3) pend nt by (auto simp: search_inv_def set_waited_for_eq)
      moreover have "p \<in> set (?rest @ waited_for st ?ow) \<union> set (?ow # visited)" using 1(5) pend by auto
      ultimately show ?thesis using 1(2) [OF ne refl refl nt nv] by blast
    qed
  qed
qed

lemma would_deadlock_iff:
  "would_deadlock st wanted \<longleftrightarrow>
     (\<exists>p \<in> set (blockers (st_locks st) wanted). (p, rc_owner wanted) \<in> (waits_for st)\<^sup>*)"
proof
  show "would_deadlock st wanted \<Longrightarrow> \<exists>p \<in> set (blockers (st_locks st) wanted). (p, rc_owner wanted) \<in> (waits_for st)\<^sup>*"
    unfolding would_deadlock_def by (rule deadlock_search_sound)
  show "would_deadlock st wanted"
    if "\<exists>p \<in> set (blockers (st_locks st) wanted). (p, rc_owner wanted) \<in> (waits_for st)\<^sup>*"
    using that deadlock_search_complete [of st "rc_owner wanted" "blockers (st_locks st) wanted" "[]"]
    by (auto simp: would_deadlock_def search_inv_def)
qed

section \<open>Atomic commits\<close>

text \<open>
  A store that is read through \<open>rd\<close> and rewritten by a sequence of small writes is atomic when
  every proper prefix of the writes leaves what is read unchanged. A state predicate that the
  transformation of the state keeps is then kept by every interrupted run.
\<close>

locale atomic_store =
  fixes rd :: "'sec \<Rightarrow> 'st option"
    and wr :: "'sec \<Rightarrow> 'st \<Rightarrow> ('sec \<Rightarrow> 'sec) list"
    and ok :: "'st \<Rightarrow> bool"
  assumes prefix_unread: "rd sec = Some st \<Longrightarrow> ok st' \<Longrightarrow> n < length (wr sec st') \<Longrightarrow>
      rd (fold (\<lambda>f. f) (take n (wr sec st')) sec) = Some st"
    and complete_read: "rd sec = Some st \<Longrightarrow> ok st' \<Longrightarrow>
      \<exists>st''. rd (fold (\<lambda>f. f) (wr sec st') sec) = Some st'' \<and> ok st''"
begin

lemma interrupted:
  assumes "rd sec = Some st" "ok st" "ok st'"
  shows "\<exists>st''. rd (fold (\<lambda>f. f) (take n (wr sec st')) sec) = Some st'' \<and> ok st''"
proof (cases "n < length (wr sec st')")
  case True
  with prefix_unread [OF assms(1,3)] assms(2) show ?thesis by blast
next
  case False
  with complete_read [OF assms(1,3)] show ?thesis by simp
qed

end

definition read_section :: "lock_section \<Rightarrow> lock_state option" where
  "read_section sec = (case load sec of Ok st \<Rightarrow> Some st | _ \<Rightarrow> None)"

definition write_section :: "lock_section \<Rightarrow> lock_state \<Rightarrow> (lock_section \<Rightarrow> lock_section) list" where
  "write_section sec st = commit_steps (1 - sec_active sec) st"

lemma load_active:
  assumes "load sec = Ok st"
  shows "sec_active sec = 0 \<or> sec_active sec = 1"
proof -
  have "unat (sec_active sec) \<le> 1"
    using assms by (auto simp: load_def not_less word_le_nat_alt split: if_splits)
  then have "unat (sec_active sec) = 0 \<or> unat (sec_active sec) = 1" by linarith
  then show ?thesis
    using word_unat_eq_iff [of "sec_active sec" 0] word_unat_eq_iff [of "sec_active sec" 1] by simp
qed

lemma commit_prefix_load:
  assumes "load sec = Ok st" "n < 5"
  shows "load (fold (\<lambda>f. f) (take n (write_section sec st')) sec) = load sec"
proof -
  have "n \<in> {0, 1, 2, 3, 4}" using assms(2) by auto
  with load_active [OF assms(1)] show ?thesis
    by (elim disjE insertE emptyE)
      (simp_all add: write_section_def commit_steps_def Let_def load_def get_bank_def put_bank_def numeral_eq_Suc)
qed

lemma commit_load:
  assumes "load sec = Ok st" "length (st_locks st') \<le> LOCK_CAPACITY" "length (st_waiters st') \<le> WAITER_CAPACITY"
  shows "load (fold (\<lambda>f. f) (write_section sec st') sec) = Ok (st'\<lparr>st_dirty := False, st_wake := False\<rparr>)"
proof -
  have "unat (word_of_nat (length (st_locks st')) :: u32) = length (st_locks st')"
    "unat (word_of_nat (length (st_waiters st')) :: u32) = length (st_waiters st')"
    using assms(2,3) by (simp_all add: unat_of_nat LOCK_CAPACITY_def WAITER_CAPACITY_def)
  with load_active [OF assms(1)] assms(2,3) show ?thesis
    by (elim disjE) (simp_all add: write_section_def commit_steps_def Let_def load_def get_bank_def put_bank_def overwrite_def)
qed

definition section_ok :: "lock_section \<Rightarrow> bool" where
  "section_ok sec \<longleftrightarrow> (\<exists>st. load sec = Ok st \<and> st_ok st)"

lemma st_ok_clean: "st_ok st \<Longrightarrow> st_ok (st\<lparr>st_dirty := False, st_wake := False\<rparr>)"
  by (simp add: st_ok_def)

interpretation sec: atomic_store read_section write_section st_ok
proof unfold_locales
  fix sec st st' n
  assume "read_section sec = Some st" and ok: "st_ok st'"
  then have l: "load sec = Ok st" by (auto simp: read_section_def split: outcome.splits)
  show "read_section (fold (\<lambda>f. f) (take n (write_section sec st')) sec) = Some st"
    if "n < length (write_section sec st')"
  proof -
    have "n < 5" using that by (simp add: write_section_def commit_steps_def Let_def)
    from commit_prefix_load [OF l this] l show ?thesis by (simp add: read_section_def)
  qed
  show "\<exists>st''. read_section (fold (\<lambda>f. f) (write_section sec st') sec) = Some st'' \<and> st_ok st''"
    using commit_load [OF l] ok st_ok_clean [OF ok] by (simp add: read_section_def st_ok_def)
qed

section \<open>Transactions\<close>

text \<open>A body keeps the invariant, reports every change as dirty and does not panic.\<close>

definition body_ok :: "'a lock_body \<Rightarrow> bool" where
  "body_ok body \<longleftrightarrow>
     (\<forall>st. st_ok st \<longrightarrow> (let (r, st') = body st in
        st_ok st' \<and> r \<noteq> Panic \<and> (st_dirty st \<longrightarrow> st_dirty st')
        \<and> (st_dirty st' \<or> st_locks st' = st_locks st \<and> st_waiters st' = st_waiters st)))"

lemma body_okD:
  assumes "body_ok body" "st_ok st" "body st = (r, st')"
  shows "st_ok st'" "r \<noteq> Panic" "st_dirty st \<Longrightarrow> st_dirty st'"
    "st_dirty st' \<or> st_locks st' = st_locks st \<and> st_waiters st' = st_waiters st"
  using assms by (auto simp: body_ok_def)

lemma filter_same_length: "length (filter P xs) = length xs \<Longrightarrow> filter P xs = xs"
  by (metis filter_True length_filter_less less_irrefl)

lemma reap_clean:
  assumes "\<not> st_dirty (reap h st)"
  shows "st_locks (reap h st) = st_locks st" "st_waiters (reap h st) = st_waiters st"
proof -
  from assms have "length (filter (\<lambda>r. owner_alive h (rc_owner r)) (st_locks st)) = length (st_locks st)"
    "length (filter (waiter_alive h) (st_waiters st)) = length (st_waiters st)"
    by (simp_all add: reap_def Let_def)
  then show "st_locks (reap h st) = st_locks st" "st_waiters (reap h st) = st_waiters st"
    by (simp_all only: reap_def Let_def lock_state.select_convs filter_same_length)
qed

lemma transaction_ok:
  assumes sec: "load sec = Ok st0" "st_ok st0" and b: "body_ok body" and r: "body (reap h st0) = (r, st)"
  shows "\<exists>sec' woken. lock_transaction h body sec = (r, sec', woken)
    \<and> (\<exists>st'. load sec' = Ok st' \<and> st_ok st' \<and> st_locks st' = st_locks st \<and> st_waiters st' = st_waiters st)"
proof -
  note bd = body_okD [OF b st_ok_reap [OF sec(2)] r]
  from bd(1) have len: "length (st_locks st) \<le> LOCK_CAPACITY" "length (st_waiters st) \<le> WAITER_CAPACITY"
    by (simp_all add: st_ok_def)
  show ?thesis
  proof (cases "st_dirty st")
    case True
    note c = commit_load [OF sec(1) len]
    have "commit st sec = (Ok (), fold (\<lambda>f. f) (write_section sec st) sec)"
      using len by (simp add: commit_def write_section_def)
    with True sec(1) r bd(2) have "lock_transaction h body sec =
        (r, fold (\<lambda>f. f) (write_section sec st) sec, if st_wake st then st_waiters st else [])"
      by (cases r) (simp_all add: lock_transaction_def)
    with c st_ok_clean [OF bd(1)] show ?thesis by auto
  next
    case False
    with sec(1) r bd(2) have t: "lock_transaction h body sec = (r, sec, if st_wake st then st_waiters st else [])"
      by (cases r) (simp_all add: lock_transaction_def)
    from False bd(3) have "\<not> st_dirty (reap h st0)" by blast
    with reap_clean [of h st0] bd(4) False have "st_locks st0 = st_locks st \<and> st_waiters st0 = st_waiters st" by simp
    with t sec show ?thesis by auto
  qed
qed

end
