(* ===== verification/Lock_Steps.thy ===== *)
theory Lock_Steps
  imports Lock_Inv
begin

text \<open>
  Every transaction body keeps the invariant; so do the transactions themselves, run to
  the end or cut short by the death of their process, in any order. What one attempt of a
  request does on each of its branches.
\<close>

section \<open>Bodies\<close>

lemma body_okI:
  assumes "\<And>st r st'. st_ok st \<Longrightarrow> body st = (r, st') \<Longrightarrow>
    st_ok st' \<and> r \<noteq> Panic \<and> (st_dirty st \<longrightarrow> st_dirty st')
      \<and> (st_dirty st' \<or> st_locks st' = st_locks st \<and> st_waiters st' = st_waiters st)"
  shows "body_ok body"
  unfolding body_ok_def
proof (intro allI impI)
  fix st
  assume "st_ok st"
  with assms [of st] show "let (r, st') = body st in st_ok st' \<and> r \<noteq> Panic \<and> (st_dirty st \<longrightarrow> st_dirty st')
      \<and> (st_dirty st' \<or> st_locks st' = st_locks st \<and> st_waiters st' = st_waiters st)"
    by (cases "body st") simp
qed

lemma remove_waiter_dirty:
  fixes st :: lock_state
  shows
  "st_dirty st \<Longrightarrow> st_dirty (remove_waiter w st)"
  "st_dirty (remove_waiter w st) \<or> st_waiters (remove_waiter w st) = st_waiters st"
  using filter_same_length [of "\<lambda>c. \<not> same_thread c w" "st_waiters st"]
  by (auto simp: remove_waiter_def Let_def)

lemma cancel_body_ok: "body_ok (cancel_body w)"
proof (rule body_okI)
  fix st r st'
  assume "st_ok st" "cancel_body w st = (r, st')"
  then show "st_ok st' \<and> r \<noteq> Panic \<and> (st_dirty st \<longrightarrow> st_dirty st')
      \<and> (st_dirty st' \<or> st_locks st' = st_locks st \<and> st_waiters st' = st_waiters st)"
    using remove_waiter_dirty [where st = st and w = w] st_ok_remove_waiter [of st w] by (auto simp: cancel_body_def)
qed

lemma query_body_ok: "current \<noteq> Panic \<Longrightarrow> body_ok (query_body current wanted)"
  by (rule body_okI) (auto simp: query_body_def split: if_splits)

lemma release_body_ok: "body_ok (release_body ow inodes)"
proof (rule body_okI)
  fix st r st'
  assume ok: "st_ok st" and b: "release_body ow inodes st = (r, st')"
  let ?P = "\<lambda>r. rc_owner r \<noteq> ow \<or> rc_inode r \<notin> set inodes"
  have "st_ok st'"
    by (rule st_ok_shrink [OF ok, of _ ?P "\<lambda>_. True"]) (use b in \<open>auto simp: release_body_def Let_def\<close>)
  moreover have "st_dirty st' \<or> st_locks st' = st_locks st"
  proof (cases "length (filter ?P (st_locks st)) = length (st_locks st)")
    case True
    from filter_same_length [OF this] b show ?thesis by (auto simp: release_body_def Let_def)
  qed (use b in \<open>auto simp: release_body_def Let_def\<close>)
  ultimately show "st_ok st' \<and> r \<noteq> Panic \<and> (st_dirty st \<longrightarrow> st_dirty st')
      \<and> (st_dirty st' \<or> st_locks st' = st_locks st \<and> st_waiters st' = st_waiters st)"
    using b by (auto simp: release_body_def Let_def)
qed

lemma st_ok_enqueue:
  assumes "st_ok st" "thread_key w \<notin> thread_key ` set (st_waiters st)" "length (st_waiters st) \<noteq> WAITER_CAPACITY"
  shows "st_ok (st\<lparr>st_waiters := st_waiters st @ [w], st_dirty := True\<rparr>)"
  using assms by (auto simp: st_ok_def)

text \<open>The branches of one attempt.\<close>

lemma set_attempt_cases:
  assumes "set_attempt q current create event st = (r, st')" "create \<noteq> Panic"
  obtains
    (refused) e where "r = Err e" "st' = remove_waiter (sq_waiter q) st" "\<not> current \<and> e = EBADF \<or> current \<and> e = EDEADLK \<and> sq_wait q"
  | (busy) "r = Err EAGAIN" "st' = st" "\<not> sq_wait q"
  | (no_event) e where "r = Err e" "st' = st" "\<not> event" "create = Err e"
  | (no_room) "r = Err ENOLCK" "st' = st" "thread_key (sq_waiter q) \<notin> thread_key ` set (st_waiters st)"
  | (queued) b where "r = Ok (Some b, True)" "st' = st\<lparr>st_waiters := st_waiters st @ [sq_waiter q], st_dirty := True\<rparr>"
      "thread_key (sq_waiter q) \<notin> thread_key ` set (st_waiters st)" "length (st_waiters st) \<noteq> WAITER_CAPACITY"
      "sq_wait q" "sq_ofd q \<or> \<not> would_deadlock st (sq_wanted q)" "b \<in> set (blockers (st_locks st) (sq_wanted q))"
  | (still_queued) b where "r = Ok (Some b, True)" "st' = st" "thread_key (sq_waiter q) \<in> thread_key ` set (st_waiters st)"
      "sq_wait q" "sq_ofd q \<or> \<not> would_deadlock st (sq_wanted q)" "b \<in> set (blockers (st_locks st) (sq_wanted q))"
  | (replaced) "sq_unlock q \<or> conflict st (sq_wanted q) = None" "r = Ok (None, event)"
      "replace (sq_wanted q) (sq_unlock q) (remove_waiter (sq_waiter q) st) = (Ok (), st')"
  | (full) "sq_unlock q \<or> conflict st (sq_wanted q) = None" "r = Err ENOLCK"
      "replace (sq_wanted q) (sq_unlock q) (remove_waiter (sq_waiter q) st) = (Err ENOLCK, st')"
proof (cases "current \<and> \<not> (sq_unlock q \<or> conflict st (sq_wanted q) = None)")
  case True
  then obtain b where b: "conflict st (sq_wanted q) = Some b" by auto
  then have in_b: "rc_owner b \<in> set (blockers (st_locks st) (sq_wanted q))"
    by (auto simp: conflict_def blockers_def find_Some_iff)
  have same: "(\<exists>c \<in> set (st_waiters st). same_thread c (sq_waiter q)) \<longleftrightarrow> thread_key (sq_waiter q) \<in> thread_key ` set (st_waiters st)"
    by (metis (no_types, lifting) image_iff same_thread_iff)
  show thesis
  proof (cases "sq_wait q \<and> (sq_ofd q \<or> \<not> would_deadlock st (sq_wanted q)) \<and> (event \<or> create = Ok ())")
    case True
    then show thesis
      using assms(1) b \<open>current \<and> _\<close> that(4) that(5) [of "rc_owner b"] that(6) [of "rc_owner b"] in_b
      by (auto simp: set_attempt_def enqueue_waiter_def same split: if_splits)
  next
    case False
    then show thesis using assms b \<open>current \<and> _\<close> that(1) [of EDEADLK] that(2,3)
      by (cases create) (auto simp: set_attempt_def split: if_splits)
  qed
next
  case False
  show thesis
  proof (cases current)
    case True
    with False have none: "sq_unlock q \<or> conflict st (sq_wanted q) = None" by auto
    obtain x y where xy: "replace (sq_wanted q) (sq_unlock q) (remove_waiter (sq_waiter q) st) = (x, y)" by fastforce
    then have "x = Ok () \<or> x = Err ENOLCK" by (auto simp: replace_def Let_def split: if_splits)
    moreover from none have "(if sq_unlock q then None else conflict st (sq_wanted q)) = None" by auto
    with assms(1) True xy have "(case x of Ok _ \<Rightarrow> Ok (None, event) | Err e \<Rightarrow> Err e | Panic \<Rightarrow> Panic) = r" "y = st'"
      by (cases x; simp only: set_attempt_def; simp)+
    ultimately show thesis using that(7) [OF none] that(8) [OF none] xy by auto
  next
    case False
    with assms(1) that(1) [of EBADF] show thesis by (auto simp: set_attempt_def)
  qed
qed

lemma set_attempt_ok:
  assumes w: "valid_record (sq_wanted q)" and c: "create \<noteq> Panic"
  shows "body_ok (set_attempt q current create event)"
proof (rule body_okI)
  fix st r st'
  assume ok: "st_ok st" and a: "set_attempt q current create event st = (r, st')"
  let ?goal = "st_ok st' \<and> r \<noteq> Panic \<and> (st_dirty st \<longrightarrow> st_dirty st')
      \<and> (st_dirty st' \<or> st_locks st' = st_locks st \<and> st_waiters st' = st_waiters st)"
  have rep: ?goal if none: "sq_unlock q \<or> conflict st (sq_wanted q) = None"
    and r: "replace (sq_wanted q) (sq_unlock q) (remove_waiter (sq_waiter q) st) = (x, st')" "r \<noteq> Panic" for x
  proof -
    have "sq_unlock q \<or> conflict (remove_waiter (sq_waiter q) st) (sq_wanted q) = None"
      using none by (simp add: conflict_def)
    note p = replace_ok [OF st_ok_remove_waiter [OF ok] w this r(1)]
    show ?goal using p(1,2,3,6) r(2) remove_waiter_dirty [where st = st and w = "sq_waiter q"] by auto
  qed
  from a c show ?goal
  proof (cases rule: set_attempt_cases)
    case (queued b)
    then show ?thesis using st_ok_enqueue [OF ok] by simp
  qed (use ok st_ok_remove_waiter [OF ok] remove_waiter_dirty [where st = st and w = "sq_waiter q"] rep in auto)
qed

end
