(* ===== verification/Lock_Props.thy ===== *)
theory Lock_Props
  imports Lock_Steps
begin

text \<open>
  The lock registry as a transition system over its shared section, and the properties of
  record locks: exclusion in every reachable section, the per-byte refinement of
  replacing, crash atomicity, the deadlock test, and what callers are promised.
\<close>

section \<open>The registry as a transition system\<close>

text \<open>What is left of the section when the process dies after \<open>n\<close> of its writes.\<close>

definition crashed :: "nat \<Rightarrow> lock_host \<Rightarrow> 'a lock_body \<Rightarrow> lock_section \<Rightarrow> lock_section" where
  "crashed n h body sec =
     (case load sec of
        Ok st0 \<Rightarrow>
          (let st = snd (body (reap h st0)) in
           if st_dirty st \<and> length (st_locks st) \<le> LOCK_CAPACITY \<and> length (st_waiters st) \<le> WAITER_CAPACITY
           then fold (\<lambda>f. f) (take n (commit_steps (1 - sec_active sec) st)) sec else sec)
      | _ \<Rightarrow> sec)"

definition after :: "lock_host \<Rightarrow> 'a lock_body \<Rightarrow> lock_section \<Rightarrow> lock_section" where
  "after h body sec = fst (snd (lock_transaction h body sec))"

inductive lock_step :: "lock_section \<Rightarrow> lock_section \<Rightarrow> bool" where
  set_step: "valid_record (sq_wanted q) \<Longrightarrow> create \<noteq> Panic \<Longrightarrow>
    lock_step sec (after h (set_attempt q current create event) sec)"
| set_crash: "valid_record (sq_wanted q) \<Longrightarrow> create \<noteq> Panic \<Longrightarrow>
    lock_step sec (crashed n h (set_attempt q current create event) sec)"
| cancel_step: "lock_step sec (after h (cancel_body w) sec)"
| cancel_crash: "lock_step sec (crashed n h (cancel_body w) sec)"
| release_step: "lock_step sec (after h (release_body ow inodes) sec)"
| release_crash: "lock_step sec (crashed n h (release_body ow inodes) sec)"
| query_step: "current \<noteq> Panic \<Longrightarrow> lock_step sec (after h (query_body current wanted) sec)"

definition fresh_section :: lock_section where
  "fresh_section =
     \<lparr>sec_active = 0, sec_bank0 = \<lparr>bk_lock_count = 0, bk_waiter_count = 0, bk_locks = [], bk_waiters = []\<rparr>,
      sec_bank1 = \<lparr>bk_lock_count = 0, bk_waiter_count = 0, bk_locks = [], bk_waiters = []\<rparr>\<rparr>"

definition lock_reachable :: "lock_section \<Rightarrow> bool" where
  "lock_reachable sec \<longleftrightarrow> lock_step\<^sup>*\<^sup>* fresh_section sec"

lemma after_ok:
  assumes "section_ok sec" "body_ok body"
  shows "section_ok (after h body sec)"
proof -
  from assms(1) obtain st0 where s: "load sec = Ok st0" "st_ok st0" by (auto simp: section_ok_def)
  obtain r st where "body (reap h st0) = (r, st)" by fastforce
  from transaction_ok [OF s assms(2) this] show ?thesis by (auto simp: section_ok_def after_def)
qed

lemma crashed_ok:
  assumes "section_ok sec" "body_ok body"
  shows "section_ok (crashed n h body sec)"
proof -
  from assms(1) obtain st0 where s: "load sec = Ok st0" "st_ok st0" by (auto simp: section_ok_def)
  obtain r st where b: "body (reap h st0) = (r, st)" by fastforce
  note ok = body_okD(1) [OF assms(2) st_ok_reap [OF s(2)] b]
  have "read_section sec = Some st0" using s by (simp add: read_section_def)
  from sec.interrupted [OF this s(2) ok, of n] s b assms(1) show ?thesis
    by (auto simp: crashed_def section_ok_def read_section_def write_section_def Let_def split: outcome.splits)
qed

lemma lock_step_ok: "lock_step sec sec' \<Longrightarrow> section_ok sec \<Longrightarrow> section_ok sec'"
  by (induction rule: lock_step.induct)
    (simp_all add: after_ok crashed_ok set_attempt_ok cancel_body_ok release_body_ok query_body_ok)

lemma fresh_ok: "section_ok fresh_section"
  by (simp add: section_ok_def fresh_section_def load_def get_bank_def st_ok_def locks_wf_def exclusive_def)

lemma reachable_section_ok: "lock_reachable sec \<Longrightarrow> section_ok sec"
  unfolding lock_reachable_def by (induction rule: rtranclp_induct) (simp_all add: fresh_ok lock_step_ok)

section \<open>Per-byte ownership\<close>

text \<open>The abstract state: for each inode, owner and byte, the kind of lock held there.\<close>

type_synonym byte_locks = "inode \<times> owner \<times> nat \<Rightarrow> u32 option"

definition held :: "lock_record list \<Rightarrow> byte_locks" where
  "held locks = (\<lambda>(i, p, b).
     map_option rc_kind (find (\<lambda>r. rc_inode r = i \<and> rc_owner r = p \<and> b \<in> rng r) locks))"

definition byte_replace :: "lock_record \<Rightarrow> bool \<Rightarrow> byte_locks \<Rightarrow> byte_locks" where
  "byte_replace wanted unlock m = (\<lambda>(i, p, b).
     if i = rc_inode wanted \<and> p = rc_owner wanted \<and> b \<in> rng wanted
     then (if unlock then None else Some (rc_kind wanted)) else m (i, p, b))"

lemma wf_same:
  assumes "sorted_wrt gapped locks" "r \<in> set locks" "s \<in> set locks" "rc_inode r = rc_inode s"
    "rc_owner r = rc_owner s" "b \<in> rng r" "b \<in> rng s"
  shows "r = s"
proof (rule ccontr)
  assume "r \<noteq> s"
  have "apart r s \<or> apart s r" using assms(1-3) \<open>r \<noteq> s\<close>
    by (induction locks) (auto dest: gapped_disj)
  with assms(4-7) show False by (auto simp: apart_def)
qed

lemma held_iff:
  assumes "locks_wf locks"
  shows "held locks (i, p, b) = Some k \<longleftrightarrow> (i, p, b, k) \<in> covered locks"
proof
  show "(i, p, b, k) \<in> covered locks" if "held locks (i, p, b) = Some k"
    using that by (fastforce simp: held_def covered_def cover_def find_Some_iff)
  assume "(i, p, b, k) \<in> covered locks"
  then obtain r where r: "r \<in> set locks" "rc_inode r = i" "rc_owner r = p" "b \<in> rng r" "rc_kind r = k"
    by (rule coveredE)
  let ?P = "\<lambda>r. rc_inode r = i \<and> rc_owner r = p \<and> b \<in> rng r"
  obtain s where s: "find ?P locks = Some s" using r by (cases "find ?P locks") (auto simp: find_None_iff)
  then have "s \<in> set locks" "?P s" by (auto simp: find_Some_iff)
  with r wf_same [of locks r s b] assms have "s = r" by (simp add: locks_wf_def)
  with s r show "held locks (i, p, b) = Some k" by (simp add: held_def)
qed

lemma held_replaced:
  assumes "locks_wf locks" "valid_record wanted"
  shows "held (replaced locks wanted unlock) = byte_replace wanted unlock (held locks)"
proof (intro ext)
  fix x :: "inode \<times> owner \<times> nat"
  obtain i p b where x: "x = (i, p, b)" by (cases x)
  note rep = replaced_correct [OF assms, of unlock]
  have "held (replaced locks wanted unlock) x = Some k \<longleftrightarrow> byte_replace wanted unlock (held locks) x = Some k" for k
    using held_iff [OF rep(1), of i p b k] held_iff [OF assms(1), of i p b k]
    by (auto simp: x rep(2) byte_replace_def hole_def cover_def)
  then show "held (replaced locks wanted unlock) x = byte_replace wanted unlock (held locks) x"
    by (metis option.exhaust)
qed

section \<open>The request loop\<close>

definition queued_in :: "waiter \<Rightarrow> lock_state \<Rightarrow> bool" where
  "queued_in w st \<longleftrightarrow> thread_key w \<in> thread_key ` set (st_waiters st)"

lemma queued_in_simps [simp]:
  "\<not> queued_in w (remove_waiter w st)"
  "queued_in w (reap h st) \<Longrightarrow> queued_in w st"
  by (auto simp: queued_in_def reap_def Let_def)

lemma queued_in_cong: "st_waiters st = st_waiters st' \<Longrightarrow> queued_in w st = queued_in w st'"
  by (simp add: queued_in_def)

text \<open>A transaction of one attempt, from a section in order.\<close>

lemma attempt_transaction:
  assumes sec: "load sec = Ok st0" "st_ok st0" and w: "valid_record (sq_wanted q)" and c: "create \<noteq> Panic"
    and t: "lock_transaction h (set_attempt q current create event) sec = (r, sec', woken)"
  obtains st st' where "set_attempt q current create event (reap h st0) = (r, st)" "load sec' = Ok st'" "st_ok st'"
    "st_locks st' = st_locks st" "st_waiters st' = st_waiters st"
proof -
  obtain r' st where b: "set_attempt q current create event (reap h st0) = (r', st)" by fastforce
  from transaction_ok [OF sec set_attempt_ok [OF w c] b] t b that show thesis by auto
qed

lemma attempt_error:
  assumes a: "set_attempt q current create event st = (Err e, st')" and c: "create \<noteq> Panic"
    and j: "event \<longrightarrow> sq_wait q" "event \<or> \<not> queued_in (sq_waiter q) st"
  shows "st_locks st' = st_locks st" "\<not> queued_in (sq_waiter q) st'"
proof -
  have "st_locks st' = st_locks st \<and> \<not> queued_in (sq_waiter q) st'"
    using a c
  proof (cases rule: set_attempt_cases)
    case full
    then have "st' = remove_waiter (sq_waiter q) st" by (auto simp: replace_def Let_def split: if_splits)
    then show ?thesis by simp
  qed (use j in \<open>auto simp: queued_in_def\<close>)
  then show "st_locks st' = st_locks st" "\<not> queued_in (sq_waiter q) st'" by auto
qed

lemma attempt_success:
  assumes a: "set_attempt q current create event st = (Ok (None, ev), st')" and c: "create \<noteq> Panic"
    and ok: "st_ok st" and w: "valid_record (sq_wanted q)"
  shows "st_locks st' = replaced (st_locks st) (sq_wanted q) (sq_unlock q)" "\<not> queued_in (sq_waiter q) st'"
    "sq_unlock q \<or> conflict st (sq_wanted q) = None"
proof -
  have *: "sq_unlock q \<or> conflict st (sq_wanted q) = None"
    "replace (sq_wanted q) (sq_unlock q) (remove_waiter (sq_waiter q) st) = (Ok (), st')"
    using a c by (cases rule: set_attempt_cases; simp)+
  then have n: "sq_unlock q \<or> conflict (remove_waiter (sq_waiter q) st) (sq_wanted q) = None" by (simp add: conflict_def)
  note p = replace_ok [OF st_ok_remove_waiter [OF ok] w n *(2)]
  from p(4) show "st_locks st' = replaced (st_locks st) (sq_wanted q) (sq_unlock q)" by simp
  have "\<not> queued_in (sq_waiter q) (remove_waiter (sq_waiter q) st)" by (rule queued_in_simps(1))
  then show "\<not> queued_in (sq_waiter q) st'" using p(2) by (simp only: queued_in_def not_False_eq_True)
  show "sq_unlock q \<or> conflict st (sq_wanted q) = None" by (rule *(1))
qed

definition round_ok :: "set_round \<Rightarrow> bool" where
  "round_ok r \<longleftrightarrow> sr_create r \<noteq> Panic \<and> we_open (sr_wait r) \<noteq> Panic
     \<and> (\<forall>s. section_ok s \<longrightarrow> section_ok (sr_others r s))"

lemma wait_no_panic: "we_open env \<noteq> Panic \<Longrightarrow> wait_for_change env p \<noteq> Panic"
  by (auto simp: wait_for_change_def wait_objects_def split: outcome.splits)

lemma attempt_blocked:
  assumes "set_attempt q current create event st = (Ok (Some b, ev), st')" "create \<noteq> Panic"
  shows "ev" "sq_wait q"
  using assms by (cases rule: set_attempt_cases; simp)+

lemma cancel_transaction:
  assumes "load sec = Ok st" "st_ok st"
  shows "\<exists>sec' woken st'. lock_transaction h (cancel_body w) sec = (Ok (), sec', woken)
    \<and> load sec' = Ok st' \<and> st_ok st' \<and> \<not> queued_in w st'"
proof -
  have "cancel_body w (reap h st) = (Ok (), remove_waiter w (reap h st))" by (simp add: cancel_body_def)
  from transaction_ok [OF assms cancel_body_ok this] obtain sec' woken st' where
    "lock_transaction h (cancel_body w) sec = (Ok (), sec', woken)" "load sec' = Ok st'" "st_ok st'"
    and ws: "st_waiters st' = st_waiters (remove_waiter w (reap h st))" by blast
  moreover have "\<not> queued_in w st'" using queued_in_cong [OF ws, of w] queued_in_simps(1) by blast
  ultimately show ?thesis by blast
qed

text \<open>What a finished call has established.\<close>

definition call_done :: "set_request \<Rightarrow> (i32, unit) outcome \<Rightarrow> lock_section \<Rightarrow> bool" where
  "call_done q res sec \<longleftrightarrow> res \<noteq> Panic \<and> (\<exists>st. load sec = Ok st \<and> st_ok st \<and> \<not> queued_in (sq_waiter q) st
      \<and> (res = Ok () \<longrightarrow> (\<exists>locks. locks_wf locks \<and> st_locks st = replaced locks (sq_wanted q) (sq_unlock q))))"

text \<open>One transaction of the loop: an error or a grant ends the call, otherwise the caller waits.\<close>

lemma attempt_round:
  assumes w: "valid_record (sq_wanted q)" and c: "create \<noteq> Panic" and sec: "load sec = Ok st0" "st_ok st0"
    and j: "event \<longrightarrow> sq_wait q" "event \<or> \<not> queued_in (sq_waiter q) st0"
    and t: "lock_transaction h (set_attempt q current create event) sec = (x, sec1, woken)"
  shows "(\<exists>e. x = Err e \<and> call_done q (Err e) sec1)
    \<or> (\<exists>ev. x = Ok (None, ev) \<and> call_done q (Ok ()) sec1)
    \<or> (\<exists>b. x = Ok (Some b, True) \<and> sq_wait q \<and> section_ok sec1)"
proof -
  from attempt_transaction [OF sec w c t] obtain st st' where
    a: "set_attempt q current create event (reap h st0) = (x, st)"
    and l: "load sec1 = Ok st'" "st_ok st'" "st_locks st' = st_locks st" "st_waiters st' = st_waiters st" .
  have j': "event \<or> \<not> queued_in (sq_waiter q) (reap h st0)" using j(2) queued_in_simps(2) by blast
  have okr: "st_ok (reap h st0)" by (rule st_ok_reap [OF sec(2)])
  have q: "queued_in (sq_waiter q) st' = queued_in (sq_waiter q) st" by (rule queued_in_cong [OF l(4)])
  consider (err) e where "x = Err e" | (none) ev where "x = Ok (None, ev)" | (some) b ev where "x = Ok (Some b, ev)"
    using body_okD(2) [OF set_attempt_ok [OF w c] okr a] by (metis outcome.exhaust surj_pair option.exhaust)
  then show ?thesis
  proof cases
    case err
    from attempt_error(2) [OF a [unfolded err] c j(1) j'] q l err show ?thesis by (simp add: call_done_def)
  next
    case none
    note s = attempt_success [OF a [unfolded none] c okr w]
    have "locks_wf (st_locks (reap h st0))" using okr by (simp add: st_ok_def)
    with s(1,2) q l none show ?thesis by (auto simp: call_done_def)
  next
    case some
    from attempt_blocked [OF a [unfolded some] c] l some show ?thesis by (auto simp: section_ok_def)
  qed
qed

lemma set_loop_result:
  assumes w: "valid_record (sq_wanted q)"
  shows "\<forall>r \<in> set rounds. round_ok r \<Longrightarrow> load sec = Ok st0 \<Longrightarrow> st_ok st0 \<Longrightarrow>
    event \<longrightarrow> sq_wait q \<Longrightarrow> event \<or> \<not> queued_in (sq_waiter q) st0 \<Longrightarrow>
    set_loop q rounds event sec = Some (res, sec') \<Longrightarrow> call_done q res sec'"
proof (induction rounds arbitrary: event sec st0)
  case (Cons r rounds)
  have ro: "sr_create r \<noteq> Panic" "we_open (sr_wait r) \<noteq> Panic" "\<And>s. section_ok s \<Longrightarrow> section_ok (sr_others r s)"
    using Cons.prems(1) by (simp_all add: round_ok_def)
  obtain x sec1 woken where t: "lock_transaction (sr_host r) (set_attempt q (sr_current r) (sr_create r) event) sec = (x, sec1, woken)"
    by (rule prod_cases3)
  from attempt_round [OF w ro(1) Cons.prems(2-5) t] consider
    (err) e where "x = Err e" "call_done q (Err e) sec1" | (none) ev where "x = Ok (None, ev)" "call_done q (Ok ()) sec1"
    | (some) b where "x = Ok (Some b, True)" "sq_wait q" "section_ok sec1" by blast
  then show ?case
  proof cases
    case err
    with Cons.prems(6) t show ?thesis by simp
  next
    case none
    with Cons.prems(6) t show ?thesis by simp
  next
    case some
    from ro(3) [OF some(3)] obtain st2 where l2: "load (sr_others r sec1) = Ok st2" "st_ok st2"
      by (auto simp: section_ok_def)
    show ?thesis
    proof (cases "wait_for_change (sr_wait r) b")
      case (Ok u)
      with Cons.prems(6) t some(1) have "set_loop q rounds True (sr_others r sec1) = Some (res, sec')" by simp
      with Cons.IH [OF _ l2, of True] Cons.prems(1) some(2) show ?thesis by simp
    next
      case (Err e)
      from cancel_transaction [OF l2, of "sr_host_after r" "sq_waiter q"] obtain sec3 woken' st3 where
        c: "lock_transaction (sr_host_after r) (cancel_body (sq_waiter q)) (sr_others r sec1) = (Ok (), sec3, woken')"
        "load sec3 = Ok st3" "st_ok st3" "\<not> queued_in (sq_waiter q) st3" by blast
      with Cons.prems(6) t some(1) Err have "res = Err e" "sec' = sec3" by simp_all
      with c show ?thesis by (simp add: call_done_def)
    next
      case Panic
      with wait_no_panic [OF ro(2)] show ?thesis by simp
    qed
  qed
qed simp

section \<open>The inodes an exec closes\<close>

lemma le_nat_take8:
  assumes "length bs = 8"
  shows "u64_le (word_of_nat (le_nat bs)) = bs"
  using le_nat_less [of bs] assms by (simp add: u64_le_def unat_of_nat le_bytes_le_nat)

interpretation ino: fixed_codec 32 "\<lambda>i. length (in_id i) = 16" inode_encode inode_decode
proof unfold_locales
  show "length (inode_encode i) = 32" if "length (in_id i) = 16" for i using that by (simp add: inode_encode_def)
  show "inode_decode (inode_encode i) = i" if "length (in_id i) = 16" for i
    by (simp add: inode_encode_def inode_decode_def)
  fix bs :: bytes
  assume n: "length bs = 32"
  then show "length (in_id (inode_decode bs)) = 16" by (simp add: inode_decode_def)
  have "take 8 bs @ take 8 (drop 8 bs) @ drop 16 bs = bs"
    by (metis append_take_drop_id drop_drop numeral_plus_numeral semiring_norm(2) semiring_norm(6))
  with n le_nat_take8 [of "take 8 bs"] le_nat_take8 [of "take 8 (drop 8 bs)"]
  show "inode_encode (inode_decode bs) = bs" by (simp add: inode_encode_def inode_decode_def)
qed simp

definition fd_ok :: "lock_fd \<Rightarrow> bool" where
  "fd_ok e \<longleftrightarrow> (\<forall>v bs. fe_info e = Ok (v, bs) \<longrightarrow> length bs = 16)"

lemma inode_from_entry_id: "fd_ok e \<Longrightarrow> inode_from_entry e = Ok i \<Longrightarrow> length (in_id i) = 16"
  by (auto simp: inode_from_entry_def fd_ok_def split: if_splits)

lemma closed_inodes_id:
  "\<forall>e \<in> set es. fd_ok e \<Longrightarrow> closed_inodes es = Ok is \<Longrightarrow> \<forall>i \<in> set is. length (in_id i) = 16"
  by (induction es arbitrary: "is") (auto split: if_splits simp: inode_from_entry_id)

lemma closed_inodes_set:
  "closed_inodes es = Ok is \<Longrightarrow> set is = {i. \<exists>e \<in> set es. fe_cloexec e \<and> lockable_fd e \<and> inode_from_entry e = Ok i}"
  by (induction es arbitrary: "is") (auto split: if_splits)

section \<open>Concrete inputs\<close>

definition demo_inode :: inode where
  "demo_inode = \<lparr>in_backing = 0, in_volume = 5, in_id = replicate 16 7\<rparr>"

definition demo_owner :: "u32 \<Rightarrow> owner" where
  "demo_owner p = \<lparr>ow_pid = p, ow_namespace = 1, ow_born = 100\<rparr>"

definition demo_wanted :: "u32 \<Rightarrow> u64 \<Rightarrow> u64 \<Rightarrow> lock_kind \<Rightarrow> lock_record" where
  "demo_wanted p a b k = make_wanted demo_inode (demo_owner p) \<lparr>rg_start = a, rg_end = b\<rparr> k"

text \<open>Every process is registered under its own number and every thread runs.\<close>

definition demo_host :: lock_host where
  "demo_host = \<lparr>lh_lookup = (\<lambda>p. Some \<lparr>je_pid = p, je_namespace_pid = p, je_namespace = 1, je_start_ticks = 100, je_flags = 0\<rparr>),
     lh_pinnable = (\<lambda>_. True), lh_thread_runs = (\<lambda>_ _. True)\<rparr>"

definition demo_request :: "lock_record \<Rightarrow> bool \<Rightarrow> bool \<Rightarrow> set_request" where
  "demo_request wanted unlock wait =
     \<lparr>sq_wanted = wanted, sq_unlock = unlock, sq_wait = wait, sq_ofd = False,
      sq_waiter = \<lparr>wt_wanted = wanted, wt_process = rc_owner wanted, wt_host = ow_pid (rc_owner wanted), wt_thread = 1\<rparr>\<rparr>"

definition demo_locked :: lock_section where
  "demo_locked = after demo_host
     (set_attempt (demo_request (demo_wanted 10 0 9 Write) False False) True (Ok ()) False) fresh_section"

lemma demo_valid: "a \<le> b \<Longrightarrow> b \<le> 0x7FFFFFFFFFFFFFFF \<Longrightarrow> valid_record (demo_wanted p a b k)"
  by (simp add: valid_record_def demo_wanted_def make_wanted_def)

lemma demo_locked_reachable: "lock_reachable demo_locked"
  unfolding lock_reachable_def demo_locked_def
  by (rule r_into_rtranclp, rule set_step) (simp_all add: demo_request_def demo_valid)


lemma fresh_load: "load fresh_section = Ok \<lparr>st_locks = [], st_waiters = [], st_dirty = False, st_wake = False\<rparr>"
  by (simp add: load_def fresh_section_def get_bank_def)
lemma replaced_empty: "replaced [] w False = [w]" 
  by (simp add: replaced_def merge_push_def)
lemma demo_load: "load demo_locked = Ok \<lparr>st_locks = [demo_wanted 10 0 9 Write], st_waiters = [], st_dirty = False, st_wake = False\<rparr>"
proof -
  let ?body = "set_attempt (demo_request (demo_wanted 10 0 9 Write) False False) True (Ok ()) False"
  let ?st = "\<lparr>st_locks = [demo_wanted 10 0 9 Write], st_waiters = [], st_dirty = True, st_wake = True\<rparr>"
  have b: "?body (reap demo_host \<lparr>st_locks = [], st_waiters = [], st_dirty = False, st_wake = False\<rparr>) = (Ok (None, False), ?st)"
    by (simp add: reap_def set_attempt_def demo_request_def conflict_def replace_def remove_waiter_def replaced_empty LOCK_CAPACITY_def)
  have "lock_transaction demo_host ?body fresh_section
      = (Ok (None, False), fold (\<lambda>f. f) (write_section fresh_section ?st) fresh_section, [])"
    unfolding lock_transaction_def fresh_load b outcome.case prod.case by (simp add: commit_def write_section_def LOCK_CAPACITY_def)
  then show ?thesis unfolding demo_locked_def after_def using commit_load [OF fresh_load, of ?st]
    by (simp add: LOCK_CAPACITY_def)
qed

lemma demo_owner_alive: "p \<noteq> 0 \<Longrightarrow> owner_alive demo_host (demo_owner p)"
  by (simp add: owner_alive_def is_description_def live_entry_def demo_host_def demo_owner_def owner_from_entry_def)

lemma demo_reap: "reap demo_host \<lparr>st_locks = [demo_wanted 10 0 9 Write], st_waiters = [], st_dirty = False, st_wake = False\<rparr>
    = \<lparr>st_locks = [demo_wanted 10 0 9 Write], st_waiters = [], st_dirty = False, st_wake = False\<rparr>"
  using demo_owner_alive [of 10] by (simp add: reap_def demo_wanted_def make_wanted_def)

lemma demo_conflict: "conflicts (demo_wanted 10 0 9 Write) (demo_wanted 20 5 6 Read)"
  by (simp add: conflicts_def demo_wanted_def make_wanted_def overlaps_def demo_owner_def)

lemma demo_busy:
  "lock_transaction demo_host (set_attempt (demo_request (demo_wanted 20 5 6 Read) False False) True (Ok ()) False) demo_locked
     = (Err EAGAIN, demo_locked, [])"
proof -
  have "set_attempt (demo_request (demo_wanted 20 5 6 Read) False False) True (Ok ()) False
      \<lparr>st_locks = [demo_wanted 10 0 9 Write], st_waiters = [], st_dirty = False, st_wake = False\<rparr>
    = (Err EAGAIN, \<lparr>st_locks = [demo_wanted 10 0 9 Write], st_waiters = [], st_dirty = False, st_wake = False\<rparr>)"
    using demo_conflict by (simp add: set_attempt_def demo_request_def conflict_def)
  then show ?thesis by (simp add: lock_transaction_def demo_load demo_reap)
qed

section \<open>Properties\<close>

text \<open>C3: (invariant) after any sequence of requests, unlocks, closes, cancelled waits, queries and
  deaths of processes in the middle of a commit, the section loads; its locks are sorted,
  disjoint and merged per owner and fit the table, no thread waits twice, and wherever two owners
  hold locks on the same byte of the same file neither lock is a write lock.\<close>

theorem locks_exclusive:
  assumes "lock_reachable sec"
  shows "\<exists>st. load sec = Ok st \<and> sorted_wrt gapped (st_locks st) \<and> length (st_locks st) \<le> LOCK_CAPACITY
    \<and> distinct (map thread_key (st_waiters st))
    \<and> (\<forall>i p q b k l. held (st_locks st) (i, p, b) = Some k \<longrightarrow> held (st_locks st) (i, q, b) = Some l \<longrightarrow> p \<noteq> q \<longrightarrow>
          k \<noteq> kind_raw Write \<and> l \<noteq> kind_raw Write)"
proof -
  from reachable_section_ok [OF assms] obtain st where st: "load sec = Ok st" "st_ok st" by (auto simp: section_ok_def)
  then have wf: "locks_wf (st_locks st)" and ex: "exclusive (covered (st_locks st))" by (simp_all add: st_ok_def)
  from ex have "held (st_locks st) (i, p, b) = Some k \<longrightarrow> held (st_locks st) (i, q, b) = Some l \<longrightarrow> p \<noteq> q \<longrightarrow>
      k \<noteq> kind_raw Write" for i p q b k l
    unfolding held_iff [OF wf] exclusive_def by blast
  with st show ?thesis by (auto simp: st_ok_def locks_wf_def)
qed

theorem locks_exclusive_witness:
  "\<exists>st. load demo_locked = Ok st \<and> length (st_locks st) \<le> LOCK_CAPACITY"
  using locks_exclusive [OF demo_locked_reachable] by blast

text \<open>C6: (refinement) replacing a range refines the map from bytes to locks: on a well-formed
  list, exactly the bytes of the range of that owner on that inode change, to the new kind or to
  unlocked, and the result is again well-formed. A list that would exceed the table is
  refused with \<open>ENOLCK\<close> and nothing changes.\<close>

theorem replace_refines_bytes:
  assumes "locks_wf (st_locks st)" and "valid_record wanted" and "replace wanted unlock st = (res, st')"
  shows "res = Ok () \<and> locks_wf (st_locks st') \<and> held (st_locks st') = byte_replace wanted unlock (held (st_locks st))
    \<or> res = Err ENOLCK \<and> st' = st"
  using assms(3) held_replaced [OF assms(1,2), of unlock] replaced_correct(1) [OF assms(1,2), of unlock]
  by (auto simp: replace_def Let_def split: if_splits)

theorem replace_refines_bytes_witness:
  "fst (replace (demo_wanted 10 4 5 Read) False \<lparr>st_locks = [demo_wanted 10 0 9 Write], st_waiters = [], st_dirty = False, st_wake = False\<rparr>)
     \<in> {Ok (), Err ENOLCK}"
proof -
  let ?st = "\<lparr>st_locks = [demo_wanted 10 0 9 Write], st_waiters = [], st_dirty = False, st_wake = False\<rparr>"
  have "locks_wf (st_locks ?st)" using demo_valid [of 0 9] by (simp add: locks_wf_def)
  from replace_refines_bytes [OF this demo_valid [of 4 5] prod.collapse [symmetric]] show ?thesis by auto
qed

text \<open>C9: (safety) a commit is atomic under the death of its process: whatever the request, when
  the process dies after any number of its writes the other processes load either the state
  before the transaction or the complete state after it.\<close>

theorem commit_crash_atomic:
  assumes "lock_reachable sec" and "valid_record (sq_wanted q)" and "create \<noteq> Panic"
  shows "load (crashed n h (set_attempt q current create event) sec) = load sec
    \<or> load (crashed n h (set_attempt q current create event) sec) = load (after h (set_attempt q current create event) sec)"
proof -
  let ?body = "set_attempt q current create event"
  from reachable_section_ok [OF assms(1)] obtain st0 where s: "load sec = Ok st0" "st_ok st0" by (auto simp: section_ok_def)
  obtain r st where b: "?body (reap h st0) = (r, st)" by fastforce
  note bd = body_okD(1,2) [OF set_attempt_ok [OF assms(2,3)] st_ok_reap [OF s(2)] b]
  show ?thesis
  proof (cases "st_dirty st \<and> \<not> n < 5")
    case True
    with bd(1) have "commit st sec = (Ok (), fold (\<lambda>f. f) (take n (commit_steps (1 - sec_active sec) st)) sec)"
      by (simp add: st_ok_def commit_def commit_steps_def Let_def)
    with True s b bd have "after h ?body sec = crashed n h ?body sec"
      by (cases r) (simp_all add: after_def lock_transaction_def crashed_def st_ok_def)
    then show ?thesis by simp
  next
    case False
    with s b commit_prefix_load [OF s(1), of n st] show ?thesis by (auto simp: crashed_def write_section_def Let_def)
  qed
qed

theorem commit_crash_atomic_witness:
  "load (crashed 3 demo_host (set_attempt (demo_request (demo_wanted 10 20 29 Read) False False) True (Ok ()) False) demo_locked)
     \<in> {load demo_locked,
        load (after demo_host (set_attempt (demo_request (demo_wanted 10 20 29 Read) False False) True (Ok ()) False) demo_locked)}"
  using commit_crash_atomic [OF demo_locked_reachable, of "demo_request (demo_wanted 10 20 29 Read) False False" "Ok ()"]
  by (simp add: demo_request_def demo_valid)

text \<open>C28: (equivalence) the deadlock test of a blocking request is exactly reachability in the
  waits-for graph: it answers yes if and only if some owner that stops the request waits,
  directly or through others, for the owner that asks.\<close>

theorem deadlock_iff_cycle:
  "would_deadlock st wanted \<longleftrightarrow>
     (\<exists>p. p \<in> set (blockers (st_locks st) wanted) \<and> (p, rc_owner wanted) \<in> (waits_for st)\<^sup>*)"
  unfolding would_deadlock_iff by blast

text \<open>A request that fails changes no lock: whatever error one attempt answers
  (a changed descriptor, a conflict, a deadlock, a full table, no event), the locks the section
  holds afterwards are those it held before, less those of owners that had died.\<close>

theorem failed_request_keeps_locks:
  assumes "lock_reachable sec" and "load sec = Ok st0" and "valid_record (sq_wanted q)" and "create \<noteq> Panic"
    and "lock_transaction h (set_attempt q current create event) sec = (Err e, sec', woken)"
  shows "\<exists>st. load sec' = Ok st \<and> st_locks st = filter (\<lambda>r. owner_alive h (rc_owner r)) (st_locks st0)"
proof -
  from reachable_section_ok [OF assms(1)] assms(2) have ok: "st_ok st0" by (auto simp: section_ok_def)
  from attempt_transaction [OF assms(2) ok assms(3-5)] obtain st st' where
    a: "set_attempt q current create event (reap h st0) = (Err e, st)"
    and l: "load sec' = Ok st'" "st_locks st' = st_locks st" by metis
  have "st_locks st = st_locks (reap h st0)"
    using a assms(4) by (cases rule: set_attempt_cases) (auto simp: replace_def Let_def split: if_splits)
  with l show ?thesis by (simp add: reap_def Let_def)
qed

theorem failed_request_keeps_locks_witness:
  "\<exists>st. load demo_locked = Ok st \<and> st_locks st = filter (\<lambda>r. owner_alive demo_host (rc_owner r)) [demo_wanted 10 0 9 Write]"
  using failed_request_keeps_locks [OF demo_locked_reachable demo_load _ _ demo_busy]
  by (simp add: demo_request_def demo_valid)

lemma held_granted:
  "locks_wf locks \<Longrightarrow> valid_record wanted \<Longrightarrow> b \<in> rng wanted \<Longrightarrow>
     held (replaced locks wanted unlock) (rc_inode wanted, rc_owner wanted, b) = (if unlock then None else Some (rc_kind wanted))"
  by (simp add: held_replaced byte_replace_def)

text \<open>What a finished \<open>fcntl\<close> lock call guarantees, over any number of waits
  during which other processes rearrange the section: it did not panic, its thread is no
  longer queued, and on success every byte of the range is held with the requested kind, or
  not held any more after an unlock.\<close>

theorem set_owned_result:
  assumes "lock_reachable sec" and "load sec = Ok st0" and "\<forall>w \<in> set (st_waiters st0). thread_key w \<noteq> (host, thread)"
    and "\<forall>r \<in> set rounds. round_ok r"
    and call: "set_owned ino ow rng' kind wait ofd process host thread rounds sec = Some (res, sec')"
  shows "res \<noteq> Panic \<and> (\<exists>st. load sec' = Ok st \<and> (\<forall>w \<in> set (st_waiters st). thread_key w \<noteq> (host, thread))
    \<and> (res = Ok () \<longrightarrow> (\<forall>b. unat (rg_start rng') \<le> b \<and> b \<le> unat (rg_end rng') \<longrightarrow>
          held (st_locks st) (ino, ow, b) = map_option kind_raw kind)))"
proof (cases "range_new (rg_start rng') (rg_end rng')")
  case (Err e)
  with assms(2,3) call show ?thesis by (auto simp: set_owned_def)
next
  case Panic
  then show ?thesis by (simp add: range_new_def split: if_splits)
next
  case (Ok r)
  let ?wanted = "make_wanted ino ow rng' (case kind of None \<Rightarrow> Read | Some k \<Rightarrow> k)"
  let ?w = "\<lparr>wt_wanted = ?wanted, wt_process = process, wt_host = host, wt_thread = thread\<rparr>"
  let ?q = "\<lparr>sq_wanted = ?wanted, sq_unlock = (kind = None), sq_wait = wait, sq_ofd = ofd, sq_waiter = ?w\<rparr>"
  have v: "valid_record (sq_wanted ?q)"
    using Ok by (auto simp: range_new_def make_wanted_def valid_record_def split: if_splits)
  from reachable_section_ok [OF assms(1)] assms(2) have ok: "st_ok st0" by (auto simp: section_ok_def)
  have key: "thread_key ?w = (host, thread)" by (simp add: thread_key_def)
  have "\<not> queued_in (sq_waiter ?q) st0" using assms(3) key by (auto simp: queued_in_def)
  moreover have "set_loop ?q rounds False sec = Some (res, sec')" using call Ok by (simp add: set_owned_def Let_def)
  ultimately have "call_done ?q res sec'" by (intro set_loop_result [OF v assms(4,2) ok, of False]) simp_all
  then obtain st where st: "res \<noteq> Panic" "load sec' = Ok st" "\<not> queued_in ?w st"
    "res = Ok () \<longrightarrow> (\<exists>locks. locks_wf locks \<and> st_locks st = replaced locks ?wanted (kind = None))"
    unfolding call_done_def by auto
  have "held (st_locks st) (ino, ow, b) = map_option kind_raw kind"
    if "res = Ok ()" "unat (rg_start rng') \<le> b \<and> b \<le> unat (rg_end rng')" for b
  proof -
    from st(4) that(1) obtain locks where l: "locks_wf locks" "st_locks st = replaced locks ?wanted (kind = None)" by auto
    have "b \<in> rng ?wanted" using that(2) by (simp add: rng_def make_wanted_def)
    from held_granted [OF l(1) _ this, of "kind = None"] v l(2) show ?thesis
      by (cases kind) (simp_all add: make_wanted_def)
  qed
  moreover have "\<forall>w \<in> set (st_waiters st). thread_key w \<noteq> (host, thread)"
    using st(3) unfolding queued_in_def key by (metis image_eqI)
  ultimately show ?thesis using st(1,2) by blast
qed

definition demo_round :: set_round where
  "demo_round = \<lparr>sr_host = demo_host, sr_current = True, sr_create = Ok (),
     sr_wait = \<lparr>we_host = demo_host, we_open = Ok (), we_gone_after = False, we_no_interrupt = False, we_pending = False,
       we_value = 0, we_pending_after = False\<rparr>, sr_others = id, sr_host_after = demo_host\<rparr>"

lemma demo_round_ok: "round_ok demo_round" by (simp add: round_ok_def demo_round_def)

lemma demo_set_busy:
  "set_owned demo_inode (demo_owner 20) \<lparr>rg_start = 5, rg_end = 6\<rparr> (Some Read) False False (demo_owner 20) 20 1 [demo_round] demo_locked
     = Some (Err EAGAIN, demo_locked)"
  using demo_busy
  by (simp add: set_owned_def range_new_def demo_round_def demo_request_def demo_wanted_def make_wanted_def demo_owner_def)

theorem set_owned_result_witness:
  "\<exists>st. load demo_locked = Ok st \<and> (\<forall>w \<in> set (st_waiters st). thread_key w \<noteq> (20, 1))"
  using set_owned_result [OF demo_locked_reachable demo_load _ _ demo_set_busy] demo_round_ok by auto

lemma attempt_nonblocking:
  assumes "set_attempt q current create event st = (Ok (Some b, ev), st')"
  shows "sq_wait q"
proof (rule ccontr)
  assume n: "\<not> sq_wait q"
  show False
  proof (cases "if sq_unlock q then None else conflict st (sq_wanted q)")
    case None
    obtain x y where "replace (sq_wanted q) (sq_unlock q) (remove_waiter (sq_waiter q) st) = (x, y)" by fastforce
    with assms None show False by (cases x) (auto simp: set_attempt_def simp del: if_split split: if_split_asm)
  next
    case (Some c)
    with assms n show False by (auto simp: set_attempt_def simp del: if_split split: if_split_asm)
  qed
qed

lemma transaction_nonblocking:
  assumes n: "\<not> sq_wait q" and t: "lock_transaction h (set_attempt q current create event) s = (x, s', woken)"
  shows "x \<noteq> Ok (Some b, ev)"
proof (cases "load s")
  case (Ok st0)
  obtain y st where y: "set_attempt q current create event (reap h st0) = (y, st)" by fastforce
  obtain c s2 where c: "commit st s = (c, s2)" by fastforce
  have "y \<noteq> Ok (Some b, ev)" using attempt_nonblocking y n by blast
  with t Ok y c show ?thesis by (cases y; cases c) (auto simp: lock_transaction_def split: if_splits)
qed (use t in \<open>auto simp: lock_transaction_def\<close>)

text \<open>A request that does not ask to wait finishes in its first round, whatever the
  section, the host and the request; it answers \<open>EAGAIN\<close> rather than block.\<close>

theorem nonblocking_set_returns:
  assumes "\<not> wait"
  shows "\<exists>res sec'. set_owned ino ow rng' kind wait ofd process host thread (r # rounds) sec = Some (res, sec')"
proof -
  show ?thesis
  proof (cases "range_new (rg_start rng') (rg_end rng')")
    case (Ok rr)
    let ?wanted = "make_wanted ino ow rng' (case kind of None \<Rightarrow> Read | Some k \<Rightarrow> k)"
    let ?q = "\<lparr>sq_wanted = ?wanted, sq_unlock = (kind = None), sq_wait = wait, sq_ofd = ofd,
      sq_waiter = \<lparr>wt_wanted = ?wanted, wt_process = process, wt_host = host, wt_thread = thread\<rparr>\<rparr>"
    obtain x sec1 woken where t: "lock_transaction (sr_host r) (set_attempt ?q (sr_current r) (sr_create r) False) sec = (x, sec1, woken)"
      by (rule prod_cases3)
    have "x \<noteq> Ok (Some b, ev)" for b ev using transaction_nonblocking [OF _ t, of b ev] assms by simp
    then obtain ev where "x = Ok (None, ev) \<or> (\<exists>e. x = Err e) \<or> x = Panic"
      by (metis outcome.exhaust surj_pair option.exhaust)
    then have "\<exists>res sec'. set_loop ?q (r # rounds) False sec = Some (res, sec')" using t by auto
    then show ?thesis using Ok by (simp add: set_owned_def Let_def)
  qed (simp_all add: set_owned_def)
qed

theorem nonblocking_set_returns_witness:
  "\<exists>res sec'. set_owned demo_inode (demo_owner 20) \<lparr>rg_start = 5, rg_end = 6\<rparr> (Some Read) False False (demo_owner 20) 20 1
     [demo_round] demo_locked = Some (res, sec')"
  by (rule nonblocking_set_returns) simp

lemma query_transaction:
  assumes "load sec = Ok st0" "st_ok st0" "current \<noteq> Panic"
  shows "fst (lock_transaction h (query_body current wanted) sec) = fst (query_body current wanted (reap h st0))"
proof -
  obtain r st where b: "query_body current wanted (reap h st0) = (r, st)" by fastforce
  from transaction_ok [OF assms(1,2) query_body_ok [OF assms(3)] b] b show ?thesis by auto
qed

text \<open>The answer of a query is the one a request would get: on the same section
  and host, \<open>F_GETLK\<close> reports no conflict exactly when a non-blocking request for the
  same range, owner and kind is not refused with \<open>EAGAIN\<close>; when it reports one, the
  section holds a lock of that range whose owner is another one.\<close>

theorem query_predicts_set:
  assumes "lock_reachable sec" and "sq_wanted q = make_wanted ino ow rng' kind" and "\<not> sq_unlock q" and "\<not> sq_wait q"
    and "range_new (rg_start rng') (rg_end rng') = Ok rng'" and "create \<noteq> Panic"
    and query: "query_owned h (Ok True) ino ow rng' kind sec = (ans, sec', woken)"
  shows "(ans = Ok None \<longleftrightarrow> fst (lock_transaction h (set_attempt q True create event) sec) \<noteq> Err EAGAIN)
    \<and> (\<forall>c. ans = Ok (Some c) \<longrightarrow> (\<exists>st r. load sec = Ok st \<and> r \<in> set (st_locks st)
          \<and> conflicts r (sq_wanted q) \<and> rc_range r = cf_range c))"
proof -
  from reachable_section_ok [OF assms(1)] obtain st0 where s: "load sec = Ok st0" "st_ok st0" by (auto simp: section_ok_def)
  let ?st = "reap h st0"
  have v: "valid_record (sq_wanted q)"
    using assms(2,5) by (auto simp: range_new_def make_wanted_def valid_record_def split: if_splits)
  have ans: "ans = fst (query_body (Ok True) (sq_wanted q) ?st)"
    using query query_transaction [OF s, of "Ok True" h "sq_wanted q"] assms(2,5) by (simp add: query_owned_def)
  obtain x st where x: "set_attempt q True create event ?st = (x, st)" by fastforce
  from transaction_ok [OF s set_attempt_ok [OF v assms(6)] x] have t: "fst (lock_transaction h (set_attempt q True create event) sec) = x"
    by auto
  have busy: "x = Err EAGAIN \<longleftrightarrow> conflict ?st (sq_wanted q) \<noteq> None"
    using x assms(3,4) by (auto simp: set_attempt_def replace_def Let_def EAGAIN_def ENOLCK_def split: option.splits if_splits)
  have "\<exists>st r. load sec = Ok st \<and> r \<in> set (st_locks st) \<and> conflicts r (sq_wanted q) \<and> rc_range r = cf_range c"
    if "ans = Ok (Some c)" for c
  proof -
    from that ans obtain r where "conflict ?st (sq_wanted q) = Some r" "rc_range r = cf_range c"
      by (auto simp: query_body_def)
    moreover from this(1) have "r \<in> set (st_locks ?st)" "conflicts r (sq_wanted q)"
      by (auto simp: conflict_def find_Some_iff)
    ultimately show ?thesis using s(1) by (auto simp: reap_def Let_def)
  qed
  moreover have "ans = Ok None \<longleftrightarrow> conflict ?st (sq_wanted q) = None" using ans by (simp add: query_body_def)
  ultimately show ?thesis using busy t by auto
qed

theorem query_predicts_set_witness:
  "fst (query_owned demo_host (Ok True) demo_inode (demo_owner 20) \<lparr>rg_start = 5, rg_end = 6\<rparr> Read demo_locked) \<noteq> Ok None"
proof -
  let ?q = "demo_request (demo_wanted 20 5 6 Read) False False"
  obtain ans sec' woken where
    a: "query_owned demo_host (Ok True) demo_inode (demo_owner 20) \<lparr>rg_start = 5, rg_end = 6\<rparr> Read demo_locked = (ans, sec', woken)"
    by (rule prod_cases3)
  have "ans = Ok None \<longleftrightarrow> fst (lock_transaction demo_host (set_attempt ?q True (Ok ()) False) demo_locked) \<noteq> Err EAGAIN"
    using query_predicts_set [OF demo_locked_reachable _ _ _ _ _ a, of ?q "Ok ()" False]
    by (simp add: demo_request_def demo_wanted_def range_new_def)
  with demo_busy a show ?thesis by simp
qed

text \<open>Exec drops exactly the locks of the descriptors it closes: the bytes
  serialized before the exec decode after it to the inodes of the lockable close-on-exec
  descriptors, so that restoring them succeeds and the caller's locks on those
  inodes, and no others, are gone.\<close>

theorem exec_releases_closed:
  assumes "lock_reachable sec" and "load sec = Ok st0" and "\<forall>e \<in> set entries. fd_ok e"
    and "serialize_exec_closed entries = Ok payload"
  shows "\<exists>sec' woken st. restore h (Some ow) payload sec = (True, sec', woken) \<and> load sec' = Ok st
    \<and> st_locks st = filter (\<lambda>r. owner_alive h (rc_owner r)
        \<and> \<not> (rc_owner r = ow \<and> (\<exists>e \<in> set entries. fe_cloexec e \<and> lockable_fd e \<and> inode_from_entry e = Ok (rc_inode r))))
        (st_locks st0)"
proof -
  from assms(4) obtain is' where c: "closed_inodes entries = Ok is'"
    and p: "payload = concat (map inode_encode (sort_key inode_key (remdups is')))"
    by (auto simp: serialize_exec_closed_def)
  have v: "\<forall>i \<in> set (sort_key inode_key (remdups is')). length (in_id i) = 16"
    using closed_inodes_id [OF assms(3) c] by simp
  have len: "length payload mod 32 = 0" using ino.length_encode_all [OF v] p by simp
  have dec: "map inode_decode (chunks_exact 32 payload) = sort_key inode_key (remdups is')"
    using ino.decode_encode_all [OF v] p by simp
  from reachable_section_ok [OF assms(1)] assms(2) have ok: "st_ok st0" by (auto simp: section_ok_def)
  obtain st where b: "release_body ow (sort_key inode_key (remdups is')) (reap h st0) = (Ok (), st)"
    and st: "st_locks st = filter (\<lambda>r. rc_owner r \<noteq> ow \<or> rc_inode r \<notin> set is') (st_locks (reap h st0))"
    by (auto simp: release_body_def Let_def)
  from transaction_ok [OF assms(2) ok release_body_ok b] obtain sec' woken st' where
    t: "release_inodes h ow (sort_key inode_key (remdups is')) sec = (Ok (), sec', woken)" "load sec' = Ok st'"
    "st_locks st' = st_locks st" unfolding release_inodes_def by blast
  have "restore h (Some ow) payload sec = (True, sec', woken)" using t(1) len dec by (simp add: restore_def)
  moreover have "st_locks st' = filter (\<lambda>r. owner_alive h (rc_owner r)
        \<and> \<not> (rc_owner r = ow \<and> (\<exists>e \<in> set entries. fe_cloexec e \<and> lockable_fd e \<and> inode_from_entry e = Ok (rc_inode r))))
        (st_locks st0)"
    unfolding t(3) st closed_inodes_set [OF c] by (auto simp: reap_def Let_def intro!: filter_cong)
  ultimately show ?thesis using t(2) by blast
qed

definition demo_fd :: lock_fd where
  "demo_fd = \<lparr>fe_path_only = False, fe_cloexec = True, fe_kind = File, fe_raw = 44, fe_tmpfs = Err EIO,
     fe_info = Ok (5, replicate 16 7)\<rparr>"

theorem exec_releases_closed_witness:
  "\<exists>sec' woken st. restore demo_host (Some (demo_owner 10)) (inode_encode demo_inode) demo_locked = (True, sec', woken)
     \<and> load sec' = Ok st \<and> st_locks st = []"
proof -
  have "fd_ok demo_fd" by (simp add: fd_ok_def demo_fd_def)
  moreover have i: "inode_from_entry demo_fd = Ok demo_inode" by (simp add: inode_from_entry_def demo_fd_def demo_inode_def)
  then have "serialize_exec_closed [demo_fd] = Ok (inode_encode demo_inode)"
    by (simp add: serialize_exec_closed_def) (simp add: demo_fd_def lockable_fd_def)
  ultimately show ?thesis
    using exec_releases_closed [OF demo_locked_reachable demo_load, of "[demo_fd]" "inode_encode demo_inode" demo_host "demo_owner 10"] i
    by (auto simp: demo_wanted_def make_wanted_def demo_fd_def lockable_fd_def)
qed

end
