(* ===== verification/Termios.thy ===== *)
theory Termios
  imports Vfs_Errno
begin

text \<open>
  The terminal settings of \<^verbatim>\<open>kinakaze-vfs/src/pty.rs\<close> and the flags the software line
  discipline of \<^verbatim>\<open>kinakaze-vfs/src/ldisc.rs\<close> adds to them. Only the flags that code tests or
  sets are named.
\<close>

record termios =
  c_iflag :: u32
  c_oflag :: u32
  c_cflag :: u32
  c_lflag :: u32
  c_line :: u8
  c_cc :: "u8 list"
  c_ispeed :: u32
  c_ospeed :: u32

text \<open>Bits of \<open>c_lflag\<close>, \<open>c_iflag\<close>, \<open>c_oflag\<close> and \<open>c_cflag\<close>.\<close>

definition ISIG :: u32 where "ISIG = 0x0001"
definition ICANON :: u32 where "ICANON = 0x0002"
definition ECHO :: u32 where "ECHO = 0x0008"
definition ECHOE :: u32 where "ECHOE = 0x0010"
definition ECHOK :: u32 where "ECHOK = 0x0020"
definition ECHONL :: u32 where "ECHONL = 0x0040"
definition NOFLSH :: u32 where "NOFLSH = 0x0080"
definition ECHOCTL :: u32 where "ECHOCTL = 0x0200"
definition ECHOPRT :: u32 where "ECHOPRT = 0x0400"
definition ECHOKE :: u32 where "ECHOKE = 0x0800"
definition IEXTEN :: u32 where "IEXTEN = 0x8000"

definition IGNBRK :: u32 where "IGNBRK = 0x0001"
definition BRKINT :: u32 where "BRKINT = 0x0002"
definition PARMRK :: u32 where "PARMRK = 0x0008"
definition ISTRIP :: u32 where "ISTRIP = 0x0020"
definition INLCR :: u32 where "INLCR = 0x0040"
definition IGNCR :: u32 where "IGNCR = 0x0080"
definition ICRNL :: u32 where "ICRNL = 0x0100"
definition IXON :: u32 where "IXON = 0x0400"
definition IXANY :: u32 where "IXANY = 0x0800"
definition IXOFF :: u32 where "IXOFF = 0x1000"
definition IMAXBEL :: u32 where "IMAXBEL = 0x2000"
definition IUTF8 :: u32 where "IUTF8 = 0x4000"

definition OPOST :: u32 where "OPOST = 0x0001"
definition ONLCR :: u32 where "ONLCR = 0x0004"
definition OCRNL :: u32 where "OCRNL = 0x0008"
definition ONOCR :: u32 where "ONOCR = 0x0010"
definition ONLRET :: u32 where "ONLRET = 0x0020"
definition TABDLY :: u32 where "TABDLY = 0x1800"
definition XTABS :: u32 where "XTABS = 0x1800"

definition CS8 :: u32 where "CS8 = 0x0030"
definition CSIZE :: u32 where "CSIZE = 0x0030"
definition CREAD :: u32 where "CREAD = 0x0080"
definition PARENB :: u32 where "PARENB = 0x0100"
definition HUPCL :: u32 where "HUPCL = 0x0400"
definition CLOCAL :: u32 where "CLOCAL = 0x0800"

text \<open>Indices of \<open>c_cc\<close>.\<close>

definition VINTR :: nat where "VINTR = 0"
definition VQUIT :: nat where "VQUIT = 1"
definition VERASE :: nat where "VERASE = 2"
definition VKILL :: nat where "VKILL = 3"
definition VEOF :: nat where "VEOF = 4"
definition VTIME :: nat where "VTIME = 5"
definition VMIN :: nat where "VMIN = 6"
definition VSTART :: nat where "VSTART = 8"
definition VSTOP :: nat where "VSTOP = 9"
definition VSUSP :: nat where "VSUSP = 10"
definition VEOL :: nat where "VEOL = 11"
definition VREPRINT :: nat where "VREPRINT = 12"
definition VDISCARD :: nat where "VDISCARD = 13"
definition VWERASE :: nat where "VWERASE = 14"
definition VLNEXT :: nat where "VLNEXT = 15"
definition VEOL2 :: nat where "VEOL2 = 16"

definition B38400 :: u32 where "B38400 = 15"
definition DISABLED :: u8 where "DISABLED = 0"

definition termios_default :: termios where
  "termios_default =
     \<lparr>c_iflag = ICRNL OR IXON OR BRKINT, c_oflag = OPOST OR ONLCR, c_cflag = CS8 OR CREAD OR CLOCAL,
      c_lflag = ISIG OR ICANON OR ECHO OR ECHOE OR ECHOK OR IEXTEN, c_line = 0,
      c_cc = (replicate 32 0)[VINTR := 0x03, VQUIT := 0x1c, VERASE := 0x7f, VKILL := 0x15, VEOF := 0x04,
        VSTART := 0x11, VSTOP := 0x13, VSUSP := 0x1a, VMIN := 1, VTIME := 0],
      c_ispeed = B38400, c_ospeed = B38400\<rparr>"

definition default_termios :: termios where
  "default_termios =
     (let t = termios_default in
      t\<lparr>c_iflag := c_iflag t OR IMAXBEL, c_cflag := c_cflag t OR HUPCL,
        c_lflag := c_lflag t OR (ECHOCTL OR ECHOKE),
        c_cc := (c_cc t)[VREPRINT := 0x12, VDISCARD := 0x0f, VWERASE := 0x17, VLNEXT := 0x16]\<rparr>)"

definition make_raw :: "termios \<Rightarrow> termios" where
  "make_raw t =
     t\<lparr>c_iflag := c_iflag t AND NOT (IGNBRK OR BRKINT OR PARMRK OR ISTRIP OR INLCR OR IGNCR OR ICRNL OR IXON),
       c_oflag := c_oflag t AND NOT OPOST,
       c_lflag := c_lflag t AND NOT (ECHO OR ECHONL OR ICANON OR IEXTEN OR ISIG),
       c_cflag := (c_cflag t AND NOT (CSIZE OR PARENB)) OR CS8,
       c_cc := (c_cc t)[VMIN := 1, VTIME := 0]\<rparr>"

definition SIGINT :: i32 where "SIGINT = 2"
definition SIGQUIT :: i32 where "SIGQUIT = 3"
definition SIGTSTP :: i32 where "SIGTSTP = 20"

end
