(* ===== verification/Ldisc.thy ===== *)
theory Ldisc
  imports Termios
begin

text \<open>
  The N_TTY line discipline of \<^verbatim>\<open>kinakaze-vfs/src/ldisc.rs\<close>: every function of the module, as a
  function from state to state. A read returns the bytes it copies. Sizes and columns are
  natural numbers; the one subtraction of the module that can wrap, in \<open>pending_byte\<close>, is
  written with the integer it stands for. Backing the cursor up is a loop that may run for
  ever, so it and everything that erases return \<open>None\<close> when it does.
\<close>

section \<open>State\<close>

definition INPUT_LIMIT :: nat where "INPUT_LIMIT = 4096"
definition OUTPUT_LIMIT :: nat where "OUTPUT_LIMIT = 16384"
definition IXOFF_HIGH_WATER :: nat where "IXOFF_HIGH_WATER = INPUT_LIMIT * 2 div 3"
definition IXOFF_LOW_WATER :: nat where "IXOFF_LOW_WATER = INPUT_LIMIT div 3"
definition TAB_WIDTH :: nat where "TAB_WIDTH = 8"
definition N_TTY :: i32 where "N_TTY = 0"

text \<open>The recognised numbers, \<open>N_TTY\<close> to \<open>N_SLCAN\<close> and \<open>N_GSM0710\<close> to \<open>N_NULL\<close>.\<close>

definition is_valid_ldisc :: "i32 \<Rightarrow> bool" where
  "is_valid_ldisc number \<longleftrightarrow>
     number \<in> {0, 1, 2, 3, 4, 5, 6, 7, 8, 9, 10, 11, 12, 13, 14, 15, 16, 17, 21, 22, 23, 24, 25, 26, 27}"

datatype read_policy =
    Canonical
  | Poll
  | Blocking (rp_min: nat)
  | ReadTimer (rp_timeout_ms: u32)
  | Interbyte (rp_min: nat) (rp_timeout_ms: u32)

datatype read_result = Data bytes | EndOfFile | WouldBlock

datatype queue = Input | Output | Both

datatype erase_kind = Character | Word | Line

record ldisc =
  ld_termios :: termios
  ld_input :: bytes
  ld_pending :: nat
  ld_lines :: "nat list"
  ld_output :: bytes
  ld_column :: nat
  ld_canon_column :: nat
  ld_stopped :: bool
  ld_throttled :: bool
  ld_literal :: bool
  ld_erase_printing :: bool
  ld_number :: i32

definition ldisc_new :: "termios \<Rightarrow> ldisc" where
  "ldisc_new t =
     \<lparr>ld_termios = t, ld_input = [], ld_pending = 0, ld_lines = [], ld_output = [], ld_column = 0,
      ld_canon_column = 0, ld_stopped = False, ld_throttled = False, ld_literal = False,
      ld_erase_printing = False, ld_number = N_TTY\<rparr>"

definition iflag :: "ldisc \<Rightarrow> u32 \<Rightarrow> bool" where "iflag d f \<longleftrightarrow> c_iflag (ld_termios d) AND f \<noteq> 0"
definition lflag :: "ldisc \<Rightarrow> u32 \<Rightarrow> bool" where "lflag d f \<longleftrightarrow> c_lflag (ld_termios d) AND f \<noteq> 0"
definition oflag :: "ldisc \<Rightarrow> u32 \<Rightarrow> bool" where "oflag d f \<longleftrightarrow> c_oflag (ld_termios d) AND f \<noteq> 0"
definition cc :: "ldisc \<Rightarrow> nat \<Rightarrow> u8" where "cc d i = c_cc (ld_termios d) ! i"

text \<open>A byte typed for an assigned control character.\<close>

definition typed :: "ldisc \<Rightarrow> nat \<Rightarrow> u8 \<Rightarrow> bool" where
  "typed d i byte \<longleftrightarrow> cc d i \<noteq> DISABLED \<and> byte = cc d i"

definition canonical :: "ldisc \<Rightarrow> bool" where
  "canonical d \<longleftrightarrow> ld_number d = N_TTY \<and> lflag d ICANON"

section \<open>Mode changes and queries\<close>

text \<open>Both mode changes reconcile the queue in the same way.\<close>

definition reconcile :: "bool \<Rightarrow> ldisc \<Rightarrow> ldisc" where
  "reconcile was_canonical d =
     (if was_canonical \<and> \<not> canonical d then d\<lparr>ld_pending := 0\<rparr>
      else if \<not> was_canonical \<and> canonical d
      then d\<lparr>ld_pending := length (ld_input d), ld_canon_column := ld_column d\<rparr>
      else d)"

definition retune :: "termios \<Rightarrow> ldisc \<Rightarrow> ldisc" where
  "retune t d =
     (let d1 = reconcile (canonical d) (d\<lparr>ld_termios := t\<rparr>) in
      if \<not> iflag d1 IXON then d1\<lparr>ld_stopped := False\<rparr> else d1)"

definition set_number :: "i32 \<Rightarrow> ldisc \<Rightarrow> ldisc" where
  "set_number number d = reconcile (canonical d) (d\<lparr>ld_number := number\<rparr>)"

definition set_output_stopped :: "bool \<Rightarrow> ldisc \<Rightarrow> ldisc" where
  "set_output_stopped stopped d = d\<lparr>ld_stopped := stopped\<rparr>"

definition readable :: "ldisc \<Rightarrow> nat" where
  "readable d =
     (if canonical d then (case ld_lines d of [] \<Rightarrow> 0 | n # _ \<Rightarrow> n) else length (ld_input d))"

definition read_ready :: "ldisc \<Rightarrow> bool" where
  "read_ready d = (if canonical d then ld_lines d \<noteq> [] else ld_input d \<noteq> [])"

definition output_space :: "ldisc \<Rightarrow> nat" where
  "output_space d = OUTPUT_LIMIT - length (ld_output d)"

definition ldisc_read_policy :: "ldisc \<Rightarrow> read_policy" where
  "ldisc_read_policy d =
     (if canonical d then Canonical
      else
        let min = unat (cc d VMIN); timeout_ms = ucast (cc d VTIME) * 100 in
        if min = 0 \<and> timeout_ms = 0 then Poll
        else if min = 0 then ReadTimer timeout_ms
        else if timeout_ms = 0 then Blocking min
        else Interbyte min timeout_ms)"

section \<open>Output\<close>

definition push_output :: "bytes \<Rightarrow> ldisc \<Rightarrow> ldisc" where
  "push_output bs d = d\<lparr>ld_output := ld_output d @ bs\<rparr>"

definition tab_stop :: "nat \<Rightarrow> nat" where
  "tab_stop column = column + (TAB_WIDTH - column mod TAB_WIDTH)"

definition track_column :: "u8 \<Rightarrow> ldisc \<Rightarrow> ldisc" where
  "track_column byte d =
     (if byte = 0x0a \<or> byte = 0x0d then d\<lparr>ld_column := 0\<rparr>
      else if byte = 0x08 then d\<lparr>ld_column := ld_column d - 1\<rparr>
      else if byte = 0x09 then d\<lparr>ld_column := tab_stop (ld_column d)\<rparr>
      else if iflag d IUTF8 \<and> byte AND 0xc0 = 0x80 then d
      else if byte \<ge> 0x20 \<and> byte \<noteq> 0x7f then d\<lparr>ld_column := ld_column d + 1\<rparr>
      else d)"

text \<open>Post-processing of one byte; the flag says whether there was room.\<close>

definition output_char :: "u8 \<Rightarrow> ldisc \<Rightarrow> bool \<times> ldisc" where
  "output_char byte d =
     (if byte = 0x0a then
        (let d1 = (if oflag d ONLRET then d\<lparr>ld_column := 0\<rparr> else d) in
         if oflag d ONLCR then
           if output_space d1 < 2 then (False, d1)
           else (True, push_output [0x0d, 0x0a] (d1\<lparr>ld_column := 0, ld_canon_column := 0\<rparr>))
         else if output_space d1 < 1 then (False, d1)
         else (True, push_output [0x0a] (d1\<lparr>ld_canon_column := ld_column d1\<rparr>)))
      else if byte = 0x0d then
        (if oflag d ONOCR \<and> ld_column d = 0 then (True, d)
         else if output_space d < 1 then (False, d)
         else if oflag d OCRNL then
           (let d1 = (if oflag d ONLRET then d\<lparr>ld_column := 0, ld_canon_column := 0\<rparr> else d) in
            (True, push_output [0x0a] d1))
         else (True, push_output [0x0d] (d\<lparr>ld_column := 0, ld_canon_column := 0\<rparr>)))
      else if byte = 0x09 then
        (let spaces = TAB_WIDTH - ld_column d mod TAB_WIDTH in
         if c_oflag (ld_termios d) AND TABDLY = XTABS then
           if output_space d < spaces then (False, d)
           else (True, push_output (replicate spaces 0x20) (d\<lparr>ld_column := ld_column d + spaces\<rparr>))
         else if output_space d < 1 then (False, d)
         else (True, push_output [0x09] (d\<lparr>ld_column := ld_column d + spaces\<rparr>)))
      else if output_space d < 1 then (False, d)
      else (True, push_output [byte] (track_column byte d)))"

fun output_chars :: "bytes \<Rightarrow> ldisc \<Rightarrow> nat \<times> ldisc" where
  "output_chars [] d = (0, d)"
| "output_chars (b # bs) d =
     (case output_char b d of
        (False, d1) \<Rightarrow> (0, d1)
      | (True, d1) \<Rightarrow> (case output_chars bs d1 of (n, d2) \<Rightarrow> (n + 1, d2)))"

definition write_output :: "bytes \<Rightarrow> ldisc \<Rightarrow> nat \<times> ldisc" where
  "write_output bs d =
     (if ld_number d \<noteq> N_TTY \<or> \<not> oflag d OPOST then
        (let count = min (length bs) (output_space d) in
         (count, fold (\<lambda>b e. push_output [b] (track_column b e)) (take count bs) d))
      else output_chars bs d)"

definition echo_raw :: "u8 \<Rightarrow> ldisc \<Rightarrow> ldisc" where
  "echo_raw byte d =
     (if oflag d OPOST then snd (output_char byte d)
      else if output_space d = 0 then d
      else push_output [byte] (track_column byte d))"

definition echo_char :: "u8 \<Rightarrow> ldisc \<Rightarrow> ldisc" where
  "echo_char byte d =
     (if lflag d ECHOCTL \<and> (byte < 0x20 \<or> byte = 0x7f) \<and> byte \<noteq> 0x09 \<and> byte \<noteq> 0x0a
      then echo_raw (byte XOR 0x40) (echo_raw 0x5e d)
      else echo_raw byte d)"

definition emit_raw :: "u8 \<Rightarrow> ldisc \<Rightarrow> ldisc" where
  "emit_raw byte d = (if output_space d = 0 then d else push_output [byte] d)"

definition finish_erase_printing :: "ldisc \<Rightarrow> ldisc" where
  "finish_erase_printing d =
     (if ld_erase_printing d then echo_raw 0x2f (d\<lparr>ld_erase_printing := False\<rparr>) else d)"

section \<open>Flow control, reading and flushing\<close>

definition apply_throttle :: "ldisc \<Rightarrow> ldisc" where
  "apply_throttle d =
     (if \<not> iflag d IXOFF \<or> ld_throttled d then d
      else if length (ld_input d) \<ge> IXOFF_HIGH_WATER \<and> cc d VSTOP \<noteq> DISABLED
      then (emit_raw (cc d VSTOP) d)\<lparr>ld_throttled := True\<rparr>
      else d)"

definition release_throttle :: "ldisc \<Rightarrow> ldisc" where
  "release_throttle d =
     (if \<not> ld_throttled d then d
      else if length (ld_input d) \<le> IXOFF_LOW_WATER
      then (if cc d VSTART \<noteq> DISABLED then emit_raw (cc d VSTART) d else d)\<lparr>ld_throttled := False\<rparr>
      else d)"

text \<open>Bytes off the front of the queue, zero-filled past its end.\<close>

definition drain_into :: "nat \<Rightarrow> ldisc \<Rightarrow> bytes \<times> ldisc" where
  "drain_into n d =
     (take n (ld_input d) @ replicate (n - length (ld_input d)) 0, d\<lparr>ld_input := drop n (ld_input d)\<rparr>)"

definition ldisc_read :: "nat \<Rightarrow> ldisc \<Rightarrow> read_result \<times> ldisc" where
  "ldisc_read room d =
     (if canonical d then
        (case ld_lines d of
           [] \<Rightarrow> (WouldBlock, d)
         | line # rest \<Rightarrow>
             if line = 0 then (EndOfFile, d\<lparr>ld_lines := rest\<rparr>)
             else
               let count = min line room; (bs, d1) = drain_into count d in
               (Data bs, release_throttle
                  (d1\<lparr>ld_lines := (if line > count then (line - count) # rest else rest)\<rparr>)))
      else if ld_input d = [] then (WouldBlock, d)
      else
        let (bs, d1) = drain_into (min (length (ld_input d)) room) d in
        (Data bs, release_throttle d1))"

definition read_output :: "nat \<Rightarrow> ldisc \<Rightarrow> bytes \<times> ldisc" where
  "read_output room d =
     (let count = min (length (ld_output d)) room in
      (take count (ld_output d), d\<lparr>ld_output := drop count (ld_output d)\<rparr>))"

definition flush :: "queue \<Rightarrow> ldisc \<Rightarrow> ldisc" where
  "flush q d =
     (let d1 = (if q = Input \<or> q = Both
                then release_throttle (d\<lparr>ld_input := [], ld_lines := [], ld_pending := 0, ld_literal := False\<rparr>)
                else d) in
      if q = Output \<or> q = Both then d1\<lparr>ld_output := []\<rparr> else d1)"

section \<open>The line under edit\<close>

definition pending_byte :: "ldisc \<Rightarrow> nat \<Rightarrow> u8" where
  "pending_byte d index =
     (let at = int (length (ld_input d)) - int (ld_pending d) + int index in
      if 0 \<le> at \<and> at < int (length (ld_input d)) then ld_input d ! nat at else 0)"

definition discard_pending :: "nat \<Rightarrow> ldisc \<Rightarrow> ldisc" where
  "discard_pending count d =
     (let n = min count (ld_pending d) in
      d\<lparr>ld_input := take (length (ld_input d) - n) (ld_input d), ld_pending := ld_pending d - n\<rparr>)"

function width_from :: "ldisc \<Rightarrow> nat \<Rightarrow> nat" where
  "width_from d count =
     (if count < ld_pending d \<and> pending_byte d (ld_pending d - count) AND 0xc0 = 0x80
      then width_from d (count + 1) else count)"
  by pat_completeness auto
termination by (relation "measure (\<lambda>(d, count). ld_pending d - count)") auto

declare width_from.simps [simp del]

definition character_width_bytes :: "ldisc \<Rightarrow> nat" where
  "character_width_bytes d = (if \<not> iflag d IUTF8 \<or> ld_pending d = 0 then 1 else width_from d 1)"

definition replay_step :: "ldisc \<Rightarrow> nat \<Rightarrow> nat \<Rightarrow> nat" where
  "replay_step d index column =
     (let byte = pending_byte d index in
      if byte = 0x09 then tab_stop column
      else if byte = 0x08 then column - 1
      else if byte < 0x20 \<or> byte = 0x7f then (if lflag d ECHOCTL then column + 2 else column)
      else if iflag d IUTF8 \<and> byte AND 0xc0 = 0x80 then column
      else column + 1)"

definition replay_column :: "ldisc \<Rightarrow> nat \<Rightarrow> nat" where
  "replay_column d count = fold (replay_step d) [0..<count] (ld_canon_column d)"

definition reprint :: "ldisc \<Rightarrow> ldisc" where
  "reprint d =
     (let d1 = echo_raw 0x0a (echo_char (cc d VREPRINT) (finish_erase_printing d));
          d2 = d1\<lparr>ld_canon_column := ld_column d1\<rparr> in
      fold echo_char (map (pending_byte d2) [0..<ld_pending d2]) d2)"

text \<open>Backing up: the column only moves when the echo finds room in the output queue.\<close>

definition back_over :: "bool \<Rightarrow> ldisc \<Rightarrow> ldisc" where
  "back_over was_tab d =
     (if was_tab then echo_raw 0x08 d else echo_raw 0x08 (echo_raw 0x20 (echo_raw 0x08 d)))"

partial_function (option) erase_to_column :: "nat \<Rightarrow> bool \<Rightarrow> ldisc \<Rightarrow> ldisc option" where
  "erase_to_column target was_tab d =
     (if ld_column d > target then erase_to_column target was_tab (back_over was_tab d) else Some d)"

declare erase_to_column.simps [code]

definition is_word :: "u8 \<Rightarrow> bool" where
  "is_word b \<longleftrightarrow> 0x30 \<le> b \<and> b \<le> 0x39 \<or> 0x41 \<le> b \<and> b \<le> 0x5a \<or> 0x61 \<le> b \<and> b \<le> 0x7a \<or> b = 0x5f"

text \<open>Un-drawing one erased character.\<close>

definition undraw :: "erase_kind \<Rightarrow> u8 \<Rightarrow> nat \<Rightarrow> ldisc \<Rightarrow> ldisc option" where
  "undraw kind byte target d =
     (if \<not> lflag d ECHO then Some d
      else if lflag d ECHOPRT then
        Some (echo_char byte
          (if ld_erase_printing d then d else (echo_raw 0x5c d)\<lparr>ld_erase_printing := True\<rparr>))
      else if kind = Character \<and> \<not> lflag d ECHOE then Some (echo_char (cc d VERASE) d)
      else erase_to_column target (byte = 0x09) d)"

partial_function (option) erase_loop :: "erase_kind \<Rightarrow> bool \<Rightarrow> ldisc \<Rightarrow> ldisc option" where
  "erase_loop kind seen_word d =
     (if ld_pending d = 0 then Some d
      else
        let count = character_width_bytes d; byte = pending_byte d (ld_pending d - count) in
        if kind = Word \<and> \<not> is_word byte \<and> seen_word then Some d
        else
          Option.bind (undraw kind byte (replay_column d (ld_pending d - count)) (discard_pending count d)) (\<lambda>d1.
            if kind = Character then Some d1
            else erase_loop kind (seen_word \<or> kind = Word \<and> is_word byte) d1))"

declare erase_loop.simps [code]

definition erase :: "erase_kind \<Rightarrow> ldisc \<Rightarrow> ldisc option" where
  "erase kind d =
     (if ld_pending d = 0 then Some d
      else if kind = Line \<and> \<not> lflag d ECHO then Some (discard_pending (ld_pending d) d)
      else if kind = Line \<and> c_lflag (ld_termios d) AND (ECHOKE OR ECHOE OR ECHOK) \<noteq> ECHOKE OR ECHOE OR ECHOK then
        (let d1 = echo_char (cc d VKILL) (finish_erase_printing (discard_pending (ld_pending d) d)) in
         Some (if lflag d ECHOK then echo_raw 0x0a d1 else d1))
      else map_option (\<lambda>d1. if ld_pending d1 = 0 \<and> lflag d ECHO then finish_erase_printing d1 else d1)
             (erase_loop kind False d))"

section \<open>Input\<close>

definition store :: "u8 \<Rightarrow> ldisc \<Rightarrow> ldisc" where
  "store byte d =
     (if length (ld_input d) \<ge> INPUT_LIMIT then d
      else
        let d1 = (if canonical d \<and> ld_pending d = 0 then d\<lparr>ld_canon_column := ld_column d\<rparr> else d);
            d2 = (if lflag d ECHO then echo_char byte d1 else d1);
            d3 = d2\<lparr>ld_input := ld_input d2 @ [byte]\<rparr> in
        if canonical d then d3\<lparr>ld_pending := ld_pending d3 + 1\<rparr> else d3)"

definition commit_line :: "u8 option \<Rightarrow> ldisc \<Rightarrow> ldisc" where
  "commit_line terminator d =
     (let d1 = (case terminator of
                  Some byte \<Rightarrow> if length (ld_input d) < INPUT_LIMIT
                    then d\<lparr>ld_input := ld_input d @ [byte], ld_pending := ld_pending d + 1\<rparr> else d
                | None \<Rightarrow> d) in
      d1\<lparr>ld_lines := ld_lines d1 @ [ld_pending d1], ld_pending := 0, ld_canon_column := ld_column d1\<rparr>)"

definition signal_char :: "u8 \<Rightarrow> ldisc \<Rightarrow> ldisc" where
  "signal_char byte d =
     (let d1 = (if lflag d NOFLSH then d else flush Both d);
          d2 = d1\<lparr>ld_stopped := False\<rparr> in
      if lflag d ECHO then echo_char byte d2 else d2)"

definition receive_canonical :: "u8 \<Rightarrow> ldisc \<Rightarrow> ldisc option" where
  "receive_canonical byte d =
     (let iexten = lflag d IEXTEN in
      if typed d VERASE byte then erase Character d
      else if typed d VKILL byte then erase Line d
      else if iexten \<and> typed d VWERASE byte then erase Word d
      else if iexten \<and> typed d VLNEXT byte then
        (let d1 = d\<lparr>ld_literal := True\<rparr> in
         Some (if lflag d ECHO then echo_raw 0x08 (echo_raw 0x5e (finish_erase_printing d1)) else d1))
      else if iexten \<and> lflag d ECHO \<and> typed d VREPRINT byte then Some (reprint d)
      else if byte = 0x0a then
        (let d1 = finish_erase_printing d;
             d2 = (if lflag d (ECHO OR ECHONL) then echo_raw 0x0a d1 else d1) in
         Some (commit_line (Some byte) d2))
      else if typed d VEOF byte then Some (commit_line None (finish_erase_printing d))
      else if typed d VEOL byte \<or> iexten \<and> typed d VEOL2 byte then
        (let d1 = finish_erase_printing d;
             d2 = (if lflag d ECHO then echo_char byte d1 else d1) in
         Some (commit_line (Some byte) d2))
      else Some (store byte (finish_erase_printing d)))"

text \<open>The translation of carriage returns and newlines; \<open>None\<close> is a byte that is ignored.\<close>

definition translate_cr :: "ldisc \<Rightarrow> u8 \<Rightarrow> u8 option" where
  "translate_cr d byte =
     (if byte = 0x0d then
        (if iflag d IGNCR then None else if iflag d ICRNL then Some 0x0a else Some byte)
      else if byte = 0x0a \<and> iflag d INLCR then Some 0x0d
      else Some byte)"

definition signal_of :: "ldisc \<Rightarrow> u8 \<Rightarrow> i32 option" where
  "signal_of d byte =
     (if \<not> lflag d ISIG then None
      else if typed d VINTR byte then Some SIGINT
      else if typed d VQUIT byte then Some SIGQUIT
      else if typed d VSUSP byte then Some SIGTSTP
      else None)"

text \<open>The signals generated so far are threaded through.\<close>

definition receive_byte :: "u8 \<Rightarrow> ldisc \<times> i32 list \<Rightarrow> (ldisc \<times> i32 list) option" where
  "receive_byte raw ds =
     (let (d, signals) = ds in
      if ld_literal d then Some (store raw (d\<lparr>ld_literal := False\<rparr>), signals)
      else case translate_cr d (if iflag d ISTRIP then raw AND 0x7f else raw) of
        None \<Rightarrow> Some (d, signals)
      | Some byte \<Rightarrow>
          if iflag d IXON \<and> typed d VSTOP byte
          then Some (d\<lparr>ld_stopped := \<not> (cc d VSTART = cc d VSTOP \<and> ld_stopped d)\<rparr>, signals)
          else if iflag d IXON \<and> typed d VSTART byte then Some (d\<lparr>ld_stopped := False\<rparr>, signals)
          else
            let d1 = (if ld_stopped d \<and> c_iflag (ld_termios d) AND (IXON OR IXANY) = IXON OR IXANY
                      then d\<lparr>ld_stopped := False\<rparr> else d) in
            (case signal_of d1 byte of
               Some sig \<Rightarrow> Some (signal_char byte d1, signals @ [sig])
             | None \<Rightarrow>
                 if lflag d1 ICANON then map_option (\<lambda>d2. (d2, signals)) (receive_canonical byte d1)
                 else Some (store byte d1, signals)))"

fun receive_bytes :: "bytes \<Rightarrow> ldisc \<times> i32 list \<Rightarrow> (ldisc \<times> i32 list) option" where
  "receive_bytes [] ds = Some ds"
| "receive_bytes (b # bs) ds = Option.bind (receive_byte b ds) (receive_bytes bs)"

definition receive :: "bytes \<Rightarrow> ldisc \<Rightarrow> (ldisc \<times> i32 list) option" where
  "receive bs d =
     (if ld_number d \<noteq> N_TTY then
        Some (fold (\<lambda>b e. if length (ld_input e) < INPUT_LIMIT then e\<lparr>ld_input := ld_input e @ [b]\<rparr> else e) bs d, [])
      else map_option (\<lambda>(d1, signals). (apply_throttle d1, signals)) (receive_bytes bs (d, [])))"

definition receive_break :: "ldisc \<Rightarrow> (ldisc \<times> i32 list) option" where
  "receive_break d =
     (if iflag d IGNBRK then Some (d, [])
      else if iflag d BRKINT then Some ((flush Both d)\<lparr>ld_stopped := False\<rparr>, [SIGINT])
      else map_option (\<lambda>(d1, signals). (apply_throttle d1, signals)) (receive_byte 0 (d, [])))"

end
