(* ===== verification/Ldisc_Inv.thy ===== *)
theory Ldisc_Inv
  imports Ldisc
begin

text \<open>
  What every operation of the line discipline leaves alone, the bounds of its queues, and the
  accounting of lines: in canonical mode the lengths of the complete lines and of the line
  under edit add up to the bytes queued.
\<close>

section \<open>Output only touches output\<close>

text \<open>The part of the state that input processing owns, and that drawing never changes.\<close>

definition same_input :: "ldisc \<Rightarrow> ldisc \<Rightarrow> bool" where
  "same_input d d' \<longleftrightarrow> ld_termios d' = ld_termios d \<and> ld_number d' = ld_number d \<and> ld_input d' = ld_input d
     \<and> ld_pending d' = ld_pending d \<and> ld_lines d' = ld_lines d"

definition out_ok :: "ldisc \<Rightarrow> bool" where
  "out_ok d \<longleftrightarrow> length (ld_output d) \<le> OUTPUT_LIMIT"

definition draws :: "(ldisc \<Rightarrow> ldisc) \<Rightarrow> bool" where
  "draws f \<longleftrightarrow> (\<forall>d. same_input d (f d) \<and> (out_ok d \<longrightarrow> out_ok (f d)) \<and> ld_literal (f d) = ld_literal d)"

lemma drawsD:
  assumes "draws f"
  shows "ld_termios (f d) = ld_termios d" "ld_number (f d) = ld_number d" "ld_input (f d) = ld_input d"
    "ld_pending (f d) = ld_pending d" "ld_lines (f d) = ld_lines d" "ld_literal (f d) = ld_literal d"
    "out_ok d \<Longrightarrow> out_ok (f d)"
  using assms by (auto simp: draws_def same_input_def)

lemma draws_comp: "draws f \<Longrightarrow> draws g \<Longrightarrow> draws (\<lambda>d. f (g d))"
  by (auto simp: draws_def same_input_def)

lemma draws_fold: "(\<And>x. draws (f x)) \<Longrightarrow> draws (fold f xs)"
proof (induction xs)
  case (Cons x xs)
  from draws_comp [OF Cons.IH Cons.prems(1) [of x]] Cons.prems show ?case by (simp add: comp_def)
qed (simp add: draws_def same_input_def)

lemma track_column_frame [simp]:
  "ld_termios (track_column b d) = ld_termios d" "ld_number (track_column b d) = ld_number d"
  "ld_input (track_column b d) = ld_input d" "ld_pending (track_column b d) = ld_pending d"
  "ld_lines (track_column b d) = ld_lines d" "ld_output (track_column b d) = ld_output d"
  "ld_literal (track_column b d) = ld_literal d" "ld_throttled (track_column b d) = ld_throttled d"
  by (simp_all add: track_column_def)

lemma out_ok_push: "out_ok d \<Longrightarrow> length bs \<le> output_space d \<Longrightarrow> out_ok (push_output bs d)"
  by (simp add: out_ok_def push_output_def output_space_def)

lemma out_ok_frame [simp]:
  "out_ok (d\<lparr>ld_column := c\<rparr>) = out_ok d" "out_ok (d\<lparr>ld_canon_column := c\<rparr>) = out_ok d"
  "output_space (d\<lparr>ld_column := c\<rparr>) = output_space d" "output_space (d\<lparr>ld_canon_column := c\<rparr>) = output_space d"
  "out_ok (track_column b d) = out_ok d" "output_space (track_column b d) = output_space d"
  by (simp_all add: out_ok_def output_space_def)

lemma draws_output_char: "draws (\<lambda>d. snd (output_char b d))"
  unfolding draws_def
proof (intro allI conjI impI)
  fix d
  show "same_input d (snd (output_char b d))" "ld_literal (snd (output_char b d)) = ld_literal d"
    by (simp_all add: output_char_def same_input_def push_output_def Let_def)
  assume "out_ok d"
  then show "out_ok (snd (output_char b d))"
    by (simp add: output_char_def Let_def out_ok_push not_less)
qed

lemma draws_echo_raw: "draws (echo_raw b)"
proof -
  have "same_input d (echo_raw b d) \<and> (out_ok d \<longrightarrow> out_ok (echo_raw b d)) \<and> ld_literal (echo_raw b d) = ld_literal d" for d
  proof (cases "oflag d OPOST")
    case True
    then show ?thesis using draws_output_char [of b] by (simp add: echo_raw_def draws_def)
  next
    case False
    then show ?thesis by (simp add: echo_raw_def same_input_def out_ok_def push_output_def output_space_def)
  qed
  then show ?thesis by (simp add: draws_def)
qed

lemma draws_echo_char: "draws (echo_char b)"
proof -
  note two = draws_comp [OF draws_echo_raw [of "b XOR 0x40"] draws_echo_raw [of "0x5e"]]
  from two draws_echo_raw [of b] show ?thesis by (simp add: draws_def echo_char_def)
qed

lemma draws_finish: "draws finish_erase_printing"
  using draws_echo_raw [of "0x2f"]
  by (simp add: draws_def finish_erase_printing_def same_input_def out_ok_def)

lemma draws_back_over: "draws (back_over w)"
proof -
  note three = draws_comp [OF draws_echo_raw [of 8] draws_comp [OF draws_echo_raw [of "0x20"] draws_echo_raw [of 8]]]
  from three draws_echo_raw [of 8] show ?thesis by (simp add: draws_def back_over_def)
qed

lemma draws_emit_raw: "draws (emit_raw b)"
  by (simp add: draws_def emit_raw_def same_input_def out_ok_def push_output_def output_space_def)

lemma draws_apply_throttle: "draws apply_throttle"
  using draws_emit_raw by (auto simp: draws_def apply_throttle_def same_input_def out_ok_def)

lemma draws_release_throttle: "draws release_throttle"
  using draws_emit_raw by (auto simp: draws_def release_throttle_def same_input_def out_ok_def)

lemma draws_reprint: "draws reprint"
proof -
  have "same_input d (reprint d) \<and> (out_ok d \<longrightarrow> out_ok (reprint d)) \<and> ld_literal (reprint d) = ld_literal d" for d
  proof -
    let ?d1 = "echo_raw 0x0a (echo_char (cc d VREPRINT) (finish_erase_printing d))"
    have one: "same_input d ?d1 \<and> (out_ok d \<longrightarrow> out_ok ?d1) \<and> ld_literal ?d1 = ld_literal d"
      using draws_comp [OF draws_echo_raw [of "0x0a"] draws_comp [OF draws_echo_char [of "cc d VREPRINT"] draws_finish]]
      by (simp add: draws_def)
    let ?d2 = "?d1\<lparr>ld_canon_column := ld_column ?d1\<rparr>"
    have "draws (fold echo_char (map (pending_byte ?d2) [0..<ld_pending ?d2]))"
      by (rule draws_fold) (rule draws_echo_char)
    from drawsD [OF this, of ?d2] one show ?thesis
      by (auto simp: reprint_def Let_def same_input_def out_ok_def)
  qed
  then show ?thesis by (simp add: draws_def)
qed

section \<open>Backing up\<close>

lemma erase_to_column_draws:
  assumes "erase_to_column target w d = Some d'"
  shows "same_input d d' \<and> (out_ok d \<longrightarrow> out_ok d') \<and> ld_literal d' = ld_literal d"
proof (rule erase_to_column.raw_induct [OF _ assms])
  fix f target w d d'
  assume IH: "\<And>t w d y. f t w d = Some y \<Longrightarrow> same_input d y \<and> (out_ok d \<longrightarrow> out_ok y) \<and> ld_literal y = ld_literal d"
    and s: "(if target < ld_column d then f target w (back_over w d) else Some d) = Some d'"
  show "same_input d d' \<and> (out_ok d \<longrightarrow> out_ok d') \<and> ld_literal d' = ld_literal d"
  proof (cases "target < ld_column d")
    case True
    with s have "f target w (back_over w d) = Some d'" by simp
    from IH [OF this] draws_back_over [of w] show ?thesis by (auto simp: draws_def same_input_def)
  next
    case False
    with s show ?thesis by (simp add: same_input_def)
  qed
qed

lemma undraw_draws:
  assumes "undraw kind byte target d = Some d'"
  shows "same_input d d' \<and> (out_ok d \<longrightarrow> out_ok d') \<and> ld_literal d' = ld_literal d"
proof -
  have a: "same_input d (echo_char b d) \<and> (out_ok d \<longrightarrow> out_ok (echo_char b d)) \<and> ld_literal (echo_char b d) = ld_literal d" for b
    using draws_echo_char by (simp add: draws_def)
  have b: "same_input d (echo_char byte ((echo_raw 0x5c d)\<lparr>ld_erase_printing := True\<rparr>))
      \<and> (out_ok d \<longrightarrow> out_ok (echo_char byte ((echo_raw 0x5c d)\<lparr>ld_erase_printing := True\<rparr>)))
      \<and> ld_literal (echo_char byte ((echo_raw 0x5c d)\<lparr>ld_erase_printing := True\<rparr>)) = ld_literal d"
    using drawsD [OF draws_echo_char [of byte], of "(echo_raw 0x5c d)\<lparr>ld_erase_printing := True\<rparr>"]
      drawsD [OF draws_echo_raw [of "0x5c"], of d] by (auto simp: same_input_def out_ok_def)
  from assms a b erase_to_column_draws [of target "byte = 9" d d'] show ?thesis
    by (auto simp: undraw_def same_input_def split: if_splits)
qed

section \<open>Erasing\<close>

text \<open>Some bytes of the line under edit are gone, and nothing else of the input has changed.\<close>

definition edited :: "ldisc \<Rightarrow> ldisc \<Rightarrow> bool" where
  "edited d d' \<longleftrightarrow> (\<exists>n \<le> ld_pending d. ld_pending d' = ld_pending d - n
     \<and> ld_input d' = take (length (ld_input d) - n) (ld_input d))
     \<and> ld_lines d' = ld_lines d \<and> ld_termios d' = ld_termios d \<and> ld_number d' = ld_number d
     \<and> ld_literal d' = ld_literal d \<and> (out_ok d \<longrightarrow> out_ok d')"

lemma edited_trans:
  assumes "edited d d1" "edited d1 d2"
  shows "edited d d2"
proof -
  from assms obtain n m where n: "n \<le> ld_pending d" "ld_pending d1 = ld_pending d - n"
      "ld_input d1 = take (length (ld_input d) - n) (ld_input d)"
    and m: "m \<le> ld_pending d1" "ld_pending d2 = ld_pending d1 - m"
      "ld_input d2 = take (length (ld_input d1) - m) (ld_input d1)" by (auto simp: edited_def)
  have "ld_input d2 = take (length (ld_input d) - (n + m)) (ld_input d)" using n(3) m(3) by simp
  moreover have "n + m \<le> ld_pending d" "ld_pending d2 = ld_pending d - (n + m)" using n m by auto
  ultimately show ?thesis using assms unfolding edited_def by metis
qed

lemma edited_same: "same_input d d' \<and> (out_ok d \<longrightarrow> out_ok d') \<and> ld_literal d' = ld_literal d \<Longrightarrow> edited d d'"
  by (auto simp: edited_def same_input_def intro!: exI [of _ 0])

lemma edited_draws: "draws f \<Longrightarrow> edited d (f d)"
  by (rule edited_same) (simp add: draws_def)

lemma edited_refl: "edited d d"
  by (rule edited_same) (simp add: same_input_def)

lemma edited_discard: "edited d (discard_pending n d)"
  unfolding edited_def
  by (intro conjI exI [of _ "min n (ld_pending d)"]) (simp_all add: discard_pending_def Let_def out_ok_def)

lemma erase_loop_edited:
  assumes "erase_loop kind seen d = Some d'"
  shows "edited d d'"
proof (rule erase_loop.raw_induct [OF _ assms])
  fix f kind seen d d'
  assume IH: "\<And>k s d y. f k s d = Some y \<Longrightarrow> edited d y"
    and s: "(if ld_pending d = 0 then Some d
        else let count = character_width_bytes d; byte = pending_byte d (ld_pending d - count)
             in if kind = Word \<and> \<not> is_word byte \<and> seen then Some d
                else Option.bind (undraw kind byte (replay_column d (ld_pending d - count)) (discard_pending count d))
                      (\<lambda>d1. if kind = Character then Some d1
                            else f kind (seen \<or> kind = Word \<and> is_word byte) d1)) = Some d'"
  have step: "edited d d1" if "undraw k b t (discard_pending c d) = Some d1" for k b t c d1
    using edited_trans [OF edited_discard edited_same [OF undraw_draws [OF that]]] .
  from s IH show "edited d d'"
    by (auto simp: Let_def bind_eq_Some_conv edited_refl intro: step edited_trans [OF step] split: if_splits)
qed

lemma erase_edited:
  assumes "erase kind d = Some d'"
  shows "edited d d'"
proof -
  let ?kill = "\<lambda>d1. echo_char (cc d VKILL) (finish_erase_printing d1)"
  have k: "draws ?kill" by (rule draws_comp [OF draws_echo_char draws_finish])
  then have n: "draws (\<lambda>d1. echo_raw 0x0a (?kill d1))" by (rule draws_comp [OF draws_echo_raw])
  note kill = edited_trans [OF edited_discard edited_draws [OF k]] edited_trans [OF edited_discard edited_draws [OF n]]
  from assms show ?thesis
    using kill edited_refl edited_discard edited_trans [OF _ edited_draws [OF draws_finish]]
    by (auto simp: erase_def Let_def dest!: erase_loop_edited split: if_splits)
qed

section \<open>The bounds and the accounting of lines\<close>

definition bounded :: "ldisc \<Rightarrow> bool" where
  "bounded d \<longleftrightarrow> length (ld_input d) \<le> INPUT_LIMIT \<and> out_ok d"

definition accounted :: "ldisc \<Rightarrow> bool" where
  "accounted d \<longleftrightarrow> sum_list (ld_lines d) + ld_pending d = length (ld_input d)"

lemma edited_ok: "edited d d' \<Longrightarrow> (bounded d \<longrightarrow> bounded d') \<and> (accounted d \<longrightarrow> accounted d')"
  by (auto simp: edited_def bounded_def accounted_def)

lemma draws_ok: "draws f \<Longrightarrow> (bounded d \<longrightarrow> bounded (f d)) \<and> (accounted d \<longrightarrow> accounted (f d))"
  using edited_ok [OF edited_draws] by blast

definition keeps :: "(ldisc \<Rightarrow> ldisc) \<Rightarrow> bool" where
  "keeps f \<longleftrightarrow> (\<forall>d. (bounded d \<longrightarrow> bounded (f d)) \<and> (canonical d \<and> accounted d \<longrightarrow> canonical (f d) \<and> accounted (f d)))"

lemma canonical_same: "ld_termios d' = ld_termios d \<Longrightarrow> ld_number d' = ld_number d \<Longrightarrow> canonical d' = canonical d"
  by (simp add: canonical_def lflag_def)

lemma keeps_draws: "draws f \<Longrightarrow> keeps f"
  unfolding keeps_def using draws_ok drawsD(1,2) canonical_same by metis

lemma keeps_comp: "keeps f \<Longrightarrow> keeps g \<Longrightarrow> keeps (\<lambda>d. f (g d))"
  by (simp add: keeps_def)

text \<open>The same for operations that may not return.\<close>

definition okeeps :: "(ldisc \<Rightarrow> ldisc option) \<Rightarrow> bool" where
  "okeeps f \<longleftrightarrow> (\<forall>d d'. f d = Some d' \<longrightarrow>
     (bounded d \<longrightarrow> bounded d') \<and> (canonical d \<and> accounted d \<longrightarrow> canonical d' \<and> accounted d'))"

lemma keeps_if: "keeps f \<Longrightarrow> keeps g \<Longrightarrow> keeps (\<lambda>d. if P d then f d else g d)"
  by (simp add: keeps_def)

lemma okeeps_Some: "keeps f \<Longrightarrow> okeeps (\<lambda>d. Some (f d))"
  by (simp add: okeeps_def keeps_def)

lemma okeeps_if: "okeeps f \<Longrightarrow> okeeps g \<Longrightarrow> okeeps (\<lambda>d. if P d then f d else g d)"
  unfolding okeeps_def by metis

lemma keeps_id: "keeps (\<lambda>d. d)" by (simp add: keeps_def)

lemma keeps_choose: "(\<And>x. keeps (f x)) \<Longrightarrow> keeps (\<lambda>d. f (g d) d)"
  by (simp add: keeps_def)

lemma keeps_small:
  "keeps (\<lambda>d. d\<lparr>ld_literal := b\<rparr>)" "keeps (\<lambda>d. d\<lparr>ld_stopped := b\<rparr>)" "keeps (\<lambda>d. d\<lparr>ld_canon_column := c\<rparr>)"
  by (simp_all add: keeps_def bounded_def accounted_def out_ok_def canonical_def lflag_def)

lemma erase_okeeps: "okeeps (erase kind)"
  unfolding okeeps_def
proof (intro allI impI)
  fix d d'
  assume "erase kind d = Some d'"
  note e = erase_edited [OF this]
  have "canonical d' = canonical d" by (rule canonical_same) (use e in \<open>simp_all add: edited_def\<close>)
  with edited_ok [OF e] show "(bounded d \<longrightarrow> bounded d') \<and> (canonical d \<and> accounted d \<longrightarrow> canonical d' \<and> accounted d')"
    by blast
qed

lemma store_room:
  assumes "length (ld_input d) < INPUT_LIMIT"
  shows "\<exists>d2. same_input d d2 \<and> (out_ok d \<longrightarrow> out_ok d2) \<and> ld_literal d2 = ld_literal d
    \<and> store b d = (if canonical d then d2\<lparr>ld_input := ld_input d2 @ [b], ld_pending := ld_pending d2 + 1\<rparr>
                   else d2\<lparr>ld_input := ld_input d2 @ [b]\<rparr>)"
proof -
  define d1 where "d1 = (if canonical d \<and> ld_pending d = 0 then d\<lparr>ld_canon_column := ld_column d\<rparr> else d)"
  define d2 where "d2 = (if lflag d ECHO then echo_char b d1 else d1)"
  have 1: "same_input d d1 \<and> out_ok d1 = out_ok d \<and> ld_literal d1 = ld_literal d"
    by (simp add: d1_def same_input_def)
  have "same_input d d2 \<and> (out_ok d \<longrightarrow> out_ok d2) \<and> ld_literal d2 = ld_literal d"
    using drawsD [OF draws_echo_char [of b], of d1] 1 by (simp add: d2_def same_input_def)
  moreover have "store b d = (if canonical d then d2\<lparr>ld_input := ld_input d2 @ [b], ld_pending := ld_pending d2 + 1\<rparr>
                   else d2\<lparr>ld_input := ld_input d2 @ [b]\<rparr>)"
    using assms unfolding store_def Let_def d1_def [symmetric] d2_def [symmetric] by simp
  ultimately show ?thesis by blast
qed

lemma keeps_store: "keeps (store b)"
  unfolding keeps_def
proof (intro allI)
  fix d
  show "(bounded d \<longrightarrow> bounded (store b d)) \<and> (canonical d \<and> accounted d \<longrightarrow> canonical (store b d) \<and> accounted (store b d))"
  proof (cases "length (ld_input d) < INPUT_LIMIT")
    case True
    from store_room [OF True, of b] obtain d2 where d2: "same_input d d2" "out_ok d \<longrightarrow> out_ok d2"
      and s: "store b d = (if canonical d then d2\<lparr>ld_input := ld_input d2 @ [b], ld_pending := ld_pending d2 + 1\<rparr>
                   else d2\<lparr>ld_input := ld_input d2 @ [b]\<rparr>)" by blast
    have "canonical (d2\<lparr>ld_input := x, ld_pending := y\<rparr>) = canonical d" for x y
      by (rule canonical_same) (use d2 in \<open>simp_all add: same_input_def\<close>)
    with d2 True show ?thesis by (auto simp: s same_input_def bounded_def accounted_def out_ok_def)
  qed (simp add: store_def)
qed

lemma keeps_commit: "keeps (commit_line t)"
  by (auto simp: keeps_def commit_line_def bounded_def accounted_def out_ok_def canonical_def lflag_def Let_def split: option.split)

lemma keeps_flush: "keeps (flush q)"
proof -
  let ?f = "\<lambda>d. d\<lparr>ld_input := [], ld_lines := [], ld_pending := 0, ld_literal := False\<rparr>"
  have f: "keeps ?f" by (simp add: keeps_def bounded_def accounted_def out_ok_def canonical_def lflag_def)
  have i: "keeps (\<lambda>d. release_throttle (?f d))"
    using keeps_comp [OF keeps_draws [OF draws_release_throttle] f] .
  have o: "keeps (\<lambda>d. d\<lparr>ld_output := []\<rparr>)"
    by (simp add: keeps_def bounded_def accounted_def out_ok_def canonical_def lflag_def)
  show ?thesis
    using i o keeps_comp [OF o i] by (cases q) (simp_all add: keeps_def flush_def Let_def)
qed

lemma keeps_signal_char: "keeps (signal_char b)"
proof -
  note s = keeps_small(2) [of False]
  note e = keeps_draws [OF draws_echo_char [of b]]
  from keeps_comp [OF s keeps_flush [of Both]] s keeps_comp [OF e s] keeps_comp [OF e keeps_comp [OF s keeps_flush [of Both]]]
  show ?thesis by (simp add: keeps_def signal_char_def Let_def)
qed

lemmas keeps_intros =
  keeps_comp [OF keeps_draws [OF draws_echo_raw]] keeps_comp [OF keeps_draws [OF draws_echo_char]]
  keeps_comp [OF keeps_draws [OF draws_finish]] keeps_comp [OF keeps_commit] keeps_comp [OF keeps_store]
  keeps_draws [OF draws_finish] keeps_draws [OF draws_reprint] keeps_small keeps_id

lemma receive_canonical_okeeps: "okeeps (receive_canonical b)"
  unfolding receive_canonical_def Let_def
  by (intro okeeps_if okeeps_Some erase_okeeps keeps_if keeps_intros)

section \<open>Receiving, reading and writing\<close>

text \<open>What a transition from \<open>d\<close> to \<open>d'\<close> keeps.\<close>

definition good :: "ldisc \<Rightarrow> ldisc \<Rightarrow> bool" where
  "good d d' \<longleftrightarrow> (bounded d \<longrightarrow> bounded d') \<and> (canonical d \<and> accounted d \<longrightarrow> canonical d' \<and> accounted d')"

lemma good_keeps: "keeps f \<Longrightarrow> good d (f d)" by (simp add: keeps_def good_def)

lemma good_okeeps: "okeeps f \<Longrightarrow> f d = Some d' \<Longrightarrow> good d d'" unfolding okeeps_def good_def by blast

lemma good_trans: "good d d1 \<Longrightarrow> good d1 d2 \<Longrightarrow> good d d2" by (simp add: good_def)

lemma good_refl: "good d d" by (simp add: good_def)

lemma receive_byte_good:
  assumes "receive_byte raw (d, sg) = Some (d', sg')"
  shows "good d d'"
proof (cases "ld_literal d")
  case True
  with assms have "d' = store raw (d\<lparr>ld_literal := False\<rparr>)" by (simp add: receive_byte_def)
  then show ?thesis
    using good_keeps [OF keeps_comp [OF keeps_store keeps_small(1)]] by simp
next
  case lit: False
  define d1 where "d1 = (if ld_stopped d \<and> c_iflag (ld_termios d) AND (IXON OR IXANY) = IXON OR IXANY
      then d\<lparr>ld_stopped := False\<rparr> else d)"
  have d1: "good d d1" using good_keeps [OF keeps_small(2)] good_refl by (simp add: d1_def)
  show ?thesis
  proof (cases "translate_cr d (if iflag d ISTRIP then raw AND 0x7f else raw)")
    case None
    with assms lit show ?thesis by (simp add: receive_byte_def good_refl)
  next
    case (Some byte)
    note eq = assms [unfolded receive_byte_def Let_def prod.case d1_def [symmetric] Some option.case]
    show ?thesis
    proof (cases "iflag d IXON \<and> (typed d VSTOP byte \<or> typed d VSTART byte)")
      case True
      with eq lit have "\<exists>b. d' = d\<lparr>ld_stopped := b\<rparr>" by (auto split: if_split_asm)
      then show ?thesis using good_keeps [OF keeps_small(2)] by auto
    next
      case flow: False
      show ?thesis
      proof (cases "signal_of d1 byte")
        case (Some sig)
        with eq lit flow have "d' = signal_char byte d1" by (simp split: if_split_asm)
        then show ?thesis using good_trans [OF d1 good_keeps [OF keeps_signal_char]] by simp
      next
        case None
        with eq lit flow have "receive_canonical byte d1 = Some d' \<or> d' = store byte d1" by (auto split: if_split_asm)
        then show ?thesis using good_trans [OF d1 good_okeeps [OF receive_canonical_okeeps]]
            good_trans [OF d1 good_keeps [OF keeps_store]] by blast
      qed
    qed
  qed
qed

lemma receive_bytes_good: "receive_bytes bs (d, sg) = Some (d', sg') \<Longrightarrow> good d d'"
proof (induction bs arbitrary: d sg)
  case (Cons b bs)
  then obtain d1 sg1 where "receive_byte b (d, sg) = Some (d1, sg1)" "receive_bytes bs (d1, sg1) = Some (d', sg')"
    by (auto simp: bind_eq_Some_conv)
  with good_trans [OF receive_byte_good] Cons.IH show ?case by blast
qed (simp add: good_refl)

lemma raw_receive_bounded:
  "length (ld_input d) \<le> INPUT_LIMIT \<Longrightarrow>
   (let d' = fold (\<lambda>b e. if length (ld_input e) < INPUT_LIMIT then e\<lparr>ld_input := ld_input e @ [b]\<rparr> else e) bs d in
    length (ld_input d') \<le> INPUT_LIMIT \<and> ld_output d' = ld_output d)"
  by (induction bs arbitrary: d) (auto simp: Let_def)

lemma receive_good:
  assumes "receive bs d = Some (d', sg)"
  shows "good d d'"
proof (cases "ld_number d = N_TTY")
  case True
  with assms obtain d1 where "receive_bytes bs (d, []) = Some (d1, sg)" "d' = apply_throttle d1"
    by (auto simp: receive_def)
  with good_trans [OF receive_bytes_good good_keeps [OF keeps_draws [OF draws_apply_throttle]]] show ?thesis by blast
next
  case False
  with assms raw_receive_bounded [of d bs] show ?thesis
    by (auto simp: receive_def good_def bounded_def out_ok_def canonical_def Let_def)
qed

lemma receive_break_good:
  assumes "receive_break d = Some (d', sg)"
  shows "good d d'"
proof -
  have "d' = d \<or> d' = (flush Both d)\<lparr>ld_stopped := False\<rparr>
      \<or> (\<exists>d1. receive_byte 0 (d, []) = Some (d1, sg) \<and> d' = apply_throttle d1)"
    using assms by (auto simp: receive_break_def split: if_splits)
  then show ?thesis
    using good_refl good_keeps [OF keeps_comp [OF keeps_small(2) keeps_flush]]
      good_trans [OF receive_byte_good good_keeps [OF keeps_draws [OF draws_apply_throttle]]] by blast
qed

lemma output_chars_Cons:
  "output_chars (b # bs) d =
     (if fst (output_char b d)
      then (fst (output_chars bs (snd (output_char b d))) + 1, snd (output_chars bs (snd (output_char b d))))
      else (0, snd (output_char b d)))"
proof -
  obtain ok d1 where c: "output_char b d = (ok, d1)" by fastforce
  obtain n d2 where "output_chars bs d1 = (n, d2)" by fastforce
  with c show ?thesis by (cases ok) simp_all
qed

lemma draws_output_chars: "draws (\<lambda>d. snd (output_chars bs d))"
proof (induction bs)
  case Nil
  then show ?case by (simp add: draws_def same_input_def)
next
  case (Cons b bs)
  from draws_comp [OF Cons.IH draws_output_char [of b]] draws_output_char [of b] show ?case
    unfolding draws_def output_chars_Cons by simp
qed

definition put_raw :: "u8 \<Rightarrow> ldisc \<Rightarrow> ldisc" where "put_raw b d = push_output [b] (track_column b d)"

lemma put_raw_frame [simp]:
  "same_input d (put_raw b d)" "ld_literal (put_raw b d) = ld_literal d" "ld_output (put_raw b d) = ld_output d @ [b]"
  by (simp_all add: put_raw_def push_output_def same_input_def)

lemma put_raw_all:
  "same_input d (fold put_raw xs d) \<and> ld_literal (fold put_raw xs d) = ld_literal d \<and> ld_output (fold put_raw xs d) = ld_output d @ xs"
proof (induction xs arbitrary: d)
  case (Cons x xs)
  from Cons [of "put_raw x d"] put_raw_frame [where d = d and b = x] show ?case by (simp add: same_input_def)
qed (simp add: same_input_def)

lemma draws_write_output: "draws (\<lambda>d. snd (write_output bs d))"
  unfolding draws_def
proof (intro allI)
  fix d
  let ?xs = "take (min (length bs) (output_space d)) bs"
  show "same_input d (snd (write_output bs d)) \<and> (out_ok d \<longrightarrow> out_ok (snd (write_output bs d)))
      \<and> ld_literal (snd (write_output bs d)) = ld_literal d"
  proof (cases "ld_number d \<noteq> N_TTY \<or> \<not> oflag d OPOST")
    case True
    then have "snd (write_output bs d) = fold put_raw ?xs d"
      by (simp add: write_output_def Let_def put_raw_def [abs_def])
    then show ?thesis using put_raw_all [of d ?xs] by (simp add: out_ok_def output_space_def) linarith
  next
    case False
    then show ?thesis using draws_output_chars [of bs] by (simp add: write_output_def draws_def)
  qed
qed

lemma ldisc_read_good:
  assumes "ldisc_read room d = (r, d')"
  shows "good d d'"
proof -
  note rel = good_keeps [OF keeps_draws [OF draws_release_throttle]]
  show ?thesis
  proof (cases "canonical d")
    case False
    then have "good d (d\<lparr>ld_input := drop n (ld_input d)\<rparr>)" for n by (auto simp: good_def bounded_def out_ok_def)
    from good_trans [OF this rel] assms False show ?thesis
      by (auto simp: ldisc_read_def drain_into_def Let_def good_refl split: if_splits)
  next
    case True
    show ?thesis
    proof (cases "ld_lines d")
      case Nil
      with assms True show ?thesis by (simp add: ldisc_read_def good_refl)
    next
      case (Cons line rest)
      let ?d = "\<lambda>c. d\<lparr>ld_input := drop c (ld_input d), ld_lines := if c < line then (line - c) # rest else rest\<rparr>"
      have "good d (?d (min line room))"
        using Cons by (auto simp: good_def bounded_def accounted_def out_ok_def canonical_def lflag_def)
      from good_trans [OF this rel] have "good d (release_throttle (?d (min line room)))" .
      moreover have "good d (d\<lparr>ld_lines := rest\<rparr>)" if "line = 0"
        using Cons that by (auto simp: good_def bounded_def accounted_def out_ok_def canonical_def lflag_def)
      ultimately show ?thesis using assms True Cons
        by (auto simp: ldisc_read_def drain_into_def Let_def split: if_splits)
    qed
  qed
qed

end
