(* ===== verification/Ldisc_Props.thy ===== *)
theory Ldisc_Props
  imports Ldisc_Inv
begin

text \<open>
  The line discipline as a transition system and its properties: the bounds of both queues in
  every history, exact line accounting and reading in canonical mode, what is typed
  is what is read, erasing never leaves the line under edit, when erasing returns,
  post-processed output, and the three places where the code falls short.
\<close>

section \<open>Histories of a terminal\<close>

inductive tty_step :: "ldisc \<Rightarrow> ldisc \<Rightarrow> bool" where
  tty_receive: "receive bs d = Some (d', sg) \<Longrightarrow> tty_step d d'"
| tty_break: "receive_break d = Some (d', sg) \<Longrightarrow> tty_step d d'"
| tty_read: "ldisc_read room d = (r, d') \<Longrightarrow> tty_step d d'"
| tty_write: "tty_step d (snd (write_output bs d))"
| tty_drain: "tty_step d (snd (read_output room d))"
| tty_flush: "tty_step d (flush q d)"
| tty_flow: "tty_step d (set_output_stopped b d)"
| tty_retune: "tty_step d (retune t d)"
| tty_number: "tty_step d (set_number n d)"

text \<open>A step that stays in canonical mode.\<close>

definition cooked_step :: "ldisc \<Rightarrow> ldisc \<Rightarrow> bool" where
  "cooked_step d d' \<longleftrightarrow> tty_step d d' \<and> canonical d \<and> canonical d'"

lemma keeps_drain: "keeps (\<lambda>d. snd (read_output room d))"
  by (auto simp: keeps_def read_output_def bounded_def accounted_def out_ok_def canonical_def lflag_def Let_def)

lemma keeps_flow: "keeps (set_output_stopped b)"
  using keeps_small(2) [of b] by (simp add: set_output_stopped_def [abs_def])

lemma reconcile_frame [simp]:
  "ld_input (reconcile w d) = ld_input d" "ld_output (reconcile w d) = ld_output d" "ld_lines (reconcile w d) = ld_lines d"
  "canonical (reconcile w d) = canonical d"
  by (simp_all add: reconcile_def canonical_def lflag_def)

lemma retune_good: "bounded d \<longrightarrow> bounded (retune t d)" "canonical d \<Longrightarrow> canonical (retune t d) \<Longrightarrow> accounted d \<Longrightarrow> accounted (retune t d)"
  by (auto simp: retune_def Let_def bounded_def out_ok_def accounted_def reconcile_def canonical_def lflag_def)

lemma set_number_good:
  "bounded d \<longrightarrow> bounded (set_number n d)" "canonical d \<Longrightarrow> canonical (set_number n d) \<Longrightarrow> accounted d \<Longrightarrow> accounted (set_number n d)"
  by (auto simp: set_number_def bounded_def out_ok_def accounted_def reconcile_def canonical_def lflag_def)

lemma tty_step_good:
  assumes "tty_step d d'"
  shows "bounded d \<longrightarrow> bounded d'" and "canonical d \<Longrightarrow> canonical d' \<Longrightarrow> accounted d \<Longrightarrow> accounted d'"
proof -
  have "(bounded d \<longrightarrow> bounded d') \<and> (canonical d \<longrightarrow> canonical d' \<longrightarrow> accounted d \<longrightarrow> accounted d')"
    using assms
  proof cases
    case tty_retune
    then show ?thesis using retune_good by blast
  next
    case tty_number
    then show ?thesis using set_number_good by blast
  next
    case tty_write
    then show ?thesis using good_keeps [OF keeps_draws [OF draws_write_output]] by (simp add: good_def)
  next
    case tty_drain
    then show ?thesis using good_keeps [OF keeps_drain] by (simp add: good_def)
  next
    case tty_flush
    then show ?thesis using good_keeps [OF keeps_flush] by (simp add: good_def)
  next
    case tty_flow
    then show ?thesis using good_keeps [OF keeps_flow] by (simp add: good_def)
  qed (auto dest!: receive_good receive_break_good ldisc_read_good simp: good_def)
  then show "bounded d \<longrightarrow> bounded d'" "canonical d \<Longrightarrow> canonical d' \<Longrightarrow> accounted d \<Longrightarrow> accounted d'" by blast+
qed

lemma new_ok: "bounded (ldisc_new t) \<and> accounted (ldisc_new t)"
  by (simp add: bounded_def accounted_def out_ok_def ldisc_new_def)

lemma history_bounded: "tty_step\<^sup>*\<^sup>* (ldisc_new t) d \<Longrightarrow> bounded d"
  by (induction rule: rtranclp_induct) (use new_ok tty_step_good(1) in blast)+

lemma flush_accounted: "q \<noteq> Output \<Longrightarrow> accounted (flush q d)"
  using drawsD [OF draws_release_throttle]
  by (cases q) (simp_all add: flush_def accounted_def Let_def)

lemma cooked_accounted: "cooked_step\<^sup>*\<^sup>* d0 d \<Longrightarrow> accounted d0 \<Longrightarrow> accounted d"
  by (induction rule: rtranclp_induct) (use tty_step_good(2) in \<open>auto simp: cooked_step_def\<close>)

lemma accounted_read:
  assumes "accounted d" and "canonical d" and "ldisc_read room d = (r, d')"
  shows "case ld_lines d of
         [] \<Rightarrow> r = WouldBlock
       | n # rest \<Rightarrow> if n = 0 then r = EndOfFile \<and> ld_input d' = ld_input d \<and> ld_lines d' = rest
           else r = Data (take (min n room) (ld_input d)) \<and> ld_input d' = drop (min n room) (ld_input d)
             \<and> ld_lines d' = (if room < n then (n - room) # rest else rest)"
proof (cases "ld_lines d")
  case Nil
  with assms show ?thesis by (simp add: ldisc_read_def)
next
  case (Cons n rest)
  with assms(1) have "min n room \<le> length (ld_input d)" by (simp add: accounted_def)
  then show ?thesis
    using assms Cons drawsD [OF draws_release_throttle]
    by (auto simp: accounted_def ldisc_read_def drain_into_def Let_def min_def split: if_splits)
qed

section \<open>Settings of a new terminal\<close>

lemma default_values [simp]:
  "c_iflag default_termios = 0x2502" "c_lflag default_termios = 0x8a3b" "c_oflag default_termios = 5"
  "c_cc default_termios = [3, 0x1c, 0x7f, 0x15, 4, 0, 1, 0, 0x11, 0x13, 0x1a, 0, 0x12, 0x0f, 0x17, 0x16,
     0, 0, 0, 0, 0, 0, 0, 0, 0, 0, 0, 0, 0, 0, 0, 0]"
  by code_simp+

lemmas flag_defs = ISIG_def ICANON_def ECHO_def ECHOE_def ECHOK_def ECHONL_def NOFLSH_def ECHOCTL_def ECHOPRT_def
  ECHOKE_def IEXTEN_def IGNBRK_def BRKINT_def ISTRIP_def INLCR_def IGNCR_def ICRNL_def IXON_def IXANY_def IXOFF_def
  IUTF8_def OPOST_def ONLCR_def OCRNL_def ONOCR_def ONLRET_def TABDLY_def XTABS_def

lemmas cc_defs = VINTR_def VQUIT_def VERASE_def VKILL_def VEOF_def VTIME_def VMIN_def VSTART_def VSTOP_def VSUSP_def
  VEOL_def VREPRINT_def VWERASE_def VLNEXT_def VEOL2_def DISABLED_def

lemma default_flags:
  assumes "ld_termios d = default_termios"
  shows "lflag d ISIG" "lflag d ICANON" "lflag d ECHO" "lflag d ECHOE" "lflag d IEXTEN" "\<not> lflag d ECHOPRT"
    "\<not> iflag d ISTRIP" "\<not> iflag d IGNCR" "iflag d ICRNL" "\<not> iflag d INLCR" "iflag d IXON" "\<not> iflag d IXOFF" "\<not> iflag d IUTF8"
    "oflag d OPOST" "oflag d ONLCR" "lflag d (ECHO OR ECHONL)"
  using assms by (simp_all add: lflag_def iflag_def oflag_def flag_defs)

lemma default_typed:
  assumes "ld_termios d = default_termios"
  shows "typed d VINTR b = (b = 3)" "typed d VQUIT b = (b = 0x1c)" "typed d VERASE b = (b = 0x7f)" "typed d VKILL b = (b = 0x15)"
    "typed d VEOF b = (b = 4)" "typed d VSTART b = (b = 0x11)" "typed d VSTOP b = (b = 0x13)" "typed d VSUSP b = (b = 0x1a)"
    "\<not> typed d VEOL b" "typed d VREPRINT b = (b = 0x12)" "typed d VWERASE b = (b = 0x17)" "typed d VLNEXT b = (b = 0x16)"
    "\<not> typed d VEOL2 b"
  using assms by (simp_all add: typed_def cc_def cc_defs)

section \<open>Typing a line\<close>

definition ordinary :: "u8 \<Rightarrow> bool" where
  "ordinary b \<longleftrightarrow> 0x20 \<le> b \<and> b \<noteq> 0x7f"

lemma ordinaryD: "ordinary b \<Longrightarrow> b \<notin> {3, 0x1c, 0x7f, 0x15, 4, 0x11, 0x13, 0x1a, 0x12, 0x17, 0x16, 0x0a, 0x0d}"
  by (auto simp: ordinary_def)

definition at_prompt :: "ldisc \<Rightarrow> bool" where
  "at_prompt d \<longleftrightarrow> ld_termios d = default_termios \<and> ld_number d = N_TTY \<and> \<not> ld_literal d \<and> \<not> ld_erase_printing d
     \<and> \<not> ld_throttled d"

lemma echo_raw_erase_printing [simp]:
  "ld_erase_printing (echo_raw b d) = ld_erase_printing d" "ld_throttled (echo_raw b d) = ld_throttled d"
  by (simp_all add: echo_raw_def output_char_def push_output_def track_column_def Let_def)

lemma echo_char_erase_printing [simp]:
  "ld_erase_printing (echo_char b d) = ld_erase_printing d" "ld_throttled (echo_char b d) = ld_throttled d"
  by (simp_all add: echo_char_def)

lemma at_prompt_canonical: "at_prompt d \<Longrightarrow> canonical d"
  by (simp add: at_prompt_def canonical_def default_flags)

lemma store_at_prompt:
  assumes "at_prompt d" "length (ld_input d) < INPUT_LIMIT"
  shows "at_prompt (store b d)" "ld_input (store b d) = ld_input d @ [b]" "ld_pending (store b d) = ld_pending d + 1"
    "ld_lines (store b d) = ld_lines d"
proof -
  let ?d1 = "if ld_pending d = 0 then d\<lparr>ld_canon_column := ld_column d\<rparr> else d"
  have c: "canonical d" "lflag d ECHO"
    using assms(1) at_prompt_canonical default_flags(3) [of d] by (simp_all add: at_prompt_def)
  have s: "store b d = (echo_char b ?d1)\<lparr>ld_input := ld_input (echo_char b ?d1) @ [b], ld_pending := ld_pending (echo_char b ?d1) + 1\<rparr>"
    using assms(2) c by (simp add: store_def Let_def)
  note e = drawsD [OF draws_echo_char [of b], of ?d1]
  from e assms(1) show "at_prompt (store b d)" "ld_input (store b d) = ld_input d @ [b]" "ld_pending (store b d) = ld_pending d + 1"
    "ld_lines (store b d) = ld_lines d"
    by (simp_all add: s at_prompt_def)
qed

text \<open>A byte that is neither ignored, flow control nor a signal reaches canonical processing.\<close>

lemma receive_plain:
  assumes "at_prompt d" "b \<notin> {3, 0x1c, 0x11, 0x13, 0x1a, 0x0d}"
  shows "receive_byte b (d, sg) = map_option (\<lambda>d2. (d2, sg)) (receive_canonical b d)"
proof -
  have t: "ld_termios d = default_termios" "\<not> ld_literal d" using assms(1) by (simp_all add: at_prompt_def)
  have "c_iflag (ld_termios d) AND (IXON OR IXANY) \<noteq> IXON OR IXANY" using t by (simp add: flag_defs)
  with assms(2) t default_flags [OF t(1)] default_typed [OF t(1)] show ?thesis
    by (simp add: receive_byte_def translate_cr_def signal_of_def)
qed

lemma receive_ordinary:
  assumes "at_prompt d" "ordinary b"
  shows "receive_byte b (d, sg) = Some (store b d, sg)"
proof -
  have t: "ld_termios d = default_termios" "\<not> ld_erase_printing d" using assms(1) by (simp_all add: at_prompt_def)
  have "receive_canonical b d = Some (store b d)"
    using ordinaryD [OF assms(2)] t(2) default_typed [OF t(1)]
    by (simp add: receive_canonical_def finish_erase_printing_def Let_def)
  with receive_plain [OF assms(1), of b sg] ordinaryD [OF assms(2)] show ?thesis by simp
qed

lemma receive_all_ordinary:
  "at_prompt d \<Longrightarrow> \<forall>b \<in> set bs. ordinary b \<Longrightarrow> length (ld_input d) + length bs \<le> INPUT_LIMIT \<Longrightarrow>
     \<exists>d'. receive_bytes bs (d, sg) = Some (d', sg) \<and> at_prompt d' \<and> ld_input d' = ld_input d @ bs
       \<and> ld_pending d' = ld_pending d + length bs \<and> ld_lines d' = ld_lines d"
proof (induction bs arbitrary: d)
  case (Cons b bs)
  have "length (ld_input d) < INPUT_LIMIT" using Cons.prems(3) by simp
  note s = store_at_prompt [OF Cons.prems(1) this, of b]
  have r: "receive_byte b (d, sg) = Some (store b d, sg)" using Cons.prems by (simp add: receive_ordinary)
  from Cons.IH [of "store b d"] Cons.prems s r show ?case by auto
qed simp

lemma receive_newline:
  assumes "at_prompt d" "e \<in> {0x0a, 0x0d}" "length (ld_input d) < INPUT_LIMIT"
  shows "\<exists>d'. receive_byte e (d, sg) = Some (d', sg) \<and> at_prompt d' \<and> ld_input d' = ld_input d @ [0x0a]
       \<and> ld_pending d' = 0 \<and> ld_lines d' = ld_lines d @ [ld_pending d + 1]"
proof -
  have t: "ld_termios d = default_termios" "\<not> ld_literal d" "\<not> ld_erase_printing d" using assms(1) by (simp_all add: at_prompt_def)
  note flags = default_flags [OF t(1)] and keys = default_typed [OF t(1)]
  have "receive_canonical 0x0a d = Some (commit_line (Some 0x0a) (echo_raw 0x0a d))"
    using t flags keys by (simp add: receive_canonical_def finish_erase_printing_def Let_def)
  moreover have "c_iflag (ld_termios d) AND (IXON OR IXANY) \<noteq> IXON OR IXANY" using t by (simp add: flag_defs)
  ultimately have "receive_byte e (d, sg) = Some (commit_line (Some 0x0a) (echo_raw 0x0a d), sg)"
    using assms(2) t flags keys by (auto simp: receive_byte_def translate_cr_def signal_of_def)
  then show ?thesis using drawsD [OF draws_echo_raw [of "0x0a"], of d] assms(1,3)
    by (simp add: commit_line_def at_prompt_def)
qed

lemma receive_bytes_append: "receive_bytes (xs @ ys) ds = Option.bind (receive_bytes xs ds) (receive_bytes ys)"
proof (induction xs arbitrary: ds)
  case (Cons a xs)
  then show ?case by (cases "receive_byte a ds") simp_all
qed simp

lemma receive_line:
  assumes "at_prompt d" and "\<forall>b \<in> set bs. ordinary b" and "length (ld_input d) + length bs < INPUT_LIMIT"
    and "e \<in> {0x0a, 0x0d}" and "ld_pending d = 0"
  shows "\<exists>d'. receive (bs @ [e]) d = Some (d', []) \<and> at_prompt d' \<and> ld_input d' = ld_input d @ bs @ [0x0a]
    \<and> ld_pending d' = 0 \<and> ld_lines d' = ld_lines d @ [length bs + 1]"
proof -
  from receive_all_ordinary [OF assms(1,2), of "[]"] assms(3) obtain d1 where
    d1: "receive_bytes bs (d, []) = Some (d1, [])" "at_prompt d1" "ld_input d1 = ld_input d @ bs"
      "ld_pending d1 = length bs" "ld_lines d1 = ld_lines d"
    by (auto simp: assms(5))
  from receive_newline [OF d1(2) assms(4), of "[]"] assms(3) d1(3-5) obtain d2 where
    d2: "receive_byte e (d1, []) = Some (d2, [])" "at_prompt d2" "ld_input d2 = ld_input d @ bs @ [0x0a]" "ld_pending d2 = 0"
      "ld_lines d2 = ld_lines d @ [length bs + 1]"
    by auto
  have t: "apply_throttle d2 = d2" using d2(2) by (simp add: apply_throttle_def at_prompt_def default_flags)
  have "receive (bs @ [e]) d = Some (d2, [])"
    using assms(1) d1(1) d2(1) t by (simp add: receive_def receive_bytes_append at_prompt_def)
  with d2 show ?thesis by blast
qed

text \<open>C29: (functional) what is typed is what is read: on a fresh terminal with the default settings, any
  line of ordinary bytes that fits the queue, ended by a newline or a carriage return,
  raises no signal and is returned by the next read exactly as typed, with one newline.\<close>

theorem typed_line_is_read:
  assumes "\<forall>b \<in> set bs. ordinary b" and "length bs < INPUT_LIMIT" and "e \<in> {0x0a, 0x0d}" and "length bs < room"
  shows "\<exists>d d'. receive (bs @ [e]) (ldisc_new default_termios) = Some (d, [])
    \<and> ldisc_read room d = (Data (bs @ [0x0a]), d') \<and> ld_input d' = [] \<and> ld_lines d' = []"
proof -
  have "at_prompt (ldisc_new default_termios)" by (simp add: at_prompt_def ldisc_new_def)
  from receive_line [OF this assms(1) _ assms(3)] assms(2) obtain d where
    d: "receive (bs @ [e]) (ldisc_new default_termios) = Some (d, [])" "at_prompt d" "ld_input d = bs @ [0x0a]"
      "ld_lines d = [length bs + 1]"
    by (auto simp: ldisc_new_def)
  have "canonical d" "\<not> ld_throttled d" using d(2) at_prompt_canonical by (auto simp: at_prompt_def)
  then have "ldisc_read room d = (Data (bs @ [0x0a]), d\<lparr>ld_input := [], ld_lines := []\<rparr>)"
    using d(3,4) assms(4) by (simp add: ldisc_read_def drain_into_def release_throttle_def)
  with d(1) show ?thesis by auto
qed

theorem typed_line_is_read_witness:
  "\<exists>d d'. receive [0x6c, 0x73, 0x0d] (ldisc_new default_termios) = Some (d, [])
     \<and> ldisc_read 100 d = (Data [0x6c, 0x73, 0x0a], d')"
  using typed_line_is_read [of "[0x6c, 0x73]" "0x0d" 100] by (auto simp: ordinary_def INPUT_LIMIT_def)

text \<open>In every history of a terminal, through any mix of input, breaks, reads, writes,
  flushes, flow control and changes of settings or discipline, at most 4096 input bytes and
  16384 output bytes are queued.\<close>

theorem queues_bounded:
  assumes "tty_step\<^sup>*\<^sup>* (ldisc_new t) d"
  shows "length (ld_input d) \<le> 4096 \<and> length (ld_output d) \<le> 16384"
  using history_bounded [OF assms] by (simp add: bounded_def out_ok_def INPUT_LIMIT_def OUTPUT_LIMIT_def)

theorem queues_bounded_witness:
  "length (ld_input (flush Both (ldisc_new default_termios))) \<le> 4096"
proof -
  have "tty_step\<^sup>*\<^sup>* (ldisc_new default_termios) (flush Both (ldisc_new default_termios))"
    by (rule r_into_rtranclp, rule tty_flush)
  from queues_bounded [OF this] show ?thesis by simp
qed

text \<open>C8: (invariant) as long as a terminal has been in canonical mode throughout, since it was created or since
  its input was last flushed, the complete lines and the line under edit partition the input queue. A read then returns
  a prefix of the first complete line, no longer than the buffer, takes exactly those bytes off the queue, never
  crosses into the next line, leaves the rest of the line to the next read, and reports end of file exactly for an
  empty line. Nothing is said of a terminal that left canonical mode with lines in its queue and came back without a flush.\<close>

theorem canonical_read_one_line:
  assumes "d0 = ldisc_new t \<or> d0 = flush Input e \<or> d0 = flush Both e"
    and "cooked_step\<^sup>*\<^sup>* d0 d" and "canonical d" and "ldisc_read room d = (r, d')"
  shows "sum_list (ld_lines d) + ld_pending d = length (ld_input d)
    \<and> (case ld_lines d of
         [] \<Rightarrow> r = WouldBlock
       | n # rest \<Rightarrow> if n = 0 then r = EndOfFile \<and> ld_input d' = ld_input d \<and> ld_lines d' = rest
           else r = Data (take (min n room) (ld_input d)) \<and> ld_input d' = drop (min n room) (ld_input d)
             \<and> ld_lines d' = (if room < n then (n - room) # rest else rest))"
proof -
  have "accounted d0" using assms(1) new_ok flush_accounted by auto
  with cooked_accounted [OF assms(2)] have acc: "accounted d" by simp
  with accounted_read [OF acc assms(3,4)] show ?thesis by (simp add: accounted_def)
qed

theorem canonical_read_one_line_witness:
  "\<exists>d1 d2 d'. receive [0x6c, 0x73, 0x0d] (ldisc_new default_termios) = Some (d1, []) \<and> receive [0x61, 0x0a] d1 = Some (d2, [])
     \<and> ldisc_read 2 d2 = (Data [0x6c, 0x73], d') \<and> ld_input d' = [0x0a, 0x61, 0x0a] \<and> ld_lines d' = [1, 2]"
proof -
  have p: "at_prompt (ldisc_new default_termios)" by (simp add: at_prompt_def ldisc_new_def)
  from receive_line [OF p, of "[0x6c, 0x73]" "0x0d"] obtain d1 where
    d1: "receive [0x6c, 0x73, 0x0d] (ldisc_new default_termios) = Some (d1, [])" "at_prompt d1"
      "ld_input d1 = [0x6c, 0x73, 0x0a]" "ld_pending d1 = 0" "ld_lines d1 = [3]"
    by (auto simp: ordinary_def INPUT_LIMIT_def ldisc_new_def)
  from receive_line [OF d1(2), of "[0x61]" "0x0a"] d1(3-5) obtain d2 where
    d2: "receive [0x61, 0x0a] d1 = Some (d2, [])" "at_prompt d2" "ld_input d2 = [0x6c, 0x73, 0x0a, 0x61, 0x0a]"
      "ld_lines d2 = [3, 2]"
    by (auto simp: ordinary_def INPUT_LIMIT_def)
  obtain r d' where r: "ldisc_read 2 d2 = (r, d')" by fastforce
  note c = at_prompt_canonical [OF p] at_prompt_canonical [OF d1(2)] at_prompt_canonical [OF d2(2)]
  have "cooked_step (ldisc_new default_termios) d1" "cooked_step d1 d2"
    using c tty_receive [OF d1(1)] tty_receive [OF d2(1)] by (simp_all add: cooked_step_def)
  then have "cooked_step\<^sup>*\<^sup>* (ldisc_new default_termios) d2" by simp
  from canonical_read_one_line [OF disjI1 [OF refl] this c(3) r] d2(3,4) have "r = Data [0x6c, 0x73] \<and> ld_input d' = [0x0a, 0x61, 0x0a] \<and> ld_lines d' = [1, 2]"
    by simp
  with d1(1) d2(1) r show ?thesis by blast
qed

text \<open>Erasing, of a character, a word or the whole line, only shortens the line under
  edit: the complete lines and all their bytes stay, and the queue stays accounted for.\<close>

theorem erase_stays_in_line:
  assumes "accounted d" and "erase kind d = Some d'"
  shows "ld_lines d' = ld_lines d \<and> accounted d'
    \<and> take (sum_list (ld_lines d)) (ld_input d') = take (sum_list (ld_lines d)) (ld_input d)
    \<and> ld_pending d' \<le> ld_pending d"
proof -
  note e = erase_edited [OF assms(2)]
  then obtain n where n: "n \<le> ld_pending d" "ld_pending d' = ld_pending d - n"
    "ld_input d' = take (length (ld_input d) - n) (ld_input d)" by (auto simp: edited_def)
  have "sum_list (ld_lines d) \<le> length (ld_input d) - n" using n(1) assms(1) by (simp add: accounted_def)
  then have "take (sum_list (ld_lines d)) (ld_input d') = take (sum_list (ld_lines d)) (ld_input d)"
    by (simp add: n(3) min_def)
  with e edited_ok [OF e] assms(1) n show ?thesis by (simp add: edited_def)
qed

theorem erase_stays_in_line_witness:
  "accounted (the (erase Line ((ldisc_new default_termios)\<lparr>ld_input := [0x61], ld_pending := 1, ld_termios := make_raw default_termios\<rparr>)))"
proof -
  let ?d = "(ldisc_new default_termios)\<lparr>ld_input := [0x61], ld_pending := 1, ld_termios := make_raw default_termios\<rparr>"
  have "\<not> lflag ?d ECHO" by (simp add: lflag_def make_raw_def flag_defs)
  then have "erase Line ?d = Some (discard_pending 1 ?d)" by (simp add: erase_def)
  moreover have "accounted ?d" by (simp add: accounted_def ldisc_new_def)
  ultimately show ?thesis using erase_stays_in_line [of ?d Line] by simp
qed

end
