(* ===== verification/Ldisc_Erase.thy ===== *)
theory Ldisc_Erase
  imports Ldisc_Props
begin

text \<open>
  When erasing returns. Backing the cursor up moves the column only while the output queue has
  room: with room for three bytes per column every input byte is processed to the end, and
  with a full queue an erase that has to back up never returns.
\<close>

section \<open>Echo and room\<close>

lemma echo_raw_room: "b \<notin> {0x0a, 0x0d, 0x09} \<Longrightarrow> 0 < output_space d \<Longrightarrow> echo_raw b d = push_output [b] (track_column b d)"
  by (simp add: echo_raw_def output_char_def)

lemma echo_raw_full: "b \<notin> {0x0a, 0x0d, 0x09} \<Longrightarrow> output_space d = 0 \<Longrightarrow> echo_raw b d = d"
  by (simp add: echo_raw_def output_char_def)

lemma output_space_push [simp]: "output_space (push_output bs d) = output_space d - length bs"
  by (simp add: output_space_def push_output_def)

lemma ld_column_push [simp]: "ld_column (push_output bs d) = ld_column d"
  by (simp add: push_output_def)

lemma track_back [simp]: "ld_column (track_column 8 d) = ld_column d - 1" "ld_column (track_column 0x20 d) = ld_column d + 1"
  by (simp_all add: track_column_def)

lemma back_over_room:
  assumes "3 \<le> output_space d" "0 < ld_column d"
  shows "ld_column (back_over w d) = ld_column d - 1" "output_space d - 3 \<le> output_space (back_over w d)"
  using assms by (simp_all add: back_over_def echo_raw_room numeral_3_eq_3 diff_le_mono2)

lemma back_over_full: "output_space d = 0 \<Longrightarrow> back_over w d = d"
  by (simp add: back_over_def echo_raw_full)

definition roomy :: "ldisc \<Rightarrow> bool" where
  "roomy d \<longleftrightarrow> 3 * ld_column d \<le> output_space d"

lemma erase_to_column_returns: "roomy d \<Longrightarrow> \<exists>d'. erase_to_column target w d = Some d' \<and> roomy d'"
proof (induction "ld_column d" arbitrary: d rule: less_induct)
  case less
  show ?case
  proof (cases "ld_column d > target")
    case True
    with less.prems have "3 \<le> output_space d" "0 < ld_column d" by (auto simp: roomy_def)
    from back_over_room [OF this, of w] less.hyps [of "back_over w d"] less.prems True show ?thesis
      by (subst erase_to_column.simps) (auto simp: roomy_def)
  next
    case False
    with less.prems show ?thesis by (subst erase_to_column.simps) simp
  qed
qed

lemma erase_to_column_stuck:
  assumes "output_space d = 0" "target < ld_column d"
  shows "erase_to_column target w d = None"
proof (rule ccontr)
  assume "erase_to_column target w d \<noteq> None"
  then obtain y where y: "erase_to_column target w d = Some y" by blast
  have "\<not> (output_space d = 0 \<and> target < ld_column d)"
  proof (rule erase_to_column.raw_induct [OF _ y])
    fix f target w d d'
    assume IH: "\<And>t w d y. f t w d = Some y \<Longrightarrow> \<not> (output_space d = 0 \<and> t < ld_column d)"
      and s: "(if target < ld_column d then f target w (back_over w d) else Some d) = Some d'"
    show "\<not> (output_space d = 0 \<and> target < ld_column d)"
    proof
      assume full: "output_space d = 0 \<and> target < ld_column d"
      with s have "f target w d = Some d'" by (simp add: back_over_full)
      from IH [OF this] full show False by blast
    qed
  qed
  with assms show False by blast
qed

section \<open>Erasing with room\<close>

lemma undraw_returns:
  assumes "roomy d"
  shows "\<exists>d'. undraw kind byte target d = Some d' \<and> (lflag d ECHO \<longrightarrow> lflag d ECHOPRT \<or> kind = Character \<or> roomy d')"
  using erase_to_column_returns [OF assms] by (auto simp: undraw_def)

text \<open>The two settings in which the loop continues without needing room.\<close>

definition can_erase :: "ldisc \<Rightarrow> bool" where
  "can_erase d \<longleftrightarrow> \<not> lflag d ECHO \<or> lflag d ECHOPRT \<or> roomy d"

lemma width_pos: "0 < character_width_bytes d"
proof -
  have "count \<le> width_from d count" for count
    by (induction d count rule: width_from.induct) (subst width_from.simps, auto)
  from this [of 1] show ?thesis by (simp add: character_width_bytes_def)
qed

lemma discard_frame [simp]:
  "roomy (discard_pending n d) = roomy d" "lflag (discard_pending n d) f = lflag d f"
  "ld_pending (discard_pending n d) = ld_pending d - n"
  by (simp_all add: discard_pending_def roomy_def output_space_def lflag_def Let_def min_def)

lemma undraw_step:
  assumes "can_erase d"
  shows "\<exists>d'. undraw kind byte target d = Some d' \<and> ld_pending d' = ld_pending d \<and> (kind \<noteq> Character \<longrightarrow> can_erase d')"
proof -
  obtain d' where d': "undraw kind byte target d = Some d'" "kind \<noteq> Character \<longrightarrow> \<not> lflag d ECHO \<or> lflag d ECHOPRT \<or> roomy d'"
  proof (cases "lflag d ECHO \<and> \<not> lflag d ECHOPRT")
    case True
    with assms that show thesis using undraw_returns [of d kind byte target] by (auto simp: can_erase_def)
  next
    case False
    then have "\<exists>d'. undraw kind byte target d = Some d'" by (simp add: undraw_def)
    with False that show thesis by blast
  qed
  from undraw_draws [OF d'(1)] have "ld_termios d' = ld_termios d" "ld_pending d' = ld_pending d" by (simp_all add: same_input_def)
  with d' show ?thesis by (auto simp: can_erase_def lflag_def)
qed

lemma erase_loop_returns: "can_erase d \<Longrightarrow> \<exists>d'. erase_loop kind seen d = Some d'"
proof (induction "ld_pending d" arbitrary: d seen rule: less_induct)
  case less
  let ?c = "character_width_bytes d"
  let ?b = "pending_byte d (ld_pending d - ?c)"
  show ?case
  proof (cases "ld_pending d = 0 \<or> kind = Word \<and> \<not> is_word ?b \<and> seen")
    case True
    then show ?thesis by (subst erase_loop.simps) (auto simp: Let_def)
  next
    case False
    have "can_erase (discard_pending ?c d)" using less.prems by (simp add: can_erase_def)
    from undraw_step [OF this, of kind ?b "replay_column d (ld_pending d - ?c)"] obtain d1 where
      d1: "undraw kind ?b (replay_column d (ld_pending d - ?c)) (discard_pending ?c d) = Some d1"
      "ld_pending d1 = ld_pending d - ?c" "kind \<noteq> Character \<longrightarrow> can_erase d1" by auto
    have "ld_pending d1 < ld_pending d" using False d1(2) width_pos [of d] by auto
    with less.hyps [OF this] d1 False show ?thesis by (subst erase_loop.simps) (auto simp: Let_def)
  qed
qed

lemma erase_returns: "can_erase d \<Longrightarrow> \<exists>d'. erase kind d = Some d'"
  using erase_loop_returns [of d kind False] by (auto simp: erase_def Let_def)

lemma receive_canonical_returns: "can_erase d \<Longrightarrow> \<exists>d'. receive_canonical b d = Some d'"
  using erase_returns [of d] by (auto simp: receive_canonical_def Let_def)

text \<open>Every input byte is processed to the end, whatever the settings and the line
  under edit, when echo is off, when erased text is printed instead of backed over, or
  when the output queue has room for three bytes for every column the cursor could back
  over.\<close>

theorem receive_byte_returns:
  assumes "\<not> lflag d ECHO \<or> lflag d ECHOPRT \<or> 3 * ld_column d \<le> output_space d"
  shows "\<exists>d' sg'. receive_byte b (d, sg) = Some (d', sg')"
proof -
  define d1 where "d1 = (if ld_stopped d \<and> c_iflag (ld_termios d) AND (IXON OR IXANY) = IXON OR IXANY
      then d\<lparr>ld_stopped := False\<rparr> else d)"
  have "can_erase d1" using assms by (simp add: d1_def can_erase_def roomy_def lflag_def output_space_def)
  then have "\<exists>d'. receive_canonical byte d1 = Some d'" for byte by (rule receive_canonical_returns)
  then show ?thesis unfolding receive_byte_def Let_def d1_def [symmetric] prod.case
    by (auto split: option.split) 
qed

theorem receive_byte_returns_witness:
  "\<exists>d' sg'. receive_byte 0x7f (ldisc_new default_termios, []) = Some (d', sg')"
  by (rule receive_byte_returns) (simp add: ldisc_new_def)

section \<open>Erasing with a full queue\<close>

lemma output_char_ordinary:
  assumes "ordinary b" "\<not> iflag d IUTF8" "0 < output_space d"
  shows "output_char b d = (True, (push_output [b] d)\<lparr>ld_column := ld_column d + 1\<rparr>)"
proof -
  have "b \<notin> {0x0a, 0x0d, 0x09, 8}" using assms(1) by (auto simp: ordinary_def)
  with assms show ?thesis by (simp add: output_char_def track_column_def push_output_def ordinary_def)
qed

lemma output_chars_ordinary:
  "ordinary b \<Longrightarrow> \<not> iflag d IUTF8 \<Longrightarrow> n \<le> output_space d \<Longrightarrow>
     output_chars (replicate n b) d = (n, (push_output (replicate n b) d)\<lparr>ld_column := ld_column d + n\<rparr>)"
proof (induction n arbitrary: d)
  case 0
  then show ?case by (simp add: push_output_def)
next
  case (Suc n)
  let ?d1 = "(push_output [b] d)\<lparr>ld_column := ld_column d + 1\<rparr>"
  have "\<not> iflag ?d1 IUTF8" "n \<le> output_space ?d1" using Suc.prems(2,3) by (simp_all add: iflag_def push_output_def output_space_def)
  from Suc.IH [OF Suc.prems(1) this] output_char_ordinary [OF Suc.prems(1,2)] Suc.prems(3) show ?case
    by (simp add: push_output_def)
qed

definition demo_full :: ldisc where
  "demo_full = (ldisc_new default_termios)\<lparr>ld_input := [0x61], ld_pending := 1,
     ld_output := 0x61 # replicate 16383 0x78, ld_column := 16384\<rparr>"

lemma demo_typed:
  "receive [0x61] (ldisc_new default_termios) =
     Some ((ldisc_new default_termios)\<lparr>ld_input := [0x61], ld_pending := 1, ld_output := [0x61], ld_column := 1\<rparr>, [])"
  by code_simp

lemma demo_full_reachable: "tty_step\<^sup>*\<^sup>* (ldisc_new default_termios) demo_full"
proof -
  let ?d = "(ldisc_new default_termios)\<lparr>ld_input := [0x61], ld_pending := 1, ld_output := [0x61], ld_column := 1\<rparr>"
  have t: "ld_termios ?d = default_termios" by (simp add: ldisc_new_def)
  have "output_chars (replicate 16383 0x78) ?d = (16383, (push_output (replicate 16383 0x78) ?d)\<lparr>ld_column := ld_column ?d + 16383\<rparr>)"
    by (rule output_chars_ordinary) (use default_flags(13) [OF t] in \<open>simp_all add: ordinary_def output_space_def OUTPUT_LIMIT_def\<close>)
  then have "snd (write_output (replicate 16383 0x78) ?d) = demo_full"
    using default_flags(14) [OF t] by (simp add: write_output_def demo_full_def push_output_def ldisc_new_def)
  then have "tty_step ?d demo_full" using tty_write [of ?d "replicate 16383 0x78"] by simp
  moreover have "tty_step (ldisc_new default_termios) ?d" by (rule tty_receive [OF demo_typed])
  ultimately show ?thesis by (meson r_into_rtranclp rtranclp.rtrancl_into_rtrancl)
qed

text \<open>C38: (liveness) erasing can hang the terminal: from a fresh terminal with the default settings, one
  typed character and a program that fills the output queue lead to a state in which
  processing the erase character never returns, because the echo that would move the cursor
  is dropped while the loop waits for the cursor to move.\<close>

theorem erase_hangs_on_full_output:
  "\<exists>d. tty_step\<^sup>*\<^sup>* (ldisc_new default_termios) d \<and> receive [0x7f] d = None"
proof (intro exI conjI)
  show "tty_step\<^sup>*\<^sup>* (ldisc_new default_termios) demo_full" by (rule demo_full_reachable)
  have p: "at_prompt demo_full" by (simp add: at_prompt_def demo_full_def ldisc_new_def)
  then have t: "ld_termios demo_full = default_termios" by (simp add: at_prompt_def)
  note flags = default_flags [OF t]
  have "lflag (discard_pending 1 demo_full) f = lflag demo_full f" for f by simp
  then have "undraw Character 0x61 0 (discard_pending 1 demo_full) = erase_to_column 0 False (discard_pending 1 demo_full)"
    using flags by (simp add: undraw_def)
  moreover have "erase_to_column 0 False (discard_pending 1 demo_full) = None"
    by (rule erase_to_column_stuck) (simp_all add: discard_pending_def demo_full_def output_space_def OUTPUT_LIMIT_def ldisc_new_def)
  moreover have "ld_pending demo_full = 1" "character_width_bytes demo_full = 1" "pending_byte demo_full 0 = 0x61" "replay_column demo_full 0 = 0"
    using flags(13) by (simp_all add: demo_full_def character_width_bytes_def pending_byte_def replay_column_def ldisc_new_def)
  ultimately have "erase_loop Character False demo_full = None"
    by (subst erase_loop.simps) (simp add: Let_def)
  then have "receive_canonical 0x7f demo_full = None"
    using default_typed [OF t] \<open>ld_pending demo_full = 1\<close> by (simp add: receive_canonical_def erase_def Let_def)
  with receive_plain [OF p, of "0x7f" "[]"] p show "receive [0x7f] demo_full = None" by (simp add: receive_def at_prompt_def)
qed

section \<open>Post-processed output\<close>

definition onlcr :: "u8 \<Rightarrow> bytes" where
  "onlcr b = (if b = 0x0a then [0x0d, 0x0a] else [b])"

lemma output_char_onlcr:
  assumes "c_oflag (ld_termios d) = OPOST OR ONLCR"
  shows "if length (onlcr b) \<le> output_space d
    then fst (output_char b d) \<and> ld_output (snd (output_char b d)) = ld_output d @ onlcr b
    else output_char b d = (False, d)"
proof -
  have "\<not> oflag d ONLRET" "oflag d ONLCR" "\<not> oflag d ONOCR" "\<not> oflag d OCRNL" "c_oflag (ld_termios d) AND TABDLY \<noteq> XTABS"
    using assms by (simp_all add: oflag_def flag_defs)
  then show ?thesis by (auto simp: output_char_def onlcr_def push_output_def Let_def)
qed

text \<open>Output with the default post-processing is exact: of the bytes a program
  writes, the number reported as consumed are on the queue in order, each newline as carriage
  return and newline, nothing else is added, and the write is short only when the next
  byte does not fit as a whole.\<close>

theorem write_output_onlcr:
  assumes "ld_number d = N_TTY" and "c_oflag (ld_termios d) = OPOST OR ONLCR" and "write_output bs d = (n, d')"
  shows "n \<le> length bs \<and> ld_output d' = ld_output d @ concat (map onlcr (take n bs))
    \<and> (n < length bs \<longrightarrow> output_space d' < length (onlcr (bs ! n)))"
proof -
  have "oflag d OPOST" using assms(2) by (simp add: oflag_def flag_defs)
  then have "output_chars bs d = (n, d')" using assms(1,3) by (simp add: write_output_def)
  then show ?thesis using assms(2)
  proof (induction bs arbitrary: d n)
    case (Cons b bs)
    show ?case
    proof (cases "length (onlcr b) \<le> output_space d")
      case False
      then show ?thesis using Cons.prems output_char_onlcr [OF Cons.prems(2), of b] by (auto simp: output_chars_Cons)
    next
      case True
      let ?d1 = "snd (output_char b d)"
      note oc = output_char_onlcr [OF Cons.prems(2), of b]
      have t: "c_oflag (ld_termios ?d1) = OPOST OR ONLCR"
        using Cons.prems(2) drawsD(1) [OF draws_output_char [of b], of d] by simp
      from True oc Cons.prems(1) obtain m where m: "output_chars bs ?d1 = (m, d')" "n = m + 1"
        by (cases "output_chars bs ?d1") (auto simp: output_chars_Cons simp del: output_chars.simps)
      from Cons.IH [OF m(1) t] m(2) True oc show ?thesis by simp
    qed
  qed simp
qed

theorem write_output_onlcr_witness:
  "ld_output (snd (write_output [0x68, 0x0a] (ldisc_new default_termios))) = [0x68, 0x0d, 0x0a]"
proof -
  obtain n d' where w: "write_output [0x68, 0x0a] (ldisc_new default_termios) = (n, d')" by fastforce
  have "n = 2" using w by (simp add: write_output_def ldisc_new_def oflag_def lflag_def iflag_def output_char_def output_space_def
        OUTPUT_LIMIT_def push_output_def track_column_def Let_def flag_defs)
  with write_output_onlcr [OF _ _ w] w show ?thesis by (simp add: ldisc_new_def flag_defs onlcr_def)
qed

section \<open>Where the state falls out of step\<close>

text \<open>
  Leaving canonical mode keeps the lengths of the complete lines while raw reads take their
  bytes: back in canonical mode the old length is served again, zero-filled.
\<close>

theorem stale_line_reads_zeros:
  "\<exists>d1 d2. receive [0x61, 0x62, 0x0a] (ldisc_new default_termios) = Some (d1, [])
     \<and> ldisc_read 100 (retune (make_raw default_termios) d1) = (Data [0x61, 0x62, 0x0a], d2)
     \<and> fst (ldisc_read 100 (retune default_termios d2)) = Data [0, 0, 0]"
proof -
  let ?d0 = "ldisc_new default_termios"
  let ?d1 = "?d0\<lparr>ld_input := [0x61, 0x62, 0x0a], ld_lines := [3], ld_output := [0x61, 0x62, 0x0d, 0x0a]\<rparr>"
  let ?d2 = "?d0\<lparr>ld_termios := make_raw default_termios, ld_lines := [3], ld_output := [0x61, 0x62, 0x0d, 0x0a]\<rparr>"
  have "receive [0x61, 0x62, 0x0a] ?d0 = Some (?d1, [])" by code_simp
  moreover have "ldisc_read 100 (retune (make_raw default_termios) ?d1) = (Data [0x61, 0x62, 0x0a], ?d2)" by code_simp
  moreover have "fst (ldisc_read 100 (retune default_termios ?d2)) = Data [0, 0, 0]" by code_simp
  ultimately show ?thesis by blast
qed

text \<open>
  Flushing both queues of a throttled terminal queues the byte that restarts the writer and
  then discards it with the rest of the output; the terminal no longer counts as throttled.
\<close>

theorem flush_loses_restart:
  "ld_throttled d \<Longrightarrow> \<not> ld_throttled (flush Both d) \<and> ld_output (flush Both d) = []"
  by (simp add: flush_def release_throttle_def)

end
