(* ===== verification/Fd_Slots.thy ===== *)
theory Fd_Slots
  imports Vfs_Errno
begin

text \<open>
  The sparse descriptor storage of \<^verbatim>\<open>kinakaze-vfs/src/fd_slots.rs\<close>: a two-level tree of
  pages of 64 slots, each page with a bitmap of the used and one of the reserved slots, and a
  cached lower bound of the free descriptors. A \<open>Box\<close> that may be absent is an option, an
  \<open>assert!\<close> that fails is a panic, and the places that write through \<open>page_mut\<close> replace the
  page in the tree.
\<close>

section \<open>Entries\<close>

definition MAX_FDS :: nat where "MAX_FDS = 1024 * 1024"
definition WIDTH :: nat where "WIDTH = 64"
definition BRANCH_SIZE :: nat where "BRANCH_SIZE = WIDTH * WIDTH"

datatype descriptor_kind =
    FdFile | FdDirectory | FdConsole | FdPipe | FdSocket | FdEvent | FdEventFd | FdUnixSocket
  | FdSynthetic | FdProcMounts | FdSyntheticDirectory | FdNull | FdZero | FdRandom | FdFull
  | FdInotify | FdPtyMaster | FdPtySlave | FdCgroupFile | FdNetlinkSocket | FdBpfProgram
  | FdProcSysctl | FdFifo | FdUnknown | FdIoRing | FdMountNamespace | FdTimeNamespace
  | FdNamespace | FdUserNamespace | FdTimerFd | FdSignalFd | FdFsContext | FdMountTree
  | FdTmpfsFile | FdTmpfsDirectory | FdMessageQueue | FdSysfsFile | FdRtc

record fd_entry =
  fe_raw :: u64
  fe_kind :: descriptor_kind
  fe_flags :: u32
  fe_generation :: u32
  fe_description_id :: u64
  fe_offset :: u64

section \<open>Pages and branches\<close>

record fd_page =
  pg_entries :: "fd_entry option list"
  pg_used :: u64
  pg_reserved :: u64

type_synonym fd_branch = "fd_page option list"

record slots =
  sl_branches :: "fd_branch option list"
  sl_first_free :: nat

definition slots_default :: slots where
  "slots_default = \<lparr>sl_branches = [], sl_first_free = 0\<rparr>"

definition branch_at :: "slots \<Rightarrow> nat \<Rightarrow> fd_branch option" where
  "branch_at s fd =
     (if fd div BRANCH_SIZE < length (sl_branches s) then sl_branches s ! (fd div BRANCH_SIZE)
      else None)"

definition page_at :: "slots \<Rightarrow> nat \<Rightarrow> fd_page option" where
  "page_at s fd =
     (case branch_at s fd of None \<Rightarrow> None | Some b \<Rightarrow> b ! (fd div WIDTH mod WIDTH))"

definition set_page :: "nat \<Rightarrow> fd_page option \<Rightarrow> slots \<Rightarrow> slots" where
  "set_page fd p s =
     (case branch_at s fd of
        None \<Rightarrow> s
      | Some b \<Rightarrow> s\<lparr>sl_branches := (sl_branches s)
                     [fd div BRANCH_SIZE := Some (b[fd div WIDTH mod WIDTH := p])]\<rparr>)"

definition empty_branch :: fd_branch where
  "empty_branch = replicate WIDTH None"

definition empty_page :: fd_page where
  "empty_page = \<lparr>pg_entries = replicate WIDTH None, pg_used = 0, pg_reserved = 0\<rparr>"

definition resize_branches :: "nat \<Rightarrow> fd_branch option list \<Rightarrow> fd_branch option list" where
  "resize_branches n bs = bs @ replicate (n - length bs) None"

definition ensure_branch :: "nat \<Rightarrow> slots \<Rightarrow> slots" where
  "ensure_branch fd s =
     (let i = fd div BRANCH_SIZE;
          bs = (if length (sl_branches s) \<le> i then resize_branches (i + 1) (sl_branches s)
                else sl_branches s)
      in s\<lparr>sl_branches :=
             bs[i := Some (case bs ! i of None \<Rightarrow> empty_branch | Some b \<Rightarrow> b)]\<rparr>)"

definition ensure_page :: "nat \<Rightarrow> slots \<Rightarrow> (i32, fd_page \<times> slots) outcome" where
  "ensure_page fd s =
     (if fd \<ge> MAX_FDS then Panic
      else let s = ensure_branch fd s in
        (case page_at s fd of
           Some p \<Rightarrow> Ok (p, s)
         | None \<Rightarrow> Ok (empty_page, set_page fd (Some empty_page) s)))"

definition slot_bit :: "nat \<Rightarrow> u64" where
  "slot_bit fd = push_bit (fd mod WIDTH) 1"

section \<open>The search for a free descriptor\<close>

definition trailing_zeros :: "u64 \<Rightarrow> nat" where
  "trailing_zeros w = length (takeWhile (\<lambda>k. \<not> bit w k) [0..<64])"

function find_free_from :: "slots \<Rightarrow> nat \<Rightarrow> nat \<Rightarrow> nat option" where
  "find_free_from s lo hi =
     (if lo < hi then
        (case page_at s lo of
           None \<Rightarrow> Some lo
         | Some page \<Rightarrow>
             let available = NOT (pg_used page OR pg_reserved page)
                             AND push_bit (lo mod WIDTH) (- 1) in
             if available \<noteq> 0 then
               let fd = lo div WIDTH * WIDTH + trailing_zeros available in
               (if fd < hi then Some fd else None)
             else find_free_from s ((lo div WIDTH + 1) * WIDTH) hi)
      else None)"
  by pat_completeness auto

termination
proof (relation "measure (\<lambda>(s, lo, hi). hi - lo)", goal_cases)
  case 1
  show ?case by simp
next
  case (2 s lo hi page available)
  have "lo < (lo div WIDTH + 1) * WIDTH"
    by (simp add: WIDTH_def)
  with 2 show ?case by simp
qed

definition find_free :: "slots \<Rightarrow> nat \<Rightarrow> nat \<Rightarrow> nat option" where
  "find_free s lo hi = find_free_from s lo (min hi MAX_FDS)"

definition advance_free :: "nat \<Rightarrow> slots \<Rightarrow> slots" where
  "advance_free fd s =
     (if sl_first_free s = fd
      then s\<lparr>sl_first_free :=
               (case find_free s (fd + 1) MAX_FDS of None \<Rightarrow> MAX_FDS | Some n \<Rightarrow> n)\<rparr>
      else s)"

definition first_free_between :: "slots \<Rightarrow> nat \<Rightarrow> nat \<Rightarrow> nat option" where
  "first_free_between s lo hi = find_free s (max lo (sl_first_free s)) hi"

section \<open>Operations\<close>

definition slots_get :: "slots \<Rightarrow> nat \<Rightarrow> fd_entry option option" where
  "slots_get s fd =
     (if fd \<ge> MAX_FDS then None
      else Some (case page_at s fd of None \<Rightarrow> None | Some p \<Rightarrow> pg_entries p ! (fd mod WIDTH)))"

text \<open>Every caller of \<open>get_mut\<close> changes fields of an entry that is there.\<close>

definition slots_get_mut :: "nat \<Rightarrow> (fd_entry \<Rightarrow> fd_entry) \<Rightarrow> slots \<Rightarrow> slots" where
  "slots_get_mut fd f s =
     (case page_at s fd of
        None \<Rightarrow> s
      | Some p \<Rightarrow>
          set_page fd (Some (p\<lparr>pg_entries := (pg_entries p)
            [fd mod WIDTH := map_option f (pg_entries p ! (fd mod WIDTH))]\<rparr>)) s)"

definition slots_insert :: "nat \<Rightarrow> fd_entry \<Rightarrow> slots \<Rightarrow> (i32, slots) outcome" where
  "slots_insert fd entry s =
     and_then (ensure_page fd s) (\<lambda>(page, s).
       Ok (advance_free fd (set_page fd (Some (page
         \<lparr>pg_entries := (pg_entries page)[fd mod WIDTH := Some entry],
          pg_used := pg_used page OR slot_bit fd\<rparr>)) s)))"

function pop_branches :: "fd_branch option list \<Rightarrow> fd_branch option list" where
  "pop_branches bs = (if bs \<noteq> [] \<and> last bs = None then pop_branches (butlast bs) else bs)"
  by pat_completeness auto

termination by (relation "measure length") auto

definition reclaim :: "nat \<Rightarrow> slots \<Rightarrow> slots" where
  "reclaim fd s =
     (case branch_at s fd of
        None \<Rightarrow> s
      | Some b \<Rightarrow>
          let i = fd div WIDTH mod WIDTH;
              b = (case b ! i of
                     Some p \<Rightarrow> if pg_used p OR pg_reserved p = 0 then b[i := None] else b
                   | None \<Rightarrow> b) in
          if list_all (\<lambda>p. p = None) b
          then s\<lparr>sl_branches := pop_branches ((sl_branches s)[fd div BRANCH_SIZE := None])\<rparr>
          else s\<lparr>sl_branches := (sl_branches s)[fd div BRANCH_SIZE := Some b]\<rparr>)"

definition slots_remove :: "nat \<Rightarrow> slots \<Rightarrow> fd_entry option \<times> slots" where
  "slots_remove fd s =
     (case page_at s fd of
        None \<Rightarrow> (None, s)
      | Some page \<Rightarrow>
          (case pg_entries page ! (fd mod WIDTH) of
             None \<Rightarrow> (None, s)
           | Some entry \<Rightarrow>
               let s = set_page fd (Some (page
                         \<lparr>pg_entries := (pg_entries page)[fd mod WIDTH := None],
                          pg_used := pg_used page AND NOT (slot_bit fd)\<rparr>)) s;
                   s = (if pg_reserved page AND slot_bit fd = 0
                        then s\<lparr>sl_first_free := min (sl_first_free s) fd\<rparr> else s)
               in (Some entry, reclaim fd s)))"

definition slots_reserve :: "nat \<Rightarrow> slots \<Rightarrow> (i32, slots) outcome" where
  "slots_reserve fd s =
     and_then (ensure_page fd s) (\<lambda>(page, s).
       if (pg_used page OR pg_reserved page) AND slot_bit fd \<noteq> 0 then Panic
       else Ok (advance_free fd (set_page fd
              (Some (page\<lparr>pg_reserved := pg_reserved page OR slot_bit fd\<rparr>)) s)))"

definition is_reserved :: "slots \<Rightarrow> nat \<Rightarrow> bool" where
  "is_reserved s fd \<longleftrightarrow>
     (case page_at s fd of None \<Rightarrow> False | Some p \<Rightarrow> pg_reserved p AND slot_bit fd \<noteq> 0)"

definition slots_unreserve :: "nat \<Rightarrow> slots \<Rightarrow> slots" where
  "slots_unreserve fd s =
     (case page_at s fd of
        None \<Rightarrow> s
      | Some page \<Rightarrow>
          let s = set_page fd
                    (Some (page\<lparr>pg_reserved := pg_reserved page AND NOT (slot_bit fd)\<rparr>)) s;
              s = (if pg_used page AND slot_bit fd = 0
                   then s\<lparr>sl_first_free := min (sl_first_free s) fd\<rparr> else s)
          in reclaim fd s)"

definition clear_page :: "fd_page option \<Rightarrow> fd_page option" where
  "clear_page p =
     (case p of
        None \<Rightarrow> None
      | Some p \<Rightarrow> if pg_used p = 0 then None else Some (p\<lparr>pg_reserved := 0\<rparr>))"

definition clear_reservations :: "slots \<Rightarrow> slots" where
  "clear_reservations s =
     (let s = s\<lparr>sl_branches := map (map_option (map clear_page)) (sl_branches s)\<rparr>
      in s\<lparr>sl_first_free :=
             (case find_free s 0 MAX_FDS of None \<Rightarrow> MAX_FDS | Some n \<Rightarrow> n)\<rparr>)"

definition enumerated :: "slots \<Rightarrow> (nat \<times> fd_entry option) list" where
  "enumerated s =
     concat (map (\<lambda>(i, b). case b of None \<Rightarrow> [] | Some b \<Rightarrow>
       concat (map (\<lambda>(j, p). case p of None \<Rightarrow> [] | Some p \<Rightarrow>
         map (\<lambda>(k, e). (i * BRANCH_SIZE + j * WIDTH + k, e))
             (List.enumerate 0 (pg_entries p)))
       (List.enumerate 0 b)))
     (List.enumerate 0 (sl_branches s)))"

definition slots_iter :: "slots \<Rightarrow> fd_entry option list" where
  "slots_iter s = map snd (enumerated s)"

text \<open>\<open>Index\<close> fails by \<open>expect\<close> above the last descriptor.\<close>

definition slots_index :: "slots \<Rightarrow> nat \<Rightarrow> (i32, fd_entry option) outcome" where
  "slots_index s fd = (case slots_get s fd of None \<Rightarrow> Panic | Some e \<Rightarrow> Ok e)"

end
