(* ===== verification/Fd_Tree.thy ===== *)
theory Fd_Tree
  imports Fd_Slots
begin

text \<open>
  The tree below the descriptor slots as a function from page numbers to pages: a
  well-formedness condition of the tree and, for each way the code changes it, what the page
  of every descriptor is afterwards.
\<close>

section \<open>Well-formed trees\<close>

definition page_ok :: "fd_page \<Rightarrow> bool" where
  "page_ok p \<longleftrightarrow> length (pg_entries p) = WIDTH
     \<and> (\<forall>k < WIDTH. bit (pg_used p) k \<longleftrightarrow> pg_entries p ! k \<noteq> None)"

definition branch_ok :: "fd_branch \<Rightarrow> bool" where
  "branch_ok b \<longleftrightarrow> length b = WIDTH \<and> (\<forall>p. Some p \<in> set b \<longrightarrow> page_ok p)"

definition tree_ok :: "slots \<Rightarrow> bool" where
  "tree_ok s \<longleftrightarrow> length (sl_branches s) \<le> MAX_FDS div BRANCH_SIZE
     \<and> (\<forall>b. Some b \<in> set (sl_branches s) \<longrightarrow> branch_ok b)"

definition entry_in :: "slots \<Rightarrow> nat \<Rightarrow> fd_entry option" where
  "entry_in s fd = (case page_at s fd of None \<Rightarrow> None | Some p \<Rightarrow> pg_entries p ! (fd mod WIDTH))"

lemmas fd_sizes = WIDTH_def BRANCH_SIZE_def MAX_FDS_def

lemma same_page:
  "fd div BRANCH_SIZE = x div BRANCH_SIZE \<and> fd div WIDTH mod WIDTH = x div WIDTH mod WIDTH
     \<longleftrightarrow> fd div WIDTH = x div WIDTH"
proof -
  have split: "n div BRANCH_SIZE = n div WIDTH div WIDTH" for n
    by (simp add: BRANCH_SIZE_def div_mult2_eq)
  show ?thesis
    unfolding split by (metis div_mult_mod_eq)
qed

lemma same_slot: "fd div WIDTH = x div WIDTH \<Longrightarrow> fd mod WIDTH = x mod WIDTH \<longleftrightarrow> fd = (x :: nat)"
  by (metis div_mult_mod_eq)

lemma WIDTH_mod [simp]: "n mod WIDTH < WIDTH"
  by (simp add: WIDTH_def)

lemma bit_slot_bit: "bit (slot_bit fd) k \<longleftrightarrow> k = fd mod WIDTH"
  by (auto simp: slot_bit_def bit_simps possible_bit_def WIDTH_def)

lemma and_slot_bit: "w AND slot_bit fd = 0 \<longleftrightarrow> \<not> bit w (fd mod WIDTH)"
proof
  assume "w AND slot_bit fd = 0"
  then have "\<not> bit (w AND slot_bit fd) (fd mod WIDTH)" by simp
  then show "\<not> bit w (fd mod WIDTH)" by (simp add: bit_and_iff bit_slot_bit)
next
  assume "\<not> bit w (fd mod WIDTH)"
  then show "w AND slot_bit fd = 0" by (intro bit_eqI) (auto simp: bit_and_iff bit_slot_bit)
qed

lemma page_ok_nth: "page_ok p \<Longrightarrow> pg_entries p ! (fd mod WIDTH) \<noteq> None \<longleftrightarrow> bit (pg_used p) (fd mod WIDTH)"
  by (simp add: page_ok_def)

lemma page_ok_length: "page_ok p \<Longrightarrow> length (pg_entries p) = WIDTH"
  by (simp add: page_ok_def)

lemma page_ok_empty: "page_ok empty_page"
  by (simp add: page_ok_def empty_page_def)

section \<open>Reading\<close>

lemma branch_at_ok: "tree_ok s \<Longrightarrow> branch_at s fd = Some b \<Longrightarrow> branch_ok b \<and> fd < MAX_FDS"
proof -
  assume ok: "tree_ok s" and b: "branch_at s fd = Some b"
  then have i: "fd div BRANCH_SIZE < length (sl_branches s)"
    and "sl_branches s ! (fd div BRANCH_SIZE) = Some b"
    by (auto simp: branch_at_def split: if_splits)
  then have "Some b \<in> set (sl_branches s)" by (metis nth_mem)
  moreover have "fd div BRANCH_SIZE < MAX_FDS div BRANCH_SIZE"
    using ok i by (simp add: tree_ok_def)
  ultimately show ?thesis using ok by (auto simp: tree_ok_def fd_sizes)
qed

lemma page_at_ok: "tree_ok s \<Longrightarrow> page_at s fd = Some p \<Longrightarrow> page_ok p \<and> fd < MAX_FDS"
proof -
  assume ok: "tree_ok s" and p: "page_at s fd = Some p"
  then obtain b where b: "branch_at s fd = Some b" and "b ! (fd div WIDTH mod WIDTH) = Some p"
    by (auto simp: page_at_def split: option.splits)
  moreover have "branch_ok b" and "fd < MAX_FDS" using branch_at_ok [OF ok b] by auto
  moreover then have "fd div WIDTH mod WIDTH < length b" by (simp add: branch_ok_def)
  ultimately show ?thesis by (metis branch_ok_def nth_mem)
qed

lemma page_at_branch: "page_at s fd = Some p \<Longrightarrow> branch_at s fd \<noteq> None"
  by (auto simp: page_at_def split: option.splits)

lemma page_at_cong: "x div WIDTH = fd div WIDTH \<Longrightarrow> page_at s x = page_at s fd"
proof -
  assume "x div WIDTH = fd div WIDTH"
  then have "x div BRANCH_SIZE = fd div BRANCH_SIZE" "x div WIDTH mod WIDTH = fd div WIDTH mod WIDTH"
    using same_page [of x fd] by auto
  then show "page_at s x = page_at s fd" by (simp only: page_at_def branch_at_def)
qed

lemma page_at_branches: "sl_branches t = sl_branches s \<Longrightarrow> page_at t = page_at s"
  by (simp add: fun_eq_iff page_at_def branch_at_def)

lemma tree_ok_branches: "sl_branches t = sl_branches s \<Longrightarrow> tree_ok t = tree_ok s"
  by (simp add: tree_ok_def)

section \<open>Writing a page\<close>

lemma page_at_set_page:
  assumes "tree_ok s" and "branch_at s fd \<noteq> None"
  shows "page_at (set_page fd p s) x = (if x div WIDTH = fd div WIDTH then p else page_at s x)"
proof -
  from assms(2) obtain b where b: "branch_at s fd = Some b" by blast
  then have len: "fd div WIDTH mod WIDTH < length b"
    using branch_at_ok [OF assms(1)] by (simp add: branch_ok_def)
  have i: "fd div BRANCH_SIZE < length (sl_branches s)"
    using b by (auto simp: branch_at_def split: if_splits)
  have "branch_at (set_page fd p s) x =
      (if x div BRANCH_SIZE = fd div BRANCH_SIZE then Some (b[fd div WIDTH mod WIDTH := p])
       else branch_at s x)"
    using b i by (simp add: set_page_def branch_at_def)
  moreover have "x div BRANCH_SIZE = fd div BRANCH_SIZE \<Longrightarrow> branch_at s x = Some b"
    using b i by (simp add: branch_at_def)
  ultimately show ?thesis
    using same_page [of x fd] len by (auto simp: page_at_def nth_list_update)
qed

lemma branch_ok_update:
  "branch_ok b \<Longrightarrow> (\<And>q. p = Some q \<Longrightarrow> page_ok q) \<Longrightarrow> branch_ok (b[i := p])"
  by (auto simp: branch_ok_def dest!: set_update_subset_insert [THEN subsetD])

lemma tree_ok_update:
  "tree_ok s \<Longrightarrow> (\<And>c. b = Some c \<Longrightarrow> branch_ok c) \<Longrightarrow> tree_ok (s\<lparr>sl_branches := (sl_branches s)[i := b]\<rparr>)"
  by (auto simp: tree_ok_def dest!: set_update_subset_insert [THEN subsetD])

lemma tree_ok_set_page:
  "tree_ok s \<Longrightarrow> (\<And>q. p = Some q \<Longrightarrow> page_ok q) \<Longrightarrow> tree_ok (set_page fd p s)"
  by (auto simp: set_page_def split: option.splits
      intro!: tree_ok_update branch_ok_update dest: branch_at_ok)

lemma first_free_set_page [simp]: "sl_first_free (set_page fd p s) = sl_first_free s"
  by (simp add: set_page_def split: option.splits)

lemma branch_at_set_page: "branch_at s x \<noteq> None \<Longrightarrow> branch_at (set_page fd p s) x \<noteq> None"
  by (auto simp: set_page_def branch_at_def nth_list_update split: option.splits if_splits)

section \<open>Adding a page\<close>

lemma branch_ok_empty: "branch_ok empty_branch"
  by (simp add: branch_ok_def empty_branch_def)

lemma ensure_branch_props:
  assumes "tree_ok s" and "fd < MAX_FDS"
  shows "tree_ok (ensure_branch fd s)" and "branch_at (ensure_branch fd s) fd \<noteq> None"
    and "page_at (ensure_branch fd s) x = page_at s x"
    and "sl_first_free (ensure_branch fd s) = sl_first_free s"
proof -
  define i where "i = fd div BRANCH_SIZE"
  define bs where "bs = (if length (sl_branches s) \<le> i then resize_branches (i + 1) (sl_branches s)
                else sl_branches s)"
  define t where "t = s\<lparr>sl_branches := bs\<rparr>"
  have small: "i < MAX_FDS div BRANCH_SIZE" using assms(2) by (simp add: i_def fd_sizes)
  have len: "i < length bs" by (auto simp: bs_def resize_branches_def)
  have nth: "(if j < length bs then bs ! j else None)
       = (if j < length (sl_branches s) then sl_branches s ! j else None)" for j
    by (auto simp: bs_def resize_branches_def nth_append)
  have set: "set bs \<subseteq> insert None (set (sl_branches s))"
    by (auto simp: bs_def resize_branches_def)
  have t: "tree_ok t"
    using assms(1) small set by (auto simp: t_def tree_ok_def bs_def resize_branches_def)
  have e: "ensure_branch fd s = t\<lparr>sl_branches := (sl_branches t)
      [i := Some (case bs ! i of None \<Rightarrow> empty_branch | Some b \<Rightarrow> b)]\<rparr>"
    by (simp add: ensure_branch_def bs_def i_def t_def Let_def)
  have old: "bs ! i = Some b \<Longrightarrow> branch_ok b" for b
    using t len by (auto simp: t_def tree_ok_def) (metis nth_mem)
  show "tree_ok (ensure_branch fd s)"
    unfolding e by (rule tree_ok_update [OF t]) (auto split: option.splits intro: branch_ok_empty old)
  show "branch_at (ensure_branch fd s) fd \<noteq> None"
    using len by (simp add: e branch_at_def t_def i_def)
  have "branch_at (ensure_branch fd s) x =
      (if x div BRANCH_SIZE = i then Some (case branch_at s x of None \<Rightarrow> empty_branch | Some b \<Rightarrow> b)
       else branch_at s x)"
    using nth [of "x div BRANCH_SIZE"] len by (auto simp: e branch_at_def t_def nth_list_update)
  then show "page_at (ensure_branch fd s) x = page_at s x"
    by (auto simp: page_at_def empty_branch_def split: option.splits)
  show "sl_first_free (ensure_branch fd s) = sl_first_free s"
    by (simp add: e t_def)
qed

definition page_or_empty :: "slots \<Rightarrow> nat \<Rightarrow> fd_page" where
  "page_or_empty s fd = (case page_at s fd of None \<Rightarrow> empty_page | Some p \<Rightarrow> p)"

lemma page_or_empty_ok: "tree_ok s \<Longrightarrow> page_ok (page_or_empty s fd)"
  by (auto simp: page_or_empty_def page_ok_empty split: option.splits dest: page_at_ok)

lemma ensure_page_props:
  assumes "tree_ok s" and "fd < MAX_FDS"
  obtains t where "ensure_page fd s = Ok (page_or_empty s fd, t)" and "tree_ok t"
    and "branch_at t fd \<noteq> None" and "sl_first_free t = sl_first_free s"
    and "\<And>x. page_at t x = (if x div WIDTH = fd div WIDTH then Some (page_or_empty s fd) else page_at s x)"
proof -
  note e = ensure_branch_props [OF assms]
  define t where "t = (case page_at s fd of
      Some p \<Rightarrow> ensure_branch fd s | None \<Rightarrow> set_page fd (Some empty_page) (ensure_branch fd s))"
  show thesis
  proof
    show "ensure_page fd s = Ok (page_or_empty s fd, t)"
      using assms(2) by (simp add: ensure_page_def e(3) page_or_empty_def t_def Let_def split: option.split)
    show "tree_ok t"
      using e(1) by (auto simp: t_def page_ok_empty intro: tree_ok_set_page split: option.split)
    show "branch_at t fd \<noteq> None"
      using e(2) branch_at_set_page [of "ensure_branch fd s" fd fd "Some empty_page"]
      by (simp add: t_def split: option.split)
    show "sl_first_free t = sl_first_free s"
      by (simp add: t_def e(4) split: option.split)
    show "page_at t x = (if x div WIDTH = fd div WIDTH then Some (page_or_empty s fd) else page_at s x)" for x
      using page_at_cong [of x fd s]
      by (auto simp: t_def page_or_empty_def e(3) page_at_set_page [OF e(1,2)] split: option.split)
  qed
qed

lemma ensure_page_high: "\<not> fd < MAX_FDS \<Longrightarrow> ensure_page fd s = Panic"
  by (simp add: ensure_page_def)

section \<open>Dropping empty pages\<close>

declare pop_branches.simps [simp del]

lemma pop_branches_props:
  "set (pop_branches bs) \<subseteq> set bs \<and> length (pop_branches bs) \<le> length bs
   \<and> (if i < length (pop_branches bs) then pop_branches bs ! i else None)
     = (if i < length bs then bs ! i else None)"
proof (induction bs rule: pop_branches.induct)
  case (1 bs)
  show ?case
  proof (cases "bs \<noteq> [] \<and> last bs = None")
    case True
    then obtain cs where bs: "bs = cs @ [None]" by (metis append_butlast_last_id)
    with 1 [OF True] True show ?thesis
      by (subst (1 2 3 4) pop_branches.simps) (auto simp: nth_append split: if_splits)
  next
    case False
    then have "pop_branches bs = bs" by (subst pop_branches.simps) auto
    then show ?thesis by simp
  qed
qed

definition idle_page :: "fd_page option \<Rightarrow> bool" where
  "idle_page p \<longleftrightarrow> (case p of None \<Rightarrow> True | Some p \<Rightarrow> pg_used p OR pg_reserved p = 0)"

lemma reclaim_props:
  assumes ok: "tree_ok s"
  shows "tree_ok (reclaim fd s)" and "sl_first_free (reclaim fd s) = sl_first_free s"
    and "page_at (reclaim fd s) x =
           (if x div WIDTH = fd div WIDTH \<and> idle_page (page_at s fd) then None else page_at s x)"
proof -
  have "tree_ok (reclaim fd s) \<and> sl_first_free (reclaim fd s) = sl_first_free s
    \<and> page_at (reclaim fd s) x =
           (if x div WIDTH = fd div WIDTH \<and> idle_page (page_at s fd) then None else page_at s x)"
  proof (cases "branch_at s fd")
    case None
    then show ?thesis
      using ok page_at_cong [of x fd s] by (auto simp: reclaim_def page_at_def)
  next
    case (Some b)
    define i where "i = fd div WIDTH mod WIDTH"
    define c where "c = (case b ! i of
        Some p \<Rightarrow> if pg_used p OR pg_reserved p = 0 then b[i := None] else b | None \<Rightarrow> b)"
    have b: "branch_ok b" "fd < MAX_FDS" using branch_at_ok [OF ok Some] by auto
    have len: "i < length b" "length c = length b"
      using b by (auto simp: branch_ok_def i_def c_def split: option.split)
    have c: "branch_ok c"
      using b branch_ok_update [of b None i] by (auto simp: c_def split: option.split)
    have nth: "c ! j = (if j = i \<and> idle_page (b ! i) then None else b ! j)" for j
      using len by (auto simp: c_def idle_page_def nth_list_update split: option.splits)
    have in_range: "fd div BRANCH_SIZE < length (sl_branches s)"
      using Some by (auto simp: branch_at_def split: if_splits)
    have page: "page_at s fd = b ! i" using Some by (simp add: page_at_def i_def)
    have other: "x div BRANCH_SIZE \<noteq> fd div BRANCH_SIZE \<Longrightarrow> x div WIDTH \<noteq> fd div WIDTH"
      using same_page [of x fd] by auto
    have mine: "x div BRANCH_SIZE = fd div BRANCH_SIZE \<Longrightarrow>
        x div WIDTH mod WIDTH = i \<longleftrightarrow> x div WIDTH = fd div WIDTH"
      using same_page [of x fd] by (simp add: i_def)
    have here: "x div BRANCH_SIZE = fd div BRANCH_SIZE \<Longrightarrow> branch_at s x = Some b"
      using Some in_range by (simp add: branch_at_def)
    have r: "reclaim fd s = (if list_all (\<lambda>p. p = None) c
        then s\<lparr>sl_branches := pop_branches ((sl_branches s)[fd div BRANCH_SIZE := None])\<rparr>
        else s\<lparr>sl_branches := (sl_branches s)[fd div BRANCH_SIZE := Some c]\<rparr>)"
      unfolding reclaim_def Some option.case Let_def c_def i_def by (rule refl)
    have pos: "x div WIDTH mod WIDTH < length c" using len b by (simp add: branch_ok_def)
    show ?thesis
    proof (cases "list_all (\<lambda>p. p = None) c")
      case True
      define bs where "bs = (sl_branches s)[fd div BRANCH_SIZE := None]"
      note pop = pop_branches_props [of bs "x div BRANCH_SIZE"]
      have t: "tree_ok (s\<lparr>sl_branches := bs\<rparr>)"
        unfolding bs_def by (rule tree_ok_update [OF ok]) simp
      then have "tree_ok (reclaim fd s)"
        using pop True by (auto simp: r tree_ok_def bs_def)
      moreover have "branch_at (reclaim fd s) x =
          (if x div BRANCH_SIZE = fd div BRANCH_SIZE then None else branch_at s x)"
        using pop [unfolded bs_def] True in_range
        by (auto simp: r branch_at_def nth_list_update split: if_splits)
      then have "page_at (reclaim fd s) x =
          (if x div WIDTH = fd div WIDTH \<and> idle_page (page_at s fd) then None else page_at s x)"
        using nth [of "x div WIDTH mod WIDTH"] True pos mine other here page
        by (auto simp: page_at_def list_all_length)
      ultimately show ?thesis using True by (simp add: r)
    next
      case False
      have "tree_ok (reclaim fd s)"
        using False by (simp add: r) (rule tree_ok_update [OF ok], use c in auto)
      moreover have "branch_at (reclaim fd s) x =
          (if x div BRANCH_SIZE = fd div BRANCH_SIZE then Some c else branch_at s x)"
        using False in_range by (simp add: r branch_at_def nth_list_update)
      then have "page_at (reclaim fd s) x =
          (if x div WIDTH = fd div WIDTH \<and> idle_page (page_at s fd) then None else page_at s x)"
        using nth [of "x div WIDTH mod WIDTH"] mine other here page
        by (auto simp: page_at_def)
      ultimately show ?thesis using False by (simp add: r)
    qed
  qed
  then show "tree_ok (reclaim fd s)" and "sl_first_free (reclaim fd s) = sl_first_free s"
    and "page_at (reclaim fd s) x =
           (if x div WIDTH = fd div WIDTH \<and> idle_page (page_at s fd) then None else page_at s x)"
    by blast+
qed

end
