(* ===== verification/Fd_Refine.thy ===== *)
theory Fd_Refine
  imports Fd_Tree
begin

text \<open>
  What the operations on the descriptor slots do to the map from descriptors to entries and
  to the set of reserved descriptors, and that the cached lower bound makes the search for a
  free descriptor exact.
\<close>

section \<open>Searching intervals\<close>

lemma find_upt_Some:
  "find P [lo..<hi] = Some x \<longleftrightarrow> lo \<le> x \<and> x < hi \<and> P x \<and> (\<forall>y. lo \<le> y \<and> y < x \<longrightarrow> \<not> P y)"
proof
  assume "find P [lo..<hi] = Some x"
  then obtain i where "i < length [lo..<hi]" "P ([lo..<hi] ! i)" "x = [lo..<hi] ! i"
      and before: "\<forall>j<i. \<not> P ([lo..<hi] ! j)"
    by (auto simp: find_Some_iff)
  then have i: "lo + i < hi" "x = lo + i" "P x" by auto
  have "\<not> P y" if "lo \<le> y" "y < x" for y
    using before [rule_format, of "y - lo"] that i by auto
  with i show "lo \<le> x \<and> x < hi \<and> P x \<and> (\<forall>y. lo \<le> y \<and> y < x \<longrightarrow> \<not> P y)" by auto
next
  assume x: "lo \<le> x \<and> x < hi \<and> P x \<and> (\<forall>y. lo \<le> y \<and> y < x \<longrightarrow> \<not> P y)"
  then show "find P [lo..<hi] = Some x"
    unfolding find_Some_iff by (intro exI [of _ "x - lo"]) auto
qed

lemma find_upt_None: "find P [lo..<hi] = None \<longleftrightarrow> (\<forall>x. lo \<le> x \<and> x < hi \<longrightarrow> \<not> P x)"
  by (auto simp: find_None_iff)

lemma find_upt_skip:
  assumes "lo \<le> m" and "\<And>x. lo \<le> x \<Longrightarrow> x < m \<Longrightarrow> \<not> P x"
  shows "find P [lo..<hi] = find P [m..<hi]"
proof (cases "find P [m..<hi]")
  case None
  then have "find P [lo..<hi] = None"
    using assms unfolding find_upt_None by (meson le_less_linear)
  with None show ?thesis by simp
next
  case (Some x)
  then have "find P [lo..<hi] = Some x"
    using assms unfolding find_upt_Some by (meson le_less_linear order_trans)
  with Some show ?thesis by simp
qed

lemma trailing_zeros_bit:
  assumes "w \<noteq> 0"
  shows "trailing_zeros w < 64" and "bit w (trailing_zeros w)"
    and "k < trailing_zeros w \<Longrightarrow> \<not> bit w k"
proof -
  obtain n where n: "n < 64" "bit w n"
    using assms by (auto simp: bit_eq_iff)
  let ?t = "takeWhile (\<lambda>k. \<not> bit w k) [0..<64]"
  have t: "?t = [0..<length ?t]"
    by (metis add_0 length_takeWhile_le length_upt minus_nat.diff_0 take_upt takeWhile_eq_take)
  have "?t \<noteq> [0..<64]" using n set_takeWhileD [of n "\<lambda>k. \<not> bit w k" "[0..<64]"] by auto
  then show less: "trailing_zeros w < 64"
    using length_takeWhile_le [of "\<lambda>k. \<not> bit w k" "[0..<64]"] t
    by (auto simp: trailing_zeros_def le_less)
  show "bit w (trailing_zeros w)"
    using nth_length_takeWhile [of "\<lambda>k. \<not> bit w k" "[0..<64]"] less
    by (simp add: trailing_zeros_def)
  show "k < trailing_zeros w \<Longrightarrow> \<not> bit w k"
    using takeWhile_nth [of k "\<lambda>k. \<not> bit w k" "[0..<64]"] less nth_mem [of k ?t]
    by (auto simp: trailing_zeros_def dest: set_takeWhileD)
qed

section \<open>The contents of the tree\<close>

definition busy :: "slots \<Rightarrow> nat \<Rightarrow> bool" where
  "busy s fd \<longleftrightarrow> entry_in s fd \<noteq> None \<or> is_reserved s fd"

lemma is_reserved_iff:
  "is_reserved s fd \<longleftrightarrow> (\<exists>p. page_at s fd = Some p \<and> bit (pg_reserved p) (fd mod WIDTH))"
  by (auto simp: is_reserved_def and_slot_bit split: option.splits)

lemma held_page: "entry_in s fd = pg_entries (page_or_empty s fd) ! (fd mod WIDTH)"
  by (simp add: entry_in_def page_or_empty_def empty_page_def split: option.split)

lemma reserved_page: "is_reserved s fd \<longleftrightarrow> bit (pg_reserved (page_or_empty s fd)) (fd mod WIDTH)"
  by (simp add: is_reserved_iff page_or_empty_def empty_page_def split: option.split)

lemma busy_page:
  "tree_ok s \<Longrightarrow> busy s fd \<longleftrightarrow>
     bit (pg_used (page_or_empty s fd) OR pg_reserved (page_or_empty s fd)) (fd mod WIDTH)"
  using page_ok_nth [OF page_or_empty_ok, of s fd fd]
  by (simp add: busy_def held_page reserved_page bit_or_iff)

lemma busy_less: "tree_ok s \<Longrightarrow> busy s fd \<Longrightarrow> fd < MAX_FDS"
  by (auto simp: busy_def entry_in_def is_reserved_iff split: option.splits dest: page_at_ok)

lemma contents_cong:
  "page_at t = page_at s \<Longrightarrow> entry_in t = entry_in s \<and> is_reserved t = is_reserved s \<and> busy t = busy s"
  by (simp add: fun_eq_iff entry_in_def is_reserved_def busy_def)

text \<open>Two pages that differ in one slot only.\<close>

definition only_slot :: "nat \<Rightarrow> fd_page \<Rightarrow> fd_page \<Rightarrow> bool" where
  "only_slot fd p q \<longleftrightarrow> (\<forall>k < WIDTH. k \<noteq> fd mod WIDTH \<longrightarrow>
     pg_entries q ! k = pg_entries p ! k \<and> bit (pg_reserved q) k = bit (pg_reserved p) k)"

lemma page_change:
  assumes "\<And>x. page_at t x = (if x div WIDTH = fd div WIDTH then Some q else page_at s x)"
    and "only_slot fd (page_or_empty s fd) q"
  shows "entry_in t = (entry_in s)(fd := pg_entries q ! (fd mod WIDTH))"
    and "is_reserved t = (is_reserved s)(fd := bit (pg_reserved q) (fd mod WIDTH))"
proof -
  have "entry_in t x = ((entry_in s)(fd := pg_entries q ! (fd mod WIDTH))) x
      \<and> is_reserved t x = ((is_reserved s)(fd := bit (pg_reserved q) (fd mod WIDTH))) x" for x
  proof (cases "x div WIDTH = fd div WIDTH")
    case True
    then have "page_or_empty s x = page_or_empty s fd"
      using page_at_cong [of x fd s] by (simp add: page_or_empty_def)
    with True assms(2) same_slot [of x fd] show ?thesis
      by (auto simp: only_slot_def held_page reserved_page assms(1) page_or_empty_def [of t])
  next
    case False
    then have "page_at t x = page_at s x" and "x \<noteq> fd" by (auto simp: assms(1))
    then show ?thesis by (simp add: entry_in_def is_reserved_def)
  qed
  then show "entry_in t = (entry_in s)(fd := pg_entries q ! (fd mod WIDTH))"
    and "is_reserved t = (is_reserved s)(fd := bit (pg_reserved q) (fd mod WIDTH))"
    by (auto simp: fun_eq_iff)
qed

lemma idle_contents:
  assumes "tree_ok s" and "idle_page (page_at s fd)" and "x div WIDTH = fd div WIDTH"
  shows "entry_in s x = None \<and> \<not> is_reserved s x"
proof -
  have e: "page_or_empty s x = page_or_empty s fd"
    using page_at_cong [OF assms(3)] by (simp add: page_or_empty_def)
  have "pg_used (page_or_empty s fd) OR pg_reserved (page_or_empty s fd) = 0"
    using assms(2) by (simp add: idle_page_def page_or_empty_def empty_page_def split: option.splits)
  then have "\<not> busy s x" using assms(1) by (simp add: busy_page e)
  then show ?thesis by (simp add: busy_def)
qed

lemma reclaim_contents:
  assumes "tree_ok s"
  shows "entry_in (reclaim fd s) = entry_in s" and "is_reserved (reclaim fd s) = is_reserved s"
proof -
  note r = reclaim_props [OF assms, where fd = fd]
  have "entry_in (reclaim fd s) x = entry_in s x \<and> is_reserved (reclaim fd s) x = is_reserved s x" for x
    using idle_contents [OF assms, of fd x] r(3) [of x]
    by (cases "x div WIDTH = fd div WIDTH \<and> idle_page (page_at s fd)")
       (auto simp: entry_in_def is_reserved_def)
  then show "entry_in (reclaim fd s) = entry_in s" and "is_reserved (reclaim fd s) = is_reserved s"
    by auto
qed

section \<open>The free-descriptor search\<close>

declare find_free_from.simps [simp del]

lemma find_free_from_exact:
  "tree_ok s \<Longrightarrow> find_free_from s lo hi = find (\<lambda>fd. \<not> busy s fd) [lo..<hi]"
proof (induction s lo hi rule: find_free_from.induct)
  case (1 s lo hi)
  show ?case
  proof (cases "lo < hi")
    case False
    then show ?thesis by (simp add: find_free_from.simps)
  next
    case lt: True
    show ?thesis
    proof (cases "page_at s lo")
      case None
      then have "\<not> busy s lo" by (simp add: busy_def entry_in_def is_reserved_def)
      with lt None show ?thesis by (simp add: find_free_from.simps upt_rec)
    next
      case (Some p)
      define taken where "taken = pg_used p OR pg_reserved p"
      define av where "av = NOT taken AND push_bit (lo mod WIDTH) (- 1)"
      define base where "base = lo div WIDTH * WIDTH"
      have lo: "lo = base + lo mod WIDTH" by (simp add: base_def)
      have bsy: "busy s (base + k) \<longleftrightarrow> bit taken k" if "k < WIDTH" for k
      proof -
        have d: "(base + k) div WIDTH = lo div WIDTH" "(base + k) mod WIDTH = k"
          using that by (simp_all add: base_def)
        then have "page_or_empty s (base + k) = p"
          using page_at_cong [OF d(1), of s] Some by (simp add: page_or_empty_def)
        then show ?thesis using 1(2) d by (simp add: busy_page taken_def)
      qed
      have av: "bit av k \<longleftrightarrow> \<not> bit taken k \<and> lo mod WIDTH \<le> k" if "k < WIDTH" for k
        using that by (auto simp: av_def bit_simps WIDTH_def)
      show ?thesis
      proof (cases "av = 0")
        case True
        have "find_free_from s lo hi = find_free_from s ((lo div WIDTH + 1) * WIDTH) hi"
          using lt Some True by (simp add: find_free_from.simps [of s lo hi] av_def taken_def)
        also have "\<dots> = find (\<lambda>fd. \<not> busy s fd) [(lo div WIDTH + 1) * WIDTH..<hi]"
          using 1(1) [OF lt Some refl] True 1(2) by (simp add: av_def taken_def)
        also have "\<dots> = find (\<lambda>fd. \<not> busy s fd) [lo..<hi]"
        proof (rule find_upt_skip [symmetric])
          show "lo \<le> (lo div WIDTH + 1) * WIDTH" by (simp add: WIDTH_def)
          fix x assume x: "lo \<le> x" "x < (lo div WIDTH + 1) * WIDTH"
          then have "x < base + WIDTH" by (simp add: base_def algebra_simps)
          then have "x - base < WIDTH" "lo mod WIDTH \<le> x - base" "x = base + (x - base)"
            using lo x(1) by linarith+
          moreover have "\<not> bit av (x - base)" using True by simp
          ultimately show "\<not> \<not> busy s x" using bsy [of "x - base"] av [of "x - base"] by simp
        qed
        finally show ?thesis .
      next
        case False
        note tz = trailing_zeros_bit [OF False]
        define k where "k = trailing_zeros av"
        have k: "k < WIDTH" "\<not> bit taken k" "lo mod WIDTH \<le> k"
          using tz(1,2) av [of k] by (auto simp: k_def WIDTH_def)
        have before: "busy s x" if "lo \<le> x" "x < base + k" for x
        proof -
          have "lo mod WIDTH \<le> x - base" "x - base < k" "x = base + (x - base)"
            using that lo by auto
          then show ?thesis
            using tz(3) [of "x - base"] av [of "x - base"] bsy [of "x - base"] k(1)
            by (auto simp: k_def)
        qed
        have "find_free_from s lo hi = (if base + k < hi then Some (base + k) else None)"
          using lt Some False by (simp add: find_free_from.simps [of s lo hi] av_def taken_def base_def k_def Let_def)
        also have "\<dots> = find (\<lambda>fd. \<not> busy s fd) [lo..<hi]"
        proof (cases "base + k < hi")
          case True
          have "find (\<lambda>fd. \<not> busy s fd) [lo..<hi] = Some (base + k)"
            unfolding find_upt_Some using True before bsy [OF k(1)] k lo by auto
          with True show ?thesis by simp
        next
          case False
          then have "find (\<lambda>fd. \<not> busy s fd) [lo..<hi] = None"
            unfolding find_upt_None using before by auto
          with False show ?thesis by simp
        qed
        finally show ?thesis .
      qed
    qed
  qed
qed

lemma find_free_exact:
  "tree_ok s \<Longrightarrow> find_free s lo hi = find (\<lambda>fd. \<not> busy s fd) [lo..<min hi MAX_FDS]"
  by (simp add: find_free_def find_free_from_exact)

definition slots_ok :: "slots \<Rightarrow> bool" where
  "slots_ok s \<longleftrightarrow> tree_ok s \<and> sl_first_free s \<le> MAX_FDS \<and> (\<forall>fd < sl_first_free s. busy s fd)"

lemma first_free_exact:
  assumes "slots_ok s"
  shows "first_free_between s lo hi = find (\<lambda>fd. \<not> busy s fd) [lo..<min hi MAX_FDS]"
proof -
  have "first_free_between s lo hi
      = find (\<lambda>fd. \<not> busy s fd) [max lo (sl_first_free s)..<min hi MAX_FDS]"
    using assms by (simp add: first_free_between_def find_free_exact slots_ok_def)
  also have "\<dots> = find (\<lambda>fd. \<not> busy s fd) [lo..<min hi MAX_FDS]"
    using assms by (intro find_upt_skip [symmetric]) (auto simp: slots_ok_def)
  finally show ?thesis .
qed

lemma first_gap:
  assumes "tree_ok s" and "\<And>x. x < m \<Longrightarrow> busy s x"
  shows "let n = (case find_free s m MAX_FDS of None \<Rightarrow> MAX_FDS | Some n \<Rightarrow> n)
         in n \<le> MAX_FDS \<and> (\<forall>fd < n. busy s fd)"
proof (cases "find_free s m MAX_FDS")
  case None
  then have "\<forall>x. m \<le> x \<and> x < MAX_FDS \<longrightarrow> busy s x"
    using assms(1) by (simp add: find_free_exact find_upt_None)
  with assms(2) None show ?thesis by (simp add: Let_def) (metis le_less_linear)
next
  case (Some n)
  then have "n < MAX_FDS" "\<forall>x. m \<le> x \<and> x < n \<longrightarrow> busy s x"
    using assms(1) by (simp_all add: find_free_exact find_upt_Some)
  with assms(2) Some show ?thesis by (simp add: Let_def) (metis le_less_linear less_imp_le)
qed

section \<open>The operations\<close>

lemma advance_free_frame:
  "page_at (advance_free fd s) = page_at s" "tree_ok (advance_free fd s) = tree_ok s"
proof -
  have "sl_branches (advance_free fd s) = sl_branches s" by (simp add: advance_free_def)
  then show "page_at (advance_free fd s) = page_at s" "tree_ok (advance_free fd s) = tree_ok s"
    by (rule page_at_branches, rule tree_ok_branches)
qed

lemma advance_free_ok:
  assumes "tree_ok s" and "sl_first_free s \<le> MAX_FDS" and "busy s fd"
    and "\<And>x. x < sl_first_free s \<Longrightarrow> busy s x"
  shows "slots_ok (advance_free fd s)"
proof -
  have b: "busy (advance_free fd s) = busy s"
    using contents_cong [OF advance_free_frame(1)] by blast
  show ?thesis
  proof (cases "sl_first_free s = fd")
    case True
    define n where "n = (case find_free s (fd + 1) MAX_FDS of None \<Rightarrow> MAX_FDS | Some n \<Rightarrow> n)"
    have "busy s x" if "x < fd + 1" for x
      using that assms(3,4) True by (cases "x = fd") auto
    then have n: "n \<le> MAX_FDS \<and> (\<forall>x < n. busy s x)"
      using first_gap [OF assms(1), of "fd + 1"] unfolding n_def Let_def by blast
    have "sl_first_free (advance_free fd s) = n"
      using True by (simp add: advance_free_def n_def)
    with n b assms(1) show ?thesis
      by (simp only: slots_ok_def advance_free_frame(2)) simp
  next
    case False
    then have "advance_free fd s = s" by (simp add: advance_free_def)
    with assms show ?thesis by (simp add: slots_ok_def)
  qed
qed

text \<open>A slot of the page of \<open>fd\<close> becomes busy, or may become free.\<close>

lemma occupy:
  assumes ok: "slots_ok s" and fd: "fd < MAX_FDS" and q: "page_ok q"
    and only: "only_slot fd (page_or_empty s fd) q"
    and taken: "pg_entries q ! (fd mod WIDTH) \<noteq> None \<or> bit (pg_reserved q) (fd mod WIDTH)"
  obtains u where "ensure_page fd s = Ok (page_or_empty s fd, u)"
    and "slots_ok (advance_free fd (set_page fd (Some q) u))"
    and "entry_in (advance_free fd (set_page fd (Some q) u))
           = (entry_in s)(fd := pg_entries q ! (fd mod WIDTH))"
    and "is_reserved (advance_free fd (set_page fd (Some q) u))
           = (is_reserved s)(fd := bit (pg_reserved q) (fd mod WIDTH))"
proof -
  have tree: "tree_ok s" using ok by (simp add: slots_ok_def)
  obtain u where u: "ensure_page fd s = Ok (page_or_empty s fd, u)" "tree_ok u"
      "branch_at u fd \<noteq> None" "sl_first_free u = sl_first_free s"
      and pages: "\<And>x. page_at u x =
            (if x div WIDTH = fd div WIDTH then Some (page_or_empty s fd) else page_at s x)"
    using ensure_page_props [OF tree fd] by metis
  define v where "v = set_page fd (Some q) u"
  have v: "tree_ok v" unfolding v_def using u(2) q by (intro tree_ok_set_page) auto
  have pv: "page_at v x = (if x div WIDTH = fd div WIDTH then Some q else page_at s x)" for x
    using page_at_set_page [OF u(2,3), of "Some q" x] by (simp add: v_def pages)
  note c = page_change [OF pv only]
  have fv: "sl_first_free v = sl_first_free s" by (simp add: v_def u(4))
  have "slots_ok (advance_free fd v)"
    using ok fv taken by (intro advance_free_ok) (auto simp: v slots_ok_def busy_def c)
  moreover have "entry_in (advance_free fd v) = entry_in v" "is_reserved (advance_free fd v) = is_reserved v"
    using contents_cong [OF advance_free_frame(1)] by auto
  ultimately show thesis using c u(1) by (intro that [of u]) (auto simp: v_def)
qed

lemma vacate:
  assumes ok: "slots_ok s" and p: "page_at s fd = Some p" and q: "page_ok q"
    and only: "only_slot fd p q" and le: "n \<le> sl_first_free s"
    and bound: "n \<le> fd \<or> pg_entries q ! (fd mod WIDTH) \<noteq> None \<or> bit (pg_reserved q) (fd mod WIDTH)"
  defines "t \<equiv> reclaim fd ((set_page fd (Some q) s)\<lparr>sl_first_free := n\<rparr>)"
  shows "slots_ok t" and "entry_in t = (entry_in s)(fd := pg_entries q ! (fd mod WIDTH))"
    and "is_reserved t = (is_reserved s)(fd := bit (pg_reserved q) (fd mod WIDTH))"
proof -
  have tree: "tree_ok s" using ok by (simp add: slots_ok_def)
  define v where "v = (set_page fd (Some q) s)\<lparr>sl_first_free := n\<rparr>"
  have b: "sl_branches v = sl_branches (set_page fd (Some q) s)" by (simp add: v_def)
  have v: "tree_ok v" unfolding tree_ok_branches [OF b]
    using tree q by (intro tree_ok_set_page) auto
  have pv: "page_at v x = (if x div WIDTH = fd div WIDTH then Some q else page_at s x)" for x
    using page_at_set_page [OF tree page_at_branch [OF p], of "Some q" x]
    by (simp only: page_at_branches [OF b])
  have "page_or_empty s fd = p" using p by (simp add: page_or_empty_def)
  then have "only_slot fd (page_or_empty s fd) q" using only by simp
  note c = page_change [OF pv this]
  note r = reclaim_contents [OF v, of fd] reclaim_props(1,2) [OF v, of fd]
  show h: "entry_in t = (entry_in s)(fd := pg_entries q ! (fd mod WIDTH))"
    and i: "is_reserved t = (is_reserved s)(fd := bit (pg_reserved q) (fd mod WIDTH))"
    using c r(1,2) by (simp_all only: t_def v_def)
  have "tree_ok t" "sl_first_free t = n" using r(3,4) by (simp_all add: t_def v_def)
  moreover have "busy t x" if "x < n" for x
    using that le bound ok by (cases "x = fd") (auto simp: busy_def h i slots_ok_def)
  ultimately show "slots_ok t" using le ok by (auto simp: slots_ok_def)
qed

lemma slots_insert_refines:
  assumes ok: "slots_ok s" and fd: "fd < MAX_FDS"
  obtains t where "slots_insert fd e s = Ok t" and "slots_ok t"
    and "entry_in t = (entry_in s)(fd := Some e)" and "is_reserved t = is_reserved s"
proof -
  define p where "p = page_or_empty s fd"
  have p: "page_ok p" using ok by (simp add: p_def page_or_empty_ok slots_ok_def)
  define q where "q = p\<lparr>pg_entries := (pg_entries p)[fd mod WIDTH := Some e],
                        pg_used := pg_used p OR slot_bit fd\<rparr>"
  have q: "page_ok q" "pg_entries q ! (fd mod WIDTH) = Some e" "only_slot fd p q"
    using p by (auto simp: q_def page_ok_def only_slot_def bit_or_iff bit_slot_bit nth_list_update)
  have r: "bit (pg_reserved q) (fd mod WIDTH) \<longleftrightarrow> is_reserved s fd"
    by (simp add: q_def p_def reserved_page)
  obtain u where "ensure_page fd s = Ok (p, u)"
      and "slots_ok (advance_free fd (set_page fd (Some q) u))"
      and "entry_in (advance_free fd (set_page fd (Some q) u)) = (entry_in s)(fd := Some e)"
      and "is_reserved (advance_free fd (set_page fd (Some q) u)) = is_reserved s"
    using occupy [OF ok fd q(1) q(3) [unfolded p_def]] q(2) r by (auto simp: p_def)
  then show thesis
    by (intro that [of "advance_free fd (set_page fd (Some q) u)"])
       (auto simp: slots_insert_def q_def)
qed

lemma slots_insert_high: "\<not> fd < MAX_FDS \<Longrightarrow> slots_insert fd e s = Panic"
  by (simp add: slots_insert_def ensure_page_high)

lemma slots_reserve_refines:
  assumes ok: "slots_ok s" and fd: "fd < MAX_FDS" and free: "\<not> busy s fd"
  obtains t where "slots_reserve fd s = Ok t" and "slots_ok t" and "entry_in t = entry_in s"
    and "is_reserved t = (is_reserved s)(fd := True)"
proof -
  define p where "p = page_or_empty s fd"
  have tree: "tree_ok s" using ok by (simp add: slots_ok_def)
  have p: "page_ok p" by (simp add: p_def page_or_empty_ok tree)
  define q where "q = p\<lparr>pg_reserved := pg_reserved p OR slot_bit fd\<rparr>"
  have q: "page_ok q" "bit (pg_reserved q) (fd mod WIDTH)" "only_slot fd p q"
    using p by (auto simp: q_def page_ok_def only_slot_def bit_or_iff bit_slot_bit)
  have h: "pg_entries q ! (fd mod WIDTH) = entry_in s fd" by (simp add: q_def p_def held_page)
  have guard: "(pg_used p OR pg_reserved p) AND slot_bit fd = 0"
    using free by (simp add: and_slot_bit busy_page [OF tree] p_def)
  obtain u where "ensure_page fd s = Ok (p, u)"
      and "slots_ok (advance_free fd (set_page fd (Some q) u))"
      and "entry_in (advance_free fd (set_page fd (Some q) u)) = entry_in s"
      and "is_reserved (advance_free fd (set_page fd (Some q) u)) = (is_reserved s)(fd := True)"
    using occupy [OF ok fd q(1) q(3) [unfolded p_def]] q(2) h by (auto simp: p_def)
  then show thesis
    using guard by (intro that [of "advance_free fd (set_page fd (Some q) u)"])
       (auto simp: slots_reserve_def q_def)
qed

lemma slots_reserve_busy:
  assumes "slots_ok s" and "\<not> fd < MAX_FDS \<or> busy s fd"
  shows "slots_reserve fd s = Panic"
proof (cases "fd < MAX_FDS")
  case True
  have tree: "tree_ok s" using assms by (simp add: slots_ok_def)
  obtain u where "ensure_page fd s = Ok (page_or_empty s fd, u)"
    using ensure_page_props [OF tree True] by metis
  moreover have "(pg_used (page_or_empty s fd) OR pg_reserved (page_or_empty s fd)) AND slot_bit fd \<noteq> 0"
    using assms True busy_page [OF tree, of fd] by (simp add: and_slot_bit)
  ultimately show ?thesis by (simp add: slots_reserve_def)
qed (simp add: slots_reserve_def ensure_page_high)

lemma keep_first_free: "n = sl_first_free s \<Longrightarrow> s\<lparr>sl_first_free := n\<rparr> = s"
  by simp

lemma slots_remove_refines:
  assumes ok: "slots_ok s"
  shows "fst (slots_remove fd s) = entry_in s fd" and "slots_ok (snd (slots_remove fd s))"
    and "entry_in (snd (slots_remove fd s)) = (entry_in s)(fd := None)"
    and "is_reserved (snd (slots_remove fd s)) = is_reserved s"
proof -
  have "fst (slots_remove fd s) = entry_in s fd \<and> slots_ok (snd (slots_remove fd s))
    \<and> entry_in (snd (slots_remove fd s)) = (entry_in s)(fd := None)
    \<and> is_reserved (snd (slots_remove fd s)) = is_reserved s"
  proof (cases "entry_in s fd")
    case None
    then have "slots_remove fd s = (None, s)"
      by (simp add: slots_remove_def entry_in_def split: option.splits)
    with None ok show ?thesis by (auto simp: fun_upd_idem_iff)
  next
    case (Some e)
    then obtain p where p: "page_at s fd = Some p" and e: "pg_entries p ! (fd mod WIDTH) = Some e"
      by (auto simp: entry_in_def split: option.splits)
    have pok: "page_ok p" using ok p by (auto simp: slots_ok_def dest: page_at_ok)
    define q where "q = p\<lparr>pg_entries := (pg_entries p)[fd mod WIDTH := None],
                          pg_used := pg_used p AND NOT (slot_bit fd)\<rparr>"
    define n where "n = (if pg_reserved p AND slot_bit fd = 0
                         then min (sl_first_free s) fd else sl_first_free s)"
    have q: "page_ok q" "pg_entries q ! (fd mod WIDTH) = None" "only_slot fd p q"
      using pok by (auto simp: q_def page_ok_def only_slot_def bit_and_iff bit_not_iff bit_slot_bit
          nth_list_update WIDTH_def)
    have r: "bit (pg_reserved q) (fd mod WIDTH) \<longleftrightarrow> is_reserved s fd"
      using p by (simp add: q_def is_reserved_iff)
    have n: "n \<le> sl_first_free s" "n \<le> fd \<or> bit (pg_reserved q) (fd mod WIDTH)"
      by (auto simp: n_def and_slot_bit q_def)
    have "slots_remove fd s = (Some e, reclaim fd ((set_page fd (Some q) s)\<lparr>sl_first_free := n\<rparr>))"
      using p e by (simp add: slots_remove_def q_def n_def Let_def keep_first_free)
    with vacate [OF ok p q(1,3) n(1)] n(2) q(2) r Some show ?thesis by (auto simp: fun_upd_idem_iff)
  qed
  then show "fst (slots_remove fd s) = entry_in s fd" and "slots_ok (snd (slots_remove fd s))"
    and "entry_in (snd (slots_remove fd s)) = (entry_in s)(fd := None)"
    and "is_reserved (snd (slots_remove fd s)) = is_reserved s"
    by blast+
qed

lemma slots_unreserve_refines:
  assumes ok: "slots_ok s"
  shows "slots_ok (slots_unreserve fd s)" and "entry_in (slots_unreserve fd s) = entry_in s"
    and "is_reserved (slots_unreserve fd s) = (is_reserved s)(fd := False)"
proof -
  have "slots_ok (slots_unreserve fd s) \<and> entry_in (slots_unreserve fd s) = entry_in s
    \<and> is_reserved (slots_unreserve fd s) = (is_reserved s)(fd := False)"
  proof (cases "page_at s fd")
    case None
    then have "slots_unreserve fd s = s" "\<not> is_reserved s fd"
      by (simp_all add: slots_unreserve_def is_reserved_def)
    with ok show ?thesis by (auto simp: fun_eq_iff)
  next
    case (Some p)
    have pok: "page_ok p" using ok Some by (auto simp: slots_ok_def dest: page_at_ok)
    define q where "q = p\<lparr>pg_reserved := pg_reserved p AND NOT (slot_bit fd)\<rparr>"
    define n where "n = (if pg_used p AND slot_bit fd = 0
                         then min (sl_first_free s) fd else sl_first_free s)"
    have q: "page_ok q" "\<not> bit (pg_reserved q) (fd mod WIDTH)" "only_slot fd p q"
      using pok by (auto simp: q_def page_ok_def only_slot_def bit_and_iff bit_not_iff bit_slot_bit WIDTH_def)
    have h: "pg_entries q ! (fd mod WIDTH) = entry_in s fd" using Some by (simp add: q_def entry_in_def)
    have n: "n \<le> sl_first_free s" "n \<le> fd \<or> entry_in s fd \<noteq> None"
      using page_ok_nth [OF pok, of fd] Some by (auto simp: n_def and_slot_bit entry_in_def)
    have "slots_unreserve fd s = reclaim fd ((set_page fd (Some q) s)\<lparr>sl_first_free := n\<rparr>)"
      using Some by (simp add: slots_unreserve_def q_def n_def Let_def keep_first_free)
    with vacate [OF ok Some q(1,3) n(1)] n(2) q(2) h show ?thesis by (auto simp: fun_upd_idem_iff)
  qed
  then show "slots_ok (slots_unreserve fd s)" and "entry_in (slots_unreserve fd s) = entry_in s"
    and "is_reserved (slots_unreserve fd s) = (is_reserved s)(fd := False)"
    by blast+
qed

lemma clear_reservations_refines:
  assumes ok: "slots_ok s"
  shows "slots_ok (clear_reservations s)" and "entry_in (clear_reservations s) = entry_in s"
    and "is_reserved (clear_reservations s) = (\<lambda>_. False)"
proof -
  define t where "t = s\<lparr>sl_branches := map (map_option (map clear_page)) (sl_branches s)\<rparr>"
  have tree: "tree_ok s" using ok by (simp add: slots_ok_def)
  have cp: "clear_page p = Some q \<Longrightarrow> \<exists>r. p = Some r \<and> q = r\<lparr>pg_reserved := 0\<rparr>" for p q
    by (auto simp: clear_page_def split: option.splits if_splits)
  have "branch_ok (map clear_page b)" if "branch_ok b" for b
    using that by (auto simp: branch_ok_def page_ok_def dest!: cp [OF sym])
  moreover have "\<exists>c. Some c \<in> set (sl_branches s) \<and> b = map clear_page c" if "Some b \<in> set (sl_branches t)" for b
    using that by (auto simp: t_def map_option_eq_Some dest!: sym [of "Some b"])
  ultimately have tok: "tree_ok t" using tree by (auto simp: tree_ok_def t_def)
  have page: "page_at t x = clear_page (page_at s x)" for x
  proof (cases "branch_at s x")
    case None
    then show ?thesis by (auto simp: t_def page_at_def branch_at_def clear_page_def)
  next
    case (Some b)
    then have "branch_at t x = Some (map clear_page b)" and "length b = WIDTH"
      using branch_at_ok [OF tree Some] by (auto simp: t_def branch_at_def branch_ok_def split: if_splits)
    with Some show ?thesis by (simp add: page_at_def)
  qed
  have "entry_in t x = entry_in s x \<and> \<not> is_reserved t x" for x
  proof (cases "page_at s x")
    case None
    then show ?thesis by (simp add: entry_in_def is_reserved_def page clear_page_def)
  next
    case (Some p)
    then show ?thesis
      using page_ok_nth [of p x] page_at_ok [OF tree Some]
      by (auto simp: entry_in_def is_reserved_def page clear_page_def)
  qed
  then have c: "entry_in t = entry_in s" "is_reserved t = (\<lambda>_. False)" by (auto simp: fun_eq_iff)
  define n where "n = (case find_free t 0 MAX_FDS of None \<Rightarrow> MAX_FDS | Some n \<Rightarrow> n)"
  have n: "n \<le> MAX_FDS \<and> (\<forall>x < n. busy t x)"
    using first_gap [OF tok, of 0] unfolding n_def Let_def by blast
  have r: "clear_reservations s = t\<lparr>sl_first_free := n\<rparr>"
    by (simp only: clear_reservations_def t_def n_def Let_def)
  have b: "sl_branches (clear_reservations s) = sl_branches t" by (simp add: r)
  note k = contents_cong [OF page_at_branches [OF b]]
  have "sl_first_free (clear_reservations s) = n" by (simp add: r)
  with n k tree_ok_branches [OF b] tok show "slots_ok (clear_reservations s)"
    by (simp add: slots_ok_def)
  show "entry_in (clear_reservations s) = entry_in s" "is_reserved (clear_reservations s) = (\<lambda>_. False)"
    using k c by auto
qed

lemma slots_get_mut_refines:
  assumes ok: "slots_ok s"
  shows "slots_ok (slots_get_mut fd f s)"
    and "entry_in (slots_get_mut fd f s) = (entry_in s)(fd := map_option f (entry_in s fd))"
    and "is_reserved (slots_get_mut fd f s) = is_reserved s"
proof -
  have tree: "tree_ok s" using ok by (simp add: slots_ok_def)
  have "slots_ok (slots_get_mut fd f s)
    \<and> entry_in (slots_get_mut fd f s) = (entry_in s)(fd := map_option f (entry_in s fd))
    \<and> is_reserved (slots_get_mut fd f s) = is_reserved s"
  proof (cases "page_at s fd")
    case None
    then have "entry_in s fd = None" by (simp add: entry_in_def)
    with None ok show ?thesis by (auto simp: slots_get_mut_def fun_upd_idem_iff)
  next
    case (Some p)
    define q where "q = p\<lparr>pg_entries := (pg_entries p)
            [fd mod WIDTH := map_option f (pg_entries p ! (fd mod WIDTH))]\<rparr>"
    have pok: "page_ok p" using page_at_ok [OF tree Some] by simp
    then have q: "page_ok q" by (auto simp: q_def page_ok_def nth_list_update)
    define t where "t = slots_get_mut fd f s"
    have t: "t = set_page fd (Some q) s" using Some by (simp add: t_def slots_get_mut_def q_def)
    have pt: "page_at t x = (if x div WIDTH = fd div WIDTH then Some q else page_at s x)" for x
      unfolding t by (rule page_at_set_page [OF tree page_at_branch [OF Some]])
    have "page_or_empty s fd = p" using Some by (simp add: page_or_empty_def)
    then have c: "entry_in t = (entry_in s)(fd := pg_entries q ! (fd mod WIDTH))"
        "is_reserved t = (is_reserved s)(fd := bit (pg_reserved q) (fd mod WIDTH))"
      using pok by (intro page_change [OF pt]; simp add: q_def page_ok_def only_slot_def)+
    have h: "entry_in t = (entry_in s)(fd := map_option f (entry_in s fd))"
      using c(1) pok Some by (simp add: q_def entry_in_def [of s fd] page_ok_def)
    have i: "is_reserved t = is_reserved s"
      using c(2) Some by (auto simp: q_def is_reserved_iff fun_eq_iff)
    have "busy t = busy s" by (auto simp: busy_def h i fun_eq_iff)
    moreover have "tree_ok t" unfolding t using tree q by (intro tree_ok_set_page) auto
    moreover have "sl_first_free t = sl_first_free s" by (simp add: t)
    ultimately have "slots_ok t" using ok by (simp add: slots_ok_def)
    with h i show ?thesis by (simp add: t_def)
  qed
  then show "slots_ok (slots_get_mut fd f s)"
    and "entry_in (slots_get_mut fd f s) = (entry_in s)(fd := map_option f (entry_in s fd))"
    and "is_reserved (slots_get_mut fd f s) = is_reserved s"
    by blast+
qed

lemma slots_ok_default: "slots_ok slots_default" "entry_in slots_default fd = None" "\<not> is_reserved slots_default fd"
  by (simp_all add: slots_ok_def slots_default_def tree_ok_def entry_in_def is_reserved_def
      page_at_def branch_at_def)

end
