(* ===== verification/Fd_Props.thy ===== *)
theory Fd_Props
  imports Fd_Refine
begin

text \<open>
  The descriptor slots as a whole: the interface the descriptor table relies on, with its
  interpretation on the slots, the enumeration of the occupied slots, and the refinement of
  an abstract table by every sequence of operations.
\<close>

section \<open>The interface of a descriptor store\<close>

text \<open>
  A store of entries under descriptor numbers below a bound, some of which may be booked.
  The search law says that the store answers the lowest descriptor that is neither held nor
  booked.
\<close>

locale descriptor_store =
  fixes ok :: "'s \<Rightarrow> bool"
    and get :: "'s \<Rightarrow> nat \<Rightarrow> 'e option"
    and booked :: "'s \<Rightarrow> nat \<Rightarrow> bool"
    and put :: "nat \<Rightarrow> 'e \<Rightarrow> 's \<Rightarrow> ('x, 's) outcome"
    and take_out :: "nat \<Rightarrow> 's \<Rightarrow> 'e option \<times> 's"
    and first_free :: "'s \<Rightarrow> nat \<Rightarrow> nat \<Rightarrow> nat option"
    and bound :: nat
  assumes put_law: "ok s \<Longrightarrow> fd < bound \<Longrightarrow>
        \<exists>t. put fd e s = Ok t \<and> ok t \<and> get t = (get s)(fd := Some e) \<and> booked t = booked s"
    and take_law: "ok s \<Longrightarrow> ok (snd (take_out fd s)) \<and> fst (take_out fd s) = get s fd
        \<and> get (snd (take_out fd s)) = (get s)(fd := None) \<and> booked (snd (take_out fd s)) = booked s"
    and search_law: "ok s \<Longrightarrow>
        first_free s lo hi = find (\<lambda>fd. get s fd = None \<and> \<not> booked s fd) [lo..<min hi bound]"
begin

lemma allocated:
  "ok s \<Longrightarrow> first_free s lo hi = Some fd \<Longrightarrow>
     lo \<le> fd \<and> fd < hi \<and> fd < bound \<and> get s fd = None \<and> \<not> booked s fd"
  by (simp add: search_law find_upt_Some)

lemma allocated_lowest:
  "ok s \<Longrightarrow> first_free s lo hi = Some fd \<Longrightarrow> lo \<le> x \<Longrightarrow> x < fd \<Longrightarrow> get s x \<noteq> None \<or> booked s x"
  by (auto simp: search_law find_upt_Some)

lemma exhausted:
  "ok s \<Longrightarrow> first_free s lo hi = None \<Longrightarrow> lo \<le> x \<Longrightarrow> x < hi \<Longrightarrow> x < bound \<Longrightarrow>
     get s x \<noteq> None \<or> booked s x"
  by (auto simp: search_law find_upt_None)

lemma roll_back:
  assumes "ok s" and "fd < bound" and "get s fd = None" and "put fd e s = Ok t"
  shows "ok (snd (take_out fd t)) \<and> get (snd (take_out fd t)) = get s
    \<and> booked (snd (take_out fd t)) = booked s"
proof -
  have t: "ok t" "get t = (get s)(fd := Some e)" "booked t = booked s"
    using put_law [OF assms(1,2), of e] assms(4) by auto
  then show ?thesis using take_law [OF t(1), of fd] assms(3) by (auto simp: fun_upd_idem_iff)
qed

end

interpretation fds: descriptor_store slots_ok entry_in is_reserved slots_insert slots_remove
  first_free_between MAX_FDS
proof unfold_locales
  show "slots_ok s \<Longrightarrow> fd < MAX_FDS \<Longrightarrow> \<exists>t. slots_insert fd e s = Ok t \<and> slots_ok t
      \<and> entry_in t = (entry_in s)(fd \<mapsto> e) \<and> is_reserved t = is_reserved s" for s fd e
    using slots_insert_refines [of s fd e] by metis
  show "slots_ok s \<Longrightarrow> slots_ok (snd (slots_remove fd s)) \<and> fst (slots_remove fd s) = entry_in s fd
      \<and> entry_in (snd (slots_remove fd s)) = (entry_in s)(fd := None)
      \<and> is_reserved (snd (slots_remove fd s)) = is_reserved s" for s fd
    by (simp add: slots_remove_refines)
  show "slots_ok s \<Longrightarrow> first_free_between s lo hi =
      find (\<lambda>fd. entry_in s fd = None \<and> \<not> is_reserved s fd) [lo..<min hi MAX_FDS]" for s lo hi
    by (simp add: first_free_exact busy_def)
qed

section \<open>Enumeration\<close>

lemma enumerate_upt: "List.enumerate 0 xs = map (\<lambda>i. (i, xs ! i)) [0..<length xs]"
  by (intro nth_equalityI) (simp_all add: nth_enumerate_eq)

lemma upt_blocks: "[a..<a + n * m] = concat (map (\<lambda>i. [a + i * m..<a + i * m + m]) [0..<n])"
proof (induction n)
  case (Suc n)
  have "[a..<a + Suc n * m] = [a..<a + n * m] @ [a + n * m..<a + n * m + m]"
    by (subst upt_add_eq_append [symmetric]) (simp_all add: algebra_simps)
  with Suc show ?case by simp
qed simp

definition listed :: "slots \<Rightarrow> nat list \<Rightarrow> (nat \<times> fd_entry option) list" where
  "listed s fds = map (\<lambda>fd. (fd, entry_in s fd)) (filter (\<lambda>fd. page_at s fd \<noteq> None) fds)"

lemma listed_concat: "listed s (concat xss) = concat (map (listed s) xss)"
  by (induction xss) (simp_all add: listed_def)

lemma listed_none: "(\<And>fd. fd \<in> set fds \<Longrightarrow> page_at s fd = None) \<Longrightarrow> listed s fds = []"
  by (simp add: listed_def filter_empty_conv)

lemma listed_all:
  "(\<And>fd. fd \<in> set fds \<Longrightarrow> page_at s fd \<noteq> None) \<Longrightarrow> listed s fds = map (\<lambda>fd. (fd, entry_in s fd)) fds"
proof -
  assume "\<And>fd. fd \<in> set fds \<Longrightarrow> page_at s fd \<noteq> None"
  then have "filter (\<lambda>fd. page_at s fd \<noteq> None) fds = fds" by (simp add: filter_id_conv)
  then show "listed s fds = map (\<lambda>fd. (fd, entry_in s fd)) fds" by (simp only: listed_def)
qed

lemma page_slots:
  assumes b: "branch_at s (i * BRANCH_SIZE) = Some b" and j: "j < WIDTH" and k: "k < WIDTH"
  shows "page_at s (i * BRANCH_SIZE + j * WIDTH + k) = b ! j"
    and "(i * BRANCH_SIZE + j * WIDTH + k) mod WIDTH = k"
proof -
  define fd where "fd = i * BRANCH_SIZE + j * WIDTH + k"
  have e: "fd = k + WIDTH * (j + WIDTH * i)" by (simp add: fd_def BRANCH_SIZE_def algebra_simps)
  have d: "fd mod WIDTH = k" "fd div WIDTH = j + WIDTH * i"
    using k unfolding e by simp_all
  then have "fd div BRANCH_SIZE = i" "fd div WIDTH mod WIDTH = j"
    using j by (simp_all add: BRANCH_SIZE_def div_mult2_eq)
  moreover from this have "branch_at s fd = Some b"
    using b by (auto simp: branch_at_def fd_sizes split: if_splits)
  ultimately show "page_at s (i * BRANCH_SIZE + j * WIDTH + k) = b ! j"
    by (simp only: page_at_def option.case fd_def [symmetric])
  show "(i * BRANCH_SIZE + j * WIDTH + k) mod WIDTH = k"
    using d(1) by (simp add: fd_def)
qed

lemma listed_page:
  assumes tree: "tree_ok s" and b: "branch_at s (i * BRANCH_SIZE) = Some b" and j: "j < WIDTH"
  shows "listed s [i * BRANCH_SIZE + j * WIDTH..<i * BRANCH_SIZE + j * WIDTH + WIDTH] =
      (case b ! j of None \<Rightarrow> [] | Some p \<Rightarrow>
         map (\<lambda>(k, e). (i * BRANCH_SIZE + j * WIDTH + k, e)) (List.enumerate 0 (pg_entries p)))"
proof -
  define fd0 where "fd0 = i * BRANCH_SIZE + j * WIDTH"
  note at = page_slots [OF b j, folded fd0_def]
  have on: "page_at s x = b ! j" if "x \<in> set [fd0..<fd0 + WIDTH]" for x
    using at(1) [of "x - fd0"] that by auto
  have upt: "[fd0..<fd0 + WIDTH] = map ((+) fd0) [0..<WIDTH]" by (intro nth_equalityI) auto
  show ?thesis
  proof (cases "b ! j")
    case None
    then have "listed s [fd0..<fd0 + WIDTH] = []" using on by (intro listed_none) simp
    with None show ?thesis by (simp add: fd0_def)
  next
    case (Some p)
    have "page_at s fd0 = Some p" using at(1) [of 0] Some by (simp add: WIDTH_def)
    then have len: "length (pg_entries p) = WIDTH" using page_at_ok [OF tree] page_ok_length by blast
    have "listed s [fd0..<fd0 + WIDTH] = map (\<lambda>fd. (fd, entry_in s fd)) [fd0..<fd0 + WIDTH]"
      using on Some by (intro listed_all) simp
    also have "\<dots> = map (\<lambda>k. (fd0 + k, entry_in s (fd0 + k))) [0..<WIDTH]"
      by (simp only: upt map_map comp_def)
    also have "\<dots> = map (\<lambda>k. (fd0 + k, pg_entries p ! k)) [0..<WIDTH]"
      using at Some by (intro map_cong) (simp_all add: entry_in_def)
    finally show ?thesis by (simp add: Some fd0_def enumerate_upt len comp_def)
  qed
qed

lemma listed_branch:
  assumes tree: "tree_ok s" and i: "i < length (sl_branches s)"
  shows "listed s [i * BRANCH_SIZE..<i * BRANCH_SIZE + BRANCH_SIZE] =
      (case sl_branches s ! i of None \<Rightarrow> [] | Some b \<Rightarrow>
        concat (map (\<lambda>(j, p). case p of None \<Rightarrow> [] | Some p \<Rightarrow>
         map (\<lambda>(k, e). (i * BRANCH_SIZE + j * WIDTH + k, e)) (List.enumerate 0 (pg_entries p)))
       (List.enumerate 0 b)))"
proof (cases "sl_branches s ! i")
  case None
  have "page_at s fd = None" if "fd \<in> set [i * BRANCH_SIZE..<i * BRANCH_SIZE + BRANCH_SIZE]" for fd
  proof -
    have "fd div BRANCH_SIZE = i" using that by (auto simp: fd_sizes)
    then show ?thesis using None i by (simp add: page_at_def branch_at_def)
  qed
  then have "listed s [i * BRANCH_SIZE..<i * BRANCH_SIZE + BRANCH_SIZE] = []" by (rule listed_none)
  with None show ?thesis by simp
next
  case (Some b)
  have at: "branch_at s (i * BRANCH_SIZE) = Some b"
    using Some i by (simp add: branch_at_def fd_sizes)
  then have len: "length b = WIDTH" using branch_at_ok [OF tree] by (auto simp: branch_ok_def)
  have blocks: "[i * BRANCH_SIZE..<i * BRANCH_SIZE + BRANCH_SIZE] =
      concat (map (\<lambda>j. [i * BRANCH_SIZE + j * WIDTH..<i * BRANCH_SIZE + j * WIDTH + WIDTH]) [0..<WIDTH])"
    using upt_blocks [of "i * BRANCH_SIZE" WIDTH WIDTH] by (simp only: BRANCH_SIZE_def)
  show ?thesis
    unfolding Some option.case blocks listed_concat map_map comp_def enumerate_upt [of b] len prod.case
    by (intro arg_cong [where f = concat] map_cong refl) (rule listed_page [OF tree at], simp)
qed

lemma enumerated_pages:
  assumes "tree_ok s"
  shows "enumerated s = listed s [0..<length (sl_branches s) * BRANCH_SIZE]"
proof -
  have blocks: "[0..<length (sl_branches s) * BRANCH_SIZE] =
      concat (map (\<lambda>i. [i * BRANCH_SIZE..<i * BRANCH_SIZE + BRANCH_SIZE]) [0..<length (sl_branches s)])"
    using upt_blocks [of 0 "length (sl_branches s)" BRANCH_SIZE] by simp
  show ?thesis
    unfolding blocks listed_concat map_map comp_def enumerated_def enumerate_upt [of "sl_branches s"] prod.case
    by (intro arg_cong [where f = concat] map_cong refl) (rule listed_branch [OF assms, symmetric], simp)
qed

lemma enumerated_held:
  assumes "tree_ok s"
  shows "filter (\<lambda>(fd, e). e \<noteq> None) (enumerated s)
       = map (\<lambda>fd. (fd, entry_in s fd)) (filter (\<lambda>fd. entry_in s fd \<noteq> None) [0..<MAX_FDS])"
proof -
  define n where "n = length (sl_branches s) * BRANCH_SIZE"
  have n: "n \<le> MAX_FDS" using assms by (simp add: n_def tree_ok_def fd_sizes)
  have none: "entry_in s fd = None" if "n \<le> fd" for fd
  proof -
    have "\<not> fd div BRANCH_SIZE < length (sl_branches s)"
      using that by (simp add: n_def fd_sizes div_less_iff_less_mult)
    then show ?thesis by (simp add: entry_in_def page_at_def branch_at_def)
  qed
  have "[0..<MAX_FDS] = [0..<n] @ [n..<MAX_FDS]"
    using n upt_add_eq_append [of 0 n "MAX_FDS - n"] by simp
  moreover have "filter (\<lambda>fd. entry_in s fd \<noteq> None) [n..<MAX_FDS] = []"
    using none by (simp add: filter_empty_conv)
  ultimately have "filter (\<lambda>fd. entry_in s fd \<noteq> None) [0..<MAX_FDS] = filter (\<lambda>fd. entry_in s fd \<noteq> None) [0..<n]"
    by (simp only: filter_append append_Nil2)
  also have "\<dots> = filter (\<lambda>fd. entry_in s fd \<noteq> None) (filter (\<lambda>fd. page_at s fd \<noteq> None) [0..<n])"
    by (auto simp: entry_in_def intro!: filter_cong split: option.splits)
  finally show ?thesis
    by (simp only: enumerated_pages [OF assms] listed_def n_def [symmetric] filter_map comp_def prod.case)
qed

section \<open>Refinement of the abstract table\<close>

record fd_spec =
  entries_of :: "nat \<Rightarrow> fd_entry option"
  reserved_of :: "nat set"

definition fd_abs :: "slots \<Rightarrow> fd_spec" where
  "fd_abs s = \<lparr>entries_of = entry_in s, reserved_of = Collect (is_reserved s)\<rparr>"

definition spec_free :: "fd_spec \<Rightarrow> nat \<Rightarrow> bool" where
  "spec_free a fd \<longleftrightarrow> entries_of a fd = None \<and> fd \<notin> reserved_of a"

datatype slot_op =
    InsertSlot nat fd_entry | RemoveSlot nat | ModifySlot nat "fd_entry \<Rightarrow> fd_entry"
  | ReserveSlot nat | UnreserveSlot nat | ClearReservations

fun slots_apply :: "slot_op \<Rightarrow> slots \<Rightarrow> (i32, slots) outcome" where
  "slots_apply (InsertSlot fd e) s = slots_insert fd e s"
| "slots_apply (RemoveSlot fd) s = Ok (snd (slots_remove fd s))"
| "slots_apply (ModifySlot fd f) s = Ok (slots_get_mut fd f s)"
| "slots_apply (ReserveSlot fd) s = slots_reserve fd s"
| "slots_apply (UnreserveSlot fd) s = Ok (slots_unreserve fd s)"
| "slots_apply ClearReservations s = Ok (clear_reservations s)"

fun spec_apply :: "slot_op \<Rightarrow> fd_spec \<Rightarrow> (i32, fd_spec) outcome" where
  "spec_apply (InsertSlot fd e) a =
     (if fd < MAX_FDS then Ok (a\<lparr>entries_of := (entries_of a)(fd := Some e)\<rparr>) else Panic)"
| "spec_apply (RemoveSlot fd) a = Ok (a\<lparr>entries_of := (entries_of a)(fd := None)\<rparr>)"
| "spec_apply (ModifySlot fd f) a =
     Ok (a\<lparr>entries_of := (entries_of a)(fd := map_option f (entries_of a fd))\<rparr>)"
| "spec_apply (ReserveSlot fd) a =
     (if fd < MAX_FDS \<and> spec_free a fd then Ok (a\<lparr>reserved_of := insert fd (reserved_of a)\<rparr>)
      else Panic)"
| "spec_apply (UnreserveSlot fd) a = Ok (a\<lparr>reserved_of := reserved_of a - {fd}\<rparr>)"
| "spec_apply ClearReservations a = Ok (a\<lparr>reserved_of := {}\<rparr>)"

fun slots_run :: "slot_op list \<Rightarrow> slots \<Rightarrow> (i32, slots) outcome" where
  "slots_run [] s = Ok s"
| "slots_run (op # ops) s = and_then (slots_apply op s) (slots_run ops)"

fun spec_run :: "slot_op list \<Rightarrow> fd_spec \<Rightarrow> (i32, fd_spec) outcome" where
  "spec_run [] a = Ok a"
| "spec_run (op # ops) a = and_then (spec_apply op a) (spec_run ops)"

lemma fd_absI: "entry_in t = e \<Longrightarrow> is_reserved t = r \<Longrightarrow> fd_abs t = \<lparr>entries_of = e, reserved_of = Collect r\<rparr>"
  by (simp add: fd_abs_def)

lemma slots_apply_refines:
  assumes ok: "slots_ok s"
  shows "case slots_apply op s of
           Ok t \<Rightarrow> slots_ok t \<and> spec_apply op (fd_abs s) = Ok (fd_abs t)
         | Err _ \<Rightarrow> False | Panic \<Rightarrow> spec_apply op (fd_abs s) = Panic"
proof (cases op)
  case (InsertSlot fd e)
  show ?thesis
  proof (cases "fd < MAX_FDS")
    case True
    then obtain t where "slots_insert fd e s = Ok t" "slots_ok t"
        "entry_in t = (entry_in s)(fd := Some e)" "is_reserved t = is_reserved s"
      by (rule slots_insert_refines [OF ok])
    with True InsertSlot show ?thesis by (simp add: fd_abs_def)
  next
    case False
    with InsertSlot show ?thesis by (simp add: slots_insert_high)
  qed
next
  case (RemoveSlot fd)
  then show ?thesis using slots_remove_refines [OF ok] by (simp add: fd_abs_def)
next
  case (ModifySlot fd f)
  then show ?thesis using slots_get_mut_refines [OF ok] by (simp add: fd_abs_def)
next
  case (ReserveSlot fd)
  have free: "spec_free (fd_abs s) fd \<longleftrightarrow> \<not> busy s fd" by (simp add: spec_free_def fd_abs_def busy_def)
  show ?thesis
  proof (cases "fd < MAX_FDS \<and> \<not> busy s fd")
    case True
    then obtain t where t: "slots_reserve fd s = Ok t" "slots_ok t" "entry_in t = entry_in s"
        "is_reserved t = (is_reserved s)(fd := True)"
      using slots_reserve_refines [OF ok] by blast
    have "Collect (is_reserved t) = insert fd (Collect (is_reserved s))" by (auto simp: t(4))
    with t True free ReserveSlot show ?thesis by (simp add: fd_abs_def)
  next
    case False
    then have "slots_reserve fd s = Panic" by (intro slots_reserve_busy [OF ok]) auto
    with False free ReserveSlot show ?thesis by auto
  qed
next
  case (UnreserveSlot fd)
  have "Collect (is_reserved (slots_unreserve fd s)) = Collect (is_reserved s) - {fd}"
    using slots_unreserve_refines(3) [OF ok, of fd] by (auto split: if_splits)
  then show ?thesis using UnreserveSlot slots_unreserve_refines [OF ok] by (simp add: fd_abs_def)
next
  case ClearReservations
  then show ?thesis using clear_reservations_refines [OF ok] by (simp add: fd_abs_def)
qed

lemma slots_run_refines:
  "slots_ok s \<Longrightarrow>
     (case slots_run ops s of
        Ok t \<Rightarrow> slots_ok t \<and> spec_run ops (fd_abs s) = Ok (fd_abs t)
      | Err _ \<Rightarrow> False | Panic \<Rightarrow> spec_run ops (fd_abs s) = Panic)"
proof (induction ops arbitrary: s)
  case (Cons op ops)
  show ?case
  proof (cases "slots_apply op s")
    case (Ok u)
    then have "slots_ok u" "spec_apply op (fd_abs s) = Ok (fd_abs u)"
      using slots_apply_refines [OF Cons.prems, of op] by auto
    with Ok Cons.IH [of u] show ?thesis by (cases "slots_run ops u") simp_all
  qed (use slots_apply_refines [OF Cons.prems, of op] in auto)
qed simp

text \<open>C11: (refinement) the sparse tree implements the plain descriptor table: whatever sequence of
  operations runs from the empty table, it stops with a panic exactly when the abstract table
  does; otherwise every lookup and reservation test agrees with the abstract table, the search
  answers the lowest descriptor of the range that is neither open nor reserved, and the
  enumeration of occupied slots lists exactly the open descriptors in ascending order.\<close>

theorem slots_refine_table:
  "case slots_run ops slots_default of
     Ok s \<Rightarrow>
       (\<exists>a. spec_run ops \<lparr>entries_of = (\<lambda>_. None), reserved_of = {}\<rparr> = Ok a
          \<and> (\<forall>fd. slots_get s fd = (if fd < MAX_FDS then Some (entries_of a fd) else None))
          \<and> (\<forall>fd. is_reserved s fd \<longleftrightarrow> fd \<in> reserved_of a)
          \<and> (\<forall>lo hi. first_free_between s lo hi = find (spec_free a) [lo..<min hi MAX_FDS])
          \<and> filter (\<lambda>(fd, e). e \<noteq> None) (enumerated s)
            = map (\<lambda>fd. (fd, entries_of a fd))
                (filter (\<lambda>fd. entries_of a fd \<noteq> None) [0..<MAX_FDS]))
   | Err _ \<Rightarrow> False
   | Panic \<Rightarrow> spec_run ops \<lparr>entries_of = (\<lambda>_. None), reserved_of = {}\<rparr> = Panic"
proof -
  have abs0: "fd_abs slots_default = \<lparr>entries_of = (\<lambda>_. None), reserved_of = {}\<rparr>"
    using slots_ok_default(2,3) by (auto simp: fd_abs_def fun_eq_iff)
  have queries: "(\<forall>fd. slots_get s fd = (if fd < MAX_FDS then Some (entries_of (fd_abs s) fd) else None))
      \<and> (\<forall>fd. is_reserved s fd \<longleftrightarrow> fd \<in> reserved_of (fd_abs s))
      \<and> (\<forall>lo hi. first_free_between s lo hi = find (spec_free (fd_abs s)) [lo..<min hi MAX_FDS])
      \<and> filter (\<lambda>(fd, e). e \<noteq> None) (enumerated s)
        = map (\<lambda>fd. (fd, entries_of (fd_abs s) fd))
            (filter (\<lambda>fd. entries_of (fd_abs s) fd \<noteq> None) [0..<MAX_FDS])" if ok: "slots_ok s" for s
  proof -
    have "spec_free (fd_abs s) = (\<lambda>fd. \<not> busy s fd)"
      by (simp add: fun_eq_iff spec_free_def fd_abs_def busy_def)
    then show ?thesis
      using first_free_exact [OF ok] enumerated_held [of s] ok
      by (simp add: fd_abs_def slots_get_def entry_in_def [symmetric] slots_ok_def)
  qed
  from slots_run_refines [OF slots_ok_default(1), of ops] show ?thesis
    unfolding abs0 using queries by (cases "slots_run ops slots_default") auto
qed

end
