(* ===== verification/Fd_Table.thy ===== *)
theory Fd_Table
  imports Fd_Props
begin

text \<open>
  The descriptor table of \<^verbatim>\<open>kinakaze-vfs/src/lib.rs\<close>: the calls that install a host object
  under a descriptor number (fresh, duplicated, at least or exactly a given number), the
  reservations of syscalls that have not installed a file yet, and the updates of a stored
  file position. What the host is asked for (the resource limit, description identities,
  handle inheritance, side tables) is the record \<open>fd_host\<close>; a call of it that can fail
  answers an error number or nothing. Each call holds the table lock from the selection to
  the insertion, so a call is one step.
\<close>

section \<open>Flags and kinds\<close>

definition ENOMEM :: i32 where "ENOMEM = 12"
definition EBUSY :: i32 where "EBUSY = 16"
definition EMFILE :: i32 where "EMFILE = 24"

definition FD_SEEKABLE :: u32 where "FD_SEEKABLE = 0x10"
definition FD_PIPE_READ_END :: u32 where "FD_PIPE_READ_END = 0x40"
definition FD_PIPE_WRITE_END :: u32 where "FD_PIPE_WRITE_END = 0x80"
definition FD_PATH_ONLY :: u32 where "FD_PATH_ONLY = 0x100"
definition FD_WRITE_ACCESS :: u32 where "FD_WRITE_ACCESS = 0x400"
definition FD_VERITY_WRITABLE :: u32 where "FD_VERITY_WRITABLE = 0x4000"

definition fd_contains :: "u32 \<Rightarrow> u32 \<Rightarrow> bool" where
  "fd_contains flags other \<longleftrightarrow> flags AND other = other"

definition has_pipe_access :: "u32 \<Rightarrow> bool" where
  "has_pipe_access flags \<longleftrightarrow>
     fd_contains flags FD_PIPE_READ_END \<or> fd_contains flags FD_PIPE_WRITE_END"

fun allows_missing_host_handle :: "descriptor_kind \<Rightarrow> bool" where
  "allows_missing_host_handle k \<longleftrightarrow>
     k \<in> {FdEventFd, FdUnixSocket, FdSynthetic, FdSyntheticDirectory, FdNull, FdZero, FdRandom,
          FdFull, FdCgroupFile, FdProcSysctl, FdRtc}"

definition validate_descriptor_flags :: "descriptor_kind \<Rightarrow> u32 \<Rightarrow> (i32, unit) outcome" where
  "validate_descriptor_flags kind flags =
     (if fd_contains flags FD_VERITY_WRITABLE
         \<and> (kind \<noteq> FdFile \<or> \<not> fd_contains flags FD_WRITE_ACCESS \<or> fd_contains flags FD_PATH_ONLY)
      then Err EINVAL
      else if kind = FdPipe \<and> \<not> has_pipe_access flags then Err EINVAL
      else Ok ())"

section \<open>The table\<close>

record fd_table =
  ft_slots :: slots
  ft_next_generation :: u32
  ft_next_description_id :: u64

record fd_host =
  fh_helper :: bool
  fh_nofile :: "i32 + u64 \<times> u64"
  fh_poisoned :: bool
  fh_alloc_id :: "u64 option"
  fh_prepare :: "u64 \<Rightarrow> descriptor_kind \<Rightarrow> u32 \<Rightarrow> i32 option"
  fh_fifo_dup :: "fd_entry \<Rightarrow> i32 \<Rightarrow> fd_entry \<Rightarrow> i32 option"
  fh_publish :: "i32 \<Rightarrow> fd_entry \<Rightarrow> i32 option"

definition host_call :: "i32 option \<Rightarrow> (i32, unit) outcome" where
  "host_call r = (case r of None \<Rightarrow> Ok () | Some e \<Rightarrow> Err e)"

definition write_lock :: "fd_host \<Rightarrow> (i32, unit) outcome" where
  "write_lock h = (if fh_poisoned h then Err EIO else Ok ())"

definition current_nofile_limit :: "fd_host \<Rightarrow> (i32, nat) outcome" where
  "current_nofile_limit h =
     (if fh_helper h then Ok MAX_FDS
      else case fh_nofile h of
        Inl e \<Rightarrow> Err e
      | Inr (soft, hard) \<Rightarrow> Ok (min (unat soft) MAX_FDS))"

text \<open>\<open>fd as usize\<close> of a signed descriptor number.\<close>

definition fd_usize :: "i32 \<Rightarrow> nat" where
  "fd_usize fd = nat (sint fd mod 2 ^ 64)"

definition option_or :: "i32 \<Rightarrow> 'a option \<Rightarrow> (i32, 'a) outcome" where
  "option_or e r = (case r of None \<Rightarrow> Err e | Some x \<Rightarrow> Ok x)"

fun and_do :: "(i32, 'a) outcome \<times> 's \<Rightarrow> ('a \<Rightarrow> 's \<Rightarrow> (i32, 'b) outcome \<times> 's) \<Rightarrow> (i32, 'b) outcome \<times> 's" where
  "and_do (Ok x, s) f = f x s"
| "and_do (Err e, s) f = (Err e, s)"
| "and_do (Panic, s) f = (Panic, s)"

definition insert_at_description ::
    "i32 \<Rightarrow> u64 \<Rightarrow> descriptor_kind \<Rightarrow> u32 \<Rightarrow> u64 \<Rightarrow> u64 \<Rightarrow> fd_table \<Rightarrow> (i32, unit) outcome \<times> fd_table" where
  "insert_at_description fd raw kind flags off description t =
     (if 0 \<le> sint fd \<and> sint fd < int MAX_FDS then
        let generation = ft_next_generation t;
            t = t\<lparr>ft_next_generation := max (ft_next_generation t + 1) 1\<rparr> in
        try_or t (slots_insert (fd_usize fd)
            \<lparr>fe_raw = raw, fe_kind = kind, fe_flags = flags, fe_generation = generation,
             fe_description_id = description, fe_offset = off\<rparr> (ft_slots t))
          (\<lambda>s. (Ok (), t\<lparr>ft_slots := s\<rparr>))
      else (Ok (), t))"

definition insert_at ::
    "fd_host \<Rightarrow> i32 \<Rightarrow> u64 \<Rightarrow> descriptor_kind \<Rightarrow> u32 \<Rightarrow> fd_table \<Rightarrow> (i32, unit) outcome \<times> fd_table" where
  "insert_at h fd raw kind flags t =
     try_or t (option_or ENOMEM (fh_alloc_id h)) (\<lambda>description.
     if description = - 1 then (Err EOVERFLOW, t)
     else insert_at_description fd raw kind flags 0 description
            (t\<lparr>ft_next_description_id := description + 1\<rparr>))"

section \<open>Installation\<close>

text \<open>
  The common end of an installation: the entry just inserted is given to the side tables, and
  taken out again when they refuse it.
\<close>

definition publish_slot ::
    "nat \<Rightarrow> (fd_entry \<Rightarrow> i32 option) \<Rightarrow> fd_table \<Rightarrow> (i32, i32) outcome \<times> fd_table" where
  "publish_slot fd register t =
     try_or t (slots_index (ft_slots t) fd) (\<lambda>slot.
     try_or t (option_or EIO slot) (\<lambda>entry.
     case register entry of
       Some error \<Rightarrow> (Err error, t\<lparr>ft_slots := snd (slots_remove fd (ft_slots t))\<rparr>)
     | None \<Rightarrow> (Ok (word_of_nat fd), t)))"

definition bad_handle :: "u64 \<Rightarrow> descriptor_kind \<Rightarrow> bool" where
  "bad_handle raw kind \<longleftrightarrow> raw = 0 \<and> \<not> allows_missing_host_handle kind \<or> raw = - 1"

definition install_with_identity ::
    "u64 \<Rightarrow> descriptor_kind \<Rightarrow> u32 \<Rightarrow> u64 option \<Rightarrow> (i32 \<Rightarrow> fd_entry \<Rightarrow> i32 option) \<Rightarrow> fd_host \<Rightarrow> fd_table
      \<Rightarrow> (i32, i32) outcome \<times> fd_table" where
  "install_with_identity raw kind flags description register h t =
     (if bad_handle raw kind then (Err EINVAL, t)
      else
        try_or t (validate_descriptor_flags kind flags) (\<lambda>_.
        try_or t (current_nofile_limit h) (\<lambda>limit.
        try_or t (write_lock h) (\<lambda>_.
        try_or t (option_or EMFILE (first_free_between (ft_slots t) 0 limit)) (\<lambda>fd.
        try_or t (host_call (fh_prepare h raw kind flags)) (\<lambda>_.
        and_do (case description of
            Some d \<Rightarrow> insert_at_description (word_of_nat fd) raw kind flags 0 d t
          | None \<Rightarrow> insert_at h (word_of_nat fd) raw kind flags t)
          (\<lambda>_ t. publish_slot fd (register (word_of_nat fd)) t)))))))"

definition install_received ::
    "u64 \<Rightarrow> descriptor_kind \<Rightarrow> u32 \<Rightarrow> u64 \<Rightarrow> fd_host \<Rightarrow> fd_table \<Rightarrow> (i32, i32) outcome \<times> fd_table" where
  "install_received raw kind flags description h t =
     (if description = 0 then (Err EINVAL, t)
      else install_with_identity raw kind flags (Some description) (\<lambda>_ _. None) h t)"

definition install_handleless_with ::
    "descriptor_kind \<Rightarrow> u32 \<Rightarrow> (i32 \<Rightarrow> i32 option) \<Rightarrow> fd_host \<Rightarrow> fd_table \<Rightarrow> (i32, i32) outcome \<times> fd_table" where
  "install_handleless_with kind flags register h t =
     (if \<not> allows_missing_host_handle kind then (Err EINVAL, t)
      else
        try_or t (validate_descriptor_flags kind flags) (\<lambda>_.
        try_or t (current_nofile_limit h) (\<lambda>limit.
        try_or t (write_lock h) (\<lambda>_.
        try_or t (option_or EMFILE (first_free_between (ft_slots t) 0 limit)) (\<lambda>fd.
        and_do (insert_at h (word_of_nat fd) 0 kind flags t) (\<lambda>_ t.
        case register (word_of_nat fd) of
          Some error \<Rightarrow> (Err error, t\<lparr>ft_slots := snd (slots_remove fd (ft_slots t))\<rparr>)
        | None \<Rightarrow> (Ok (word_of_nat fd), t)))))))"

definition publish_duplicate_state :: "fd_host \<Rightarrow> fd_entry \<Rightarrow> i32 \<Rightarrow> fd_entry \<Rightarrow> i32 option" where
  "publish_duplicate_state h source fd entry =
     (if fe_kind source = FdIoRing then Some EOPNOTSUPP
      else case (if fe_kind entry = FdFifo then fh_fifo_dup h source fd entry else None) of
             Some e \<Rightarrow> Some e
           | None \<Rightarrow> fh_publish h fd entry)"

definition bad_duplicate :: "u64 \<Rightarrow> descriptor_kind \<Rightarrow> fd_entry \<Rightarrow> bool" where
  "bad_duplicate raw kind source \<longleftrightarrow>
     kind \<noteq> fe_kind source \<or> fe_description_id source = 0 \<or> bad_handle raw kind"

text \<open>The common part of the three \<open>install_duplicate\<close> calls once the number is chosen.\<close>

definition insert_duplicate ::
    "nat \<Rightarrow> u64 \<Rightarrow> descriptor_kind \<Rightarrow> u32 \<Rightarrow> fd_entry \<Rightarrow> fd_host \<Rightarrow> fd_table \<Rightarrow> (i32, i32) outcome \<times> fd_table" where
  "insert_duplicate fd raw kind flags source h t =
     try_or t (host_call (fh_prepare h raw kind flags)) (\<lambda>_.
     and_do (insert_at_description (word_of_nat fd) raw kind flags
               (fe_offset source) (fe_description_id source) t)
       (\<lambda>_ t. publish_slot fd (publish_duplicate_state h source (word_of_nat fd)) t))"

definition install_duplicate ::
    "u64 \<Rightarrow> descriptor_kind \<Rightarrow> u32 \<Rightarrow> fd_entry \<Rightarrow> fd_host \<Rightarrow> fd_table \<Rightarrow> (i32, i32) outcome \<times> fd_table" where
  "install_duplicate raw kind flags source h t =
     (if bad_duplicate raw kind source then (Err EINVAL, t)
      else
        try_or t (validate_descriptor_flags kind flags) (\<lambda>_.
        try_or t (current_nofile_limit h) (\<lambda>limit.
        try_or t (write_lock h) (\<lambda>_.
        try_or t (option_or EMFILE (first_free_between (ft_slots t) 0 limit)) (\<lambda>fd.
        insert_duplicate fd raw kind flags source h t)))))"

definition install_at_least ::
    "u64 \<Rightarrow> descriptor_kind \<Rightarrow> u32 \<Rightarrow> i32 \<Rightarrow> fd_host \<Rightarrow> fd_table \<Rightarrow> (i32, i32) outcome \<times> fd_table" where
  "install_at_least raw kind flags lo h t =
     try_or t (current_nofile_limit h) (\<lambda>limit.
     if sint lo < 0 \<or> fd_usize lo \<ge> limit \<or> bad_handle raw kind then (Err EINVAL, t)
     else
       try_or t (validate_descriptor_flags kind flags) (\<lambda>_.
       try_or t (write_lock h) (\<lambda>_.
       try_or t (option_or EMFILE (first_free_between (ft_slots t) (fd_usize lo) limit)) (\<lambda>fd.
       try_or t (host_call (fh_prepare h raw kind flags)) (\<lambda>_.
       and_do (insert_at h (word_of_nat fd) raw kind flags t) (\<lambda>_ t. (Ok (word_of_nat fd), t)))))))"

definition install_duplicate_at_least ::
    "u64 \<Rightarrow> descriptor_kind \<Rightarrow> u32 \<Rightarrow> i32 \<Rightarrow> fd_entry \<Rightarrow> fd_host \<Rightarrow> fd_table \<Rightarrow> (i32, i32) outcome \<times> fd_table" where
  "install_duplicate_at_least raw kind flags lo source h t =
     try_or t (current_nofile_limit h) (\<lambda>limit.
     if bad_duplicate raw kind source \<or> sint lo < 0 \<or> fd_usize lo \<ge> limit then (Err EINVAL, t)
     else
       try_or t (validate_descriptor_flags kind flags) (\<lambda>_.
       try_or t (write_lock h) (\<lambda>_.
       try_or t (option_or EMFILE (first_free_between (ft_slots t) (fd_usize lo) limit)) (\<lambda>fd.
       insert_duplicate fd raw kind flags source h t))))"

definition slot_taken :: "slots \<Rightarrow> nat \<Rightarrow> bool" where
  "slot_taken s fd \<longleftrightarrow>
     is_reserved s fd \<or> (case slots_get s fd of None \<Rightarrow> True | Some e \<Rightarrow> e \<noteq> None)"

definition install_exact ::
    "u64 \<Rightarrow> descriptor_kind \<Rightarrow> u32 \<Rightarrow> i32 \<Rightarrow> fd_host \<Rightarrow> fd_table \<Rightarrow> (i32, i32) outcome \<times> fd_table" where
  "install_exact raw kind flags fd h t =
     try_or t (current_nofile_limit h) (\<lambda>limit.
     if sint fd < 0 \<or> fd_usize fd \<ge> limit \<or> bad_handle raw kind then (Err EINVAL, t)
     else
       try_or t (validate_descriptor_flags kind flags) (\<lambda>_.
       try_or t (write_lock h) (\<lambda>_.
       if slot_taken (ft_slots t) (fd_usize fd) then (Err EBUSY, t)
       else
         try_or t (host_call (fh_prepare h raw kind flags)) (\<lambda>_.
         and_do (insert_at h fd raw kind flags t) (\<lambda>_ t. (Ok fd, t))))))"

definition install_duplicate_exact ::
    "u64 \<Rightarrow> descriptor_kind \<Rightarrow> u32 \<Rightarrow> i32 \<Rightarrow> fd_entry \<Rightarrow> fd_host \<Rightarrow> fd_table \<Rightarrow> (i32, i32) outcome \<times> fd_table" where
  "install_duplicate_exact raw kind flags fd source h t =
     try_or t (current_nofile_limit h) (\<lambda>limit.
     if bad_duplicate raw kind source \<or> sint fd < 0 \<or> fd_usize fd \<ge> limit then (Err EINVAL, t)
     else
       try_or t (validate_descriptor_flags kind flags) (\<lambda>_.
       try_or t (write_lock h) (\<lambda>_.
       if slot_taken (ft_slots t) (fd_usize fd) then (Err EBUSY, t)
       else insert_duplicate (fd_usize fd) raw kind flags source h t)))"

section \<open>Reservations\<close>

definition reserve_descriptor :: "fd_host \<Rightarrow> fd_table \<Rightarrow> (i32, nat) outcome \<times> fd_table" where
  "reserve_descriptor h t =
     try_or t (current_nofile_limit h) (\<lambda>limit.
     try_or t (write_lock h) (\<lambda>_.
     try_or t (option_or EMFILE (first_free_between (ft_slots t) 0 limit)) (\<lambda>fd.
     try_or t (slots_reserve fd (ft_slots t)) (\<lambda>s. (Ok fd, t\<lparr>ft_slots := s\<rparr>)))))"

definition reservation_drop :: "nat \<Rightarrow> fd_host \<Rightarrow> fd_table \<Rightarrow> fd_table" where
  "reservation_drop fd h t =
     (case write_lock h of
        Ok _ \<Rightarrow> t\<lparr>ft_slots := slots_unreserve fd (ft_slots t)\<rparr>
      | _ \<Rightarrow> t)"

definition reservation_body ::
    "nat \<Rightarrow> u64 \<Rightarrow> descriptor_kind \<Rightarrow> u32 \<Rightarrow> (i32 \<Rightarrow> fd_entry \<Rightarrow> i32 option) \<Rightarrow> fd_host \<Rightarrow> fd_table
      \<Rightarrow> (i32, i32) outcome \<times> fd_table" where
  "reservation_body fd raw kind flags register h t =
     (if bad_handle raw kind then (Err EINVAL, t)
      else
        try_or t (validate_descriptor_flags kind flags) (\<lambda>_.
        try_or t (write_lock h) (\<lambda>_.
        try_or t (if \<not> is_reserved (ft_slots t) fd then Ok True
                  else and_then (slots_index (ft_slots t) fd) (\<lambda>e. Ok (e \<noteq> None))) (\<lambda>busy.
        if busy then (Err EBUSY, t)
        else
          try_or t (host_call (fh_prepare h raw kind flags)) (\<lambda>_.
          and_do (insert_at h (word_of_nat fd) raw kind flags t) (\<lambda>_ t.
          and_do (publish_slot fd (register (word_of_nat fd)) t) (\<lambda>fd' t.
          (Ok fd', t\<lparr>ft_slots := slots_unreserve fd (ft_slots t)\<rparr>))))))))"

text \<open>The reservation is consumed: unless it was installed, its drop releases the number.\<close>

definition reservation_install_with ::
    "nat \<Rightarrow> u64 \<Rightarrow> descriptor_kind \<Rightarrow> u32 \<Rightarrow> (i32 \<Rightarrow> fd_entry \<Rightarrow> i32 option) \<Rightarrow> fd_host \<Rightarrow> fd_table
      \<Rightarrow> (i32, i32) outcome \<times> fd_table" where
  "reservation_install_with fd raw kind flags register h t =
     (case reservation_body fd raw kind flags register h t of
        (Ok r, t) \<Rightarrow> (Ok r, t)
      | (r, t) \<Rightarrow> (r, reservation_drop fd h t))"

section \<open>Stored positions\<close>

definition saturating_add_u64 :: "u64 \<Rightarrow> u64 \<Rightarrow> u64" where
  "saturating_add_u64 a b = (if a + b < a then - 1 else a + b)"

definition advance_offset :: "i32 \<Rightarrow> u32 \<Rightarrow> u64 \<Rightarrow> fd_host \<Rightarrow> fd_table \<Rightarrow> fd_table" where
  "advance_offset fd generation amount h t =
     (if amount = 0 \<or> fh_poisoned h then t
      else t\<lparr>ft_slots := slots_get_mut (fd_usize fd) (\<lambda>entry.
             if fe_generation entry = generation \<and> fd_contains (fe_flags entry) FD_SEEKABLE
             then entry\<lparr>fe_offset := saturating_add_u64 (fe_offset entry) amount\<rparr> else entry)
             (ft_slots t)\<rparr>)"

definition set_offset :: "i32 \<Rightarrow> u32 \<Rightarrow> u64 \<Rightarrow> fd_host \<Rightarrow> fd_table \<Rightarrow> fd_table" where
  "set_offset fd generation off h t =
     (if fh_poisoned h then t
      else t\<lparr>ft_slots := slots_get_mut (fd_usize fd) (\<lambda>entry.
             if fe_generation entry = generation then entry\<lparr>fe_offset := off\<rparr> else entry)
             (ft_slots t)\<rparr>)"

end
