(* ===== verification/Fd_Table_Props.thy ===== *)
theory Fd_Table_Props
  imports Fd_Table
begin

text \<open>
  What an installation guarantees, whichever call makes it, and that a reserved descriptor
  stays reserved for its owner under every sequence of installations.
\<close>

section \<open>Numbers\<close>

lemma sint_small: "n < MAX_FDS \<Longrightarrow> sint (word_of_nat n :: i32) = int n"
  by (simp add: signed_of_nat signed_take_bit_int_eq_self MAX_FDS_def)

lemma fd_usize_small [simp]: "n < MAX_FDS \<Longrightarrow> fd_usize (word_of_nat n) = n"
  by (simp add: fd_usize_def sint_small MAX_FDS_def)

lemma fd_usize_word: "0 \<le> sint fd \<Longrightarrow> word_of_nat (fd_usize fd) = fd"
proof -
  assume p: "0 \<le> sint fd"
  have "sint fd < 2 ^ 31" using sint_lt [of fd] by simp
  with p have "int (fd_usize fd) = sint fd" by (simp add: fd_usize_def)
  then have "(word_of_nat (fd_usize fd) :: i32) = word_of_int (sint fd)" by (metis of_int_of_nat_eq)
  then show ?thesis by simp
qed

lemma nofile_limit:
  "current_nofile_limit h \<noteq> Panic" "current_nofile_limit h = Ok l \<Longrightarrow> l \<le> MAX_FDS"
  by (auto simp: current_nofile_limit_def split: sum.splits if_splits)

lemma host_answers:
  "write_lock h \<noteq> Panic" "host_call r \<noteq> Panic" "option_or e x \<noteq> Panic"
  "validate_descriptor_flags k fl \<noteq> Panic" "option_or e x = Ok y \<longleftrightarrow> x = Some y"
  by (auto simp: write_lock_def host_call_def option_or_def validate_descriptor_flags_def split: option.split)

section \<open>The contract of an installation\<close>

definition table_ok :: "fd_table \<Rightarrow> bool" where
  "table_ok t \<longleftrightarrow> slots_ok (ft_slots t)"

definition opened :: "fd_table \<Rightarrow> nat \<Rightarrow> fd_entry option" where
  "opened t = entry_in (ft_slots t)"

definition reserved_in :: "fd_table \<Rightarrow> nat \<Rightarrow> bool" where
  "reserved_in t = is_reserved (ft_slots t)"

text \<open>
  The call started in \<open>t\<close>. A success answers the lowest descriptor from \<open>lo\<close> below \<open>lim\<close>
  that was neither open nor reserved, and adds one entry with property \<open>Q\<close> there; an error
  leaves every entry in place; neither changes a reservation.
\<close>

definition install_ok ::
    "fd_table \<Rightarrow> nat \<Rightarrow> nat \<Rightarrow> (fd_entry \<Rightarrow> bool) \<Rightarrow> (i32, i32) outcome \<times> fd_table \<Rightarrow> bool" where
  "install_ok t lo lim Q res \<longleftrightarrow>
     table_ok (snd res) \<and> reserved_in (snd res) = reserved_in t
     \<and> (case fst res of
          Ok fd \<Rightarrow>
            (let n = fd_usize fd in
             lo \<le> n \<and> n < lim \<and> fd = word_of_nat n \<and> opened t n = None \<and> \<not> reserved_in t n
             \<and> (\<forall>x. lo \<le> x \<and> x < n \<longrightarrow> opened t x \<noteq> None \<or> reserved_in t x)
             \<and> (\<exists>e. Q e \<and> opened (snd res) = (opened t)(n := Some e)))
        | Err _ \<Rightarrow> opened (snd res) = opened t
        | Panic \<Rightarrow> False)"

lemma install_ok_error: "table_ok t \<Longrightarrow> install_ok t lo lim Q (Err e, t)"
  by (simp add: install_ok_def)

lemma install_ok_try:
  "table_ok t \<Longrightarrow> r \<noteq> Panic \<Longrightarrow> (\<And>x. r = Ok x \<Longrightarrow> install_ok t lo lim Q (f x)) \<Longrightarrow>
     install_ok t lo lim Q (try_or t r f)"
  by (cases r) (auto intro: install_ok_error)

lemma install_ok_if:
  "table_ok t \<Longrightarrow> (\<not> b \<Longrightarrow> install_ok t lo lim Q r) \<Longrightarrow>
     install_ok t lo lim Q (if b then (Err e, t) else r)"
  by (auto intro: install_ok_error)

text \<open>A free descriptor in range, the lowest from \<open>lo\<close> on.\<close>

definition vacant :: "fd_table \<Rightarrow> nat \<Rightarrow> nat \<Rightarrow> nat \<Rightarrow> bool" where
  "vacant t lo lim fd \<longleftrightarrow> lo \<le> fd \<and> fd < lim \<and> fd < MAX_FDS \<and> opened t fd = None \<and> \<not> reserved_in t fd
     \<and> (\<forall>x. lo \<le> x \<and> x < fd \<longrightarrow> opened t x \<noteq> None \<or> reserved_in t x)"

lemma vacant_search:
  "table_ok t \<Longrightarrow> first_free_between (ft_slots t) lo lim = Some fd \<Longrightarrow> vacant t lo lim fd"
  using fds.allocated [of "ft_slots t" lo lim fd] fds.allocated_lowest [of "ft_slots t" lo lim fd]
  by (auto simp: vacant_def table_ok_def opened_def reserved_in_def)

lemma vacant_exact:
  assumes "table_ok t" and "fd < lim" and "\<not> slot_taken (ft_slots t) fd"
  shows "vacant t fd (min lim (fd + 1)) fd"
proof -
  have "fd < MAX_FDS" "opened t fd = None" "\<not> reserved_in t fd"
    using assms(3) by (auto simp: slot_taken_def slots_get_def opened_def reserved_in_def
        entry_in_def [symmetric] split: if_splits)
  with assms(2) show ?thesis unfolding vacant_def by auto
qed

definition fresh_entry :: "fd_table \<Rightarrow> u64 \<Rightarrow> descriptor_kind \<Rightarrow> u32 \<Rightarrow> u64 \<Rightarrow> u64 \<Rightarrow> fd_entry" where
  "fresh_entry t raw kind flags off description =
     \<lparr>fe_raw = raw, fe_kind = kind, fe_flags = flags, fe_generation = ft_next_generation t,
      fe_description_id = description, fe_offset = off\<rparr>"

lemma insert_at_description_ok:
  assumes "table_ok t" and "fd < MAX_FDS"
  obtains u where "insert_at_description (word_of_nat fd) raw kind flags off d t = (Ok (), u)"
    and "table_ok u" and "opened u = (opened t)(fd := Some (fresh_entry t raw kind flags off d))"
    and "reserved_in u = reserved_in t" and "slots_insert fd (fresh_entry t raw kind flags off d) (ft_slots t) = Ok (ft_slots u)"
proof -
  obtain s where s: "slots_insert fd (fresh_entry t raw kind flags off d) (ft_slots t) = Ok s"
      "slots_ok s" "entry_in s = (entry_in (ft_slots t))(fd := Some (fresh_entry t raw kind flags off d))"
      "is_reserved s = is_reserved (ft_slots t)"
    using fds.put_law assms unfolding table_ok_def by metis
  show thesis
    using assms(2) s
    by (intro that [of "t\<lparr>ft_next_generation := max (ft_next_generation t + 1) 1, ft_slots := s\<rparr>"])
       (simp_all add: insert_at_description_def sint_small table_ok_def opened_def reserved_in_def
         fresh_entry_def Let_def)
qed

lemma publish_ok:
  assumes t: "table_ok t" and v: "vacant t lo lim fd"
    and ins: "slots_insert fd e (ft_slots t) = Ok (ft_slots u)" and Q: "Q e"
    and u: "table_ok u" "opened u = (opened t)(fd := Some e)" "reserved_in u = reserved_in t"
  shows "install_ok t lo lim Q (publish_slot fd register u)"
    and "install_ok t lo lim Q (Ok (word_of_nat fd), u)"
    and "install_ok t lo lim Q (Err x, u\<lparr>ft_slots := snd (slots_remove fd (ft_slots u))\<rparr>)"
proof -
  have fd: "fd < MAX_FDS" "opened t fd = None" using v by (simp_all add: vacant_def)
  show ok: "install_ok t lo lim Q (Ok (word_of_nat fd), u)"
    using v u fd Q by (auto simp: install_ok_def vacant_def Let_def)
  have "slots_ok (ft_slots t)" "entry_in (ft_slots t) fd = None"
    using t fd by (simp_all add: table_ok_def opened_def)
  from fds.roll_back [OF this(1) fd(1) this(2) ins]
  show err: "install_ok t lo lim Q (Err x, u\<lparr>ft_slots := snd (slots_remove fd (ft_slots u))\<rparr>)" for x
    by (simp add: install_ok_def table_ok_def opened_def reserved_in_def)
  have "slots_index (ft_slots u) fd = Ok (Some e)"
    using fd u(2) by (simp add: slots_index_def slots_get_def entry_in_def [symmetric] opened_def)
  then show "install_ok t lo lim Q (publish_slot fd register u)"
    using ok err by (simp add: publish_slot_def option_or_def split: option.split)
qed

lemma insert_at_cases:
  assumes "table_ok t" and "fd < MAX_FDS"
  shows "(\<exists>e. insert_at h (word_of_nat fd) raw kind flags t = (Err e, t))
    \<or> (\<exists>d u. fh_alloc_id h = Some d \<and> insert_at h (word_of_nat fd) raw kind flags t = (Ok (), u)
        \<and> table_ok u \<and> opened u = (opened t)(fd := Some (fresh_entry t raw kind flags 0 d))
        \<and> reserved_in u = reserved_in t
        \<and> slots_insert fd (fresh_entry t raw kind flags 0 d) (ft_slots t) = Ok (ft_slots u))"
proof (cases "fh_alloc_id h")
  case (Some d)
  define t' where "t' = t\<lparr>ft_next_description_id := d + 1\<rparr>"
  have same: "table_ok t' = table_ok t" "opened t' = opened t" "reserved_in t' = reserved_in t"
      "ft_slots t' = ft_slots t" "fresh_entry t' = fresh_entry t"
    by (simp_all add: t'_def table_ok_def opened_def reserved_in_def fresh_entry_def fun_eq_iff)
  obtain u where "insert_at_description (word_of_nat fd) raw kind flags 0 d t' = (Ok (), u)"
    "table_ok u" "opened u = (opened t)(fd := Some (fresh_entry t raw kind flags 0 d))"
    "reserved_in u = reserved_in t" "slots_insert fd (fresh_entry t raw kind flags 0 d) (ft_slots t) = Ok (ft_slots u)"
    using insert_at_description_ok [of t' fd raw kind flags 0 d] assms unfolding same by metis
  with Some show ?thesis by (simp add: insert_at_def option_or_def t'_def [symmetric])
qed (simp add: insert_at_def option_or_def)

text \<open>The three ways an entry is inserted and then published.\<close>

lemma insert_described_ok:
  assumes "table_ok t" and v: "vacant t lo lim fd" and "Q (fresh_entry t raw kind flags off d)"
  shows "install_ok t lo lim Q (and_do (insert_at_description (word_of_nat fd) raw kind flags off d t)
           (\<lambda>_ t. publish_slot fd (register t) t))"
proof -
  have "fd < MAX_FDS" using v by (simp add: vacant_def)
  then obtain u where "insert_at_description (word_of_nat fd) raw kind flags off d t = (Ok (), u)"
    "table_ok u" "opened u = (opened t)(fd := Some (fresh_entry t raw kind flags off d))"
    "reserved_in u = reserved_in t" "slots_insert fd (fresh_entry t raw kind flags off d) (ft_slots t) = Ok (ft_slots u)"
    by (rule insert_at_description_ok [OF assms(1)])
  with publish_ok(1) [where Q = Q, OF assms(1) v _ assms(3)] show ?thesis by simp
qed

text \<open>What follows a fresh insertion: publication, success at once, or taking it out again.\<close>

definition settles :: "nat \<Rightarrow> (fd_table \<Rightarrow> (i32, i32) outcome \<times> fd_table) \<Rightarrow> bool" where
  "settles fd f \<longleftrightarrow> (\<forall>u. (\<exists>reg. f u = publish_slot fd reg u) \<or> f u = (Ok (word_of_nat fd), u)
     \<or> (\<exists>x. f u = (Err x, u\<lparr>ft_slots := snd (slots_remove fd (ft_slots u))\<rparr>)))"

lemma settles_simps:
  "settles fd (publish_slot fd reg)" "settles fd (\<lambda>u. (Ok (word_of_nat fd), u))"
  "settles fd (\<lambda>u. case r of None \<Rightarrow> (Ok (word_of_nat fd), u)
     | Some x \<Rightarrow> (Err x, u\<lparr>ft_slots := snd (slots_remove fd (ft_slots u))\<rparr>))"
  by (auto simp: settles_def split: option.split)

lemma insert_fresh_ok:
  assumes t: "table_ok t" and v: "vacant t lo lim fd"
    and Q: "\<And>d. fh_alloc_id h = Some d \<Longrightarrow> Q (fresh_entry t raw kind flags 0 d)"
    and f: "settles fd f"
  shows "install_ok t lo lim Q (and_do (insert_at h (word_of_nat fd) raw kind flags t) (\<lambda>_. f))"
proof -
  have "fd < MAX_FDS" using v by (simp add: vacant_def)
  from insert_at_cases [OF t this, of h raw kind flags] show ?thesis
  proof (elim disjE exE conjE)
    fix e assume "insert_at h (word_of_nat fd) raw kind flags t = (Err e, t)"
    with t show ?thesis by (simp add: install_ok_error)
  next
    fix d u assume d: "fh_alloc_id h = Some d" and i: "insert_at h (word_of_nat fd) raw kind flags t = (Ok (), u)"
      and u: "table_ok u" "opened u = (opened t)(fd \<mapsto> fresh_entry t raw kind flags 0 d)"
        "reserved_in u = reserved_in t"
        "slots_insert fd (fresh_entry t raw kind flags 0 d) (ft_slots t) = Ok (ft_slots u)"
    note p = publish_ok [where Q = Q, OF t v u(4) Q [OF d] u(1-3)]
    from f p show ?thesis unfolding i and_do.simps settles_def by metis
  qed
qed

section \<open>Every installing call\<close>

datatype install_call =
    InstallWith u64 descriptor_kind u32 "i32 \<Rightarrow> fd_entry \<Rightarrow> i32 option"
  | InstallReceived u64 descriptor_kind u32 u64
  | InstallHandleless descriptor_kind u32 "i32 \<Rightarrow> i32 option"
  | InstallDuplicate u64 descriptor_kind u32 fd_entry
  | InstallAtLeast u64 descriptor_kind u32 i32
  | InstallDuplicateAtLeast u64 descriptor_kind u32 i32 fd_entry
  | InstallExact u64 descriptor_kind u32 i32
  | InstallDuplicateExact u64 descriptor_kind u32 i32 fd_entry

fun run_install :: "install_call \<Rightarrow> fd_host \<Rightarrow> fd_table \<Rightarrow> (i32, i32) outcome \<times> fd_table" where
  "run_install (InstallWith raw kind flags reg) h t = install_with_identity raw kind flags None reg h t"
| "run_install (InstallReceived raw kind flags d) h t = install_received raw kind flags d h t"
| "run_install (InstallHandleless kind flags reg) h t = install_handleless_with kind flags reg h t"
| "run_install (InstallDuplicate raw kind flags src) h t = install_duplicate raw kind flags src h t"
| "run_install (InstallAtLeast raw kind flags lo) h t = install_at_least raw kind flags lo h t"
| "run_install (InstallDuplicateAtLeast raw kind flags lo src) h t =
     install_duplicate_at_least raw kind flags lo src h t"
| "run_install (InstallExact raw kind flags fd) h t = install_exact raw kind flags fd h t"
| "run_install (InstallDuplicateExact raw kind flags fd src) h t =
     install_duplicate_exact raw kind flags fd src h t"

text \<open>Where the call looks from, and what its entry is: the description is the one received or
  duplicated, or one the host just issued.\<close>

fun call_floor :: "install_call \<Rightarrow> nat" where
  "call_floor (InstallAtLeast _ _ _ lo) = fd_usize lo"
| "call_floor (InstallDuplicateAtLeast _ _ _ lo _) = fd_usize lo"
| "call_floor (InstallExact _ _ _ fd) = fd_usize fd"
| "call_floor (InstallDuplicateExact _ _ _ fd _) = fd_usize fd"
| "call_floor _ = 0"

fun call_entry :: "install_call \<Rightarrow> fd_host \<Rightarrow> fd_table \<Rightarrow> fd_entry \<Rightarrow> bool" where
  "call_entry (InstallWith raw kind flags _) h t e \<longleftrightarrow>
     (\<exists>d. fh_alloc_id h = Some d \<and> e = fresh_entry t raw kind flags 0 d)"
| "call_entry (InstallReceived raw kind flags d) h t e \<longleftrightarrow> e = fresh_entry t raw kind flags 0 d"
| "call_entry (InstallHandleless kind flags _) h t e \<longleftrightarrow>
     (\<exists>d. fh_alloc_id h = Some d \<and> e = fresh_entry t 0 kind flags 0 d)"
| "call_entry (InstallAtLeast raw kind flags _) h t e \<longleftrightarrow>
     (\<exists>d. fh_alloc_id h = Some d \<and> e = fresh_entry t raw kind flags 0 d)"
| "call_entry (InstallExact raw kind flags _) h t e \<longleftrightarrow>
     (\<exists>d. fh_alloc_id h = Some d \<and> e = fresh_entry t raw kind flags 0 d)"
| "call_entry (InstallDuplicate raw kind flags src) h t e \<longleftrightarrow>
     e = fresh_entry t raw kind flags (fe_offset src) (fe_description_id src)"
| "call_entry (InstallDuplicateAtLeast raw kind flags _ src) h t e \<longleftrightarrow>
     e = fresh_entry t raw kind flags (fe_offset src) (fe_description_id src)"
| "call_entry (InstallDuplicateExact raw kind flags _ src) h t e \<longleftrightarrow>
     e = fresh_entry t raw kind flags (fe_offset src) (fe_description_id src)"

definition nofile_limit_of :: "fd_host \<Rightarrow> nat" where
  "nofile_limit_of h = (case current_nofile_limit h of Ok l \<Rightarrow> l | _ \<Rightarrow> 0)"

lemma install_ok_limit:
  "table_ok t \<Longrightarrow> (nofile_limit_of h \<le> MAX_FDS \<Longrightarrow> install_ok t lo lim Q (f (nofile_limit_of h))) \<Longrightarrow>
     install_ok t lo lim Q (try_or t (current_nofile_limit h) f)"
  by (intro install_ok_try nofile_limit(1)) (simp_all add: nofile_limit_of_def nofile_limit(2))

lemma install_ok_search:
  "table_ok t \<Longrightarrow> (\<And>fd. vacant t lo lim fd \<Longrightarrow> install_ok t lo lim Q (f fd)) \<Longrightarrow>
     install_ok t lo lim Q (try_or t (option_or EMFILE (first_free_between (ft_slots t) lo lim)) f)"
  by (intro install_ok_try) (simp_all add: host_answers vacant_search)

lemmas install_ok_steps = install_ok_if install_ok_limit install_ok_search
  install_ok_try [OF _ host_answers(1)] install_ok_try [OF _ host_answers(2)]
  install_ok_try [OF _ host_answers(4)]

lemma insert_duplicate_ok:
  assumes "table_ok t" and "vacant t lo lim fd"
    and "Q (fresh_entry t raw kind flags (fe_offset src) (fe_description_id src))"
  shows "install_ok t lo lim Q (insert_duplicate fd raw kind flags src h t)"
  unfolding insert_duplicate_def using assms
  by (intro install_ok_steps insert_described_ok) auto

lemma install_with_identity_ok:
  assumes "table_ok t"
    and "\<And>d. (description = None \<and> fh_alloc_id h = Some d) \<or> description = Some d \<Longrightarrow> Q (fresh_entry t raw kind flags 0 d)"
  shows "install_ok t 0 (nofile_limit_of h) Q (install_with_identity raw kind flags description reg h t)"
proof -
  have "install_ok t 0 (nofile_limit_of h) Q
      (and_do (case description of
            Some d \<Rightarrow> insert_at_description (word_of_nat fd) raw kind flags 0 d t
          | None \<Rightarrow> insert_at h (word_of_nat fd) raw kind flags t)
          (\<lambda>_ t. publish_slot fd (reg (word_of_nat fd)) t))" if "vacant t 0 (nofile_limit_of h) fd" for fd
  proof (cases description)
    case None
    with assms that show ?thesis
      by (simp only: option.case) (rule insert_fresh_ok, auto simp: settles_simps)
  next
    case (Some d)
    with assms that show ?thesis
      by (simp only: option.case) (rule insert_described_ok, auto)
  qed
  then show ?thesis
    unfolding install_with_identity_def using assms(1) by (intro install_ok_steps) auto
qed

text \<open>An exact call may answer no other number than the one it was given.\<close>

fun call_ceiling :: "install_call \<Rightarrow> fd_host \<Rightarrow> nat" where
  "call_ceiling (InstallExact _ _ _ fd) h = min (nofile_limit_of h) (fd_usize fd + 1)"
| "call_ceiling (InstallDuplicateExact _ _ _ fd _) h = min (nofile_limit_of h) (fd_usize fd + 1)"
| "call_ceiling _ h = nofile_limit_of h"

lemma install_at_least_ok:
  assumes "table_ok t" and "\<And>d. fh_alloc_id h = Some d \<Longrightarrow> Q (fresh_entry t raw kind flags 0 d)"
  shows "install_ok t (fd_usize lo) (nofile_limit_of h)
      Q (install_at_least raw kind flags lo h t)"
  unfolding install_at_least_def using assms
  by (intro install_ok_steps insert_fresh_ok settles_simps) auto

lemma install_handleless_ok:
  assumes "table_ok t" and "\<And>d. fh_alloc_id h = Some d \<Longrightarrow> Q (fresh_entry t 0 kind flags 0 d)"
  shows "install_ok t 0 (nofile_limit_of h)
      Q (install_handleless_with kind flags reg h t)"
  unfolding install_handleless_with_def using assms
  by (intro install_ok_steps insert_fresh_ok settles_simps) auto

lemma install_exact_ok:
  assumes "table_ok t" and "\<And>d. fh_alloc_id h = Some d \<Longrightarrow> Q (fresh_entry t raw kind flags 0 d)"
  shows "install_ok t (fd_usize fd) (min (nofile_limit_of h) (fd_usize fd + 1))
      Q (install_exact raw kind flags fd h t)"
proof -
  have "install_ok t (fd_usize fd) (min (nofile_limit_of h) (fd_usize fd + 1))
      Q (and_do (insert_at h fd raw kind flags t) (\<lambda>_ t. (Ok fd, t)))"
    if "\<not> (sint fd < 0 \<or> nofile_limit_of h \<le> fd_usize fd \<or> bad_handle raw kind)"
      and free: "\<not> slot_taken (ft_slots t) (fd_usize fd)"
  proof -
    have w: "word_of_nat (fd_usize fd) = fd" and "fd_usize fd < nofile_limit_of h"
      using that by (auto simp: fd_usize_word)
    then show ?thesis
      using insert_fresh_ok [where Q = Q and f = "\<lambda>t. (Ok fd, t)", OF assms(1)
          vacant_exact [where lim = "nofile_limit_of h", OF assms(1) _ free] assms(2)] settles_simps(2) [of "fd_usize fd"]
      by simp
  qed
  then show ?thesis
    unfolding install_exact_def using assms by (intro install_ok_steps) auto
qed

lemma install_duplicates_ok:
  assumes "table_ok t"
    and "Q (fresh_entry t raw kind flags (fe_offset src) (fe_description_id src))"
  shows "install_ok t 0 (nofile_limit_of h) Q (install_duplicate raw kind flags src h t)"
    and "install_ok t (fd_usize lo) (nofile_limit_of h) Q
           (install_duplicate_at_least raw kind flags lo src h t)"
    and "install_ok t (fd_usize fd) (min (nofile_limit_of h) (fd_usize fd + 1)) Q
           (install_duplicate_exact raw kind flags fd src h t)"
proof -
  show "install_ok t 0 (nofile_limit_of h) Q (install_duplicate raw kind flags src h t)"
    unfolding install_duplicate_def using assms
    by (intro install_ok_steps insert_duplicate_ok) auto
  show "install_ok t (fd_usize lo) (nofile_limit_of h) Q
      (install_duplicate_at_least raw kind flags lo src h t)"
    unfolding install_duplicate_at_least_def using assms
    by (intro install_ok_steps insert_duplicate_ok) auto
  show "install_ok t (fd_usize fd) (min (nofile_limit_of h) (fd_usize fd + 1)) Q
      (install_duplicate_exact raw kind flags fd src h t)"
    unfolding install_duplicate_exact_def using assms
    by (intro install_ok_steps insert_duplicate_ok vacant_exact) auto
qed

lemma run_install_ok:
  assumes "table_ok t"
  shows "install_ok t (call_floor c) (call_ceiling c h) (call_entry c h t) (run_install c h t)"
proof (cases c)
  case (InstallReceived raw kind flags d)
  have "install_ok t 0 (nofile_limit_of h) (call_entry c h t) (install_received raw kind flags d h t)"
    unfolding install_received_def using assms InstallReceived
    by (intro install_ok_if install_with_identity_ok) auto
  with InstallReceived show ?thesis by simp
next
  case (InstallWith raw kind flags reg)
  then show ?thesis using assms by (auto intro!: install_with_identity_ok)
qed (auto intro!: install_at_least_ok install_handleless_ok install_exact_ok install_duplicates_ok
      simp: assms simp del: One_nat_def)


definition demo_fd_host :: fd_host where
  "demo_fd_host = \<lparr>fh_helper = True, fh_nofile = Inl 0, fh_poisoned = False, fh_alloc_id = Some 7,
     fh_prepare = (\<lambda>_ _ _. None), fh_fifo_dup = (\<lambda>_ _ _. None), fh_publish = (\<lambda>_ _. None)\<rparr>"

definition demo_table :: fd_table where
  "demo_table = \<lparr>ft_slots = slots_default, ft_next_generation = 1, ft_next_description_id = 1\<rparr>"

lemma demo_table_ok: "table_ok demo_table"
  by (simp add: table_ok_def demo_table_def slots_ok_default)


section \<open>Reservations\<close>

fun run_installs :: "(install_call \<times> fd_host) list \<Rightarrow> fd_table \<Rightarrow> fd_table" where
  "run_installs [] t = t"
| "run_installs ((c, h) # rest) t = run_installs rest (snd (run_install c h t))"

lemma install_keeps_reservation:
  assumes "install_ok t lo lim Q res" and "reserved_in t fd"
  shows "table_ok (snd res)" and "reserved_in (snd res) fd" and "opened (snd res) fd = opened t fd"
  using assms by (cases res; cases "fst res"; auto simp: install_ok_def Let_def)+

lemma installs_keep_reservation:
  "table_ok t \<Longrightarrow> reserved_in t fd \<Longrightarrow>
     table_ok (run_installs calls t) \<and> reserved_in (run_installs calls t) fd
     \<and> opened (run_installs calls t) fd = opened t fd"
proof (induction calls arbitrary: t)
  case (Cons ch calls)
  obtain c h where ch: "ch = (c, h)" by fastforce
  from install_keeps_reservation [OF run_install_ok [OF Cons.prems(1)] Cons.prems(2), of c h]
    Cons.IH ch show ?case by simp
qed simp

lemma reserve_descriptor_ok:
  assumes t: "table_ok t" and r: "reserve_descriptor h t = (Ok fd, u)"
  shows "vacant t 0 (nofile_limit_of h) fd" and "table_ok u" and "opened u = opened t"
    and "reserved_in u = (reserved_in t)(fd := True)"
proof -
  obtain s where l: "first_free_between (ft_slots t) 0 (nofile_limit_of h) = Some fd"
      and s: "slots_reserve fd (ft_slots t) = Ok s" "u = t\<lparr>ft_slots := s\<rparr>"
    using r by (auto simp: reserve_descriptor_def nofile_limit_of_def host_answers split: try_or_splits)
  show v: "vacant t 0 (nofile_limit_of h) fd" using vacant_search [OF t l] .
  then have "fd < MAX_FDS" "\<not> busy (ft_slots t) fd"
    by (simp_all add: vacant_def busy_def opened_def reserved_in_def)
  with t obtain s' where "slots_reserve fd (ft_slots t) = Ok s'" "slots_ok s'" "entry_in s' = entry_in (ft_slots t)"
      "is_reserved s' = (is_reserved (ft_slots t))(fd := True)"
    using slots_reserve_refines unfolding table_ok_def by metis
  with s show "table_ok u" "opened u = opened t" "reserved_in u = (reserved_in t)(fd := True)"
    by (simp_all add: table_ok_def opened_def reserved_in_def)
qed

text \<open>The result of consuming a reservation of \<open>fd\<close> in state \<open>v\<close>.\<close>

definition consumed :: "fd_table \<Rightarrow> nat \<Rightarrow> fd_host \<Rightarrow> (i32, i32) outcome \<times> fd_table \<Rightarrow> bool" where
  "consumed v fd h res \<longleftrightarrow> table_ok (snd res)
     \<and> reserved_in (snd res) = (if fh_poisoned h then reserved_in v else (reserved_in v)(fd := False))
     \<and> (case fst res of
          Ok w \<Rightarrow> w = word_of_nat fd \<and> (\<exists>e. opened (snd res) = (opened v)(fd := Some e))
        | Err _ \<Rightarrow> opened (snd res) = opened v
        | Panic \<Rightarrow> False)"

lemma unreserved:
  "table_ok t \<Longrightarrow> u = t\<lparr>ft_slots := slots_unreserve fd (ft_slots t)\<rparr> \<Longrightarrow>
     table_ok u \<and> opened u = opened t \<and> reserved_in u = (reserved_in t)(fd := False)"
  by (simp add: table_ok_def opened_def reserved_in_def slots_unreserve_refines)

lemma dropped:
  assumes "table_ok u" and "opened u = opened v" and "reserved_in u = reserved_in v"
  shows "consumed v fd h (Err e, reservation_drop fd h u)"
  using assms unreserved [OF assms(1), of _ fd]
  by (auto simp: consumed_def reservation_drop_def write_lock_def)

lemma reservation_body_ok:
  assumes v: "table_ok v" and fd: "fd < MAX_FDS" "opened v fd = None" "reserved_in v fd"
  shows "case reservation_body fd raw kind flags reg h v of
      (Ok w, u) \<Rightarrow> consumed v fd h (Ok w, u)
    | (Err e, u) \<Rightarrow> table_ok u \<and> opened u = opened v \<and> reserved_in u = reserved_in v
    | (Panic, u) \<Rightarrow> False"
proof -
  define fin where "fin u = and_do (publish_slot fd (reg (word_of_nat fd)) u)
      (\<lambda>fd' t. (Ok fd', t\<lparr>ft_slots := slots_unreserve fd (ft_slots t)\<rparr>))" for u
  have fin: "case fin u of (Ok w, x) \<Rightarrow> \<not> fh_poisoned h \<longrightarrow> consumed v fd h (Ok w, x)
    | (Err e, x) \<Rightarrow> table_ok x \<and> opened x = opened v \<and> reserved_in x = reserved_in v
    | (Panic, x) \<Rightarrow> False"
    if ins: "slots_insert fd e (ft_slots v) = Ok (ft_slots u)"
      and u: "table_ok u" "opened u = (opened v)(fd := Some e)" "reserved_in u = reserved_in v" for e u
  proof -
    have i: "slots_index (ft_slots u) fd = Ok (Some e)"
      using fd u(2) by (simp add: slots_index_def slots_get_def entry_in_def [symmetric] opened_def)
    show ?thesis
    proof (cases "reg (word_of_nat fd) e")
      case None
      with i have "fin u = (Ok (word_of_nat fd), u\<lparr>ft_slots := slots_unreserve fd (ft_slots u)\<rparr>)"
        by (simp add: fin_def publish_slot_def option_or_def)
      with unreserved [OF u(1) refl, of fd] u show ?thesis by (auto simp: consumed_def)
    next
      case (Some x)
      with i have "fin u = (Err x, u\<lparr>ft_slots := snd (slots_remove fd (ft_slots u))\<rparr>)"
        by (simp add: fin_def publish_slot_def option_or_def)
      moreover have "slots_ok (ft_slots v)" "entry_in (ft_slots v) fd = None"
        using v fd by (simp_all add: table_ok_def opened_def)
      ultimately show ?thesis
        using fds.roll_back [OF _ fd(1) _ ins] by (simp add: table_ok_def opened_def reserved_in_def)
    qed
  qed
  have i: "slots_index (ft_slots v) fd = Ok None"
    using fd by (simp add: slots_index_def slots_get_def entry_in_def [symmetric] opened_def)
  have "reservation_body fd raw kind flags reg h v =
      (if bad_handle raw kind then (Err EINVAL, v)
       else try_or v (validate_descriptor_flags kind flags) (\<lambda>_.
        try_or v (write_lock h) (\<lambda>_.
        try_or v (host_call (fh_prepare h raw kind flags)) (\<lambda>_.
        and_do (insert_at h (word_of_nat fd) raw kind flags v) (\<lambda>_. fin)))))"
    using fd(3) i by (simp add: reservation_body_def reserved_in_def fin_def [abs_def])
  moreover have "case and_do (insert_at h (word_of_nat fd) raw kind flags v) (\<lambda>_. fin) of
      (Ok w, x) \<Rightarrow> \<not> fh_poisoned h \<longrightarrow> consumed v fd h (Ok w, x)
    | (Err e, x) \<Rightarrow> table_ok x \<and> opened x = opened v \<and> reserved_in x = reserved_in v
    | (Panic, x) \<Rightarrow> False"
    using insert_at_cases [OF v fd(1), of h raw kind flags]
  proof (elim disjE exE conjE)
    fix d u assume "insert_at h (word_of_nat fd) raw kind flags v = (Ok (), u)"
      and "table_ok u" "opened u = (opened v)(fd \<mapsto> fresh_entry v raw kind flags 0 d)"
        "reserved_in u = reserved_in v"
        "slots_insert fd (fresh_entry v raw kind flags 0 d) (ft_slots v) = Ok (ft_slots u)"
    with fin show ?thesis by simp
  qed (simp add: v)
  ultimately show ?thesis
    using v by (auto simp: host_answers write_lock_def split: try_or_splits if_splits outcome.splits)
qed

text \<open>C33: (safety) a reserved descriptor belongs to its reservation: \<open>reserve_descriptor\<close> books the
  lowest free number; after any sequence of installations by others the number is still
  reserved and still closed, so none of them was given it; and consuming the reservation then
  installs exactly there, or fails and frees the number, and in both cases leaves every other
  descriptor and reservation alone. Only a poisoned table lock keeps a number reserved.\<close>

theorem reservation_exclusive:
  assumes "table_ok t" and "reserve_descriptor h t = (Ok fd, u)"
  shows "vacant t 0 (nofile_limit_of h) fd \<and> opened u = opened t
    \<and> reserved_in (run_installs calls u) fd \<and> opened (run_installs calls u) fd = None
    \<and> consumed (run_installs calls u) fd h'
        (reservation_install_with fd raw kind flags reg h' (run_installs calls u))"
proof -
  note r = reserve_descriptor_ok [OF assms]
  define v where "v = run_installs calls u"
  have v: "table_ok v" "reserved_in v fd" "opened v fd = None" "fd < MAX_FDS"
    using installs_keep_reservation [OF r(2), of fd calls] r by (auto simp: v_def vacant_def)
  have "consumed v fd h' (reservation_install_with fd raw kind flags reg h' v)"
    using reservation_body_ok [where raw = raw and kind = kind and flags = flags and reg = reg and h = h', OF v(1,4,3,2)] dropped
    by (cases "reservation_body fd raw kind flags reg h' v"; cases "fst (reservation_body fd raw kind flags reg h' v)")
       (auto simp: reservation_install_with_def)
  with r v show ?thesis by (simp add: v_def)
qed

lemma demo_reserve: "\<exists>u. reserve_descriptor demo_fd_host demo_table = (Ok 0, u)"
proof -
  have free: "\<not> busy slots_default x" for x using slots_ok_default by (simp add: busy_def)
  have "first_free_between slots_default 0 MAX_FDS = Some 0"
    using free by (simp add: first_free_exact slots_ok_default(1) find_upt_Some MAX_FDS_def)
  moreover obtain s where "slots_reserve 0 slots_default = Ok s"
    using slots_reserve_refines [OF slots_ok_default(1) _ free, of 0] by (auto simp: MAX_FDS_def)
  ultimately show ?thesis
    by (simp add: reserve_descriptor_def current_nofile_limit_def write_lock_def option_or_def
        demo_fd_host_def demo_table_def)
qed

theorem reservation_exclusive_witness:
  "\<exists>u. reserve_descriptor demo_fd_host demo_table = (Ok 0, u)
     \<and> opened (run_installs [(InstallAtLeast 5 FdFile 0 0, demo_fd_host)] u) 0 = None
     \<and> consumed (run_installs [(InstallAtLeast 5 FdFile 0 0, demo_fd_host)] u) 0 demo_fd_host
         (reservation_install_with 0 9 FdFile 0 (\<lambda>_ _. None) demo_fd_host
            (run_installs [(InstallAtLeast 5 FdFile 0 0, demo_fd_host)] u))"
proof -
  obtain u where "reserve_descriptor demo_fd_host demo_table = (Ok 0, u)" using demo_reserve by blast
  with reservation_exclusive [OF demo_table_ok this] show ?thesis by blast
qed

end
