(* ===== verification/Rust_Text.thy ===== *)
theory Rust_Text
  imports Fixed_Codec
begin

text \<open>
  Text as the sources handle it: a \<open>&str\<close> is the list of its bytes. The splitting functions
  cut only at ASCII bytes, which never occur inside a longer character.
\<close>

section \<open>UTF-8\<close>

text \<open>\<open>core::str::from_utf8\<close> accepts the well-formed sequences of the Unicode standard.\<close>

definition utf8_tail :: "u8 \<Rightarrow> bool" where
  "utf8_tail b \<longleftrightarrow> 0x80 \<le> b \<and> b \<le> 0xBF"

fun utf8_ok :: "bytes \<Rightarrow> bool" where
  "utf8_ok [] = True"
| "utf8_ok (b # rest) =
     (if b < 0x80 then utf8_ok rest
      else if 0xC2 \<le> b \<and> b \<le> 0xDF then
        (case rest of c # r \<Rightarrow> utf8_tail c \<and> utf8_ok r | _ \<Rightarrow> False)
      else if 0xE0 \<le> b \<and> b \<le> 0xEF then
        (case rest of c # d # r \<Rightarrow>
           (if b = 0xE0 then 0xA0 \<le> c \<and> c \<le> 0xBF
            else if b = 0xED then 0x80 \<le> c \<and> c \<le> 0x9F else utf8_tail c)
           \<and> utf8_tail d \<and> utf8_ok r | _ \<Rightarrow> False)
      else if 0xF0 \<le> b \<and> b \<le> 0xF4 then
        (case rest of c # d # e # r \<Rightarrow>
           (if b = 0xF0 then 0x90 \<le> c \<and> c \<le> 0xBF
            else if b = 0xF4 then 0x80 \<le> c \<and> c \<le> 0x8F else utf8_tail c)
           \<and> utf8_tail d \<and> utf8_tail e \<and> utf8_ok r | _ \<Rightarrow> False)
      else False)"

section \<open>Splitting\<close>

text \<open>\<open>str::split\<close> with a predicate on characters.\<close>

fun split_at :: "(u8 \<Rightarrow> bool) \<Rightarrow> bytes \<Rightarrow> bytes list" where
  "split_at P [] = [[]]"
| "split_at P (b # bs) =
     (if P b then [] # split_at P bs
      else case split_at P bs of [] \<Rightarrow> [[b]] | w # ws \<Rightarrow> (b # w) # ws)"

text \<open>\<open>str::lines\<close>: a line ends at a newline, which takes a carriage return before it along; the
  rest after the last newline is a line when it is not empty.\<close>

definition strip_cr :: "bytes \<Rightarrow> bytes" where
  "strip_cr line = (if line \<noteq> [] \<and> List.last line = 13 then butlast line else line)"

definition str_lines :: "bytes \<Rightarrow> bytes list" where
  "str_lines text =
     (let parts = split_at (\<lambda>b. b = 10) text;
          tail = List.last parts
      in map strip_cr (butlast parts) @ (if tail = [] then [] else [tail]))"

definition is_digit :: "u8 \<Rightarrow> bool" where
  "is_digit b \<longleftrightarrow> 48 \<le> b \<and> b \<le> 57"

definition digits_value :: "bytes \<Rightarrow> nat" where
  "digits_value ds = foldl (\<lambda>n b. n * 10 + unat (b - 48)) 0 ds"

text \<open>\<open>str::parse::<u32>\<close>: an optional plus sign and decimal digits, within the type.\<close>

definition parse_u32 :: "bytes \<Rightarrow> u32 option" where
  "parse_u32 s =
     (let ds = (if s \<noteq> [] \<and> hd s = 43 \<and> tl s \<noteq> [] then tl s else s) in
      if ds \<noteq> [] \<and> list_all is_digit ds \<and> digits_value ds < 2 ^ 32
      then Some (word_of_nat (digits_value ds)) else None)"

section \<open>Decimal output\<close>

fun decimal :: "nat \<Rightarrow> bytes" where
  "decimal n = (if n < 10 then [word_of_nat (48 + n)] else decimal (n div 10) @ [word_of_nat (48 + n mod 10)])"

declare decimal.simps [simp del]

text \<open>The format \<open>{:w}\<close> of an integer: at least \<open>w\<close> characters, padded on the left.\<close>

definition padded :: "nat \<Rightarrow> nat \<Rightarrow> bytes" where
  "padded w n = replicate (w - length (decimal n)) 32 @ decimal n"

end
