(* ===== verification/Elf_File.thy ===== *)
theory Elf_File
  imports Rust_Text
begin

text \<open>
  The bounds-checked ELF64 parser of \<^verbatim>\<open>kinakaze-elf/src/lib.rs\<close>: the header, program and
  section headers, symbols, relocations and the section view of the dynamic table. A file is a
  list of bytes, a \<open>&str\<close> cut from it is the list of its bytes, file fields are words of their
  width and \<open>usize\<close> values are natural numbers. An unchecked addition or multiplication that
  leaves its type is a panic, so that its absence is something to prove.
\<close>

section \<open>Errors and checked arithmetic\<close>

datatype elf_error =
    Truncated | BadMagic | NotElf64 | NotLittleEndian | UnsupportedVersion | WrongMachine
  | UnsupportedObjectType | BadProgramHeaderSize | BadSectionHeaderSize | FileLargerThanMemory
  | IntegerOverflow | NoLoadSegments | InvalidAlignment | BadSectionLink | BadSymbolTable
  | BadRelocationTable | BadDynamicTable | InvalidString | InvalidUtf8 | UnmappedDynamicAddress
  | MissingStringTable | UnsupportedRelFormat | BadHashTable | BadVersionTable

definition ok_or :: "'e \<Rightarrow> 'a option \<Rightarrow> ('e, 'a) outcome" where
  "ok_or e x = (case x of None \<Rightarrow> Err e | Some y \<Rightarrow> Ok y)"

definition checked_add_usize :: "nat \<Rightarrow> nat \<Rightarrow> nat option" where
  "checked_add_usize a b = (if a + b \<le> usize_max then Some (a + b) else None)"

definition checked_mul_usize :: "nat \<Rightarrow> nat \<Rightarrow> nat option" where
  "checked_mul_usize a b = (if a * b \<le> usize_max then Some (a * b) else None)"

definition checked_add_u64 :: "u64 \<Rightarrow> u64 \<Rightarrow> u64 option" where
  "checked_add_u64 a b = (if unat a + unat b < 2 ^ 64 then Some (a + b) else None)"

definition checked_mul_u64 :: "u64 \<Rightarrow> u64 \<Rightarrow> u64 option" where
  "checked_mul_u64 a b = (if unat a * unat b < 2 ^ 64 then Some (a * b) else None)"

text \<open>The plain operators, which panic on overflow.\<close>

definition plain :: "'a option \<Rightarrow> ('e, 'a) outcome" where
  "plain x = (case x of None \<Rightarrow> Panic | Some y \<Rightarrow> Ok y)"

definition slice_get :: "'a list \<Rightarrow> nat \<Rightarrow> nat \<Rightarrow> 'a list option" where
  "slice_get xs a b = (if a \<le> b \<and> b \<le> length xs then Some (take (b - a) (drop a xs)) else None)"

section \<open>Reading fields\<close>

definition elf_byte :: "bytes \<Rightarrow> nat \<Rightarrow> (elf_error, u8) outcome" where
  "elf_byte bs off = (if off < length bs then Ok (bs ! off) else Err Truncated)"

definition u16_at :: "bytes \<Rightarrow> nat \<Rightarrow> (elf_error, u16) outcome" where
  "u16_at bs off =
     and_then (plain (checked_add_usize off 2)) (\<lambda>end.
     and_then (ok_or Truncated (slice_get bs off end)) (\<lambda>f. Ok (word_of_nat (le_nat f))))"

definition u32_at :: "bytes \<Rightarrow> nat \<Rightarrow> (elf_error, u32) outcome" where
  "u32_at bs off =
     and_then (plain (checked_add_usize off 4)) (\<lambda>end.
     and_then (ok_or Truncated (slice_get bs off end)) (\<lambda>f. Ok (word_of_nat (le_nat f))))"

definition u64_at :: "bytes \<Rightarrow> nat \<Rightarrow> (elf_error, u64) outcome" where
  "u64_at bs off =
     and_then (plain (checked_add_usize off 8)) (\<lambda>end.
     and_then (ok_or Truncated (slice_get bs off end)) (\<lambda>f. Ok (word_of_nat (le_nat f))))"

text \<open>An \<open>i64\<close> is the same 64 bits.\<close>

definition i64_at :: "bytes \<Rightarrow> nat \<Rightarrow> (elf_error, u64) outcome" where
  "i64_at bs off = u64_at bs off"

definition checked_range :: "bytes \<Rightarrow> u64 \<Rightarrow> u64 \<Rightarrow> (elf_error, bytes) outcome" where
  "checked_range bs offset sz =
     and_then (ok_or IntegerOverflow (checked_add_usize (unat offset) (unat sz))) (\<lambda>end.
     ok_or Truncated (slice_get bs (unat offset) end))"

definition checked_table :: "bytes \<Rightarrow> u64 \<Rightarrow> u16 \<Rightarrow> u16 \<Rightarrow> (elf_error, unit) outcome" where
  "checked_table bs offset entry_size count =
     and_then (ok_or IntegerOverflow (checked_mul_u64 (ucast entry_size) (ucast count))) (\<lambda>size.
     and_then (checked_range bs offset size) (\<lambda>_. Ok ()))"

definition string_at :: "bytes \<Rightarrow> nat \<Rightarrow> (elf_error, bytes) outcome" where
  "string_at bs offset =
     and_then (ok_or InvalidString (slice_get bs offset (length bs))) (\<lambda>suffix.
     let text = takeWhile (\<lambda>b. b \<noteq> 0) suffix in
     if length text = length suffix then Err InvalidString
     else if utf8_ok text then Ok text else Err InvalidUtf8)"

definition elf_align_up :: "u64 \<Rightarrow> u64 \<Rightarrow> (elf_error, u64) outcome" where
  "elf_align_up value align =
     and_then (ok_or IntegerOverflow (checked_add_u64 value (align - 1))) (\<lambda>v.
     Ok (v AND NOT (align - 1)))"

section \<open>The file header\<close>

record elf_header =
  eh_object_type :: u16
  eh_machine :: u16
  eh_entry :: u64
  eh_program_offset :: u64
  eh_program_entry_size :: u16
  eh_program_count :: u16
  eh_section_offset :: u64
  eh_section_entry_size :: u16
  eh_section_count :: u16
  eh_section_name_index :: u16

record elf_file =
  ef_bytes :: bytes
  ef_header :: elf_header

definition ET_EXEC :: u16 where "ET_EXEC = 2"
definition ET_DYN :: u16 where "ET_DYN = 3"
definition EM_X86_64 :: u16 where "EM_X86_64 = 62"

definition elf_parse :: "bytes \<Rightarrow> (elf_error, elf_file) outcome" where
  "elf_parse bs =
     (if slice_get bs 0 4 \<noteq> Some [0x7f, 0x45, 0x4c, 0x46] then Err BadMagic
      else
        and_then (elf_byte bs 4) (\<lambda>class.
        if class \<noteq> 2 then Err NotElf64 else
        and_then (elf_byte bs 5) (\<lambda>data.
        if data \<noteq> 1 then Err NotLittleEndian else
        and_then (elf_byte bs 6) (\<lambda>ver.
        and_then (if ver \<noteq> 1 then Ok True else and_then (u32_at bs 20) (\<lambda>v. Ok (v \<noteq> 1))) (\<lambda>bad.
        if bad then Err UnsupportedVersion else
        and_then (u16_at bs 16) (\<lambda>object_type.
        and_then (u16_at bs 18) (\<lambda>machine.
        and_then (u64_at bs 24) (\<lambda>ent.
        and_then (u64_at bs 32) (\<lambda>program_offset.
        and_then (u64_at bs 40) (\<lambda>section_offset.
        and_then (u16_at bs 54) (\<lambda>program_entry_size.
        and_then (u16_at bs 56) (\<lambda>program_count.
        and_then (u16_at bs 58) (\<lambda>section_entry_size.
        and_then (u16_at bs 60) (\<lambda>section_count.
        and_then (u16_at bs 62) (\<lambda>section_name_index.
        let h = \<lparr>eh_object_type = object_type, eh_machine = machine, eh_entry = ent,
                 eh_program_offset = program_offset, eh_program_entry_size = program_entry_size,
                 eh_program_count = program_count, eh_section_offset = section_offset,
                 eh_section_entry_size = section_entry_size, eh_section_count = section_count,
                 eh_section_name_index = section_name_index\<rparr> in
        if machine \<noteq> EM_X86_64 then Err WrongMachine
        else if object_type \<notin> {ET_EXEC, ET_DYN} then Err UnsupportedObjectType
        else if program_count \<noteq> 0 \<and> program_entry_size < 56 then Err BadProgramHeaderSize
        else if section_count \<noteq> 0 \<and> section_entry_size < 64 then Err BadSectionHeaderSize
        else
          and_then (checked_table bs program_offset program_entry_size program_count) (\<lambda>_.
          and_then (checked_table bs section_offset section_entry_size section_count) (\<lambda>_.
          Ok \<lparr>ef_bytes = bs, ef_header = h\<rparr>)))))))))))))))))"

definition elf_slice :: "elf_file \<Rightarrow> nat \<Rightarrow> nat \<Rightarrow> (elf_error, bytes) outcome" where
  "elf_slice f offset len =
     and_then (ok_or IntegerOverflow (checked_add_usize offset len)) (\<lambda>end.
     ok_or Truncated (slice_get (ef_bytes f) offset end))"

text \<open>A \<open>for\<close> loop that pushes one value per index and returns at the first error.\<close>

fun collect_each :: "('a \<Rightarrow> ('e, 'b) outcome) \<Rightarrow> 'a list \<Rightarrow> ('e, 'b list) outcome" where
  "collect_each f [] = Ok []"
| "collect_each f (x # xs) = and_then (f x) (\<lambda>y. and_then (collect_each f xs) (\<lambda>ys. Ok (y # ys)))"

section \<open>Program headers\<close>

record program_header =
  ph_kind :: u32
  ph_flags :: u32
  ph_offset :: u64
  ph_virtual_address :: u64
  ph_file_size :: u64
  ph_memory_size :: u64
  ph_align :: u64

definition PT_LOAD :: u32 where "PT_LOAD = 1"
definition PT_DYNAMIC :: u32 where "PT_DYNAMIC = 2"
definition PT_TLS :: u32 where "PT_TLS = 7"

definition table_entry :: "elf_file \<Rightarrow> u64 \<Rightarrow> u16 \<Rightarrow> nat \<Rightarrow> (elf_error, bytes) outcome" where
  "table_entry f base sz index =
     and_then (plain (checked_mul_u64 (word_of_nat index) (ucast sz))) (\<lambda>rel.
     and_then (ok_or IntegerOverflow (checked_add_u64 base rel)) (\<lambda>offset.
     checked_range (ef_bytes f) offset (ucast sz)))"

definition program_entry :: "elf_file \<Rightarrow> nat \<Rightarrow> (elf_error, bytes) outcome" where
  "program_entry f index =
     table_entry f (eh_program_offset (ef_header f)) (eh_program_entry_size (ef_header f)) index"

definition section_entry :: "elf_file \<Rightarrow> nat \<Rightarrow> (elf_error, bytes) outcome" where
  "section_entry f index =
     table_entry f (eh_section_offset (ef_header f)) (eh_section_entry_size (ef_header f)) index"

definition program_header_at :: "elf_file \<Rightarrow> nat \<Rightarrow> (elf_error, program_header) outcome" where
  "program_header_at f index =
     and_then (program_entry f index) (\<lambda>e.
     and_then (u32_at e 0) (\<lambda>kind.
     and_then (u32_at e 4) (\<lambda>flags.
     and_then (u64_at e 8) (\<lambda>offset.
     and_then (u64_at e 16) (\<lambda>virtual_address.
     and_then (u64_at e 32) (\<lambda>file_size.
     and_then (u64_at e 40) (\<lambda>memory_size.
     and_then (u64_at e 48) (\<lambda>align.
     if file_size > memory_size then Err FileLargerThanMemory
     else
       and_then (checked_range (ef_bytes f) offset file_size) (\<lambda>_.
       and_then (ok_or IntegerOverflow (checked_add_u64 virtual_address memory_size)) (\<lambda>_.
       Ok \<lparr>ph_kind = kind, ph_flags = flags, ph_offset = offset,
           ph_virtual_address = virtual_address, ph_file_size = file_size,
           ph_memory_size = memory_size, ph_align = align\<rparr>))))))))))"

definition program_headers :: "elf_file \<Rightarrow> (elf_error, program_header list) outcome" where
  "program_headers f =
     collect_each (program_header_at f) [0..<unat (eh_program_count (ef_header f))]"

record load_span =
  ls_start :: u64
  ls_end :: u64

definition span_len :: "load_span \<Rightarrow> (elf_error, nat) outcome" where
  "span_len s = (if ls_end s < ls_start s then Panic else Ok (unat (ls_end s - ls_start s)))"

definition is_power_of_two :: "'a::len word \<Rightarrow> bool" where
  "is_power_of_two w \<longleftrightarrow> list_ex (\<lambda>k. w = push_bit k 1) [0..<LENGTH('a)]"

fun span_loop :: "u64 \<Rightarrow> program_header list \<Rightarrow> u64 \<Rightarrow> u64 \<Rightarrow> (elf_error, u64 \<times> u64) outcome" where
  "span_loop page_size [] start stop = Ok (start, stop)"
| "span_loop page_size (h # hs) start stop =
     (if ph_kind h \<noteq> PT_LOAD \<or> ph_memory_size h = 0 then span_loop page_size hs start stop
      else
        let start = min start (ph_virtual_address h AND NOT (page_size - 1)) in
        and_then (ok_or IntegerOverflow (checked_add_u64 (ph_virtual_address h) (ph_memory_size h)))
          (\<lambda>segment_end.
        and_then (elf_align_up segment_end page_size) (\<lambda>top.
        span_loop page_size hs start (max stop top))))"

definition load_span_of :: "elf_file \<Rightarrow> u64 \<Rightarrow> (elf_error, load_span) outcome" where
  "load_span_of f page_size =
     (if \<not> is_power_of_two page_size then Err InvalidAlignment
      else
        and_then (program_headers f) (\<lambda>hs.
        and_then (span_loop page_size hs (- 1) 0) (\<lambda>(start, stop).
        if start = - 1 \<or> start \<ge> stop then Err NoLoadSegments
        else Ok \<lparr>ls_start = start, ls_end = stop\<rparr>)))"

definition tls_segment :: "elf_file \<Rightarrow> (elf_error, program_header option) outcome" where
  "tls_segment f =
     and_then (program_headers f) (\<lambda>hs. Ok (find (\<lambda>h. ph_kind h = PT_TLS) hs))"

section \<open>Section headers\<close>

record section_header =
  sh_name_offset :: u32
  sh_kind :: u32
  sh_flags :: u64
  sh_virtual_address :: u64
  sh_offset :: u64
  sh_size :: u64
  sh_link :: u32
  sh_info :: u32
  sh_address_align :: u64
  sh_entry_size :: u64

definition SHT_RELA :: u32 where "SHT_RELA = 4"
definition SHT_DYNAMIC :: u32 where "SHT_DYNAMIC = 6"
definition SHT_SYMTAB :: u32 where "SHT_SYMTAB = 2"
definition SHT_DYNSYM :: u32 where "SHT_DYNSYM = 11"

definition section_header_at :: "elf_file \<Rightarrow> nat \<Rightarrow> (elf_error, section_header) outcome" where
  "section_header_at f index =
     and_then (section_entry f index) (\<lambda>e.
     and_then (u32_at e 0) (\<lambda>name_offset.
     and_then (u32_at e 4) (\<lambda>kind.
     and_then (u64_at e 8) (\<lambda>flags.
     and_then (u64_at e 16) (\<lambda>virtual_address.
     and_then (u64_at e 24) (\<lambda>offset.
     and_then (u64_at e 32) (\<lambda>size.
     and_then (u32_at e 40) (\<lambda>link.
     and_then (u32_at e 44) (\<lambda>info.
     and_then (u64_at e 48) (\<lambda>address_align.
     and_then (u64_at e 56) (\<lambda>entry_size.
     and_then (if kind \<noteq> 8 then and_then (checked_range (ef_bytes f) offset size) (\<lambda>_. Ok ())
               else Ok ()) (\<lambda>_.
     Ok \<lparr>sh_name_offset = name_offset, sh_kind = kind, sh_flags = flags,
         sh_virtual_address = virtual_address, sh_offset = offset, sh_size = size,
         sh_link = link, sh_info = info, sh_address_align = address_align,
         sh_entry_size = entry_size\<rparr>))))))))))))"

definition section_headers :: "elf_file \<Rightarrow> (elf_error, section_header list) outcome" where
  "section_headers f =
     collect_each (section_header_at f) [0..<unat (eh_section_count (ef_header f))]"

text \<open>
  The bytes of entry \<open>index\<close> of a table with the given start and stride: the multiplication is
  a plain one.
\<close>

definition strided :: "bytes \<Rightarrow> u64 \<Rightarrow> u64 \<Rightarrow> u64 \<Rightarrow> nat \<Rightarrow> (elf_error, bytes) outcome" where
  "strided bs base stride width index =
     and_then (plain (checked_mul_u64 (word_of_nat index) stride)) (\<lambda>rel.
     and_then (ok_or IntegerOverflow (checked_add_u64 base rel)) (\<lambda>offset.
     checked_range bs offset width))"

section \<open>Symbols\<close>

record dynamic_symbol =
  ds_index :: u32
  ds_name :: bytes
  ds_info :: u8
  ds_other :: u8
  ds_section_index :: u16
  ds_value :: u64
  ds_size :: u64

definition SHN_UNDEF :: u16 where "SHN_UNDEF = 0"
definition SHN_ABS :: u16 where "SHN_ABS = 0xfff1"
definition STB_LOCAL :: u8 where "STB_LOCAL = 0"
definition STV_INTERNAL :: u8 where "STV_INTERNAL = 1"
definition STV_HIDDEN :: u8 where "STV_HIDDEN = 2"

definition ds_binding :: "dynamic_symbol \<Rightarrow> u8" where
  "ds_binding s = drop_bit 4 (ds_info s)"

definition ds_symbol_type :: "dynamic_symbol \<Rightarrow> u8" where
  "ds_symbol_type s = ds_info s AND 0xf"

definition ds_is_defined :: "dynamic_symbol \<Rightarrow> bool" where
  "ds_is_defined s \<longleftrightarrow> ds_section_index s \<noteq> SHN_UNDEF"

definition ds_visibility :: "dynamic_symbol \<Rightarrow> u8" where
  "ds_visibility s = ds_other s AND 0x3"

definition ds_is_local_only :: "dynamic_symbol \<Rightarrow> bool" where
  "ds_is_local_only s \<longleftrightarrow>
     ds_visibility s = STV_HIDDEN \<or> ds_visibility s = STV_INTERNAL \<or> ds_binding s = STB_LOCAL"

definition ds_is_absolute :: "dynamic_symbol \<Rightarrow> bool" where
  "ds_is_absolute s \<longleftrightarrow> ds_section_index s = SHN_ABS"

definition symbol_at :: "elf_file \<Rightarrow> section_header \<Rightarrow> bytes \<Rightarrow> nat \<Rightarrow> (elf_error, dynamic_symbol) outcome" where
  "symbol_at f symbols strings index =
     and_then (strided (ef_bytes f) (sh_offset symbols) (sh_entry_size symbols) 24 index) (\<lambda>e.
     and_then (u32_at e 0) (\<lambda>name_offset.
     and_then (string_at strings (unat name_offset)) (\<lambda>name.
     and_then (elf_byte e 4) (\<lambda>info.
     and_then (elf_byte e 5) (\<lambda>other.
     and_then (u16_at e 6) (\<lambda>section_index.
     and_then (u64_at e 8) (\<lambda>value.
     and_then (u64_at e 16) (\<lambda>size.
     Ok \<lparr>ds_index = word_of_nat index, ds_name = name, ds_info = info, ds_other = other,
         ds_section_index = section_index, ds_value = value, ds_size = size\<rparr>))))))))"

definition linked_section ::
    "elf_file \<Rightarrow> section_header list \<Rightarrow> u32 \<Rightarrow> (elf_error, bytes) outcome" where
  "linked_section f sections link =
     and_then (if unat link < length sections then Ok (sections ! unat link) else Err BadSectionLink)
       (\<lambda>s. checked_range (ef_bytes f) (sh_offset s) (sh_size s))"

definition symbols_from_section ::
    "elf_file \<Rightarrow> section_header list \<Rightarrow> section_header \<Rightarrow> (elf_error, dynamic_symbol list) outcome" where
  "symbols_from_section f sections symbols =
     (if sh_entry_size symbols < 24 \<or> sh_size symbols mod sh_entry_size symbols \<noteq> 0
      then Err BadSymbolTable
      else
        and_then (linked_section f sections (sh_link symbols)) (\<lambda>strings.
        collect_each (symbol_at f symbols strings)
          [0..<unat (sh_size symbols div sh_entry_size symbols)]))"

definition dynamic_symbols :: "elf_file \<Rightarrow> (elf_error, dynamic_symbol list) outcome" where
  "dynamic_symbols f =
     and_then (section_headers f) (\<lambda>sections.
     case find (\<lambda>s. sh_kind s = SHT_DYNSYM) sections of
       None \<Rightarrow> Ok []
     | Some symbols \<Rightarrow> symbols_from_section f sections symbols)"

definition elf_symbols :: "elf_file \<Rightarrow> (elf_error, dynamic_symbol list) outcome" where
  "elf_symbols f =
     and_then (section_headers f) (\<lambda>sections.
     and_then (collect_each (symbols_from_section f sections)
                 (filter (\<lambda>s. sh_kind s = SHT_SYMTAB \<or> sh_kind s = SHT_DYNSYM) sections))
       (\<lambda>tables. Ok (concat tables)))"

section \<open>Relocations\<close>

record rela =
  ra_offset :: u64
  ra_symbol_index :: u32
  ra_kind :: u32
  ra_addend :: u64

definition rela_at :: "elf_file \<Rightarrow> section_header \<Rightarrow> nat \<Rightarrow> (elf_error, rela) outcome" where
  "rela_at f s index =
     and_then (strided (ef_bytes f) (sh_offset s) (sh_entry_size s) 24 index) (\<lambda>e.
     and_then (u64_at e 8) (\<lambda>info.
     and_then (u64_at e 0) (\<lambda>offset.
     and_then (i64_at e 16) (\<lambda>addend.
     Ok \<lparr>ra_offset = offset, ra_symbol_index = ucast (drop_bit 32 info), ra_kind = ucast info,
         ra_addend = addend\<rparr>))))"

definition section_relocations :: "elf_file \<Rightarrow> section_header \<Rightarrow> (elf_error, rela list) outcome" where
  "section_relocations f s =
     (if sh_kind s \<noteq> SHT_RELA then Ok []
      else if sh_entry_size s < 24 \<or> sh_size s mod sh_entry_size s \<noteq> 0 then Err BadRelocationTable
      else collect_each (rela_at f s) [0..<unat (sh_size s div sh_entry_size s)])"

definition relocations :: "elf_file \<Rightarrow> (elf_error, rela list) outcome" where
  "relocations f =
     and_then (section_headers f) (\<lambda>sections.
     and_then (collect_each (section_relocations f) sections) (\<lambda>tables. Ok (concat tables)))"

section \<open>The dynamic section\<close>

definition DT_NULL :: u64 where "DT_NULL = 0"
definition DT_NEEDED :: u64 where "DT_NEEDED = 1"
definition DT_SONAME :: u64 where "DT_SONAME = 14"

fun dynamic_strings_loop ::
    "elf_file \<Rightarrow> section_header \<Rightarrow> bytes \<Rightarrow> u64 \<Rightarrow> nat list \<Rightarrow> (elf_error, bytes list) outcome" where
  "dynamic_strings_loop f dynamic strings requested [] = Ok []"
| "dynamic_strings_loop f dynamic strings requested (index # rest) =
     and_then (strided (ef_bytes f) (sh_offset dynamic) (sh_entry_size dynamic) 16 index) (\<lambda>e.
     and_then (i64_at e 0) (\<lambda>tag.
     if tag = DT_NULL then Ok []
     else if tag = requested then
       and_then (u64_at e 8) (\<lambda>v.
       and_then (string_at strings (unat v)) (\<lambda>text.
       and_then (dynamic_strings_loop f dynamic strings requested rest) (\<lambda>texts. Ok (text # texts))))
     else dynamic_strings_loop f dynamic strings requested rest))"

definition dynamic_strings :: "elf_file \<Rightarrow> u64 \<Rightarrow> (elf_error, bytes list) outcome" where
  "dynamic_strings f requested =
     and_then (section_headers f) (\<lambda>sections.
     case find (\<lambda>s. sh_kind s = SHT_DYNAMIC) sections of
       None \<Rightarrow> Ok []
     | Some dynamic \<Rightarrow>
         if sh_entry_size dynamic < 16 \<or> sh_size dynamic mod sh_entry_size dynamic \<noteq> 0
         then Err BadDynamicTable
         else
           and_then (linked_section f sections (sh_link dynamic)) (\<lambda>strings.
           dynamic_strings_loop f dynamic strings requested
             [0..<unat (sh_size dynamic div sh_entry_size dynamic)]))"

definition needed_libraries :: "elf_file \<Rightarrow> (elf_error, bytes list) outcome" where
  "needed_libraries f = dynamic_strings f DT_NEEDED"

definition elf_soname :: "elf_file \<Rightarrow> (elf_error, bytes option) outcome" where
  "elf_soname f = and_then (dynamic_strings f DT_SONAME) (\<lambda>names.
     Ok (case names of [] \<Rightarrow> None | n # _ \<Rightarrow> Some n))"

end
