(* ===== verification/Elf_Dynamic.thy ===== *)
theory Elf_Dynamic
  imports Elf_File
begin

text \<open>
  The \<open>PT_DYNAMIC\<close> view of \<^verbatim>\<open>kinakaze-elf/src/dynamic.rs\<close>: the translation of virtual
  addresses to file offsets, the two passes over the dynamic table, and the strings it names.
\<close>

section \<open>Tags\<close>

definition DT_PLTRELSZ :: u64 where "DT_PLTRELSZ = 2"
definition DT_HASH :: u64 where "DT_HASH = 4"
definition DT_STRTAB :: u64 where "DT_STRTAB = 5"
definition DT_SYMTAB :: u64 where "DT_SYMTAB = 6"
definition DT_RELA :: u64 where "DT_RELA = 7"
definition DT_RELASZ :: u64 where "DT_RELASZ = 8"
definition DT_RELAENT :: u64 where "DT_RELAENT = 9"
definition DT_STRSZ :: u64 where "DT_STRSZ = 10"
definition DT_SYMENT :: u64 where "DT_SYMENT = 11"
definition DT_INIT :: u64 where "DT_INIT = 12"
definition DT_FINI :: u64 where "DT_FINI = 13"
definition DT_RPATH :: u64 where "DT_RPATH = 15"
definition DT_SYMBOLIC :: u64 where "DT_SYMBOLIC = 16"
definition DT_REL :: u64 where "DT_REL = 17"
definition DT_RELSZ :: u64 where "DT_RELSZ = 18"
definition DT_RELENT :: u64 where "DT_RELENT = 19"
definition DT_PLTREL :: u64 where "DT_PLTREL = 20"
definition DT_TEXTREL :: u64 where "DT_TEXTREL = 22"
definition DT_JMPREL :: u64 where "DT_JMPREL = 23"
definition DT_BIND_NOW :: u64 where "DT_BIND_NOW = 24"
definition DT_INIT_ARRAY :: u64 where "DT_INIT_ARRAY = 25"
definition DT_FINI_ARRAY :: u64 where "DT_FINI_ARRAY = 26"
definition DT_INIT_ARRAYSZ :: u64 where "DT_INIT_ARRAYSZ = 27"
definition DT_FINI_ARRAYSZ :: u64 where "DT_FINI_ARRAYSZ = 28"
definition DT_RUNPATH :: u64 where "DT_RUNPATH = 29"
definition DT_FLAGS :: u64 where "DT_FLAGS = 30"
definition DT_PREINIT_ARRAY :: u64 where "DT_PREINIT_ARRAY = 32"
definition DT_PREINIT_ARRAYSZ :: u64 where "DT_PREINIT_ARRAYSZ = 33"
definition DT_RELR :: u64 where "DT_RELR = 36"
definition DT_RELRSZ :: u64 where "DT_RELRSZ = 35"
definition DT_RELRENT :: u64 where "DT_RELRENT = 37"
definition DT_GNU_HASH :: u64 where "DT_GNU_HASH = 0x6ffffef5"
definition DT_VERSYM :: u64 where "DT_VERSYM = 0x6ffffff0"
definition DT_FLAGS_1 :: u64 where "DT_FLAGS_1 = 0x6ffffffb"
definition DT_VERDEF :: u64 where "DT_VERDEF = 0x6ffffffc"
definition DT_VERDEFNUM :: u64 where "DT_VERDEFNUM = 0x6ffffffd"
definition DT_VERNEED :: u64 where "DT_VERNEED = 0x6ffffffe"
definition DT_VERNEEDNUM :: u64 where "DT_VERNEEDNUM = 0x6fffffff"
definition DF_SYMBOLIC :: u64 where "DF_SYMBOLIC = 0x02"
definition DF_TEXTREL :: u64 where "DF_TEXTREL = 0x04"
definition DF_BIND_NOW :: u64 where "DF_BIND_NOW = 0x08"
definition DF_STATIC_TLS :: u64 where "DF_STATIC_TLS = 0x10"
definition DF_1_NOW :: u64 where "DF_1_NOW = 0x1"
definition DF_1_NODELETE :: u64 where "DF_1_NODELETE = 0x8"

section \<open>Tables\<close>

record dynamic_entry =
  de_tag :: u64
  de_value :: u64

record table_location =
  tl_address :: u64
  tl_file_offset :: nat
  tl_size :: "u64 option"
  tl_entry_size :: "u64 option"

definition table_count :: "table_location \<Rightarrow> u64 option" where
  "table_count t =
     (case (tl_size t, tl_entry_size t) of
        (Some sz, Some ent) \<Rightarrow> if ent \<noteq> 0 then Some (sz div ent) else None
      | _ \<Rightarrow> None)"

record dynamic_info =
  di_entries :: "dynamic_entry list"
  di_strings :: "table_location option"
  di_symbols :: "table_location option"
  di_sysv_hash :: "table_location option"
  di_gnu_hash :: "table_location option"
  di_rela :: "table_location option"
  di_jmprel :: "table_location option"
  di_plt_uses_rela :: bool
  di_relr :: "table_location option"
  di_version_symbols :: "table_location option"
  di_version_definitions :: "table_location option"
  di_version_needs :: "table_location option"
  di_version_definition_count :: u64
  di_version_need_count :: u64
  di_init :: "u64 option"
  di_fini :: "u64 option"
  di_init_array :: "table_location option"
  di_fini_array :: "table_location option"
  di_preinit_array :: "table_location option"
  di_flags :: u64
  di_flags_1 :: u64
  di_needed_offsets :: "u64 list"
  di_soname_offset :: "u64 option"
  di_rpath_offset :: "u64 option"
  di_runpath_offset :: "u64 option"
  di_text_relocations :: bool
  di_bind_now :: bool

record table_sizes =
  ts_string_size :: "u64 option"
  ts_symbol_entry :: "u64 option"
  ts_rela_size :: "u64 option"
  ts_rela_entry :: "u64 option"
  ts_rel_size :: "u64 option"
  ts_rel_entry :: "u64 option"
  ts_plt_size :: "u64 option"
  ts_relr_size :: "u64 option"
  ts_relr_entry :: "u64 option"
  ts_init_array_size :: "u64 option"
  ts_fini_array_size :: "u64 option"
  ts_preinit_array_size :: "u64 option"

definition info_default :: dynamic_info where
  "info_default =
     \<lparr>di_entries = [], di_strings = None, di_symbols = None, di_sysv_hash = None,
      di_gnu_hash = None, di_rela = None, di_jmprel = None, di_plt_uses_rela = False,
      di_relr = None, di_version_symbols = None, di_version_definitions = None,
      di_version_needs = None, di_version_definition_count = 0, di_version_need_count = 0,
      di_init = None, di_fini = None, di_init_array = None, di_fini_array = None,
      di_preinit_array = None, di_flags = 0, di_flags_1 = 0, di_needed_offsets = [],
      di_soname_offset = None, di_rpath_offset = None, di_runpath_offset = None,
      di_text_relocations = False, di_bind_now = False\<rparr>"

definition sizes_default :: table_sizes where
  "sizes_default =
     \<lparr>ts_string_size = None, ts_symbol_entry = None, ts_rela_size = None, ts_rela_entry = None,
      ts_rel_size = None, ts_rel_entry = None, ts_plt_size = None, ts_relr_size = None,
      ts_relr_entry = None, ts_init_array_size = None, ts_fini_array_size = None,
      ts_preinit_array_size = None\<rparr>"

definition is_symbolic :: "dynamic_info \<Rightarrow> bool" where
  "is_symbolic info \<longleftrightarrow>
     di_flags info AND DF_SYMBOLIC \<noteq> 0 \<or> list_ex (\<lambda>e. de_tag e = DT_SYMBOLIC) (di_entries info)"

definition is_nodelete :: "dynamic_info \<Rightarrow> bool" where
  "is_nodelete info \<longleftrightarrow> di_flags_1 info AND DF_1_NODELETE \<noteq> 0"

definition needs_static_tls :: "dynamic_info \<Rightarrow> bool" where
  "needs_static_tls info \<longleftrightarrow> di_flags info AND DF_STATIC_TLS \<noteq> 0"

section \<open>Addresses\<close>

definition translator_new :: "program_header list \<Rightarrow> program_header list" where
  "translator_new hs = filter (\<lambda>h. ph_kind h = PT_LOAD \<and> ph_memory_size h \<noteq> 0) hs"

fun to_file_offset :: "program_header list \<Rightarrow> u64 \<Rightarrow> (elf_error, nat) outcome" where
  "to_file_offset [] address = Err UnmappedDynamicAddress"
| "to_file_offset (s # rest) address =
     and_then (ok_or IntegerOverflow (checked_add_u64 (ph_virtual_address s) (ph_file_size s))) (\<lambda>file_end.
     if address \<ge> ph_virtual_address s \<and> address < file_end then
       and_then (ok_or IntegerOverflow
           (checked_add_u64 (ph_offset s) (address - ph_virtual_address s))) (\<lambda>offset. Ok (unat offset))
     else to_file_offset rest address)"

definition saturating_add_word :: "u64 \<Rightarrow> u64 \<Rightarrow> u64" where
  "saturating_add_word a b = (case checked_add_u64 a b of None \<Rightarrow> - 1 | Some c \<Rightarrow> c)"

definition is_loadable :: "program_header list \<Rightarrow> u64 \<Rightarrow> bool" where
  "is_loadable segments address \<longleftrightarrow>
     list_ex (\<lambda>s. address \<ge> ph_virtual_address s
       \<and> address < saturating_add_word (ph_virtual_address s) (ph_memory_size s)) segments"

section \<open>The two passes\<close>

definition dynamic_segment :: "elf_file \<Rightarrow> (elf_error, program_header option) outcome" where
  "dynamic_segment f =
     and_then (program_headers f) (\<lambda>hs. Ok (find (\<lambda>h. ph_kind h = PT_DYNAMIC) hs))"

fun read_entries :: "bytes list \<Rightarrow> (elf_error, dynamic_entry list) outcome" where
  "read_entries [] = Ok []"
| "read_entries (chunk # rest) =
     and_then (i64_at chunk 0) (\<lambda>tag.
     and_then (u64_at chunk 8) (\<lambda>value.
     if tag = DT_NULL then Ok []
     else and_then (read_entries rest) (\<lambda>es. Ok (\<lparr>de_tag = tag, de_value = value\<rparr> # es))))"

definition first_pass ::
    "dynamic_entry \<Rightarrow> dynamic_info \<times> table_sizes \<Rightarrow> dynamic_info \<times> table_sizes" where
  "first_pass entry acc =
     (let (info, sizes) = acc; tag = de_tag entry; value = de_value entry in
      if tag = DT_STRSZ then (info, sizes\<lparr>ts_string_size := Some value\<rparr>)
      else if tag = DT_SYMENT then (info, sizes\<lparr>ts_symbol_entry := Some value\<rparr>)
      else if tag = DT_RELASZ then (info, sizes\<lparr>ts_rela_size := Some value\<rparr>)
      else if tag = DT_RELAENT then (info, sizes\<lparr>ts_rela_entry := Some value\<rparr>)
      else if tag = DT_RELSZ then (info, sizes\<lparr>ts_rel_size := Some value\<rparr>)
      else if tag = DT_RELENT then (info, sizes\<lparr>ts_rel_entry := Some value\<rparr>)
      else if tag = DT_PLTRELSZ then (info, sizes\<lparr>ts_plt_size := Some value\<rparr>)
      else if tag = DT_RELRSZ then (info, sizes\<lparr>ts_relr_size := Some value\<rparr>)
      else if tag = DT_RELRENT then (info, sizes\<lparr>ts_relr_entry := Some value\<rparr>)
      else if tag = DT_INIT_ARRAYSZ then (info, sizes\<lparr>ts_init_array_size := Some value\<rparr>)
      else if tag = DT_FINI_ARRAYSZ then (info, sizes\<lparr>ts_fini_array_size := Some value\<rparr>)
      else if tag = DT_PREINIT_ARRAYSZ then (info, sizes\<lparr>ts_preinit_array_size := Some value\<rparr>)
      else if tag = DT_PLTREL then (info\<lparr>di_plt_uses_rela := (value = DT_RELA)\<rparr>, sizes)
      else if tag = DT_FLAGS then (info\<lparr>di_flags := value\<rparr>, sizes)
      else if tag = DT_FLAGS_1 then (info\<lparr>di_flags_1 := value\<rparr>, sizes)
      else if tag = DT_VERDEFNUM then (info\<lparr>di_version_definition_count := value\<rparr>, sizes)
      else if tag = DT_VERNEEDNUM then (info\<lparr>di_version_need_count := value\<rparr>, sizes)
      else if tag = DT_NEEDED
        then (info\<lparr>di_needed_offsets := di_needed_offsets info @ [value]\<rparr>, sizes)
      else if tag = DT_SONAME then (info\<lparr>di_soname_offset := Some value\<rparr>, sizes)
      else if tag = DT_RPATH then (info\<lparr>di_rpath_offset := Some value\<rparr>, sizes)
      else if tag = DT_RUNPATH then (info\<lparr>di_runpath_offset := Some value\<rparr>, sizes)
      else if tag = DT_TEXTREL then (info\<lparr>di_text_relocations := True\<rparr>, sizes)
      else if tag = DT_BIND_NOW then (info\<lparr>di_bind_now := True\<rparr>, sizes)
      else if tag = DT_INIT then (info\<lparr>di_init := Some value\<rparr>, sizes)
      else if tag = DT_FINI then (info\<lparr>di_fini := Some value\<rparr>, sizes)
      else (info, sizes))"

definition derived_flags :: "dynamic_info \<Rightarrow> dynamic_info" where
  "derived_flags info =
     info\<lparr>di_text_relocations := (di_text_relocations info \<or> di_flags info AND DF_TEXTREL \<noteq> 0),
          di_bind_now := (di_bind_now info \<or> di_flags info AND DF_BIND_NOW \<noteq> 0
                          \<or> di_flags_1 info AND DF_1_NOW \<noteq> 0)\<rparr>"

definition unwrap_or :: "'a \<Rightarrow> 'a option \<Rightarrow> 'a" where
  "unwrap_or d x = (case x of None \<Rightarrow> d | Some y \<Rightarrow> y)"

definition locate ::
    "program_header list \<Rightarrow> u64 \<Rightarrow> u64 option \<Rightarrow> u64 option \<Rightarrow> (elf_error, table_location) outcome" where
  "locate segments address sz entry_size =
     and_then (to_file_offset segments address) (\<lambda>offset.
     Ok \<lparr>tl_address = address, tl_file_offset = offset, tl_size = sz, tl_entry_size = entry_size\<rparr>)"

definition second_pass ::
    "program_header list \<Rightarrow> table_sizes \<Rightarrow> dynamic_entry \<Rightarrow> dynamic_info \<Rightarrow> (elf_error, dynamic_info) outcome" where
  "second_pass segments sizes entry info =
     (let tag = de_tag entry;
          at = (\<lambda>sz ent set.
                  and_then (locate segments (de_value entry) sz ent) (\<lambda>t. Ok (set (\<lambda>_. Some t) info))) in
      if tag = DT_STRTAB then at (ts_string_size sizes) (Some 1) di_strings_update
      else if tag = DT_SYMTAB
        then at None (Some (unwrap_or 24 (ts_symbol_entry sizes))) di_symbols_update
      else if tag = DT_HASH then at None (Some 4) di_sysv_hash_update
      else if tag = DT_GNU_HASH then at None None di_gnu_hash_update
      else if tag = DT_RELA
        then at (ts_rela_size sizes) (Some (unwrap_or 24 (ts_rela_entry sizes))) di_rela_update
      else if tag = DT_REL then Err UnsupportedRelFormat
      else if tag = DT_JMPREL then
        at (ts_plt_size sizes)
           (Some (if di_plt_uses_rela info then unwrap_or 24 (ts_rela_entry sizes)
                  else unwrap_or 16 (ts_rel_entry sizes))) di_jmprel_update
      else if tag = DT_RELR
        then at (ts_relr_size sizes) (Some (unwrap_or 8 (ts_relr_entry sizes))) di_relr_update
      else if tag = DT_VERSYM then at None (Some 2) di_version_symbols_update
      else if tag = DT_VERDEF then at None None di_version_definitions_update
      else if tag = DT_VERNEED then at None None di_version_needs_update
      else if tag = DT_INIT_ARRAY then at (ts_init_array_size sizes) (Some 8) di_init_array_update
      else if tag = DT_FINI_ARRAY then at (ts_fini_array_size sizes) (Some 8) di_fini_array_update
      else if tag = DT_PREINIT_ARRAY
        then at (ts_preinit_array_size sizes) (Some 8) di_preinit_array_update
      else Ok info)"

fun second_passes ::
    "program_header list \<Rightarrow> table_sizes \<Rightarrow> dynamic_entry list \<Rightarrow> dynamic_info \<Rightarrow> (elf_error, dynamic_info) outcome" where
  "second_passes segments sizes [] info = Ok info"
| "second_passes segments sizes (e # es) info =
     and_then (second_pass segments sizes e info) (second_passes segments sizes es)"

definition dynamic_info_of :: "elf_file \<Rightarrow> (elf_error, dynamic_info option) outcome" where
  "dynamic_info_of f =
     and_then (program_headers f) (\<lambda>headers.
     case find (\<lambda>h. ph_kind h = PT_DYNAMIC) headers of
       None \<Rightarrow> Ok None
     | Some segment \<Rightarrow>
         let start = unat (ph_offset segment) in
         and_then (ok_or IntegerOverflow (checked_add_usize start (unat (ph_file_size segment)))) (\<lambda>end.
         and_then (ok_or Truncated (slice_get (ef_bytes f) start end)) (\<lambda>table.
         and_then (read_entries (chunks_exact 16 table)) (\<lambda>entries.
         let (info, sizes) = fold first_pass entries
               (info_default\<lparr>di_entries := entries, di_plt_uses_rela := True\<rparr>, sizes_default);
             info = derived_flags info in
         and_then (second_passes (translator_new headers) sizes entries info) (\<lambda>info.
         if di_symbols info \<noteq> None \<and> di_strings info = None then Err MissingStringTable
         else Ok (Some info))))))"

section \<open>Strings\<close>

definition dynamic_string :: "elf_file \<Rightarrow> dynamic_info \<Rightarrow> u64 \<Rightarrow> (elf_error, bytes) outcome" where
  "dynamic_string f info offset =
     and_then (ok_or MissingStringTable (di_strings info)) (\<lambda>strings.
     let base = tl_file_offset strings;
         limit = (case tl_size strings of
                    Some sz \<Rightarrow> unat sz | None \<Rightarrow> length (ef_bytes f) - base) in
     and_then (ok_or IntegerOverflow (checked_add_usize base limit)) (\<lambda>end.
     and_then (ok_or Truncated (slice_get (ef_bytes f) base end)) (\<lambda>table.
     string_at table (unat offset))))"

definition dynamic_needed :: "elf_file \<Rightarrow> dynamic_info \<Rightarrow> (elf_error, bytes list) outcome" where
  "dynamic_needed f info = collect_each (dynamic_string f info) (di_needed_offsets info)"

definition optional_string :: "elf_file \<Rightarrow> dynamic_info \<Rightarrow> u64 option \<Rightarrow> (elf_error, bytes option) outcome" where
  "optional_string f info offset =
     (case offset of
        Some offset \<Rightarrow> and_then (dynamic_string f info offset) (\<lambda>s. Ok (Some s))
      | None \<Rightarrow> Ok None)"

definition dynamic_soname :: "elf_file \<Rightarrow> dynamic_info \<Rightarrow> (elf_error, bytes option) outcome" where
  "dynamic_soname f info = optional_string f info (di_soname_offset info)"

definition dynamic_search_path :: "elf_file \<Rightarrow> dynamic_info \<Rightarrow> (elf_error, bytes option) outcome" where
  "dynamic_search_path f info =
     optional_string f info
       (case di_runpath_offset info of Some r \<Rightarrow> Some r | None \<Rightarrow> di_rpath_offset info)"

end
