(* ===== verification/Elf_Hash.thy ===== *)
theory Elf_Hash
  imports Elf_Dynamic
begin

text \<open>
  The symbol hash tables of \<^verbatim>\<open>kinakaze-elf/src/hash.rs\<close>: \<open>DT_GNU_HASH\<close> and \<open>DT_HASH\<close>. A walk
  over the candidates gives each symbol index to a closure that keeps a state of its own and
  may stop the walk or fail; its error type is any type the parser's errors convert to.
\<close>

section \<open>Hash functions\<close>

definition CHAIN_END :: u32 where "CHAIN_END = 0"

definition region_end :: "nat \<Rightarrow> u32 \<Rightarrow> nat \<Rightarrow> (elf_error, nat) outcome" where
  "region_end base count width =
     ok_or IntegerOverflow
       (case checked_mul_usize (unat count) width of
          None \<Rightarrow> None | Some span \<Rightarrow> checked_add_usize base span)"

definition gnu_hash_name :: "bytes \<Rightarrow> u32" where
  "gnu_hash_name name = foldl (\<lambda>hash b. hash * 33 + ucast b) 5381 name"

definition sysv_hash_step :: "u32 \<Rightarrow> u8 \<Rightarrow> u32" where
  "sysv_hash_step hash b =
     (let hash = push_bit 4 hash + ucast b;
          high = hash AND 0xf0000000;
          hash = (if high \<noteq> 0 then hash XOR drop_bit 24 high else hash)
      in hash AND NOT high)"

definition sysv_hash_name :: "bytes \<Rightarrow> u32" where
  "sysv_hash_name name = foldl sysv_hash_step 0 name"

definition map_err :: "('e \<Rightarrow> 'f) \<Rightarrow> ('e, 'a) outcome \<Rightarrow> ('f, 'a) outcome" where
  "map_err g r = (case r of Ok x \<Rightarrow> Ok x | Err e \<Rightarrow> Err (g e) | Panic \<Rightarrow> Panic)"

section \<open>GNU hash\<close>

record gnu_hash =
  gh_bytes :: bytes
  gh_bucket_count :: u32
  gh_symbol_base :: u32
  gh_bloom_word_count :: u32
  gh_bloom_shift :: u32
  gh_bloom_offset :: nat
  gh_bucket_offset :: nat
  gh_chain_offset :: nat

definition gnu_decode :: "bytes \<Rightarrow> nat \<Rightarrow> (elf_error, gnu_hash) outcome" where
  "gnu_decode bs start =
     and_then (ok_or Truncated
       (case slice_get bs start (length bs) of
          Some header \<Rightarrow> if length header \<ge> 16 then Some header else None | None \<Rightarrow> None)) (\<lambda>header.
     and_then (u32_at header 0) (\<lambda>bucket_count.
     and_then (u32_at header 4) (\<lambda>symbol_base.
     and_then (u32_at header 8) (\<lambda>bloom_word_count.
     and_then (u32_at header 12) (\<lambda>bloom_shift.
     if bucket_count = 0 \<or> \<not> is_power_of_two bloom_word_count then Err BadHashTable
     else if bloom_shift \<ge> 64 then Err BadHashTable
     else
       and_then (ok_or IntegerOverflow (checked_add_usize start 16)) (\<lambda>bloom_offset.
       and_then (region_end bloom_offset bloom_word_count 8) (\<lambda>bucket_offset.
       and_then (region_end bucket_offset bucket_count 4) (\<lambda>chain_offset.
       if chain_offset > length bs then Err Truncated
       else Ok \<lparr>gh_bytes = bs, gh_bucket_count = bucket_count, gh_symbol_base = symbol_base,
                gh_bloom_word_count = bloom_word_count, gh_bloom_shift = bloom_shift,
                gh_bloom_offset = bloom_offset, gh_bucket_offset = bucket_offset,
                gh_chain_offset = chain_offset\<rparr>))))))))"

definition gnu_parse :: "elf_file \<Rightarrow> table_location \<Rightarrow> (elf_error, gnu_hash) outcome" where
  "gnu_parse f location = gnu_decode (ef_bytes f) (tl_file_offset location)"

text \<open>A remainder by zero and a shift by the width or more would panic.\<close>

definition may_contain :: "gnu_hash \<Rightarrow> u32 \<Rightarrow> (elf_error, bool) outcome" where
  "may_contain t hash =
     (if gh_bloom_word_count t = 0 then Panic
      else
        let index = (hash div 64) mod gh_bloom_word_count t in
        case region_end (gh_bloom_offset t) index 8 of
          Err _ \<Rightarrow> Ok True
        | Panic \<Rightarrow> Panic
        | Ok offset \<Rightarrow>
            (case u64_at (gh_bytes t) offset of
               Err _ \<Rightarrow> Ok True
             | Panic \<Rightarrow> Panic
             | Ok bloom \<Rightarrow>
                 if gh_bloom_shift t \<ge> 64 then Panic
                 else
                   let mask = push_bit (unat (hash mod 64)) 1
                            OR push_bit (unat (drop_bit (unat (gh_bloom_shift t)) (ucast hash :: u64) mod 64)) 1
                   in Ok (bloom AND mask = mask)))"

definition bucket_start :: "gnu_hash \<Rightarrow> u32 \<Rightarrow> (elf_error, u32 option) outcome" where
  "bucket_start t bucket =
     and_then (region_end (gh_bucket_offset t) bucket 4) (\<lambda>offset.
     and_then (u32_at (gh_bytes t) offset) (\<lambda>index.
     if index = CHAIN_END then Ok None
     else if index < gh_symbol_base t then Err BadHashTable
     else Ok (Some index)))"

definition chain_entry :: "gnu_hash \<Rightarrow> u32 \<Rightarrow> (elf_error, u32) outcome" where
  "chain_entry t index =
     (if index < gh_symbol_base t then Err BadHashTable
      else
        and_then (region_end (gh_chain_offset t) (index - gh_symbol_base t) 4) (\<lambda>offset.
        map_err (\<lambda>_. BadHashTable) (u32_at (gh_bytes t) offset)))"

function gnu_walk ::
    "gnu_hash \<Rightarrow> (elf_error \<Rightarrow> 'e) \<Rightarrow> (u32 \<Rightarrow> 's \<Rightarrow> ('e, bool) outcome \<times> 's) \<Rightarrow> u32 \<Rightarrow> u32 \<Rightarrow> 's
      \<Rightarrow> ('e, unit) outcome \<times> 's" where
  "gnu_walk t from f hash index s =
     (case chain_entry t index of
        Err e \<Rightarrow> (Err (from e), s)
      | Panic \<Rightarrow> (Panic, s)
      | Ok entry \<Rightarrow>
          (case (if entry OR 1 = hash OR 1 then f index s else (Ok False, s)) of
             (Err e, s) \<Rightarrow> (Err e, s)
           | (Panic, s) \<Rightarrow> (Panic, s)
           | (Ok stop, s) \<Rightarrow>
               if stop then (Ok (), s)
               else if entry AND 1 = 1 then (Ok (), s)
               else if index = - 1 then (Err (from IntegerOverflow), s)
               else gnu_walk t from f hash (index + 1) s))"
  by pat_completeness auto

termination
proof (relation "measure (\<lambda>(t, from, f, hash, index, s). 2 ^ 32 - unat index)", goal_cases)
  case 1
  show ?case by simp
next
  case (2 t conv f hash index s)
  then have "unat (index + 1) = unat index + 1" "unat index + 1 < 2 ^ 32"
    using unat_Suc_no_wrap [of index] word_max_unat [of index] by simp_all
  then show ?case by simp
qed

definition gnu_for_each_candidate ::
    "gnu_hash \<Rightarrow> (elf_error \<Rightarrow> 'e) \<Rightarrow> u32 \<Rightarrow> (u32 \<Rightarrow> 's \<Rightarrow> ('e, bool) outcome \<times> 's) \<Rightarrow> 's
      \<Rightarrow> ('e, unit) outcome \<times> 's" where
  "gnu_for_each_candidate t from hash f s =
     (if gh_bucket_count t = 0 then (Panic, s)
      else
        try_or s (map_err from (bucket_start t (hash mod gh_bucket_count t))) (\<lambda>start.
        case start of
          None \<Rightarrow> (Ok (), s)
        | Some index \<Rightarrow> gnu_walk t from f hash index s))"

definition push_candidate :: "u32 \<Rightarrow> u32 list \<Rightarrow> (elf_error, bool) outcome \<times> u32 list" where
  "push_candidate index found = (Ok False, found @ [index])"

definition gnu_candidates :: "gnu_hash \<Rightarrow> u32 \<Rightarrow> (elf_error, u32 list) outcome" where
  "gnu_candidates t hash =
     (case gnu_for_each_candidate t (\<lambda>e. e) hash push_candidate [] of
        (Ok _, found) \<Rightarrow> Ok found
      | (Err e, _) \<Rightarrow> Err e
      | (Panic, _) \<Rightarrow> Panic)"

function gnu_chain_last :: "gnu_hash \<Rightarrow> u32 \<Rightarrow> (elf_error, u32) outcome" where
  "gnu_chain_last t index =
     (case chain_entry t index of
        Err e \<Rightarrow> Err e
      | Panic \<Rightarrow> Panic
      | Ok entry \<Rightarrow>
          if entry AND 1 = 1 then Ok index
          else if index = - 1 then Err IntegerOverflow
          else gnu_chain_last t (index + 1))"
  by pat_completeness auto

termination
proof (relation "measure (\<lambda>(t, index). 2 ^ 32 - unat index)", goal_cases)
  case 1
  show ?case by simp
next
  case (2 t index)
  then have "unat (index + 1) = unat index + 1" "unat index + 1 < 2 ^ 32"
    using unat_Suc_no_wrap [of index] word_max_unat [of index] by simp_all
  then show ?case by simp
qed

fun gnu_highest :: "gnu_hash \<Rightarrow> u32 list \<Rightarrow> u32 option \<Rightarrow> (elf_error, u32 option) outcome" where
  "gnu_highest t [] highest = Ok highest"
| "gnu_highest t (bucket # buckets) highest =
     and_then (bucket_start t bucket) (\<lambda>start.
     case start of
       None \<Rightarrow> gnu_highest t buckets highest
     | Some index \<Rightarrow>
         and_then (gnu_chain_last t index) (\<lambda>index.
         gnu_highest t buckets (Some (max (unwrap_or index highest) index))))"

definition gnu_symbol_count :: "gnu_hash \<Rightarrow> (elf_error, u32) outcome" where
  "gnu_symbol_count t =
     and_then (gnu_highest t (map word_of_nat [0..<unat (gh_bucket_count t)]) None) (\<lambda>highest.
     case highest of
       Some highest \<Rightarrow> if highest = - 1 then Err BadHashTable else Ok (highest + 1)
     | None \<Rightarrow> Ok (gh_symbol_base t))"

section \<open>System V hash\<close>

record sysv_hash =
  vh_bytes :: bytes
  vh_bucket_count :: u32
  vh_chain_count :: u32
  vh_bucket_offset :: nat
  vh_chain_offset :: nat

definition sysv_decode :: "bytes \<Rightarrow> nat \<Rightarrow> (elf_error, sysv_hash) outcome" where
  "sysv_decode bs start =
     and_then (ok_or Truncated
       (case slice_get bs start (length bs) of
          Some header \<Rightarrow> if length header \<ge> 8 then Some header else None | None \<Rightarrow> None)) (\<lambda>header.
     and_then (u32_at header 0) (\<lambda>bucket_count.
     and_then (u32_at header 4) (\<lambda>chain_count.
     if bucket_count = 0 then Err BadHashTable
     else
       and_then (ok_or IntegerOverflow (checked_add_usize start 8)) (\<lambda>bucket_offset.
       and_then (region_end bucket_offset bucket_count 4) (\<lambda>chain_offset.
       and_then (region_end chain_offset chain_count 4) (\<lambda>end.
       if end > length bs then Err Truncated
       else Ok \<lparr>vh_bytes = bs, vh_bucket_count = bucket_count, vh_chain_count = chain_count,
                vh_bucket_offset = bucket_offset, vh_chain_offset = chain_offset\<rparr>))))))"

definition sysv_parse :: "elf_file \<Rightarrow> table_location \<Rightarrow> (elf_error, sysv_hash) outcome" where
  "sysv_parse f location = sysv_decode (ef_bytes f) (tl_file_offset location)"

definition sysv_chain :: "sysv_hash \<Rightarrow> u32 \<Rightarrow> (elf_error, u32) outcome" where
  "sysv_chain t index =
     and_then (region_end (vh_chain_offset t) index 4) (\<lambda>offset. u32_at (vh_bytes t) offset)"

fun sysv_walk ::
    "nat \<Rightarrow> sysv_hash \<Rightarrow> (elf_error \<Rightarrow> 'e) \<Rightarrow> (u32 \<Rightarrow> 's \<Rightarrow> ('e, bool) outcome \<times> 's) \<Rightarrow> u32 \<Rightarrow> 's
      \<Rightarrow> ('e, unit) outcome \<times> 's" where
  "sysv_walk 0 t from f index s = (Err (from BadHashTable), s)"
| "sysv_walk (Suc n) t from f index s =
     (if index = CHAIN_END then (Ok (), s)
      else if index \<ge> vh_chain_count t then (Err (from BadHashTable), s)
      else
        (case f index s of
           (Err e, s) \<Rightarrow> (Err e, s)
         | (Panic, s) \<Rightarrow> (Panic, s)
         | (Ok stop, s) \<Rightarrow>
             if stop then (Ok (), s)
             else
               (case sysv_chain t index of
                  Err e \<Rightarrow> (Err (from e), s)
                | Panic \<Rightarrow> (Panic, s)
                | Ok next \<Rightarrow> sysv_walk n t from f next s)))"

definition sysv_for_each_candidate ::
    "sysv_hash \<Rightarrow> (elf_error \<Rightarrow> 'e) \<Rightarrow> u32 \<Rightarrow> (u32 \<Rightarrow> 's \<Rightarrow> ('e, bool) outcome \<times> 's) \<Rightarrow> 's
      \<Rightarrow> ('e, unit) outcome \<times> 's" where
  "sysv_for_each_candidate t from hash f s =
     (if vh_bucket_count t = 0 then (Panic, s)
      else
        try_or s (map_err from (region_end (vh_bucket_offset t) (hash mod vh_bucket_count t) 4)) (\<lambda>offset.
        try_or s (map_err from (u32_at (vh_bytes t) offset)) (\<lambda>index.
        sysv_walk (min (unat (vh_chain_count t) + 1) (2 ^ 32 - 1)) t from f index s)))"

definition sysv_candidates :: "sysv_hash \<Rightarrow> u32 \<Rightarrow> (elf_error, u32 list) outcome" where
  "sysv_candidates t hash =
     (case sysv_for_each_candidate t (\<lambda>e. e) hash push_candidate [] of
        (Ok _, found) \<Rightarrow> Ok found
      | (Err e, _) \<Rightarrow> Err e
      | (Panic, _) \<Rightarrow> Panic)"

definition sysv_symbol_count :: "sysv_hash \<Rightarrow> u32" where
  "sysv_symbol_count t = vh_chain_count t"

end
