(* ===== verification/Elf_Version.thy ===== *)
theory Elf_Version
  imports Elf_Hash
begin

text \<open>
  Symbol versioning of \<^verbatim>\<open>kinakaze-elf/src/version.rs\<close>: the walks over the definition and
  requirement lists, and the version a symbol carries. Names are resolved by an argument, the
  way the code passes a closure.
\<close>

definition VER_NDX_LOCAL :: u16 where "VER_NDX_LOCAL = 0"
definition VER_NDX_GLOBAL :: u16 where "VER_NDX_GLOBAL = 1"
definition VERSYM_HIDDEN :: u16 where "VERSYM_HIDDEN = 0x8000"
definition VERSYM_VERSION :: u16 where "VERSYM_VERSION = 0x7fff"
definition VER_FLG_BASE :: u16 where "VER_FLG_BASE = 1"
definition VER_FLG_WEAK :: u16 where "VER_FLG_WEAK = 2"
definition VER_REVISION :: u16 where "VER_REVISION = 1"
definition VERDEF_SIZE :: nat where "VERDEF_SIZE = 20"
definition VERDAUX_SIZE :: nat where "VERDAUX_SIZE = 8"
definition VERNEED_SIZE :: nat where "VERNEED_SIZE = 16"
definition VERNAUX_SIZE :: nat where "VERNAUX_SIZE = 16"
definition MAX_VERSION_NODES :: nat where "MAX_VERSION_NODES = 0x8000"

record version_definition =
  vd_index :: u16
  vd_name :: bytes
  vd_is_base :: bool
  vd_hash :: u32

record version_requirement =
  vr_library :: bytes
  vr_version :: bytes
  vr_index :: u16
  vr_hash :: u32
  vr_is_weak :: bool

record version_table =
  vt_definitions :: "version_definition list"
  vt_requirements :: "version_requirement list"
  vt_version_symbols :: "table_location option"

section \<open>Nodes\<close>

definition version_advance :: "nat \<Rightarrow> u32 \<Rightarrow> (elf_error, nat) outcome" where
  "version_advance base delta = ok_or BadVersionTable (checked_add_usize base (unat delta))"

definition node_at :: "bytes \<Rightarrow> nat \<Rightarrow> nat \<Rightarrow> (elf_error, bytes) outcome" where
  "node_at bs offset len =
     ok_or BadVersionTable
       (case checked_add_usize offset len of None \<Rightarrow> None | Some end \<Rightarrow> slice_get bs offset end)"

definition malformed :: "elf_error \<Rightarrow> elf_error" where
  "malformed e = BadVersionTable"

definition node_u16 :: "bytes \<Rightarrow> nat \<Rightarrow> (elf_error, u16) outcome" where
  "node_u16 node off = map_err malformed (u16_at node off)"

definition node_u32 :: "bytes \<Rightarrow> nat \<Rightarrow> (elf_error, u32) outcome" where
  "node_u32 node off = map_err malformed (u32_at node off)"

section \<open>Definitions\<close>

fun definitions_loop ::
    "nat \<Rightarrow> bytes \<Rightarrow> (u32 \<Rightarrow> (elf_error, bytes) outcome) \<Rightarrow> nat \<Rightarrow> version_definition list
      \<Rightarrow> (elf_error, version_definition list) outcome" where
  "definitions_loop 0 bs resolve cursor found = Err BadVersionTable"
| "definitions_loop (Suc n) bs resolve cursor found =
     and_then (node_at bs cursor VERDEF_SIZE) (\<lambda>node.
     and_then (node_u16 node 0) (\<lambda>revision.
     if revision \<noteq> VER_REVISION then Err BadVersionTable
     else
       and_then (node_u16 node 2) (\<lambda>flags.
       and_then (node_u16 node 4) (\<lambda>index.
       and_then (node_u32 node 8) (\<lambda>hash.
       and_then (node_u32 node 12) (\<lambda>aux.
       and_then (node_u32 node 16) (\<lambda>next.
       and_then (version_advance cursor aux) (\<lambda>aux_offset.
       and_then (node_at bs aux_offset VERDAUX_SIZE) (\<lambda>aux_node.
       and_then (node_u32 aux_node 0) (\<lambda>name_offset.
       and_then (resolve name_offset) (\<lambda>name.
       let found = found @ [\<lparr>vd_index = index AND VERSYM_VERSION, vd_name = name,
                             vd_is_base = (flags AND VER_FLG_BASE \<noteq> 0), vd_hash = hash\<rparr>] in
       if next = 0 then Ok found
       else and_then (version_advance cursor next) (\<lambda>cursor.
            definitions_loop n bs resolve cursor found))))))))))))"

definition parse_definitions ::
    "bytes \<Rightarrow> nat \<Rightarrow> u64 \<Rightarrow> (u32 \<Rightarrow> (elf_error, bytes) outcome) \<Rightarrow> (elf_error, version_definition list) outcome" where
  "parse_definitions bs start stated_count resolve =
     (let limit = min (unat stated_count) MAX_VERSION_NODES in
      if limit = 0 then Ok [] else definitions_loop limit bs resolve start [])"

section \<open>Requirements\<close>

fun vernaux_loop ::
    "nat \<Rightarrow> bytes \<Rightarrow> (u32 \<Rightarrow> (elf_error, bytes) outcome) \<Rightarrow> bytes \<Rightarrow> nat \<Rightarrow> version_requirement list
      \<Rightarrow> (elf_error, version_requirement list) outcome" where
  "vernaux_loop 0 bs resolve library cursor found = Ok found"
| "vernaux_loop (Suc n) bs resolve library cursor found =
     and_then (node_at bs cursor VERNAUX_SIZE) (\<lambda>node.
     and_then (node_u32 node 0) (\<lambda>hash.
     and_then (node_u16 node 4) (\<lambda>flags.
     and_then (node_u16 node 6) (\<lambda>index.
     and_then (node_u32 node 8) (\<lambda>name_offset.
     and_then (node_u32 node 12) (\<lambda>next.
     and_then (resolve name_offset) (\<lambda>version.
     let found = found @ [\<lparr>vr_library = library, vr_version = version,
                           vr_index = index AND VERSYM_VERSION, vr_hash = hash,
                           vr_is_weak = (flags AND VER_FLG_WEAK \<noteq> 0)\<rparr>] in
     if next = 0 then Ok found
     else and_then (version_advance cursor next) (\<lambda>cursor.
          vernaux_loop n bs resolve library cursor found))))))))"

fun requirements_loop ::
    "nat \<Rightarrow> bytes \<Rightarrow> (u32 \<Rightarrow> (elf_error, bytes) outcome) \<Rightarrow> nat \<Rightarrow> version_requirement list
      \<Rightarrow> (elf_error, version_requirement list) outcome" where
  "requirements_loop 0 bs resolve cursor found = Err BadVersionTable"
| "requirements_loop (Suc n) bs resolve cursor found =
     and_then (node_at bs cursor VERNEED_SIZE) (\<lambda>node.
     and_then (node_u16 node 0) (\<lambda>revision.
     if revision \<noteq> VER_REVISION then Err BadVersionTable
     else
       and_then (node_u16 node 2) (\<lambda>count.
       and_then (node_u32 node 4) (\<lambda>file.
       and_then (node_u32 node 8) (\<lambda>aux.
       and_then (node_u32 node 12) (\<lambda>next.
       and_then (resolve file) (\<lambda>library.
       and_then (version_advance cursor aux) (\<lambda>aux_cursor.
       and_then (vernaux_loop (unat count) bs resolve library aux_cursor found) (\<lambda>found.
       if next = 0 then Ok found
       else and_then (version_advance cursor next) (\<lambda>cursor.
            requirements_loop n bs resolve cursor found))))))))))"

definition parse_requirements ::
    "bytes \<Rightarrow> nat \<Rightarrow> u64 \<Rightarrow> (u32 \<Rightarrow> (elf_error, bytes) outcome) \<Rightarrow> (elf_error, version_requirement list) outcome" where
  "parse_requirements bs start stated_count resolve =
     (let limit = min (unat stated_count) MAX_VERSION_NODES in
      if limit = 0 then Ok [] else requirements_loop limit bs resolve start [])"

section \<open>The table\<close>

definition version_table_parse :: "elf_file \<Rightarrow> dynamic_info \<Rightarrow> (elf_error, version_table) outcome" where
  "version_table_parse f info =
     (let resolve = (\<lambda>offset :: u32. dynamic_string f info (ucast offset)) in
      and_then (case di_version_definitions info of
          Some t \<Rightarrow> parse_definitions (ef_bytes f) (tl_file_offset t) (di_version_definition_count info) resolve
        | None \<Rightarrow> Ok []) (\<lambda>definitions.
      and_then (case di_version_needs info of
          Some t \<Rightarrow> parse_requirements (ef_bytes f) (tl_file_offset t) (di_version_need_count info) resolve
        | None \<Rightarrow> Ok []) (\<lambda>requirements.
      Ok \<lparr>vt_definitions = definitions, vt_requirements = requirements,
          vt_version_symbols = di_version_symbols info\<rparr>)))"

definition raw_version :: "version_table \<Rightarrow> elf_file \<Rightarrow> u32 \<Rightarrow> u16 option" where
  "raw_version vt f symbol_index =
     (case vt_version_symbols vt of
        None \<Rightarrow> None
      | Some table \<Rightarrow>
          (case checked_mul_usize (unat symbol_index) 2 of
             None \<Rightarrow> None
           | Some rel \<Rightarrow>
               (case checked_add_usize (tl_file_offset table) rel of
                  None \<Rightarrow> None
                | Some offset \<Rightarrow>
                    (case elf_slice f offset 2 of
                       Ok entry \<Rightarrow> (case u16_at entry 0 of Ok w \<Rightarrow> Some w | _ \<Rightarrow> None)
                     | _ \<Rightarrow> None))))"

definition version_index :: "version_table \<Rightarrow> elf_file \<Rightarrow> u32 \<Rightarrow> u16 option" where
  "version_index vt f symbol_index =
     (case raw_version vt f symbol_index of
        None \<Rightarrow> None
      | Some raw \<Rightarrow>
          let index = raw AND VERSYM_VERSION in
          if index = VER_NDX_LOCAL \<or> index = VER_NDX_GLOBAL then None else Some index)"

definition definition_name :: "version_table \<Rightarrow> elf_file \<Rightarrow> u32 \<Rightarrow> bytes option" where
  "definition_name vt f symbol_index =
     (case version_index vt f symbol_index of
        None \<Rightarrow> None
      | Some index \<Rightarrow> map_option vd_name (find (\<lambda>d. vd_index d = index) (vt_definitions vt)))"

definition is_hidden :: "version_table \<Rightarrow> elf_file \<Rightarrow> u32 \<Rightarrow> bool" where
  "is_hidden vt f symbol_index \<longleftrightarrow>
     (case raw_version vt f symbol_index of
        None \<Rightarrow> False | Some raw \<Rightarrow> raw AND VERSYM_HIDDEN \<noteq> 0)"

definition requirement_name :: "version_table \<Rightarrow> elf_file \<Rightarrow> u32 \<Rightarrow> bytes option" where
  "requirement_name vt f symbol_index =
     (case version_index vt f symbol_index of
        None \<Rightarrow> None
      | Some index \<Rightarrow> map_option vr_version (find (\<lambda>r. vr_index r = index) (vt_requirements vt)))"

end
