(* ===== verification/Elf_Safety.thy ===== *)
theory Elf_Safety
  imports Elf_Version
begin

text \<open>
  No input makes the ELF parser panic: every unchecked addition, multiplication, remainder and
  shift stays in range because of what was checked before it. Each reader has a lemma in the
  collection \<open>no_panic\<close>; the readers composed of them follow by introduction rules.
\<close>

named_theorems no_panic \<open>readers that never panic\<close>

section \<open>Building blocks\<close>

lemma bind_calm: "r \<noteq> Panic \<Longrightarrow> (\<And>x. r = Ok x \<Longrightarrow> f x \<noteq> Panic) \<Longrightarrow> and_then r f \<noteq> Panic"
  by auto

lemma ok_or_calm [no_panic, simp]: "ok_or e x \<noteq> Panic"
  by (simp add: ok_or_def split: option.split)

lemma ok_or_Ok [simp]: "ok_or e x = Ok y \<longleftrightarrow> x = Some y"
  by (simp add: ok_or_def split: option.split)

lemma map_err_calm [simp]: "map_err g r = Panic \<longleftrightarrow> r = Panic"
  by (simp add: map_err_def split: outcome.split)

lemma map_err_Ok [simp]: "map_err g r = Ok x \<longleftrightarrow> r = Ok x"
  by (simp add: map_err_def split: outcome.split)

lemma plain_Ok [simp]: "plain x = Ok y \<longleftrightarrow> x = Some y"
  by (simp add: plain_def split: option.split)

lemma plain_Panic [simp]: "plain x = Panic \<longleftrightarrow> x = None"
  by (simp add: plain_def split: option.split)

lemma checked_add_usize_None [simp]: "checked_add_usize a b = None \<longleftrightarrow> usize_max < a + b"
  by (auto simp: checked_add_usize_def)

lemma checked_add_usize_Some [simp]: "checked_add_usize a b = Some c \<longleftrightarrow> c = a + b \<and> a + b \<le> usize_max"
  by (auto simp: checked_add_usize_def)

lemma checked_mul_usize_Some [simp]: "checked_mul_usize a b = Some c \<longleftrightarrow> c = a * b \<and> a * b \<le> usize_max"
  by (auto simp: checked_mul_usize_def)

lemma checked_mul_usize_None [simp]: "checked_mul_usize a b = None \<longleftrightarrow> usize_max < a * b"
  by (auto simp: checked_mul_usize_def)

lemma checked_add_u64_Some:
  "checked_add_u64 a b = Some c \<longleftrightarrow> unat a + unat b < 2 ^ 64 \<and> unat c = unat a + unat b"
proof (cases "unat a + unat b < 2 ^ 64")
  case True
  then have "unat (a + b) = unat a + unat b" by (simp add: unat_word_ariths)
  with True show ?thesis by (auto simp: checked_add_u64_def word_unat_eq_iff)
qed (simp add: checked_add_u64_def)

lemma slice_get_Some:
  "slice_get xs a b = Some ys \<longleftrightarrow> a \<le> b \<and> b \<le> length xs \<and> ys = take (b - a) (drop a xs)"
  by (auto simp: slice_get_def)

lemma slice_get_length: "slice_get xs a b = Some ys \<Longrightarrow> length ys = b - a \<and> b \<le> length xs"
  by (auto simp: slice_get_Some)

lemma elf_byte_calm [no_panic, simp]: "elf_byte bs n \<noteq> Panic"
  by (simp add: elf_byte_def)

lemma field_calm:
  "n + 2 \<le> usize_max \<Longrightarrow> u16_at bs n \<noteq> Panic" "n + 4 \<le> usize_max \<Longrightarrow> u32_at bs n \<noteq> Panic"
  "n + 8 \<le> usize_max \<Longrightarrow> u64_at bs n \<noteq> Panic" "n + 8 \<le> usize_max \<Longrightarrow> i64_at bs n \<noteq> Panic"
  by (auto simp: u16_at_def u32_at_def u64_at_def i64_at_def)

lemma usize_big: "m \<le> 2 ^ 63 + 2 ^ 40 \<Longrightarrow> m \<le> usize_max"
  by (simp add: usize_max_def)

lemma small_field_calm [no_panic, simp]:
  "n \<le> 100 \<Longrightarrow> u16_at bs n \<noteq> Panic" "n \<le> 100 \<Longrightarrow> u32_at bs n \<noteq> Panic"
  "n \<le> 100 \<Longrightarrow> u64_at bs n \<noteq> Panic" "n \<le> 100 \<Longrightarrow> i64_at bs n \<noteq> Panic"
  by (rule field_calm, simp add: usize_max_def)+

lemma checked_range_calm [no_panic, simp]: "checked_range bs a b \<noteq> Panic"
  by (simp add: checked_range_def)

lemma checked_table_calm [no_panic, simp]: "checked_table bs off e c \<noteq> Panic"
  by (simp add: checked_table_def)

lemma string_at_calm [no_panic, simp]: "string_at bs n \<noteq> Panic"
  by (simp add: string_at_def Let_def)

lemma elf_align_up_calm [no_panic, simp]: "elf_align_up v a \<noteq> Panic"
  by (simp add: elf_align_up_def)

lemma elf_slice_calm [no_panic, simp]: "elf_slice f a b \<noteq> Panic"
  by (simp add: elf_slice_def)

lemma collect_each_calm: "(\<And>x. x \<in> set xs \<Longrightarrow> f x \<noteq> Panic) \<Longrightarrow> collect_each f xs \<noteq> Panic"
  by (induction xs) auto

lemma collect_each_set: "collect_each f xs = Ok ys \<Longrightarrow> y \<in> set ys \<Longrightarrow> \<exists>x \<in> set xs. f x = Ok y"
  by (induction xs arbitrary: ys) auto

section \<open>The file and its headers\<close>

lemma elf_parse_calm [no_panic]: "elf_parse bs \<noteq> Panic"
  by (simp add: elf_parse_def Let_def)

lemma elf_parse_bytes: "elf_parse bs = Ok f \<Longrightarrow> ef_bytes f = bs"
  by (auto simp: elf_parse_def Let_def split: if_splits)

lemma stride_calm:
  assumes "index * unat stride < 2 ^ 64" and "index < 2 ^ 64"
  shows "plain (checked_mul_u64 (word_of_nat index) stride) \<noteq> Panic"
  using assms by (simp add: checked_mul_u64_def unat_of_nat)

lemma table_entry_calm:
  assumes "index < 2 ^ 16"
  shows "table_entry f base sz index \<noteq> Panic"
proof -
  have "unat sz < 2 ^ 16" using unsigned_less [of sz] by simp
  with assms have "index * unat sz < 2 ^ 16 * 2 ^ 16" by (intro mult_strict_mono) auto
  then have "index * unat (ucast sz :: u64) < 2 ^ 64"
    using \<open>unat sz < 2 ^ 16\<close> by (simp add: unsigned_ucast_eq take_bit_nat_eq_self)
  with assms have "plain (checked_mul_u64 (word_of_nat index) (ucast sz)) \<noteq> Panic"
    by (intro stride_calm) auto
  then show ?thesis by (auto simp: table_entry_def)
qed

lemma program_header_at_calm: "index < 2 ^ 16 \<Longrightarrow> program_header_at f index \<noteq> Panic"
  using table_entry_calm [of index f] by (auto simp: program_header_at_def program_entry_def)

lemma section_header_at_calm: "index < 2 ^ 16 \<Longrightarrow> section_header_at f index \<noteq> Panic"
  using table_entry_calm [of index f] by (auto simp: section_header_at_def section_entry_def)

lemma u16_count: "index \<in> set [0..<unat (n :: u16)] \<Longrightarrow> index < 2 ^ 16"
  using unsigned_less [of n] by (auto intro: less_trans)

lemma program_headers_calm [no_panic, simp]: "program_headers f \<noteq> Panic"
  unfolding program_headers_def
  by (rule collect_each_calm) (metis program_header_at_calm u16_count)

lemma section_headers_calm [no_panic, simp]: "section_headers f \<noteq> Panic"
  unfolding section_headers_def
  by (rule collect_each_calm) (metis section_header_at_calm u16_count)

lemma span_loop_calm [simp]: "span_loop p hs a b \<noteq> Panic"
  by (induction p hs a b rule: span_loop.induct) (simp_all add: Let_def)

lemma load_span_calm [no_panic]: "load_span_of f p \<noteq> Panic"
  by (auto simp: load_span_of_def split: prod.splits)

lemma segment_calm [no_panic]: "tls_segment f \<noteq> Panic" "dynamic_segment f \<noteq> Panic"
  by (simp_all add: tls_segment_def dynamic_segment_def)

section \<open>Tables of sections\<close>

lemma strided_calm:
  assumes "index \<in> set [0..<unat (whole div stride)]"
  shows "strided bs base stride width index \<noteq> Panic"
proof -
  have i: "index < unat whole div unat stride" using assms by (simp add: unat_div)
  have "unat whole < 2 ^ 64" using unat_bound [of whole] by simp
  from i have "index * unat stride \<le> unat whole div unat stride * unat stride" by simp
  also have "\<dots> \<le> unat whole" by (rule div_times_less_eq_dividend)
  also note \<open>unat whole < 2 ^ 64\<close>
  finally have "index * unat stride < 2 ^ 64" .
  moreover have "index < 2 ^ 64"
    using i \<open>unat whole < 2 ^ 64\<close> div_le_dividend [of "unat whole" "unat stride"] by linarith
  ultimately show ?thesis
    unfolding strided_def using stride_calm by (intro bind_calm) auto
qed

lemma symbols_calm:
  "symbols_from_section f sections s \<noteq> Panic"
proof -
  have "symbol_at f s strings index \<noteq> Panic"
    if "index \<in> set [0..<unat (sh_size s div sh_entry_size s)]" for strings index
    unfolding symbol_at_def by (intro bind_calm strided_calm [OF that]) auto
  then show ?thesis
    by (auto simp: symbols_from_section_def linked_section_def intro!: collect_each_calm)
qed

lemma symbol_tables_calm [no_panic]: "dynamic_symbols f \<noteq> Panic" "elf_symbols f \<noteq> Panic"
  using symbols_calm
  by (auto simp: dynamic_symbols_def elf_symbols_def split: option.split intro!: collect_each_calm)

lemma relocations_calm [no_panic]: "relocations f \<noteq> Panic"
proof -
  have "rela_at f s index \<noteq> Panic"
    if "index \<in> set [0..<unat (sh_size s div sh_entry_size s)]" for s index
    unfolding rela_at_def by (intro bind_calm strided_calm [OF that]) auto
  then have "section_relocations f s \<noteq> Panic" for s
    by (auto simp: section_relocations_def intro!: collect_each_calm)
  then show ?thesis by (auto simp: relocations_def intro!: collect_each_calm)
qed

lemma dynamic_strings_loop_calm:
  "set indexes \<subseteq> set [0..<unat (sh_size d div sh_entry_size d)] \<Longrightarrow>
     dynamic_strings_loop f d strings tag indexes \<noteq> Panic"
proof (induction indexes)
  case (Cons i indexes)
  then have "strided (ef_bytes f) (sh_offset d) (sh_entry_size d) 16 i \<noteq> Panic"
    by (intro strided_calm) auto
  with Cons show ?case by auto
qed simp

lemma dynamic_strings_calm [no_panic]: "dynamic_strings f tag \<noteq> Panic"
  using dynamic_strings_loop_calm
  by (auto simp: dynamic_strings_def linked_section_def split: option.split)

lemma dynamic_names_calm [no_panic]: "needed_libraries f \<noteq> Panic" "elf_soname f \<noteq> Panic"
  using dynamic_strings_calm by (auto simp: needed_libraries_def elf_soname_def)

section \<open>The dynamic segment\<close>

lemma to_file_offset_calm [simp]: "to_file_offset segs a \<noteq> Panic"
  by (induction segs a rule: to_file_offset.induct) auto

lemma locate_calm [simp]: "locate segs a sz e \<noteq> Panic"
  by (simp add: locate_def)

lemma second_pass_calm: "second_pass segs sizes e info \<noteq> Panic"
  by (simp add: second_pass_def Let_def)

lemma second_passes_calm [simp]: "second_passes segs sizes es info \<noteq> Panic"
  using second_pass_calm by (induction segs sizes es info rule: second_passes.induct) auto

lemma read_entries_calm [simp]: "read_entries cs \<noteq> Panic"
  by (induction cs rule: read_entries.induct) auto

lemma dynamic_info_calm [no_panic]: "dynamic_info_of f \<noteq> Panic"
  by (auto simp: dynamic_info_of_def Let_def split: option.split prod.splits)

lemma dynamic_string_calm [no_panic, simp]: "dynamic_string f info off \<noteq> Panic"
  by (simp add: dynamic_string_def Let_def)

lemma dynamic_lists_calm [no_panic]:
  "dynamic_needed f info \<noteq> Panic" "dynamic_soname f info \<noteq> Panic" "dynamic_search_path f info \<noteq> Panic"
  by (auto simp: dynamic_needed_def dynamic_soname_def dynamic_search_path_def optional_string_def
      intro!: collect_each_calm split: option.split)

section \<open>Versions\<close>

lemma node_calm [simp]: "version_advance a d \<noteq> Panic" "node_at bs a n \<noteq> Panic"
  "n \<le> 100 \<Longrightarrow> node_u16 node n \<noteq> Panic" "n \<le> 100 \<Longrightarrow> node_u32 node n \<noteq> Panic"
  by (simp_all add: version_advance_def node_at_def node_u16_def node_u32_def)

lemma definitions_loop_calm:
  "(\<And>off. resolve off \<noteq> Panic) \<Longrightarrow> definitions_loop n bs resolve cursor found \<noteq> Panic"
  by (induction n bs resolve cursor found rule: definitions_loop.induct) (auto simp: Let_def)

lemma vernaux_loop_calm:
  "(\<And>off. resolve off \<noteq> Panic) \<Longrightarrow> vernaux_loop n bs resolve lib cursor found \<noteq> Panic"
  by (induction n bs resolve lib cursor found rule: vernaux_loop.induct) (auto simp: Let_def)

lemma requirements_loop_calm:
  "(\<And>off. resolve off \<noteq> Panic) \<Longrightarrow> requirements_loop n bs resolve cursor found \<noteq> Panic"
  using vernaux_loop_calm
  by (induction n bs resolve cursor found rule: requirements_loop.induct) auto

lemma version_table_calm [no_panic]: "version_table_parse f info \<noteq> Panic"
  using definitions_loop_calm requirements_loop_calm
  by (auto simp: version_table_parse_def parse_definitions_def parse_requirements_def Let_def
      split: option.split)

section \<open>Hash tables\<close>

lemma region_end_calm [simp]: "region_end base n w \<noteq> Panic"
  by (simp add: region_end_def)

lemma region_end_Ok:
  "region_end base n w = Ok m \<longleftrightarrow> m = base + unat n * w \<and> unat n * w \<le> usize_max \<and> base + unat n * w \<le> usize_max"
  by (auto simp: region_end_def split: option.splits)

text \<open>What decoding leaves behind: positions inside the file and divisors that are not zero.\<close>

definition gnu_ok :: "gnu_hash \<Rightarrow> bool" where
  "gnu_ok t \<longleftrightarrow> length (gh_bytes t) < 2 ^ 63 \<and> gh_bucket_count t \<noteq> 0 \<and> gh_bloom_word_count t \<noteq> 0
     \<and> gh_bloom_shift t < 64 \<and> gh_bloom_offset t \<le> length (gh_bytes t)
     \<and> gh_bucket_offset t \<le> length (gh_bytes t) \<and> gh_chain_offset t \<le> length (gh_bytes t)"

definition sysv_ok :: "sysv_hash \<Rightarrow> bool" where
  "sysv_ok t \<longleftrightarrow> length (vh_bytes t) < 2 ^ 63 \<and> vh_bucket_count t \<noteq> 0
     \<and> vh_bucket_offset t \<le> length (vh_bytes t) \<and> vh_chain_offset t \<le> length (vh_bytes t)"

lemma power_of_two_nonzero: "is_power_of_two w \<Longrightarrow> w \<noteq> 0"
  by (auto simp: is_power_of_two_def list_ex_iff push_bit_eq_0_iff push_bit_of_1)

lemma gnu_decode_ok:
  assumes "length bs < 2 ^ 63"
  shows "gnu_decode bs start \<noteq> Panic" and "gnu_decode bs start = Ok t \<Longrightarrow> gnu_ok t"
proof -
  show "gnu_decode bs start \<noteq> Panic"
    by (simp add: gnu_decode_def)
  show "gnu_ok t" if "gnu_decode bs start = Ok t"
    using that assms
    by (auto simp: gnu_decode_def gnu_ok_def region_end_Ok power_of_two_nonzero not_le split: if_splits)
qed

lemma sysv_decode_ok:
  assumes "length bs < 2 ^ 63"
  shows "sysv_decode bs start \<noteq> Panic" and "sysv_decode bs start = Ok t \<Longrightarrow> sysv_ok t"
proof -
  show "sysv_decode bs start \<noteq> Panic"
    by (simp add: sysv_decode_def)
  show "sysv_ok t" if "sysv_decode bs start = Ok t"
    using that assms by (auto simp: sysv_decode_def sysv_ok_def region_end_Ok split: if_splits)
qed

lemma region_in_range:
  assumes "region_end base n w = Ok m" and "base < 2 ^ 63" and "w \<le> 8"
  shows "m + 8 \<le> usize_max" and "m + 4 \<le> usize_max"
proof -
  have "unat n < 2 ^ 32" using unsigned_less [of n] by simp
  then have "unat n * w \<le> 2 ^ 32 * 8" using assms(3) by (intro mult_le_mono) auto
  with assms show "m + 8 \<le> usize_max" "m + 4 \<le> usize_max"
    by (auto simp: region_end_Ok usize_max_def)
qed

lemma region_field:
  assumes "region_end base n w = Ok m" and "base < 2 ^ 63" and "w \<le> 8"
  shows "u32_at bs m \<noteq> Panic" and "u64_at bs m \<noteq> Panic"
  using region_in_range [OF assms] field_calm by blast+

lemma chain_entry_calm: "gnu_ok t \<Longrightarrow> chain_entry t index \<noteq> Panic"
  using region_field(1) [of "gh_chain_offset t" "index - gh_symbol_base t" 4]
  by (auto simp: chain_entry_def gnu_ok_def)

lemma bucket_start_calm: "gnu_ok t \<Longrightarrow> bucket_start t bucket \<noteq> Panic"
  using region_field(1) [of "gh_bucket_offset t" bucket 4]
  by (auto simp: bucket_start_def gnu_ok_def)

lemma may_contain_calm: "gnu_ok t \<Longrightarrow> may_contain t hash \<noteq> Panic"
  using region_field(2) [of "gh_bloom_offset t" _ 8]
  by (auto simp: may_contain_def gnu_ok_def Let_def not_le split: outcome.split)

declare gnu_walk.simps [simp del] gnu_chain_last.simps [simp del]

lemma gnu_walk_calm:
  "gnu_ok t \<Longrightarrow> (\<And>i s. fst (f i s) \<noteq> Panic) \<Longrightarrow> fst (gnu_walk t conv f hash index s) \<noteq> Panic"
proof (induction t conv f hash index s rule: gnu_walk.induct)
  case (1 t conv f hash index s)
  have c: "chain_entry t index \<noteq> Panic" using 1(2) by (rule chain_entry_calm)
  have f: "f i u \<noteq> (Panic, v)" for i u v using 1(3) [of i u] by auto
  show ?case
    using c f 1(1) 1(2,3)
    by (subst gnu_walk.simps) (auto split: outcome.split prod.split if_splits)
qed

lemma gnu_candidates_calm: "gnu_ok t \<Longrightarrow> gnu_candidates t hash \<noteq> Panic"
proof -
  assume t: "gnu_ok t"
  have "fst (gnu_for_each_candidate t (\<lambda>e. e) hash push_candidate []) \<noteq> Panic"
    using t bucket_start_calm [OF t] gnu_walk_calm [OF t, of push_candidate]
    by (auto simp: gnu_for_each_candidate_def gnu_ok_def push_candidate_def
        split: try_or_splits option.split)
  then show "gnu_candidates t hash \<noteq> Panic"
    by (auto simp: gnu_candidates_def split: prod.split outcome.split)
qed

lemma gnu_chain_last_calm: "gnu_ok t \<Longrightarrow> gnu_chain_last t index \<noteq> Panic"
proof (induction t index rule: gnu_chain_last.induct)
  case (1 t index)
  then show ?case
    using chain_entry_calm [OF 1(2), of index]
    by (subst gnu_chain_last.simps) (auto split: outcome.split)
qed

lemma gnu_highest_calm: "gnu_ok t \<Longrightarrow> gnu_highest t buckets h \<noteq> Panic"
  using bucket_start_calm gnu_chain_last_calm
  by (induction t buckets h rule: gnu_highest.induct) (auto split: option.split)

lemma gnu_symbol_count_calm: "gnu_ok t \<Longrightarrow> gnu_symbol_count t \<noteq> Panic"
  using gnu_highest_calm by (auto simp: gnu_symbol_count_def split: option.split)

lemma sysv_chain_calm: "sysv_ok t \<Longrightarrow> sysv_chain t index \<noteq> Panic"
  using region_field(1) [of "vh_chain_offset t" index 4]
  by (auto simp: sysv_chain_def sysv_ok_def)

lemma sysv_walk_calm:
  "sysv_ok t \<Longrightarrow> (\<And>i s. fst (f i s) \<noteq> Panic) \<Longrightarrow> fst (sysv_walk n t conv f index s) \<noteq> Panic"
proof (induction n t conv f index s rule: sysv_walk.induct)
  case (2 n t conv f index s)
  have c: "sysv_chain t index \<noteq> Panic" using 2(2) by (rule sysv_chain_calm)
  have f: "f i u \<noteq> (Panic, v)" for i u v using 2(3) [of i u] by auto
  show ?case
    using c f 2(1) 2(2,3) by (auto split: outcome.split prod.split if_splits)
qed simp

declare sysv_walk.simps [simp del]

lemma sysv_candidates_calm: "sysv_ok t \<Longrightarrow> sysv_candidates t hash \<noteq> Panic"
proof -
  assume t: "sysv_ok t"
  have "fst (sysv_for_each_candidate t (\<lambda>e. e) hash push_candidate []) \<noteq> Panic"
    using t region_field(1) [of "vh_bucket_offset t" "hash mod vh_bucket_count t" 4]
      sysv_walk_calm [OF t, of push_candidate]
    by (auto simp: sysv_for_each_candidate_def sysv_ok_def push_candidate_def split: try_or_splits)
  then show "sysv_candidates t hash \<noteq> Panic"
    by (auto simp: sysv_candidates_def split: prod.split outcome.split)
qed

end
