(* ===== verification/Elf_Chains.thy ===== *)
theory Elf_Chains
  imports Elf_Safety
begin

text \<open>
  The two chain walks against their meaning. A System V chain is a linked list of symbol
  indices that ends at index zero; a GNU chain is a run of consecutive indices that ends at
  the first entry with its low bit set.
\<close>

section \<open>System V chains\<close>

inductive chain_ends :: "sysv_hash \<Rightarrow> u32 \<Rightarrow> u32 list \<Rightarrow> bool" for t where
  chain_nil: "chain_ends t CHAIN_END []"
| chain_link: "index \<noteq> CHAIN_END \<Longrightarrow> index < vh_chain_count t \<Longrightarrow> sysv_chain t index = Ok following
    \<Longrightarrow> chain_ends t following rest \<Longrightarrow> chain_ends t index (index # rest)"

inductive_cases chain_ends_NilE: "chain_ends t i []"
inductive_cases chain_ends_ConsE: "chain_ends t i (x # xs)"

inductive_simps chain_ends_Nil [simp]: "chain_ends t i []"
inductive_simps chain_ends_Cons: "chain_ends t i (x # xs)"

lemma chain_ends_unique: "chain_ends t i xs \<Longrightarrow> chain_ends t i ys \<Longrightarrow> xs = ys"
proof (induction arbitrary: ys rule: chain_ends.induct)
  case chain_nil
  then show ?case by (auto elim: chain_ends.cases)
next
  case (chain_link i j xs)
  from chain_link.prems chain_link.hyps obtain zs where "ys = i # zs" "chain_ends t j zs"
    by (auto elim: chain_ends.cases)
  then show ?case using chain_link.IH by simp
qed

lemma chain_ends_suffix: "chain_ends t i xs \<Longrightarrow> j \<in> set xs \<Longrightarrow> \<exists>ys. chain_ends t j ys \<and> length ys \<le> length xs"
proof (induction rule: chain_ends.induct)
  case (chain_link i k xs)
  show ?case
  proof (cases "j = i")
    case True
    then show ?thesis using chain_ends.chain_link [OF chain_link.hyps] by fastforce
  next
    case False
    then show ?thesis using chain_link.IH chain_link.prems by fastforce
  qed
qed simp

lemma chain_ends_distinct: "chain_ends t i xs \<Longrightarrow> distinct xs"
proof (induction rule: chain_ends.induct)
  case (chain_link i j xs)
  have "i \<notin> set xs"
  proof
    assume "i \<in> set xs"
    then obtain ys where "chain_ends t i ys" "length ys \<le> length xs"
      using chain_ends_suffix [OF chain_link.hyps(4)] by blast
    with chain_ends_unique [OF chain_ends.chain_link [OF chain_link.hyps]] show False by force
  qed
  with chain_link.IH show ?case by simp
qed simp

lemma chain_ends_range: "chain_ends t i xs \<Longrightarrow> set xs \<subseteq> {0<..<vh_chain_count t}"
  by (induction rule: chain_ends.induct) (auto simp: CHAIN_END_def word_gt_0)

text \<open>A chain that ends has fewer links than the iteration limit of the walk.\<close>

lemma chain_ends_short:
  assumes "chain_ends t i xs"
  shows "length xs < min (unat (vh_chain_count t) + 1) (2 ^ 32 - 1)"
proof (cases "vh_chain_count t = 0")
  case True
  then have "xs = []" using chain_ends_range [OF assms] by (cases xs) auto
  then show ?thesis by simp
next
  case False
  have "unat ` set xs \<subseteq> {0<..<unat (vh_chain_count t)}"
    using chain_ends_range [OF assms] by (auto simp: word_less_nat_alt)
  then have "card (unat ` set xs) \<le> card {0<..<unat (vh_chain_count t)}" by (intro card_mono) auto
  moreover have "card (unat ` set xs) = length xs"
    using chain_ends_distinct [OF assms] by (subst card_image) (simp_all add: distinct_card inj_on_def word_unat_eq_iff)
  ultimately have "length xs \<le> unat (vh_chain_count t) - 1" by simp
  moreover have "0 < unat (vh_chain_count t)" "unat (vh_chain_count t) < 2 ^ 32"
    using False unat_bound [of "vh_chain_count t"] by (simp_all add: unat_gt_0)
  ultimately show ?thesis by simp
qed

lemma push_step: "push_candidate i s = (Ok False, s @ [i])"
  by (rule push_candidate_def)

lemma sysv_walk_exact:
  "sysv_walk n t (\<lambda>e. e) push_candidate i s = (Ok (), s') \<longleftrightarrow>
     (\<exists>xs. chain_ends t i xs \<and> length xs < n \<and> s' = s @ xs)"
proof (induction n arbitrary: i s)
  case (Suc n)
  show ?case
  proof (cases "i \<noteq> CHAIN_END \<and> i < vh_chain_count t")
    case True
    show ?thesis
    proof (cases "sysv_chain t i")
      case (Ok j)
      have "(\<exists>xs. chain_ends t i xs \<and> length xs < Suc n \<and> s' = s @ xs) \<longleftrightarrow>
        (\<exists>xs. chain_ends t j xs \<and> length xs < n \<and> s' = (s @ [i]) @ xs)"
      proof
        assume "\<exists>xs. chain_ends t i xs \<and> length xs < Suc n \<and> s' = s @ xs"
        then show "\<exists>xs. chain_ends t j xs \<and> length xs < n \<and> s' = (s @ [i]) @ xs"
          using True Ok by (auto elim: chain_ends.cases)
      next
        assume "\<exists>xs. chain_ends t j xs \<and> length xs < n \<and> s' = (s @ [i]) @ xs"
        then obtain xs where "chain_ends t i (i # xs)" "length (i # xs) < Suc n" "s' = s @ i # xs"
          using True Ok by (auto intro: chain_link)
        then show "\<exists>xs. chain_ends t i xs \<and> length xs < Suc n \<and> s' = s @ xs" by blast
      qed
      then show ?thesis using True Ok Suc [of j "s @ [i]"] by (auto simp: sysv_walk.simps push_step not_le)
    qed (use True in \<open>auto simp: sysv_walk.simps push_step not_le elim: chain_ends.cases\<close>)
  next
    case False
    then show ?thesis by (auto simp: sysv_walk.simps elim: chain_ends.cases intro: chain_nil)
  qed
qed (simp add: sysv_walk.simps)

definition sysv_head :: "sysv_hash \<Rightarrow> u32 \<Rightarrow> (elf_error, u32) outcome" where
  "sysv_head t hash =
     and_then (region_end (vh_bucket_offset t) (hash mod vh_bucket_count t) 4) (u32_at (vh_bytes t))"

lemma sysv_candidates_Ok:
  assumes "vh_bucket_count t \<noteq> 0"
  shows "sysv_candidates t h = Ok xs \<longleftrightarrow> (\<exists>i. sysv_head t h = Ok i \<and> chain_ends t i xs)"
proof (cases "sysv_head t h")
  case (Ok i)
  then obtain off where off: "region_end (vh_bucket_offset t) (h mod vh_bucket_count t) 4 = Ok off"
      "u32_at (vh_bytes t) off = Ok i"
    by (auto simp: sysv_head_def)
  define w where "w = sysv_walk (min (unat (vh_chain_count t) + 1) (2 ^ 32 - 1)) t (\<lambda>e. e) push_candidate i []"
  have "w = (Ok (), xs) \<longleftrightarrow> chain_ends t i xs"
    using sysv_walk_exact [of _ t i "[]" xs] chain_ends_short [of t i xs] unfolding w_def by auto
  moreover have "sysv_candidates t h = Ok xs \<longleftrightarrow> w = (Ok (), xs)"
    using assms off unfolding sysv_candidates_def sysv_for_each_candidate_def w_def
    by (auto simp: map_err_def split: prod.splits outcome.splits)
  ultimately show ?thesis using Ok by simp
qed (cases "region_end (vh_bucket_offset t) (h mod vh_bucket_count t) 4",
     use assms in \<open>simp_all add: sysv_candidates_def sysv_for_each_candidate_def sysv_head_def map_err_def\<close>)+

section \<open>GNU chains\<close>

definition gnu_ends :: "gnu_hash \<Rightarrow> u32 \<Rightarrow> u32 \<Rightarrow> bool" where
  "gnu_ends t i m \<longleftrightarrow> i \<le> m
     \<and> (\<forall>j. i \<le> j \<and> j < m \<longrightarrow> (\<exists>e. chain_entry t j = Ok e \<and> e AND 1 \<noteq> 1))
     \<and> (\<exists>e. chain_entry t m = Ok e \<and> e AND 1 = 1)"

definition hash_matches :: "gnu_hash \<Rightarrow> u32 \<Rightarrow> u32 \<Rightarrow> bool" where
  "hash_matches t h j \<longleftrightarrow> (\<exists>e. chain_entry t j = Ok e \<and> e OR 1 = h OR 1)"

definition index_run :: "u32 \<Rightarrow> u32 \<Rightarrow> u32 list" where
  "index_run i m = map word_of_nat [unat i..<unat m + 1]"

lemma index_run_set: "set (index_run i m) = {i..m}"
proof -
  have "word_of_nat n \<in> {i..m}" if "n \<in> {unat i..<unat m + 1}" for n
  proof -
    have "n < 2 ^ 32" using that unat_bound [of m] by simp
    then have "unat (word_of_nat n :: u32) = n" by (simp add: unat_of_nat)
    then show ?thesis using that by (simp add: word_le_nat_alt)
  qed
  moreover have "x \<in> word_of_nat ` {unat i..<unat m + 1}" if "x \<in> {i..m}" for x
    using that by (intro image_eqI [where x = "unat x"]) (auto simp: word_le_nat_alt)
  ultimately show ?thesis unfolding index_run_def set_map set_upt by blast
qed

lemma index_run_last [simp]: "index_run i i = [i]"
  by (simp add: index_run_def)

lemma index_run_Cons: "i < m \<Longrightarrow> index_run i m = i # index_run (i + 1) m"
proof -
  assume im: "i < m"
  then have "i \<noteq> - 1" using word_order.extremum_strict by auto
  then have "unat (i + 1) = unat i + 1" by (simp add: unat_Suc_no_wrap)
  then show ?thesis using im by (simp add: index_run_def word_less_nat_alt upt_conv_Cons)
qed

lemma word_step:
  assumes "(i :: u32) \<noteq> - 1"
  shows "i + 1 \<le> j \<longleftrightarrow> i < j"
  using unat_Suc_no_wrap [OF assms] by (simp add: word_le_nat_alt word_less_nat_alt Suc_le_eq)

lemma gnu_ends_unfold:
  "gnu_ends t i m \<longleftrightarrow> (\<exists>e. chain_entry t i = Ok e
     \<and> (if e AND 1 = 1 then m = i else i \<noteq> - 1 \<and> gnu_ends t (i + 1) m))" (is "?l \<longleftrightarrow> ?r")
proof
  assume l: ?l
  show ?r
  proof (cases "m = i")
    case True
    with l show ?thesis by (auto simp: gnu_ends_def)
  next
    case False
    with l have im: "i < m" by (auto simp: gnu_ends_def order_less_le)
    then have ne: "i \<noteq> - 1" using word_order.extremum_strict by auto
    obtain e where "chain_entry t i = Ok e" "e AND 1 \<noteq> 1" using l im by (auto simp: gnu_ends_def)
    moreover have "gnu_ends t (i + 1) m" using l im by (auto simp: gnu_ends_def word_step [OF ne] intro: less_imp_le)
    ultimately show ?thesis using ne by auto
  qed
next
  assume ?r
  then obtain e where e: "chain_entry t i = Ok e" "if e AND 1 = 1 then m = i else i \<noteq> - 1 \<and> gnu_ends t (i + 1) m"
    by blast
  show ?l
  proof (cases "e AND 1 = 1")
    case True
    with e show ?thesis by (auto simp: gnu_ends_def)
  next
    case False
    with e have ne: "i \<noteq> - 1" and g: "gnu_ends t (i + 1) m" by auto
    have "i \<le> m" using g by (auto simp: gnu_ends_def word_step [OF ne])
    moreover have "\<exists>e. chain_entry t j = Ok e \<and> e AND 1 \<noteq> 1" if "i \<le> j" "j < m" for j
      using that g e(1) False by (cases "j = i") (auto simp: gnu_ends_def word_step [OF ne])
    ultimately show ?thesis using g by (auto simp: gnu_ends_def)
  qed
qed

lemma gnu_chain_last_exact: "gnu_chain_last t i = Ok m \<longleftrightarrow> gnu_ends t i m"
proof (induction t i rule: gnu_chain_last.induct)
  case (1 t i)
  show ?case
    using 1 by (subst gnu_chain_last.simps, subst gnu_ends_unfold) (auto split: outcome.splits)
qed

lemma gnu_walk_exact:
  "gnu_walk t (\<lambda>e. e) push_candidate h i s = (Ok (), s') \<longleftrightarrow>
     (\<exists>m. gnu_ends t i m \<and> s' = s @ filter (hash_matches t h) (index_run i m))"
proof (induction "2 ^ 32 - unat i" arbitrary: i s rule: less_induct)
  case less
  show ?case
  proof (cases "chain_entry t i")
    case (Ok e)
    define s1 where "s1 = (if e OR 1 = h OR 1 then s @ [i] else s)"
    have m: "hash_matches t h i \<longleftrightarrow> e OR 1 = h OR 1" using Ok by (simp add: hash_matches_def)
    have w: "gnu_walk t (\<lambda>e. e) push_candidate h i s =
        (if e AND 1 = 1 then (Ok (), s1) else if i = - 1 then (Err IntegerOverflow, s1)
         else gnu_walk t (\<lambda>e. e) push_candidate h (i + 1) s1)"
      using Ok by (subst gnu_walk.simps) (simp add: s1_def push_candidate_def)
    show ?thesis
    proof (cases "e AND 1 = 1 \<or> i = - 1")
      case True
      then show ?thesis using Ok m unfolding w by (subst gnu_ends_unfold) (auto simp: s1_def)
    next
      case False
      then have "2 ^ 32 - unat (i + 1) < 2 ^ 32 - unat i"
        using unat_Suc_no_wrap [of i] word_max_unat [of i] by simp
      note ih = less [OF this, of s1]
      have "gnu_ends t i m \<longleftrightarrow> gnu_ends t (i + 1) m" for m
        using Ok False by (subst gnu_ends_unfold) auto
      moreover have "s @ filter (hash_matches t h) (index_run i m) =
          s1 @ filter (hash_matches t h) (index_run (i + 1) m)" if "gnu_ends t (i + 1) m" for m
        using that False m by (auto simp: s1_def gnu_ends_def word_step index_run_Cons)
      ultimately show ?thesis using False ih unfolding w by auto
    qed
  qed (subst gnu_walk.simps, subst gnu_ends_unfold, simp)+
qed

definition gnu_meaning :: "gnu_hash \<Rightarrow> u32 \<Rightarrow> u32 list \<Rightarrow> bool" where
  "gnu_meaning t h xs \<longleftrightarrow>
     bucket_start t (h mod gh_bucket_count t) = Ok None \<and> xs = []
   \<or> (\<exists>i m. bucket_start t (h mod gh_bucket_count t) = Ok (Some i) \<and> gnu_ends t i m
          \<and> xs = filter (hash_matches t h) (index_run i m))"

lemma gnu_candidates_Ok:
  assumes "gh_bucket_count t \<noteq> 0"
  shows "gnu_candidates t h = Ok xs \<longleftrightarrow> gnu_meaning t h xs"
proof (cases "\<exists>i. bucket_start t (h mod gh_bucket_count t) = Ok (Some i)")
  case True
  then obtain i where i: "bucket_start t (h mod gh_bucket_count t) = Ok (Some i)" ..
  have "gnu_candidates t h = Ok xs \<longleftrightarrow> gnu_walk t (\<lambda>e. e) push_candidate h i [] = (Ok (), xs)"
    using assms i by (auto simp: gnu_candidates_def gnu_for_each_candidate_def map_err_def
        split: prod.splits outcome.splits)
  then show ?thesis using i by (auto simp: gnu_meaning_def gnu_walk_exact)
next
  case False
  with assms show ?thesis
    by (auto simp: gnu_candidates_def gnu_for_each_candidate_def gnu_meaning_def map_err_def
        split: prod.splits outcome.splits option.splits)
qed

lemma gnu_ends_unique: "gnu_ends t i m \<Longrightarrow> gnu_ends t i n \<Longrightarrow> m = n"
  using gnu_chain_last_exact [of t i m] gnu_chain_last_exact [of t i n] by simp

text \<open>What the scan over the buckets returns bounds the end of every chain.\<close>

lemma gnu_highest_bounds:
  "gnu_highest t bs acc = Ok r \<Longrightarrow>
     (\<forall>a. acc = Some a \<longrightarrow> (\<exists>z. r = Some z \<and> a \<le> z))
     \<and> (\<forall>b \<in> set bs. bucket_start t b = Ok None
          \<or> (\<exists>i m z. bucket_start t b = Ok (Some i) \<and> gnu_ends t i m \<and> r = Some z \<and> m \<le> z))"
proof (induction bs arbitrary: acc)
  case (Cons b bs)
  from Cons.prems obtain start where start: "bucket_start t b = Ok start" by auto
  show ?case
  proof (cases start)
    case None
    with start Cons show ?thesis by auto
  next
    case (Some i)
    with start Cons.prems obtain m where m: "gnu_ends t i m"
        and rest: "gnu_highest t bs (Some (max (unwrap_or m acc) m)) = Ok r"
      by (auto simp: gnu_chain_last_exact)
    from Cons.IH [OF rest] obtain z where z: "r = Some z" "max (unwrap_or m acc) m \<le> z" by auto
    then have "\<forall>a. acc = Some a \<longrightarrow> a \<le> z" "m \<le> z" by (auto simp: unwrap_or_def)
    with z(1) Cons.IH [OF rest] start Some m show ?thesis by auto
  qed
qed simp

lemma bucket_listed: "c \<noteq> 0 \<Longrightarrow> h mod c \<in> set (map word_of_nat [0..<unat (c :: u32)])"
proof -
  assume "c \<noteq> 0"
  then have "unat (h mod c) < unat c" by (simp add: unat_mod unat_gt_0)
  moreover have "h mod c = word_of_nat (unat (h mod c))" by simp
  ultimately show ?thesis by (metis atLeast_upt image_eqI lessThan_iff set_map)
qed

lemma gnu_candidates_range:
  assumes "gh_bucket_count t \<noteq> 0" and "gnu_symbol_count t = Ok n"
  shows "\<exists>xs. gnu_candidates t h = Ok xs \<and> set xs \<subseteq> {gh_symbol_base t..<n}"
proof -
  define b where "b = h mod gh_bucket_count t"
  have b: "b \<in> set (map word_of_nat [0..<unat (gh_bucket_count t)])"
    unfolding b_def by (rule bucket_listed [OF assms(1)])
  obtain r where r: "gnu_highest t (map word_of_nat [0..<unat (gh_bucket_count t)]) None = Ok r"
      and n': "(case r of Some z \<Rightarrow> if z = - 1 then Err BadHashTable else Ok (z + 1) | None \<Rightarrow> Ok (gh_symbol_base t)) = Ok n"
    using assms(2) by (auto simp: gnu_symbol_count_def)
  have n: "z \<noteq> - 1 \<and> n = z + 1" if "r = Some z" for z
    using n' that by (auto split: if_splits)
  show ?thesis
  proof (cases "bucket_start t b = Ok None")
    case True
    then have "gnu_candidates t h = Ok []"
      unfolding gnu_candidates_Ok [OF assms(1)] gnu_meaning_def b_def by simp
    then show ?thesis by force
  next
    case False
    with gnu_highest_bounds [OF r] b obtain i m z
      where i: "bucket_start t b = Ok (Some i)" and m: "gnu_ends t i m" and z: "r = Some z" "m \<le> z"
      by blast
    define xs where "xs = filter (hash_matches t h) (index_run i m)"
    have "gnu_candidates t h = Ok xs"
      unfolding gnu_candidates_Ok [OF assms(1)] gnu_meaning_def using i m by (auto simp: xs_def b_def)
    moreover have "gh_symbol_base t \<le> i" using i by (auto simp: bucket_start_def not_less split: if_splits)
    moreover have "z < n" using n [OF z(1)] word_step [of z n] by simp
    ultimately show ?thesis using z(2) by (auto simp: xs_def index_run_set)
  qed
qed

text \<open>C13: (equivalence) the walk over a System V chain, which stops after as many steps as the
  table has chain words, returns exactly the chain its bucket heads: a list of symbol indices
  inside the table, without repetition, when the links lead to index zero; and an error exactly
  when they do not, because a link leaves the table or the links form a cycle. It never panics.\<close>

theorem sysv_candidates_exact:
  assumes "sysv_decode bs start = Ok t" and "length bs < 2 ^ 63"
  shows "case sysv_candidates t h of
      Ok xs \<Rightarrow> (\<exists>i. sysv_head t h = Ok i \<and> chain_ends t i xs) \<and> distinct xs
                 \<and> set xs \<subseteq> {0<..<sysv_symbol_count t}
    | Err _ \<Rightarrow> \<not> (\<exists>i xs. sysv_head t h = Ok i \<and> chain_ends t i xs)
    | Panic \<Rightarrow> False"
proof -
  have "sysv_ok t" using sysv_decode_ok(2) [OF assms(2,1)] .
  then have calm: "sysv_candidates t h \<noteq> Panic" by (rule sysv_candidates_calm)
  have ne: "vh_bucket_count t \<noteq> 0" using \<open>sysv_ok t\<close> by (simp add: sysv_ok_def)
  show ?thesis
  proof (cases "sysv_candidates t h")
    case (Ok xs)
    then obtain i where i: "sysv_head t h = Ok i" "chain_ends t i xs"
      using sysv_candidates_Ok [OF ne] by blast
    then show ?thesis
      using Ok chain_ends_distinct [OF i(2)] chain_ends_range [OF i(2)] by (auto simp: sysv_symbol_count_def)
  next
    case (Err e)
    then show ?thesis using sysv_candidates_Ok [OF ne, of h] by auto
  qed (use calm in simp)
qed

definition demo_sysv :: bytes where
  "demo_sysv = [1, 0, 0, 0, 3, 0, 0, 0, 1, 0, 0, 0, 0, 0, 0, 0, 2, 0, 0, 0, 0, 0, 0, 0]"

definition demo_sysv_table :: sysv_hash where
  "demo_sysv_table = \<lparr>vh_bytes = demo_sysv, vh_bucket_count = 1, vh_chain_count = 3,
     vh_bucket_offset = 8, vh_chain_offset = 12\<rparr>"

lemmas evaluate_fields = slice_get_def u32_at_def ok_or_def plain_def checked_add_usize_def
  checked_mul_usize_def usize_max_def region_end_def

lemma demo_sysv_decoded: "sysv_decode demo_sysv 0 = Ok demo_sysv_table"
  by (simp add: sysv_decode_def demo_sysv_def demo_sysv_table_def evaluate_fields)

lemma demo_sysv_chain: "chain_ends demo_sysv_table 1 [1, 2]"
  by (simp add: chain_ends_Cons sysv_chain_def demo_sysv_table_def demo_sysv_def CHAIN_END_def evaluate_fields)

lemma demo_sysv_found: "sysv_candidates demo_sysv_table 5 = Ok [1, 2]"
proof -
  have "vh_bucket_count demo_sysv_table \<noteq> 0" by (simp add: demo_sysv_table_def)
  moreover have "sysv_head demo_sysv_table 5 = Ok 1"
    by (simp add: sysv_head_def demo_sysv_table_def demo_sysv_def evaluate_fields)
  ultimately show ?thesis using demo_sysv_chain sysv_candidates_Ok by blast
qed

theorem sysv_candidates_exact_witness:
  "sysv_decode demo_sysv 0 = Ok demo_sysv_table \<and> length demo_sysv < 2 ^ 63
   \<and> (\<exists>i. sysv_head demo_sysv_table 5 = Ok i \<and> chain_ends demo_sysv_table i [1, 2])"
  using sysv_candidates_exact [OF demo_sysv_decoded, of 5] demo_sysv_decoded demo_sysv_found
  by (simp add: demo_sysv_def)

text \<open>C34: (equivalence) the candidates of a GNU hash table are exactly the entries of the bucket's
  run, up to the first entry with its end bit, whose stored hash agrees with the one looked up
  in all but the lowest bit; the walk fails exactly when the bucket or an entry of the run
  cannot be read or the run does not end. It never panics.\<close>

theorem gnu_candidates_exact:
  assumes "gnu_decode bs start = Ok t" and "length bs < 2 ^ 63"
  shows "case gnu_candidates t h of
      Ok xs \<Rightarrow> gnu_meaning t h xs
    | Err _ \<Rightarrow> \<not> (\<exists>xs. gnu_meaning t h xs)
    | Panic \<Rightarrow> False"
proof -
  have "gnu_ok t" using gnu_decode_ok(2) [OF assms(2,1)] .
  then have "gnu_candidates t h \<noteq> Panic" by (rule gnu_candidates_calm)
  moreover have "gh_bucket_count t \<noteq> 0" using \<open>gnu_ok t\<close> by (simp add: gnu_ok_def)
  ultimately show ?thesis
    using gnu_candidates_Ok [of t h] by (cases "gnu_candidates t h") auto
qed

definition demo_gnu :: bytes where
  "demo_gnu = [1, 0, 0, 0, 1, 0, 0, 0, 1, 0, 0, 0, 0, 0, 0, 0, 7, 0, 0, 0, 9, 0, 0, 0, 1, 0, 0, 0, 4, 0, 0, 0, 5, 0, 0, 0]"

definition demo_gnu_table :: gnu_hash where
  "demo_gnu_table = \<lparr>gh_bytes = demo_gnu, gh_bucket_count = 1, gh_symbol_base = 1,
     gh_bloom_word_count = 1, gh_bloom_shift = 0, gh_bloom_offset = 16, gh_bucket_offset = 24,
     gh_chain_offset = 28\<rparr>"

lemma demo_gnu_decoded: "gnu_decode demo_gnu 0 = Ok demo_gnu_table"
proof -
  have "is_power_of_two (1 :: u32)" by (auto simp: is_power_of_two_def list_ex_iff intro!: bexI [where x = 0])
  then show ?thesis by (simp add: gnu_decode_def demo_gnu_def demo_gnu_table_def evaluate_fields)
qed

lemma demo_gnu_reads:
  "bucket_start demo_gnu_table 0 = Ok (Some 1)"
  "chain_entry demo_gnu_table 1 = Ok 4" "chain_entry demo_gnu_table 2 = Ok 5"
  by (simp_all add: bucket_start_def chain_entry_def map_err_def demo_gnu_table_def demo_gnu_def
      CHAIN_END_def evaluate_fields)

lemma demo_gnu_found: "gnu_candidates demo_gnu_table 4 = Ok [1, 2]"
  using demo_gnu_reads
  by (simp add: gnu_candidates_def gnu_for_each_candidate_def gnu_walk.simps push_step map_err_def
      demo_gnu_table_def)

lemma demo_gnu_count: "gnu_symbol_count demo_gnu_table = Ok 3"
  using demo_gnu_reads
  by (simp add: gnu_symbol_count_def gnu_chain_last.simps unwrap_or_def demo_gnu_table_def)

theorem gnu_candidates_exact_witness:
  "gnu_decode demo_gnu 0 = Ok demo_gnu_table \<and> length demo_gnu < 2 ^ 63
   \<and> gnu_meaning demo_gnu_table 4 [1, 2]"
  using gnu_candidates_exact [OF demo_gnu_decoded, of 4] demo_gnu_decoded demo_gnu_found
  by (simp add: demo_gnu_def)

text \<open>When the number of symbols can be recovered from a GNU hash table, every lookup
  in that table succeeds, for every hash, and all the candidates it names are between the
  first hashed symbol and that number, so a symbol table of that size holds them all.\<close>

theorem gnu_lookup_in_symbols:
  assumes "gnu_decode bs start = Ok t" and "gnu_symbol_count t = Ok n"
  shows "\<exists>xs. gnu_candidates t h = Ok xs \<and> set xs \<subseteq> {gh_symbol_base t..<n}"
proof (rule gnu_candidates_range [OF _ assms(2)])
  show "gh_bucket_count t \<noteq> 0" using assms(1) by (auto simp: gnu_decode_def split: if_splits)
qed

theorem gnu_lookup_in_symbols_witness:
  "gnu_decode demo_gnu 0 = Ok demo_gnu_table \<and> gnu_symbol_count demo_gnu_table = Ok 3
   \<and> (\<exists>xs. gnu_candidates demo_gnu_table 6 = Ok xs \<and> set xs \<subseteq> {gh_symbol_base demo_gnu_table..<3})"
  using gnu_lookup_in_symbols [OF demo_gnu_decoded demo_gnu_count, of 6] demo_gnu_decoded demo_gnu_count
  by simp

end
