(* ===== verification/Elf_Demo.thy ===== *)
theory Elf_Demo
  imports Elf_Chains
begin

text \<open>
  A shared object of 208 bytes, on which the properties of the parser are instantiated: a file
  header, a loadable and a dynamic segment, and a dynamic table that names a string table.
\<close>

definition demo_elf :: bytes where
  "demo_elf =
    [127, 69, 76, 70, 2, 1, 1, 0, 0, 0, 0, 0, 0, 0, 0, 0, 3, 0, 62, 0, 1, 0, 0, 0,
     0, 16, 0, 0, 0, 0, 0, 0, 64, 0, 0, 0, 0, 0, 0, 0, 0, 0, 0, 0, 0, 0, 0, 0,
     0, 0, 0, 0, 64, 0, 56, 0, 2, 0, 0, 0, 0, 0, 0, 0, 1, 0, 0, 0, 5, 0, 0, 0,
     0, 0, 0, 0, 0, 0, 0, 0, 0, 16, 0, 0, 0, 0, 0, 0, 0, 16, 0, 0, 0, 0, 0, 0,
     208, 0, 0, 0, 0, 0, 0, 0, 44, 1, 0, 0, 0, 0, 0, 0, 0, 16, 0, 0, 0, 0, 0, 0,
     2, 0, 0, 0, 6, 0, 0, 0, 176, 0, 0, 0, 0, 0, 0, 0, 176, 16, 0, 0, 0, 0, 0, 0,
     176, 16, 0, 0, 0, 0, 0, 0, 32, 0, 0, 0, 0, 0, 0, 0, 32, 0, 0, 0, 0, 0, 0, 0,
     8, 0, 0, 0, 0, 0, 0, 0, 5, 0, 0, 0, 0, 0, 0, 0, 0, 16, 0, 0, 0, 0, 0, 0,
     0, 0, 0, 0, 0, 0, 0, 0, 0, 0, 0, 0, 0, 0, 0, 0]"

lemma demo_elf_length: "length demo_elf = 208"
  by (simp add: demo_elf_def)

definition demo_elf_file :: elf_file where
  "demo_elf_file = \<lparr>ef_bytes = demo_elf, ef_header =
     \<lparr>eh_object_type = 3, eh_machine = 62, eh_entry = 4096, eh_program_offset = 64,
      eh_program_entry_size = 56, eh_program_count = 2, eh_section_offset = 0,
      eh_section_entry_size = 0, eh_section_count = 0, eh_section_name_index = 0\<rparr>\<rparr>"

definition demo_load_segment :: program_header where
  "demo_load_segment = \<lparr>ph_kind = 1, ph_flags = 5, ph_offset = 0, ph_virtual_address = 4096,
     ph_file_size = 208, ph_memory_size = 300, ph_align = 4096\<rparr>"

definition demo_dynamic_segment :: program_header where
  "demo_dynamic_segment = \<lparr>ph_kind = 2, ph_flags = 6, ph_offset = 176, ph_virtual_address = 4272,
     ph_file_size = 32, ph_memory_size = 32, ph_align = 8\<rparr>"

lemma demo_header_fields:
  "slice_get demo_elf 0 4 = Some [0x7f, 0x45, 0x4c, 0x46]"
  "elf_byte demo_elf 4 = Ok 2" "elf_byte demo_elf 5 = Ok 1" "elf_byte demo_elf 6 = Ok 1"
  "u32_at demo_elf 20 = Ok 1" "u16_at demo_elf 16 = Ok 3" "u16_at demo_elf 18 = Ok 62"
  "u64_at demo_elf 24 = Ok 4096" "u64_at demo_elf 32 = Ok 64" "u64_at demo_elf 40 = Ok 0"
  "u16_at demo_elf 54 = Ok 56" "u16_at demo_elf 56 = Ok 2" "u16_at demo_elf 58 = Ok 0"
  "u16_at demo_elf 60 = Ok 0" "u16_at demo_elf 62 = Ok 0"
  by (simp_all add: demo_elf_def u16_at_def u64_at_def elf_byte_def evaluate_fields)

lemma demo_parsed: "elf_parse demo_elf = Ok demo_elf_file"
proof -
  have "checked_table demo_elf 64 56 2 = Ok ()" "checked_table demo_elf 0 0 0 = Ok ()"
    by (simp_all add: checked_table_def checked_range_def checked_mul_u64_def evaluate_fields demo_elf_length)
  then show ?thesis
    by (simp add: elf_parse_def demo_header_fields demo_elf_file_def EM_X86_64_def ET_EXEC_def ET_DYN_def)
qed

lemma demo_entries:
  "slice_get demo_elf 64 120 = Some (take 56 (drop 64 demo_elf))"
  "slice_get demo_elf 120 176 = Some (take 56 (drop 120 demo_elf))"
  "slice_get demo_elf 176 208 = Some (drop 176 demo_elf)"
  by (simp_all add: slice_get_def demo_elf_length)

lemma demo_headers: "program_headers demo_elf_file = Ok [demo_load_segment, demo_dynamic_segment]"
proof -
  have "program_header_at demo_elf_file 0 = Ok demo_load_segment" "program_header_at demo_elf_file 1 = Ok demo_dynamic_segment"
    by (simp_all add: program_header_at_def program_entry_def table_entry_def demo_elf_file_def demo_load_segment_def
        demo_dynamic_segment_def checked_range_def checked_mul_u64_def checked_add_u64_def u64_at_def evaluate_fields demo_elf_def)
  then show ?thesis by (simp add: program_headers_def demo_elf_file_def upt_rec)
qed

definition demo_strings :: table_location where
  "demo_strings = \<lparr>tl_address = 4096, tl_file_offset = 0, tl_size = None, tl_entry_size = Some 1\<rparr>"

definition demo_info :: dynamic_info where
  "demo_info = info_default\<lparr>di_entries := [\<lparr>de_tag = 5, de_value = 4096\<rparr>],
     di_plt_uses_rela := True, di_strings := Some demo_strings\<rparr>"

lemmas dynamic_tags = DT_NEEDED_def DT_SONAME_def
  DT_PLTRELSZ_def DT_HASH_def DT_STRTAB_def DT_SYMTAB_def DT_RELA_def DT_RELASZ_def
  DT_RELAENT_def DT_STRSZ_def DT_SYMENT_def DT_INIT_def DT_FINI_def DT_RPATH_def
  DT_SYMBOLIC_def DT_REL_def DT_RELSZ_def DT_RELENT_def DT_PLTREL_def DT_TEXTREL_def
  DT_JMPREL_def DT_BIND_NOW_def DT_INIT_ARRAY_def DT_FINI_ARRAY_def DT_INIT_ARRAYSZ_def
  DT_FINI_ARRAYSZ_def DT_RUNPATH_def DT_FLAGS_def DT_PREINIT_ARRAY_def
  DT_PREINIT_ARRAYSZ_def DT_RELR_def DT_RELRSZ_def DT_RELRENT_def DT_GNU_HASH_def
  DT_VERSYM_def DT_FLAGS_1_def DT_VERDEF_def DT_VERDEFNUM_def DT_VERNEED_def
  DT_VERNEEDNUM_def DF_SYMBOLIC_def DF_TEXTREL_def DF_BIND_NOW_def DF_STATIC_TLS_def
  DF_1_NOW_def DF_1_NODELETE_def

lemma demo_dynamic_parsed: "dynamic_info_of demo_elf_file = Ok (Some demo_info)"
proof -
  have table: "ef_bytes demo_elf_file = demo_elf" by (simp add: demo_elf_file_def)
  have "read_entries (chunks_exact 16 (drop 176 demo_elf)) = Ok [\<lparr>de_tag = 5, de_value = 4096\<rparr>]"
    by (simp add: demo_elf_def chunks_exact.simps i64_at_def u64_at_def evaluate_fields DT_NULL_def)
  moreover have "locate (translator_new [demo_load_segment, demo_dynamic_segment]) 4096 None (Some 1) = Ok demo_strings"
    by (simp add: locate_def translator_new_def demo_load_segment_def demo_dynamic_segment_def demo_strings_def PT_LOAD_def
        checked_add_u64_def ok_or_def)
  moreover have "ph_kind demo_load_segment = 1" "ph_kind demo_dynamic_segment = 2" "ph_offset demo_dynamic_segment = 176"
      "ph_file_size demo_dynamic_segment = 32"
    by (simp_all add: demo_load_segment_def demo_dynamic_segment_def)
  moreover have "ok_or IntegerOverflow (checked_add_usize 176 32) = Ok 208" by (simp add: evaluate_fields)
  ultimately show ?thesis
    by (simp add: dynamic_info_of_def demo_headers table demo_entries ok_or_def PT_DYNAMIC_def
        first_pass_def second_pass_def derived_flags_def info_default_def sizes_default_def demo_info_def
        dynamic_tags)
qed

end
