(* ===== verification/Elf_Props.thy ===== *)
theory Elf_Props
  imports Elf_Demo
begin

text \<open>
  What the ELF parser promises its callers: no panic, a tight load span, tables that start
  inside the file, and exact walks over both kinds of hash chains.
\<close>

text \<open>C12: (safety) no file makes the parser panic: whatever the bytes, parsing, every view of
  the parsed file, both hash tables for every hash, and the version tables return a value or
  an error. The only assumption is the one Rust makes of every slice, that it is shorter than
  half the address space.\<close>

theorem elf_never_panics:
  assumes "length bs < 2 ^ 63"
  shows "elf_parse bs \<noteq> Panic
    \<and> (\<forall>f. elf_parse bs = Ok f \<longrightarrow>
         program_headers f \<noteq> Panic \<and> section_headers f \<noteq> Panic \<and> tls_segment f \<noteq> Panic
         \<and> (\<forall>p. load_span_of f p \<noteq> Panic) \<and> dynamic_symbols f \<noteq> Panic \<and> elf_symbols f \<noteq> Panic
         \<and> relocations f \<noteq> Panic \<and> needed_libraries f \<noteq> Panic \<and> elf_soname f \<noteq> Panic
         \<and> dynamic_info_of f \<noteq> Panic
         \<and> (\<forall>info off. dynamic_string f info off \<noteq> Panic \<and> dynamic_needed f info \<noteq> Panic
              \<and> version_table_parse f info \<noteq> Panic)
         \<and> (\<forall>l. gnu_parse f l \<noteq> Panic \<and> sysv_parse f l \<noteq> Panic)
         \<and> (\<forall>l t h. gnu_parse f l = Ok t \<longrightarrow>
              may_contain t h \<noteq> Panic \<and> gnu_candidates t h \<noteq> Panic \<and> gnu_symbol_count t \<noteq> Panic)
         \<and> (\<forall>l t h. sysv_parse f l = Ok t \<longrightarrow> sysv_candidates t h \<noteq> Panic))"
proof (intro conjI allI impI)
  fix f assume "elf_parse bs = Ok f"
  then have f: "length (ef_bytes f) < 2 ^ 63" using assms by (simp add: elf_parse_bytes)
  show "gnu_parse f l \<noteq> Panic" "sysv_parse f l \<noteq> Panic" for l
    using gnu_decode_ok(1) [OF f] sysv_decode_ok(1) [OF f] by (simp_all add: gnu_parse_def sysv_parse_def)
  show "sysv_candidates t h \<noteq> Panic" if "sysv_parse f l = Ok t" for l t h
    using sysv_decode_ok(2) [OF f] that sysv_candidates_calm by (simp add: sysv_parse_def)
  fix l t h assume "gnu_parse f l = Ok t"
  then have "gnu_ok t" using gnu_decode_ok(2) [OF f] by (simp add: gnu_parse_def)
  then show "may_contain t h \<noteq> Panic" "gnu_candidates t h \<noteq> Panic" "gnu_symbol_count t \<noteq> Panic"
    by (auto dest: may_contain_calm gnu_candidates_calm gnu_symbol_count_calm)
qed (use no_panic in auto)

theorem elf_never_panics_witness:
  "length [0x7f, 0x45, 0x4c, 0x46 :: u8] < 2 ^ 63 \<and> elf_parse [0x7f, 0x45, 0x4c, 0x46] \<noteq> Panic"
  using elf_never_panics [of "[0x7f, 0x45, 0x4c, 0x46]"] by simp

section \<open>Page arithmetic\<close>

definition page_floor :: "nat \<Rightarrow> nat \<Rightarrow> nat" where
  "page_floor p n = n div p * p"

definition page_ceil :: "nat \<Rightarrow> nat \<Rightarrow> nat" where
  "page_ceil p n = (n + (p - 1)) div p * p"

lemma unat_exp64:
  assumes "k < 64"
  shows "unat (2 ^ k :: u64) = 2 ^ k"
proof -
  have "(2 :: nat) ^ k < 2 ^ 64" using assms by (intro power_strict_increasing) auto
  moreover have "(2 ^ k :: u64) = word_of_nat (2 ^ k)" by simp
  ultimately show ?thesis by (simp only: unat_of_nat) simp
qed

lemma power_of_twoE:
  assumes "is_power_of_two (p :: u64)"
  obtains k where "k < 64" and "unat p = 2 ^ k" and "p - 1 = mask k"
proof -
  obtain k where k: "k < 64" "p = push_bit k 1"
    using assms by (auto simp: is_power_of_two_def list_ex_iff)
  have "unat p = 2 ^ k" using k by (simp add: push_bit_of_1 unat_exp64)
  moreover have "p - 1 = mask k"
    using k by (simp add: push_bit_of_1 mask_eq_exp_minus_1)
  ultimately show thesis using k(1) that by blast
qed

lemma unat_page_floor:
  assumes "is_power_of_two (p :: u64)"
  shows "unat (x AND NOT (p - 1)) = page_floor (unat p) (unat x)"
proof -
  obtain k where k: "k < 64" "unat p = 2 ^ k" "p - 1 = mask k" by (rule power_of_twoE [OF assms])
  have "x AND NOT (p - 1) = push_bit k (drop_bit k x)"
    unfolding k(3) by (intro bit_eqI) (auto simp: bit_simps)
  moreover have "unat (drop_bit k x) = unat x div 2 ^ k"
    using k(1) by (simp add: drop_bit_eq_div unat_div unat_exp64)
  then have "unat (push_bit k (drop_bit k x)) = take_bit 64 (unat x div 2 ^ k * 2 ^ k)"
    using k(1) by (simp add: push_bit_eq_mult unat_word_ariths unat_exp64 take_bit_eq_mod)
  moreover have "unat x div 2 ^ k * 2 ^ k < 2 ^ 64"
    by (rule le_less_trans [OF div_times_less_eq_dividend]) (use unat_bound [of x] in simp)
  ultimately show ?thesis by (simp add: page_floor_def k(2) take_bit_nat_eq_self)
qed

lemma elf_align_up_Ok:
  assumes "is_power_of_two p" and "elf_align_up v p = Ok w"
  shows "unat w = page_ceil (unat p) (unat v)"
proof -
  obtain k where k: "unat p = 2 ^ k" "p - 1 = mask k" by (rule power_of_twoE [OF assms(1)])
  have "1 \<le> unat p" by (simp add: k(1))
  then have "unat (p - 1) = unat p - 1" by (simp add: unat_sub word_le_nat_alt)
  with assms show ?thesis
    by (auto simp: elf_align_up_def checked_add_u64_Some unat_page_floor page_floor_def page_ceil_def)
qed

lemma page_bounds:
  "0 < p \<Longrightarrow> page_floor p n \<le> n" "0 < p \<Longrightarrow> n \<le> page_ceil p n"
  "p dvd page_floor p n" "p dvd page_ceil p n"
proof -
  show "page_floor p n \<le> n" by (simp add: page_floor_def)
  show "p dvd page_floor p n" "p dvd page_ceil p n" by (simp_all add: page_floor_def page_ceil_def)
  assume p: "0 < p"
  have "n + (p - 1) < p + p * ((n + (p - 1)) div p)" using p by (rule dividend_less_times_div)
  then have "n + (p - 1) < page_ceil p n + p" by (simp only: page_ceil_def mult.commute add.commute)
  then show "n \<le> page_ceil p n" using p by simp
qed

lemma page_optimal:
  "0 < p \<Longrightarrow> p dvd a \<Longrightarrow> a \<le> n \<Longrightarrow> a \<le> page_floor p n"
  "0 < p \<Longrightarrow> p dvd b \<Longrightarrow> n \<le> b \<Longrightarrow> page_ceil p n \<le> b"
proof -
  assume p: "0 < p"
  show "a \<le> page_floor p n" if "p dvd a" "a \<le> n"
    using that div_le_mono [of a n p] by (auto simp: page_floor_def elim!: dvdE)
  show "page_ceil p n \<le> b" if "p dvd b" "n \<le> b"
  proof -
    obtain c where c: "b = p * c" using \<open>p dvd b\<close> by (rule dvdE)
    have "n + (p - 1) < p * (c + 1)" using that p c by simp
    then have "(n + (p - 1)) div p < c + 1" using p by (simp add: div_less_iff_less_mult mult.commute)
    then have "(n + (p - 1)) div p * p \<le> c * p" by (intro mult_le_mono1) simp
    then show ?thesis by (simp only: page_ceil_def c mult.commute)
  qed
qed

section \<open>The load span\<close>

definition loads :: "program_header list \<Rightarrow> program_header list" where
  "loads hs = filter (\<lambda>h. ph_kind h = PT_LOAD \<and> ph_memory_size h \<noteq> 0) hs"

definition seg_start :: "program_header \<Rightarrow> nat" where
  "seg_start h = unat (ph_virtual_address h)"

definition seg_end :: "program_header \<Rightarrow> nat" where
  "seg_end h = unat (ph_virtual_address h) + unat (ph_memory_size h)"

lemma span_loop_bounds:
  assumes "is_power_of_two p"
  shows "span_loop p hs a b = Ok (a', b') \<Longrightarrow>
      unat a' \<le> unat a \<and> unat b \<le> unat b'
      \<and> (\<forall>h \<in> set (loads hs). unat a' \<le> page_floor (unat p) (seg_start h)
           \<and> page_ceil (unat p) (seg_end h) \<le> unat b')
      \<and> (a' = a \<or> (\<exists>h \<in> set (loads hs). unat a' = page_floor (unat p) (seg_start h)))
      \<and> (b' = b \<or> (\<exists>h \<in> set (loads hs). unat b' = page_ceil (unat p) (seg_end h)))"
proof (induction hs arbitrary: a b)
  case (Cons h hs)
  show ?case
  proof (cases "ph_kind h \<noteq> PT_LOAD \<or> ph_memory_size h = 0")
    case True
    with Cons show ?thesis by (auto simp: loads_def)
  next
    case False
    define start where "start = ph_virtual_address h AND NOT (p - 1)"
    from False Cons.prems obtain e top where e: "checked_add_u64 (ph_virtual_address h) (ph_memory_size h) = Some e"
        and top: "elf_align_up e p = Ok top"
        and rest: "span_loop p hs (min a start) (max b top) = Ok (a', b')"
      by (auto simp: start_def Let_def)
    have s: "unat start = page_floor (unat p) (seg_start h)"
      by (simp add: start_def unat_page_floor [OF assms] seg_start_def)
    have "unat e = seg_end h" using e by (simp add: checked_add_u64_Some seg_end_def)
    then have t: "unat top = page_ceil (unat p) (seg_end h)" using elf_align_up_Ok [OF assms top] by simp
    have m: "unat (min a start) = min (unat a) (unat start)" "unat (max b top) = max (unat b) (unat top)"
      by (auto simp: min_def max_def word_le_nat_alt)
    have l: "set (loads (h # hs)) = insert h (set (loads hs))" using False by (auto simp: loads_def)
    show ?thesis
      using Cons.IH [OF rest] unfolding l m
      by (auto simp: s [symmetric] t [symmetric] min_def max_def word_le_nat_alt split: if_splits)
  qed
qed (simp add: loads_def)

lemma load_span_Ok:
  assumes "load_span_of f p = Ok s"
  obtains hs where "program_headers f = Ok hs" and "is_power_of_two p"
    and "span_loop p hs (- 1) 0 = Ok (ls_start s, ls_end s)" and "ls_start s \<noteq> - 1" and "ls_start s < ls_end s"
  using assms by (auto simp: load_span_of_def split: if_splits prod.splits)

text \<open>C35: (functional) the load span of a file is the smallest page-aligned interval that holds all
  its loadable segments: both ends are multiples of the page size, every loadable segment
  lies inside, and every page-aligned interval that holds them all contains it. Its length is
  then computed without underflow.\<close>

theorem load_span_smallest:
  assumes "load_span_of f p = Ok s" and "program_headers f = Ok hs"
  shows "loads hs \<noteq> [] \<and> unat p dvd unat (ls_start s) \<and> unat p dvd unat (ls_end s)
    \<and> (\<forall>h \<in> set (loads hs). unat (ls_start s) \<le> seg_start h \<and> seg_end h \<le> unat (ls_end s))
    \<and> (\<forall>a b. unat p dvd a \<and> unat p dvd b \<and> (\<forall>h \<in> set (loads hs). a \<le> seg_start h \<and> seg_end h \<le> b)
         \<longrightarrow> a \<le> unat (ls_start s) \<and> unat (ls_end s) \<le> b)
    \<and> span_len s = Ok (unat (ls_end s) - unat (ls_start s))"
proof -
  have p: "is_power_of_two p" and l: "span_loop p hs (- 1) 0 = Ok (ls_start s, ls_end s)"
    and ne: "ls_start s \<noteq> - 1" and less: "ls_start s < ls_end s"
    using load_span_Ok [OF assms(1)] assms(2) by auto
  have pos: "0 < unat p" by (rule power_of_twoE [OF p]) simp
  note b = span_loop_bounds [OF p l]
  have "ls_end s \<noteq> 0" using less by auto
  with b ne obtain h g where h: "h \<in> set (loads hs)" "unat (ls_start s) = page_floor (unat p) (seg_start h)"
      and g: "g \<in> set (loads hs)" "unat (ls_end s) = page_ceil (unat p) (seg_end g)"
    by auto
  have inside: "unat (ls_start s) \<le> seg_start x \<and> seg_end x \<le> unat (ls_end s)" if "x \<in> set (loads hs)" for x
  proof -
    have "unat (ls_start s) \<le> page_floor (unat p) (seg_start x)" "page_ceil (unat p) (seg_end x) \<le> unat (ls_end s)"
      using b that by auto
    then show ?thesis
      using page_bounds(1) [OF pos, of "seg_start x"] page_bounds(2) [OF pos, of "seg_end x"] by linarith
  qed
  have tight: "a \<le> unat (ls_start s) \<and> unat (ls_end s) \<le> c"
    if "unat p dvd a" "unat p dvd c" "\<forall>h \<in> set (loads hs). a \<le> seg_start h \<and> seg_end h \<le> c" for a c
    using that h g page_optimal(1) [OF pos, of a "seg_start h"] page_optimal(2) [OF pos, of c "seg_end g"] by auto
  have "span_len s = Ok (unat (ls_end s) - unat (ls_start s))"
    using less unat_sub [of "ls_start s" "ls_end s"] by (auto simp: span_len_def)
  moreover have "loads hs \<noteq> []" using h(1) by auto
  moreover have "unat p dvd unat (ls_start s)" "unat p dvd unat (ls_end s)"
    unfolding h(2) g(2) by (rule page_bounds(3,4))+
  ultimately show ?thesis using inside tight by blast
qed

lemma demo_span: "load_span_of demo_elf_file 4096 = Ok \<lparr>ls_start = 4096, ls_end = 8192\<rparr>"
proof -
  have "is_power_of_two (4096 :: u64)"
    by (auto simp: is_power_of_two_def list_ex_iff push_bit_of_1 intro!: bexI [where x = 12])
  then show ?thesis
    by (simp add: load_span_of_def demo_headers demo_load_segment_def demo_dynamic_segment_def PT_LOAD_def elf_align_up_def
        checked_add_u64_def ok_or_def)
qed

theorem load_span_smallest_witness:
  "load_span_of demo_elf_file 4096 = Ok \<lparr>ls_start = 4096, ls_end = 8192\<rparr>
   \<and> program_headers demo_elf_file = Ok [demo_load_segment, demo_dynamic_segment]
   \<and> span_len \<lparr>ls_start = 4096, ls_end = 8192\<rparr> = Ok 4096"
  using load_span_smallest [OF demo_span demo_headers] demo_span demo_headers by simp

section \<open>Located tables\<close>

definition info_tables :: "dynamic_info \<Rightarrow> table_location set" where
  "info_tables info = {t. Some t \<in> {di_strings info, di_symbols info, di_sysv_hash info,
     di_gnu_hash info, di_rela info, di_jmprel info, di_relr info, di_version_symbols info,
     di_version_definitions info, di_version_needs info, di_init_array info, di_fini_array info,
     di_preinit_array info}}"

lemma first_pass_tables: "info_tables (fst (first_pass e acc)) = info_tables (fst acc)"
  by (cases acc) (simp add: first_pass_def info_tables_def Let_def)

lemma first_passes_tables: "info_tables (fst (fold first_pass es acc)) = info_tables (fst acc)"
  by (induction es arbitrary: acc) (simp_all add: first_pass_tables)

lemma derived_flags_tables: "info_tables (derived_flags info) = info_tables info"
  by (simp add: derived_flags_def info_tables_def)

lemma second_pass_tables:
  assumes "second_pass segs sizes e info = Ok info'" and "t \<in> info_tables info'"
  shows "t \<in> info_tables info \<or> (\<exists>sz ent. locate segs (de_value e) sz ent = Ok t)"
  using assms unfolding second_pass_def Let_def
  by (auto simp: info_tables_def split: if_splits)

lemma second_passes_tables:
  "second_passes segs sizes es info = Ok info' \<Longrightarrow> t \<in> info_tables info' \<Longrightarrow>
     t \<in> info_tables info \<or> (\<exists>a sz ent. locate segs a sz ent = Ok t)"
proof (induction es arbitrary: info)
  case (Cons e es)
  then show ?case by (fastforce dest: second_pass_tables)
qed simp

lemma to_file_offset_Ok:
  "to_file_offset segs a = Ok n \<Longrightarrow>
     \<exists>s \<in> set segs. seg_start s \<le> unat a \<and> unat a < seg_start s + unat (ph_file_size s)
       \<and> n = unat (ph_offset s) + (unat a - seg_start s)"
proof (induction segs a rule: to_file_offset.induct)
  case (2 s rest a)
  then obtain e where e: "checked_add_u64 (ph_virtual_address s) (ph_file_size s) = Some e" by auto
  show ?case
  proof (cases "a \<ge> ph_virtual_address s \<and> a < e")
    case True
    with 2(2) e obtain off where "checked_add_u64 (ph_offset s) (a - ph_virtual_address s) = Some off" "n = unat off"
      by auto
    with True e show ?thesis
      by (auto simp: checked_add_u64_Some unat_sub word_le_nat_alt word_less_nat_alt seg_start_def)
  next
    case False
    with 2 e show ?thesis by auto
  qed
qed simp

lemma program_header_in_file:
  assumes "program_headers f = Ok hs" and "h \<in> set hs"
  shows "unat (ph_offset h) + unat (ph_file_size h) \<le> length (ef_bytes f)"
proof -
  obtain i where "program_header_at f i = Ok h"
    using collect_each_set [OF assms(1) [unfolded program_headers_def] assms(2)] by blast
  then show ?thesis
    by (auto simp: program_header_at_def checked_range_def slice_get_Some split: if_splits)
qed

text \<open>The tables of a parsed dynamic segment are inside the file: each location in the
  result has the address its entry stated, that address lies in the file-backed part of a
  loadable segment, and the file offset is the position of that byte in the file.\<close>

theorem dynamic_tables_in_file:
  assumes "elf_parse bs = Ok f" and "dynamic_info_of f = Ok (Some info)" and "t \<in> info_tables info"
  shows "tl_file_offset t < length bs
    \<and> (\<exists>hs h. program_headers f = Ok hs \<and> h \<in> set (loads hs)
         \<and> seg_start h \<le> unat (tl_address t)
         \<and> unat (tl_address t) < seg_start h + unat (ph_file_size h)
         \<and> tl_file_offset t = unat (ph_offset h) + (unat (tl_address t) - seg_start h))"
proof -
  define acc where "acc es = fold first_pass es
      (info_default\<lparr>di_entries := es, di_plt_uses_rela := True\<rparr>, sizes_default)" for es
  obtain hs es where hs: "program_headers f = Ok hs"
      and sp: "second_passes (translator_new hs) (snd (acc es)) es (derived_flags (fst (acc es))) = Ok info"
    using assms(2)
    by (auto simp: dynamic_info_of_def acc_def Let_def case_prod_beta split: option.splits if_splits)
  have "info_tables (fst (acc es)) = info_tables (info_default\<lparr>di_entries := es, di_plt_uses_rela := True\<rparr>)"
    by (simp only: acc_def first_passes_tables fst_conv)
  then have "info_tables (derived_flags (fst (acc es))) = {}"
    by (simp only: derived_flags_tables) (simp add: info_tables_def info_default_def)
  then obtain a sz ent where "locate (translator_new hs) a sz ent = Ok t"
    using second_passes_tables [OF sp assms(3)] by blast
  then obtain n where n: "to_file_offset (translator_new hs) a = Ok n" "tl_address t = a" "tl_file_offset t = n"
    by (auto simp: locate_def)
  then obtain h where h: "h \<in> set (loads hs)" "seg_start h \<le> unat a"
      "unat a < seg_start h + unat (ph_file_size h)" "n = unat (ph_offset h) + (unat a - seg_start h)"
    using to_file_offset_Ok [OF n(1)] by (auto simp: translator_new_def loads_def simp del: add_diff_assoc)
  then have "unat (ph_offset h) + unat (ph_file_size h) \<le> length bs"
    using program_header_in_file [OF hs] elf_parse_bytes [OF assms(1)] by (auto simp: loads_def)
  with h n hs show ?thesis by auto
qed

theorem dynamic_tables_in_file_witness:
  "elf_parse demo_elf = Ok demo_elf_file \<and> dynamic_info_of demo_elf_file = Ok (Some demo_info)
   \<and> demo_strings \<in> info_tables demo_info \<and> tl_file_offset demo_strings < length demo_elf"
proof -
  have "demo_strings \<in> info_tables demo_info" by (simp add: info_tables_def demo_info_def)
  with dynamic_tables_in_file [OF demo_parsed demo_dynamic_parsed] demo_parsed demo_dynamic_parsed
  show ?thesis by blast
qed

end
