(* ===== verification/User_Namespace.thy ===== *)
theory User_Namespace
  imports Rust_Text Vfs_Errno
begin

text \<open>
  User namespaces, \<^verbatim>\<open>kinakaze-vfs/src/user_namespace.rs\<close>: the identity maps and their codec, the
  state of a namespace as it is published in its shared object, capabilities over other
  namespaces, and the operations of a process. The world has the published bytes of every
  namespace object (or the error opening it gives) and the processes; each operation is one
  step. Opening objects and keeping them open is left to the host record, as are the
  failures of publishing and registering.
\<close>

section \<open>Identity maps\<close>

text \<open>First identity inside, first identity outside, and length of an extent.\<close>

type_synonym id_row = "u32 \<times> u32 \<times> u32"

fun row_in :: "id_row \<Rightarrow> nat" where "row_in (a, b, n) = unat a"
fun row_out :: "id_row \<Rightarrow> nat" where "row_out (a, b, n) = unat b"
fun row_len :: "id_row \<Rightarrow> nat" where "row_len (a, b, n) = unat n"

record id_mapping =
  im_uid :: "id_row list"
  im_gid :: "id_row list"

definition map_rows :: "id_mapping \<Rightarrow> bool \<Rightarrow> id_row list" where
  "map_rows m grp = (if grp then im_gid m else im_uid m)"

fun row_encode :: "id_row \<Rightarrow> bytes" where
  "row_encode (a, b, n) = u32_le a @ u32_le b @ u32_le n"

definition rows_encode :: "id_row list \<Rightarrow> bytes" where
  "rows_encode rows = u32_le (word_of_nat (length rows)) @ concat (map row_encode rows)"

definition mapping_encode :: "id_mapping \<Rightarrow> bytes" where
  "mapping_encode m = concat (map rows_encode [im_uid m, im_gid m])"

definition overlap_in :: "id_row \<Rightarrow> id_row \<Rightarrow> bool" where
  "overlap_in row previous \<longleftrightarrow>
     row_in row < row_in previous + row_len previous \<and> row_in previous < row_in row + row_len row"

definition overlap_out :: "id_row \<Rightarrow> id_row \<Rightarrow> bool" where
  "overlap_out row previous \<longleftrightarrow>
     row_out row < row_out previous + row_len previous \<and> row_out previous < row_out row + row_len row"

definition u32_max :: nat where "u32_max = 2 ^ 32 - 1"

definition bad_row :: "id_row \<Rightarrow> bool" where
  "bad_row row \<longleftrightarrow>
     row_len row = 0 \<or> u32_max < row_in row + row_len row \<or> u32_max < row_out row + row_len row"

fun validate_from :: "id_row list \<Rightarrow> id_row list \<Rightarrow> (i32, unit) outcome" where
  "validate_from previous [] = Ok ()"
| "validate_from previous (row # rest) =
     (if bad_row row then Err EINVAL
      else if list_ex (\<lambda>p. overlap_in row p \<or> overlap_out row p) previous then Err EINVAL
      else validate_from (previous @ [row]) rest)"

definition validate_rows :: "id_row list \<Rightarrow> (i32, unit) outcome" where
  "validate_rows rows = validate_from [] rows"

text \<open>The cursor of the decoder is the rest of the bytes.\<close>

definition take_word :: "bytes \<Rightarrow> (i32, u32 \<times> bytes) outcome" where
  "take_word rest =
     (if 4 \<le> length rest then Ok (word_of_nat (le_nat (take 4 rest)), drop 4 rest) else Err EIO)"

fun take_rows :: "nat \<Rightarrow> bytes \<Rightarrow> (i32, id_row list \<times> bytes) outcome" where
  "take_rows 0 rest = Ok ([], rest)"
| "take_rows (Suc count) rest =
     and_then (take_word rest) (\<lambda>(a, rest).
     and_then (take_word rest) (\<lambda>(b, rest).
     and_then (take_word rest) (\<lambda>(n, rest).
     and_then (take_rows count rest) (\<lambda>(rows, rest). Ok ((a, b, n) # rows, rest)))))"

definition take_map :: "bytes \<Rightarrow> (i32, id_row list \<times> bytes) outcome" where
  "take_map rest =
     and_then (take_word rest) (\<lambda>(count, rest).
     if count > 340 then Err EIO
     else
       and_then (take_rows (unat count) rest) (\<lambda>(rows, rest).
       and_then (validate_rows rows) (\<lambda>_. Ok (rows, rest))))"

definition mapping_decode :: "bytes \<Rightarrow> (i32, id_mapping) outcome" where
  "mapping_decode bs =
     and_then (take_map bs) (\<lambda>(uid, rest).
     and_then (take_map rest) (\<lambda>(gid, rest).
     if rest \<noteq> [] then Err EIO else Ok \<lparr>im_uid = uid, im_gid = gid\<rparr>))"

text \<open>\<open>find_map\<close> of an iterator.\<close>

fun find_map :: "('a \<Rightarrow> 'b option) \<Rightarrow> 'a list \<Rightarrow> 'b option" where
  "find_map f [] = None"
| "find_map f (x # xs) = (case f x of Some y \<Rightarrow> Some y | None \<Rightarrow> find_map f xs)"

definition checked_sub_u32 :: "u32 \<Rightarrow> u32 \<Rightarrow> u32 option" where
  "checked_sub_u32 a b = (if b \<le> a then Some (a - b) else None)"

definition checked_add_u32 :: "u32 \<Rightarrow> u32 \<Rightarrow> u32 option" where
  "checked_add_u32 a b = (if unat a + unat b < 2 ^ 32 then Some (a + b) else None)"

fun translate_row :: "u32 \<Rightarrow> bool \<Rightarrow> id_row \<Rightarrow> u32 option" where
  "translate_row value back (a, b, n) =
     (let (frm, to) = (if back then (b, a) else (a, b)) in
      case checked_sub_u32 value frm of
        Some k \<Rightarrow> if k < n then checked_add_u32 to k else None
      | None \<Rightarrow> None)"

definition translate :: "id_row list \<Rightarrow> u32 \<Rightarrow> bool \<Rightarrow> u32 option" where
  "translate rows value back = find_map (translate_row value back) rows"

definition map_down :: "id_mapping \<Rightarrow> u32 \<Rightarrow> bool \<Rightarrow> u32 option" where
  "map_down m value grp = translate (map_rows m grp) value False"

definition map_up :: "id_mapping \<Rightarrow> u32 \<Rightarrow> bool \<Rightarrow> u32 option" where
  "map_up m value grp = translate (map_rows m grp) value True"

fun range_up_row :: "u32 \<Rightarrow> u32 \<Rightarrow> id_row \<Rightarrow> u32 option" where
  "range_up_row lo count (a, b, n) =
     (case checked_sub_u32 lo b of
        None \<Rightarrow> None
      | Some k \<Rightarrow> if unat k + unat count \<le> unat n then checked_add_u32 a k else None)"

definition range_up :: "id_mapping \<Rightarrow> u32 \<Rightarrow> u32 \<Rightarrow> bool \<Rightarrow> u32 option" where
  "range_up m lo count grp =
     (if count = 0 then None else find_map (range_up_row lo count) (map_rows m grp))"

definition map_stat :: "id_mapping \<Rightarrow> u32 \<times> u32 \<Rightarrow> u32 \<times> u32" where
  "map_stat m ids =
     (case map_down m (fst ids) False of Some u \<Rightarrow> u | None \<Rightarrow> 65534,
      case map_down m (snd ids) True of Some g \<Rightarrow> g | None \<Rightarrow> 65534)"

section \<open>The published state\<close>

record ns_state =
  ns_owner :: u32
  ns_parent :: u64
  ns_denied_groups :: bool
  ns_maps :: id_mapping

definition NS_MAGIC :: bytes where
  "NS_MAGIC = [0x43, 0x59, 0x55, 0x53, 0x45, 0x52, 0x30, 0x31]"

definition state_encode :: "ns_state \<Rightarrow> bytes" where
  "state_encode st =
     NS_MAGIC @ u32_le (ns_owner st) @ u32_le (if ns_denied_groups st then 1 else 0)
       @ u64_le (ns_parent st) @ mapping_encode (ns_maps st)"

definition state_decode :: "bytes \<Rightarrow> (i32, ns_state) outcome" where
  "state_decode bs =
     (if length bs < 24 \<or> take 8 bs \<noteq> NS_MAGIC then Err EIO
      else
        and_then (mapping_decode (drop 24 bs)) (\<lambda>maps.
        Ok \<lparr>ns_owner = word_of_nat (le_nat (take 4 (drop 8 bs))),
            ns_parent = word_of_nat (le_nat (take 8 (drop 16 bs))),
            ns_denied_groups = (take 4 (drop 12 bs) \<noteq> [0, 0, 0, 0]),
            ns_maps = maps\<rparr>))"

definition initial_state :: ns_state where
  "initial_state = \<lparr>ns_owner = 0, ns_parent = 0, ns_denied_groups = False,
     ns_maps = \<lparr>im_uid = [(0, 0, - 1)], im_gid = [(0, 0, - 1)]\<rparr>\<rparr>"

section \<open>The world\<close>

definition ALL_CAPS :: u64 where "ALL_CAPS = push_bit 41 1 - 1"

record ns_process =
  np_ns :: u64
  np_caps :: "u64 \<times> u64 \<times> u64"
  np_uid :: u32
  np_gid :: u32
  np_threads :: nat
  np_confined :: bool
  np_private :: bool

record ns_world =
  nw_store :: "u64 \<Rightarrow> i32 + bytes"
  nw_next :: u64
  nw_proc :: "u32 \<Rightarrow> ns_process option"

record ns_host =
  nh_create :: "u64 \<Rightarrow> i32 option"
  nh_publish :: "bytes \<Rightarrow> i32 option"
  nh_retain :: "u64 \<Rightarrow> i32 option"
  nh_register :: "u64 \<Rightarrow> bool"

definition NS_BANK_SIZE :: nat where "NS_BANK_SIZE = 32 * 1024 * 1024"

text \<open>\<open>Store::update\<close>: read, compute, and publish what changed.\<close>

definition store_update ::
    "ns_host \<Rightarrow> u64 \<Rightarrow> (bytes \<Rightarrow> (i32, bytes \<times> 'a) outcome) \<Rightarrow> ns_world \<Rightarrow> (i32, 'a) outcome \<times> ns_world" where
  "store_update h ident action w =
     (case nw_store w ident of
        Inl e \<Rightarrow> (Err e, w)
      | Inr old \<Rightarrow>
          try_or w (action old) (\<lambda>(new, result).
          if length new > NS_BANK_SIZE - 8 then (Err ENOSPC, w)
          else if new = old then (Ok result, w)
          else case nh_publish h new of
                 Some e \<Rightarrow> (Err e, w)
               | None \<Rightarrow> (Ok result, w\<lparr>nw_store := (nw_store w)(ident := Inr new)\<rparr>)))"

definition state_of :: "ns_world \<Rightarrow> u64 \<Rightarrow> (i32, ns_state) outcome" where
  "state_of w ident = (case nw_store w ident of Inl e \<Rightarrow> Err e | Inr bs \<Rightarrow> state_decode bs)"

definition current_ns :: "ns_world \<Rightarrow> u32 \<Rightarrow> (i32, u64) outcome" where
  "current_ns w me = (case nw_proc w me of None \<Rightarrow> Err EIO | Some p \<Rightarrow> Ok (np_ns p))"

definition ns_id :: "ns_world \<Rightarrow> u32 \<Rightarrow> u32 \<Rightarrow> (i32, u64) outcome" where
  "ns_id w me pid =
     (if pid = me then current_ns w me
      else case nw_proc w pid of None \<Rightarrow> Err ENOENT | Some p \<Rightarrow> Ok (np_ns p))"

definition is_initial :: "ns_world \<Rightarrow> u32 \<Rightarrow> bool" where
  "is_initial w me \<longleftrightarrow> current_ns w me = Ok 1"

section \<open>Capabilities\<close>

definition set_capabilities ::
    "u64 \<times> u64 \<times> u64 \<Rightarrow> u32 \<Rightarrow> ns_world \<Rightarrow> (i32, unit) outcome \<times> ns_world" where
  "set_capabilities caps me w =
     (case nw_proc w me of
        None \<Rightarrow> (Err EIO, w)
      | Some p \<Rightarrow>
          let (effective, permitted, inheritable) = caps in
          if effective AND NOT permitted \<noteq> 0
             \<or> \<not> is_initial w me \<and> permitted AND NOT (fst (snd (np_caps p))) \<noteq> 0
          then (Err EPERM, w)
          else (Ok (), w\<lparr>nw_proc := (nw_proc w)(me \<mapsto>
                 p\<lparr>np_caps := (effective AND ALL_CAPS, permitted AND ALL_CAPS, inheritable AND ALL_CAPS)\<rparr>)\<rparr>))"

fun capable_loop :: "nat \<Rightarrow> ns_world \<Rightarrow> u64 \<Rightarrow> u32 \<Rightarrow> bool \<Rightarrow> u64 \<Rightarrow> bool" where
  "capable_loop 0 w own uid has_cap ns = False"
| "capable_loop (Suc n) w own uid has_cap ns =
     (if ns = own then has_cap
      else case state_of w ns of
             Ok st \<Rightarrow>
               if ns_parent st = own \<and> ns_owner st = uid then True
               else if ns_parent st = 0 then False
               else capable_loop n w own uid has_cap (ns_parent st)
           | _ \<Rightarrow> False)"

definition holds_cap :: "ns_process \<Rightarrow> nat \<Rightarrow> bool" where
  "holds_cap p cap \<longleftrightarrow>
     fst (np_caps p) AND push_bit cap 1 \<noteq> 0 \<or> np_ns p = 1 \<and> np_uid p = 0"

definition capable :: "ns_world \<Rightarrow> u32 \<Rightarrow> u64 \<Rightarrow> nat \<Rightarrow> bool" where
  "capable w me target cap =
     (case nw_proc w me of
        None \<Rightarrow> False
      | Some p \<Rightarrow> capable_loop 33 w (np_ns p) (np_uid p) (holds_cap p cap) target)"

definition current_capable :: "ns_world \<Rightarrow> u32 \<Rightarrow> nat \<Rightarrow> bool" where
  "current_capable w me cap =
     (case current_ns w me of Ok ident \<Rightarrow> capable w me ident cap | _ \<Rightarrow> False)"

section \<open>Composed maps\<close>

text \<open>The loop leaves with the namespace it has reached, which is the initial one after a break.\<close>

fun chain_loop :: "nat \<Rightarrow> ns_world \<Rightarrow> u64 \<Rightarrow> (i32, id_mapping list \<times> u64) outcome" where
  "chain_loop 0 w at = Ok ([], at)"
| "chain_loop (Suc n) w at =
     and_then (state_of w at) (\<lambda>st.
     if at = 1 then Ok ([ns_maps st], at)
     else if ns_parent st = 0 then Err EIO
     else and_then (chain_loop n w (ns_parent st)) (\<lambda>(chain, at). Ok (ns_maps st # chain, at)))"

text \<open>Extents that do not overlap are skipped; the additions of \<open>u32\<close> panic on overflow.\<close>

definition compose_row :: "id_row \<Rightarrow> id_row \<Rightarrow> (i32, id_row list) outcome" where
  "compose_row row p =
     (let lo = max (row_out row) (row_in p);
          hi = min (row_out row + row_len row) (row_in p + row_len p)
      in if lo < hi then
           (case (checked_add_u32 (fst row) (word_of_nat (lo - row_out row)),
                  checked_add_u32 (fst (snd p)) (word_of_nat (lo - row_in p))) of
              (Some a, Some b) \<Rightarrow> Ok [(a, b, word_of_nat (hi - lo))]
            | _ \<Rightarrow> Panic)
         else Ok [])"

fun compose_all :: "(id_row \<times> id_row) list \<Rightarrow> (i32, id_row list) outcome" where
  "compose_all [] = Ok []"
| "compose_all ((row, p) # rest) =
     and_then (compose_row row p) (\<lambda>xs. and_then (compose_all rest) (\<lambda>ys. Ok (xs @ ys)))"

definition compose :: "id_row list \<Rightarrow> id_row list \<Rightarrow> (i32, id_row list) outcome" where
  "compose rows parent = compose_all (List.product rows parent)"

text \<open>Popping from the end of the chain composes towards its front.\<close>

fun compose_chain :: "id_mapping list \<Rightarrow> id_mapping \<Rightarrow> (i32, id_mapping) outcome" where
  "compose_chain [] result = Ok result"
| "compose_chain (child # rest) result =
     and_then (compose (im_uid child) (im_uid result)) (\<lambda>uid.
     and_then (compose (im_gid child) (im_gid result)) (\<lambda>gid.
     compose_chain rest \<lparr>im_uid = uid, im_gid = gid\<rparr>))"

definition map_to_initial :: "ns_world \<Rightarrow> u64 \<Rightarrow> (i32, id_mapping) outcome" where
  "map_to_initial w ident =
     and_then (chain_loop 33 w ident) (\<lambda>(chain, at).
     if at \<noteq> 1 then Err EIO
     else case rev chain of
            [] \<Rightarrow> Err EIO
          | result # children \<Rightarrow> compose_chain children result)"

section \<open>Operations\<close>

definition groups_allowed :: "ns_world \<Rightarrow> u32 \<Rightarrow> bool" where
  "groups_allowed w me =
     (case current_ns w me of
        Ok ident \<Rightarrow>
          if ident = 1 then True
          else (case state_of w ident of Ok st \<Rightarrow> \<not> ns_denied_groups st | _ \<Rightarrow> False)
      | _ \<Rightarrow> False)"

text \<open>The depth check: 33 looks, the last of which must find the initial namespace.\<close>

fun depth_check :: "nat \<Rightarrow> ns_world \<Rightarrow> u64 \<Rightarrow> (i32, unit) outcome" where
  "depth_check n w ancestor =
     (if ancestor = 1 then Ok ()
      else case n of
             0 \<Rightarrow> Err ENOSPC
           | Suc m \<Rightarrow> and_then (state_of w ancestor) (\<lambda>st. depth_check m w (ns_parent st)))"

declare depth_check.simps [simp del]

definition new_object :: "ns_host \<Rightarrow> ns_world \<Rightarrow> (i32, u64) outcome \<times> ns_world" where
  "new_object h w =
     (if nw_next w < - 1 - push_bit 32 1 then
        (case nh_create h (nw_next w) of
           Some e \<Rightarrow> (Err e, w\<lparr>nw_next := nw_next w + 1\<rparr>)
         | None \<Rightarrow> (Ok (nw_next w), w\<lparr>nw_next := nw_next w + 1\<rparr>))
      else (Err EOVERFLOW, w))"

definition child_state :: "ns_world \<Rightarrow> u32 \<Rightarrow> ns_process \<Rightarrow> ns_state" where
  "child_state w me p =
     \<lparr>ns_owner = np_uid p, ns_parent = np_ns p, ns_denied_groups = (\<not> groups_allowed w me),
      ns_maps = \<lparr>im_uid = [], im_gid = []\<rparr>\<rparr>"

text \<open>A new object is empty until its first publication; until then nothing can open it.\<close>

definition prepare_unshare :: "ns_host \<Rightarrow> u32 \<Rightarrow> ns_world \<Rightarrow> (i32, u64) outcome \<times> ns_world" where
  "prepare_unshare h me w =
     (case nw_proc w me of
        None \<Rightarrow> (Err EIO, w)
      | Some p \<Rightarrow>
          if np_threads p \<noteq> 1 then (Err EINVAL, w)
          else
            try_or w (map_to_initial w (np_ns p)) (\<lambda>m.
            if map_up m (np_uid p) False = None \<or> map_up m (np_gid p) True = None then (Err EPERM, w)
            else if np_confined p then (Err EPERM, w)
            else
              try_or w (depth_check 32 w (np_ns p)) (\<lambda>_.
              case new_object h w of
                (Ok ident, w) \<Rightarrow>
                  (case nh_publish h (state_encode (child_state w me p)) of
                     Some e \<Rightarrow> (Err e, w)
                   | None \<Rightarrow>
                       (case nh_retain h (np_ns p) of
                          Some e \<Rightarrow> (Err e, w)
                        | None \<Rightarrow>
                            (Ok ident, w\<lparr>nw_store :=
                               (nw_store w)(ident := Inr (state_encode (child_state w me p)))\<rparr>)))
              | (Err e, w) \<Rightarrow> (Err e, w)
              | (Panic, w) \<Rightarrow> (Panic, w))))"

definition ns_install :: "ns_host \<Rightarrow> u64 \<Rightarrow> u32 \<Rightarrow> ns_world \<Rightarrow> (i32, unit) outcome \<times> ns_world" where
  "ns_install h ident me w =
     (case nw_proc w me of
        None \<Rightarrow> (Err EIO, w)
      | Some p \<Rightarrow>
          if \<not> nh_register h ident then (Err EIO, w)
          else (Ok (), w\<lparr>nw_proc := (nw_proc w)(me \<mapsto>
                 p\<lparr>np_ns := ident, np_caps := (ALL_CAPS, ALL_CAPS, 0)\<rparr>)\<rparr>))"

definition ns_unshare :: "ns_host \<Rightarrow> u32 \<Rightarrow> ns_world \<Rightarrow> (i32, unit) outcome \<times> ns_world" where
  "ns_unshare h me w =
     (case prepare_unshare h me w of
        (Ok ident, w) \<Rightarrow>
          ns_install h ident me (w\<lparr>nw_proc := (nw_proc w)
            (me := map_option (\<lambda>p. p\<lparr>np_private := True\<rparr>) (nw_proc w me))\<rparr>)
      | (Err e, w) \<Rightarrow> (Err e, w)
      | (Panic, w) \<Rightarrow> (Panic, w))"

text \<open>The descriptor has been looked up and refers to the namespace \<open>ident\<close>.\<close>

definition ns_enter :: "ns_host \<Rightarrow> u64 \<Rightarrow> u32 \<Rightarrow> ns_world \<Rightarrow> (i32, unit) outcome \<times> ns_world" where
  "ns_enter h ident me w =
     (case nw_proc w me of
        None \<Rightarrow> (Err EIO, w)
      | Some p \<Rightarrow>
          try_or w (state_of w ident) (\<lambda>_.
          if ident = np_ns p \<or> np_threads p \<noteq> 1 \<or> \<not> np_private p then (Err EINVAL, w)
          else if \<not> capable w me ident 21 then (Err EPERM, w)
          else ns_install h ident me w))"

section \<open>The proc files\<close>

definition write_text :: "bytes \<Rightarrow> (i32, bytes) outcome" where
  "write_text bs =
     (let text = takeWhile (\<lambda>b. b \<noteq> 0) bs in if utf8_ok text then Ok text else Err EINVAL)"

definition is_space :: "u8 \<Rightarrow> bool" where
  "is_space b \<longleftrightarrow> b = 32 \<or> 9 \<le> b \<and> b \<le> 13"

fun parse_all :: "bytes list \<Rightarrow> (i32, u32 list) outcome" where
  "parse_all [] = Ok []"
| "parse_all (s # rest) =
     (case parse_u32 s of
        None \<Rightarrow> Err EINVAL
      | Some v \<Rightarrow> and_then (parse_all rest) (\<lambda>vs. Ok (v # vs)))"

definition parse_line :: "bytes \<Rightarrow> (i32, id_row) outcome" where
  "parse_line line =
     and_then (parse_all (filter (\<lambda>f. f \<noteq> []) (split_at is_space line))) (\<lambda>values.
     case values of [a, b, n] \<Rightarrow> Ok (a, b, n) | _ \<Rightarrow> Err EINVAL)"

fun parse_lines :: "bytes list \<Rightarrow> (i32, id_row list) outcome" where
  "parse_lines [] = Ok []"
| "parse_lines (line # rest) =
     and_then (parse_line line) (\<lambda>row. and_then (parse_lines rest) (\<lambda>rows. Ok (row # rows)))"

definition row_contained :: "id_row \<Rightarrow> id_row \<Rightarrow> bool" where
  "row_contained row p \<longleftrightarrow>
     row_in p \<le> row_out row \<and> row_out row + row_len row \<le> row_in p + row_len p"

definition set_rows :: "bool \<Rightarrow> id_row list \<Rightarrow> ns_state \<Rightarrow> ns_state" where
  "set_rows grp rows st =
     st\<lparr>ns_maps := (if grp then (ns_maps st)\<lparr>im_gid := rows\<rparr> else (ns_maps st)\<lparr>im_uid := rows\<rparr>)\<rparr>"

definition write_action ::
    "ns_world \<Rightarrow> u32 \<Rightarrow> ns_process \<Rightarrow> u64 \<Rightarrow> bool \<Rightarrow> id_row list \<Rightarrow> nat \<Rightarrow> bytes \<Rightarrow> (i32, bytes \<times> nat) outcome" where
  "write_action w me p ident grp rows len old =
     and_then (state_decode old) (\<lambda>st.
     if np_ns p \<noteq> ident \<and> np_ns p \<noteq> ns_parent st then Err EPERM
     else
       and_then (map_to_initial w (ns_parent st)) (\<lambda>parent_map.
       if \<not> list_all (\<lambda>row. list_ex (row_contained row) (map_rows parent_map grp)) rows then Err EPERM
       else
         and_then
           (if \<not> capable w me (ns_parent st) (if grp then 6 else 7) then
              (case map_up parent_map (if grp then np_gid p else np_uid p) grp of
                 None \<Rightarrow> Err EPERM
               | Some own \<Rightarrow>
                   if length rows \<noteq> 1 \<or> fst (snd (hd rows)) \<noteq> own \<or> snd (snd (hd rows)) \<noteq> 1
                      \<or> np_uid p \<noteq> ns_owner st \<or> grp \<and> \<not> ns_denied_groups st
                   then Err EPERM else Ok ())
            else Ok ()) (\<lambda>_.
         if map_rows (ns_maps st) grp \<noteq> [] then Err EPERM
         else Ok (state_encode (set_rows grp rows st), len))))"

definition write_map ::
    "ns_host \<Rightarrow> u32 \<Rightarrow> bool \<Rightarrow> bytes \<Rightarrow> u64 \<Rightarrow> u32 \<Rightarrow> ns_world \<Rightarrow> (i32, nat) outcome \<times> ns_world" where
  "write_map h pid grp bs off me w =
     (case nw_proc w me of
        None \<Rightarrow> (Err EIO, w)
      | Some p \<Rightarrow>
          if off \<noteq> 0 \<or> bs = [] \<or> 4096 \<le> length bs then (Err EINVAL, w)
          else
            try_or w (ns_id w me pid) (\<lambda>ident.
            if ident = 1 then (Err EPERM, w)
            else
              try_or w (write_text bs) (\<lambda>text.
              try_or w (parse_lines (str_lines text)) (\<lambda>rows.
              if rows = [] \<or> 340 < length rows then (Err EINVAL, w)
              else
                try_or w (validate_rows rows) (\<lambda>_.
                store_update h ident (write_action w me p ident grp rows (length bs)) w)))))"

definition row_text :: "id_row \<Rightarrow> bytes" where
  "row_text row = padded 10 (row_in row) @ 32 # padded 10 (row_out row) @ 32 # padded 10 (row_len row) @ [10]"

definition read_map :: "u32 \<Rightarrow> bool \<Rightarrow> u32 \<Rightarrow> ns_world \<Rightarrow> (i32, bytes) outcome" where
  "read_map pid grp me w =
     and_then (ns_id w me pid) (\<lambda>ident.
     and_then (state_of w ident) (\<lambda>st.
     Ok (concat (map row_text (map_rows (ns_maps st) grp)))))"

definition trim_end :: "bytes \<Rightarrow> bytes" where
  "trim_end text = rev (dropWhile is_space (rev text))"

definition DENY :: bytes where "DENY = [0x64, 0x65, 0x6e, 0x79]"
definition ALLOW :: bytes where "ALLOW = [0x61, 0x6c, 0x6c, 0x6f, 0x77]"

definition groups_action ::
    "ns_world \<Rightarrow> u32 \<Rightarrow> u64 \<Rightarrow> bytes option \<Rightarrow> bytes \<Rightarrow> (i32, bytes \<times> bytes) outcome" where
  "groups_action w me ident value old =
     and_then (state_decode old) (\<lambda>st.
     and_then
       (case value of
          None \<Rightarrow> Ok st
        | Some v \<Rightarrow>
            if ident = 1 \<or> \<not> capable w me ident 21 then Err EPERM
            else
              and_then (write_text v) (\<lambda>text.
              let word = trim_end text in
              if word = DENY \<and> im_gid (ns_maps st) = [] then Ok (st\<lparr>ns_denied_groups := True\<rparr>)
              else if word = ALLOW \<and> \<not> ns_denied_groups st then Ok st
              else if word = DENY \<or> word = ALLOW then Err EPERM
              else Err EINVAL)) (\<lambda>st.
     Ok (state_encode st, (if ns_denied_groups st then DENY else ALLOW) @ [10])))"

definition ns_groups ::
    "ns_host \<Rightarrow> u32 \<Rightarrow> bytes option \<Rightarrow> u32 \<Rightarrow> ns_world \<Rightarrow> (i32, bytes) outcome \<times> ns_world" where
  "ns_groups h pid value me w =
     try_or w (ns_id w me pid) (\<lambda>ident. store_update h ident (groups_action w me ident value) w)"

section \<open>Translation and exec\<close>

definition translate_current :: "u32 \<Rightarrow> bool \<Rightarrow> bool \<Rightarrow> u32 \<Rightarrow> ns_world \<Rightarrow> (i32, u32 option) outcome" where
  "translate_current value grp back me w =
     and_then (current_ns w me) (\<lambda>namespace.
     if namespace = 1 then Ok (if value \<noteq> - 1 then Some value else None)
     else
       and_then (map_to_initial w namespace) (\<lambda>m.
       Ok (if back then map_up m value grp else map_down m value grp)))"

definition ns_visible :: "u32 \<Rightarrow> bool \<Rightarrow> u32 \<Rightarrow> ns_world \<Rightarrow> u32" where
  "ns_visible value grp me w =
     (case translate_current value grp True me w of Ok (Some v) \<Rightarrow> v | _ \<Rightarrow> 65534)"

definition ns_kernel :: "u32 \<Rightarrow> bool \<Rightarrow> u32 \<Rightarrow> ns_world \<Rightarrow> (i32, u32) outcome" where
  "ns_kernel value grp me w =
     and_then (translate_current value grp False me w) (\<lambda>r.
     case r of Some v \<Rightarrow> Ok v | None \<Rightarrow> Err EOVERFLOW)"

definition current_map :: "u32 \<Rightarrow> ns_world \<Rightarrow> (i32, id_mapping) outcome" where
  "current_map me w = and_then (current_ns w me) (map_to_initial w)"

definition descriptor_map :: "ns_world \<Rightarrow> u64 \<Rightarrow> (i32, id_mapping) outcome" where
  "descriptor_map w ident =
     (if ident = 1 then Err EPERM
      else
        and_then (map_to_initial w ident) (\<lambda>m.
        if im_uid m = [] \<or> im_gid m = [] then Err EINVAL else Ok m))"

definition ns_inode :: "u64 \<Rightarrow> u64" where
  "ns_inode ident = (if ident = 1 then 4026531837 else push_bit 61 1 OR ident)"

definition ns_serialize :: "u32 \<Rightarrow> ns_world \<Rightarrow> (i32, bytes) outcome" where
  "ns_serialize me w =
     (case nw_proc w me of
        None \<Rightarrow> Err EIO
      | Some p \<Rightarrow>
          and_then (map_to_initial w (np_ns p)) (\<lambda>_.
          let (a, b, c) = np_caps p in Ok (u64_le (np_ns p) @ u64_le a @ u64_le b @ u64_le c)))"

definition word_at :: "bytes \<Rightarrow> nat \<Rightarrow> u64" where
  "word_at bs n = word_of_nat (le_nat (take 8 (drop n bs)))"

definition ns_restore :: "ns_host \<Rightarrow> bytes \<Rightarrow> u32 \<Rightarrow> ns_world \<Rightarrow> bool \<times> ns_world" where
  "ns_restore h bs me w =
     (case nw_proc w me of
        None \<Rightarrow> (False, w)
      | Some p \<Rightarrow>
          if length bs \<noteq> 8 \<and> length bs \<noteq> 32 then (False, w)
          else
            let ident = word_at bs 0 in
            (case state_of w ident of
               Ok _ \<Rightarrow>
                 if \<not> nh_register h ident then (False, w)
                 else
                   let w' = w\<lparr>nw_proc := (nw_proc w)(me \<mapsto> p\<lparr>np_ns := ident\<rparr>)\<rparr> in
                   (case map_to_initial w' ident of
                      Ok _ \<Rightarrow>
                        (True,
                         if length bs = 32
                         then w\<lparr>nw_proc := (nw_proc w)(me \<mapsto>
                                p\<lparr>np_ns := ident, np_caps := (word_at bs 8, word_at bs 16, word_at bs 24)\<rparr>)\<rparr>
                         else w')
                    | _ \<Rightarrow> (False, w'))
             | _ \<Rightarrow> (False, w)))"

end
