(* ===== verification/Userns_Maps.thy ===== *)
theory Userns_Maps
  imports User_Namespace
begin

text \<open>
  Identity maps as relations between natural numbers: a list of extents that passes validation is
  a partial injection, translation computes it in both directions, and composing two lists
  of extents composes the relations. The codec is exact.
\<close>

section \<open>Extents as relations\<close>

definition row_maps :: "id_row \<Rightarrow> nat \<Rightarrow> nat \<Rightarrow> bool" where
  "row_maps r x y \<longleftrightarrow> row_in r \<le> x \<and> x < row_in r + row_len r \<and> row_out r \<le> y \<and> x - row_in r = y - row_out r"

definition rows_rel :: "id_row list \<Rightarrow> nat \<Rightarrow> nat \<Rightarrow> bool" where
  "rows_rel rows x y \<longleftrightarrow> (\<exists>r \<in> set rows. row_maps r x y)"

definition good_rows :: "id_row list \<Rightarrow> bool" where
  "good_rows rows \<longleftrightarrow> (\<forall>r \<in> set rows. \<not> bad_row r)
     \<and> (\<forall>x y z. rows_rel rows x y \<longrightarrow> rows_rel rows x z \<longrightarrow> y = z)
     \<and> (\<forall>x y z. rows_rel rows x z \<longrightarrow> rows_rel rows y z \<longrightarrow> x = y)"

lemma rows_rel_Nil [simp]: "\<not> rows_rel [] x y"
  by (simp add: rows_rel_def)

lemma row_maps_bounds: "\<not> bad_row r \<Longrightarrow> row_maps r x y \<Longrightarrow> x < u32_max \<and> y < u32_max"
  by (auto simp: row_maps_def bad_row_def)

lemma translate_row_down:
  assumes "\<not> bad_row r"
  shows "translate_row x False r = Some y \<longleftrightarrow> row_maps r (unat x) (unat y)"
proof -
  obtain a b n where r: "r = (a, b, n)" by (cases r)
  have fits: "unat b + unat n < 2 ^ 32" using assms by (simp add: r bad_row_def u32_max_def)
  show ?thesis
  proof (cases "a \<le> x \<and> x - a < n")
    case True
    then have sub: "unat (x - a) = unat x - unat a" by (simp add: unat_sub)
    have lt: "unat x - unat a < unat n" using True sub by (simp add: word_less_nat_alt)
    then have "unat (b + (x - a)) = unat b + (unat x - unat a)"
      using fits sub by (simp add: unat_word_ariths)
    moreover have "b + (x - a) = y \<longleftrightarrow> unat (b + (x - a)) = unat y" by (simp add: word_unat_eq_iff)
    ultimately show ?thesis
      using True lt fits sub
      by (auto simp: r row_maps_def checked_sub_u32_def checked_add_u32_def word_le_nat_alt)
  next
    case False
    then have "\<not> (unat a \<le> unat x \<and> unat x < unat a + unat n)"
      by (auto simp: word_le_nat_alt word_less_nat_alt unat_sub)
    then show ?thesis using False by (auto simp: r row_maps_def checked_sub_u32_def)
  qed
qed

fun flip_row :: "id_row \<Rightarrow> id_row" where "flip_row (a, b, n) = (b, a, n)"

lemma flip_row_simps [simp]:
  "row_in (flip_row r) = row_out r" "row_out (flip_row r) = row_in r" "row_len (flip_row r) = row_len r"
  by (cases r; simp)+

lemma translate_row_up:
  assumes "\<not> bad_row r"
  shows "translate_row y True r = Some x \<longleftrightarrow> row_maps r (unat x) (unat y)"
proof -
  have "translate_row y True r = translate_row y False (flip_row r)" by (cases r) simp
  moreover have "\<not> bad_row (flip_row r)" using assms by (auto simp: bad_row_def)
  moreover have "row_maps (flip_row r) (unat y) (unat x) \<longleftrightarrow> row_maps r (unat x) (unat y)"
    by (auto simp: row_maps_def)
  ultimately show ?thesis using translate_row_down by simp
qed

lemma find_map_unique:
  assumes "\<And>r s u v. r \<in> set xs \<Longrightarrow> s \<in> set xs \<Longrightarrow> f r = Some u \<Longrightarrow> f s = Some v \<Longrightarrow> u = v"
  shows "find_map f xs = Some y \<longleftrightarrow> (\<exists>r \<in> set xs. f r = Some y)"
  using assms
proof (induction xs)
  case (Cons x xs)
  have ih: "find_map f xs = Some y \<longleftrightarrow> (\<exists>r \<in> set xs. f r = Some y)"
    using Cons.prems by (intro Cons.IH) (meson list.set_intros(2))
  show ?case
  proof (cases "f x")
    case None
    then show ?thesis using ih by simp
  next
    case (Some u)
    then show ?thesis using Cons.prems [of x] by auto
  qed
qed simp

lemma translate_down:
  assumes "good_rows rows"
  shows "translate rows x False = Some y \<longleftrightarrow> rows_rel rows (unat x) (unat y)"
proof -
  have t: "translate_row x False r = Some v \<longleftrightarrow> row_maps r (unat x) (unat v)" if "r \<in> set rows" for r v
    using that assms translate_row_down by (simp add: good_rows_def)
  have "find_map (translate_row x False) rows = Some y \<longleftrightarrow> (\<exists>r \<in> set rows. translate_row x False r = Some y)"
  proof (rule find_map_unique)
    fix r s u v
    assume "r \<in> set rows" "s \<in> set rows" "translate_row x False r = Some u" "translate_row x False s = Some v"
    then have "rows_rel rows (unat x) (unat u)" "rows_rel rows (unat x) (unat v)" using t by (auto simp: rows_rel_def)
    then show "u = v" using assms by (metis good_rows_def word_unat_eq_iff)
  qed
  then show ?thesis using t by (auto simp: translate_def rows_rel_def)
qed

lemma translate_up:
  assumes "good_rows rows"
  shows "translate rows y True = Some x \<longleftrightarrow> rows_rel rows (unat x) (unat y)"
proof -
  have t: "translate_row y True r = Some v \<longleftrightarrow> row_maps r (unat v) (unat y)" if "r \<in> set rows" for r v
    using that assms translate_row_up by (simp add: good_rows_def)
  have "find_map (translate_row y True) rows = Some x \<longleftrightarrow> (\<exists>r \<in> set rows. translate_row y True r = Some x)"
  proof (rule find_map_unique)
    fix r s u v
    assume "r \<in> set rows" "s \<in> set rows" "translate_row y True r = Some u" "translate_row y True s = Some v"
    then have "rows_rel rows (unat u) (unat y)" "rows_rel rows (unat v) (unat y)" using t by (auto simp: rows_rel_def)
    then show "u = v" using assms by (metis good_rows_def word_unat_eq_iff)
  qed
  then show ?thesis using t by (auto simp: translate_def rows_rel_def)
qed

section \<open>Validation\<close>

definition rows_apart :: "id_row \<Rightarrow> id_row \<Rightarrow> bool" where
  "rows_apart p r \<longleftrightarrow> \<not> overlap_in r p \<and> \<not> overlap_out r p"

definition valid_rows :: "id_row list \<Rightarrow> bool" where
  "valid_rows rows \<longleftrightarrow> (\<forall>r \<in> set rows. \<not> bad_row r) \<and> sorted_wrt rows_apart rows"

lemma validate_from_Ok:
  "validate_from previous rows = Ok () \<longleftrightarrow>
     valid_rows rows \<and> (\<forall>p \<in> set previous. \<forall>r \<in> set rows. rows_apart p r)"
  by (induction previous rows rule: validate_from.induct)
     (auto simp: valid_rows_def rows_apart_def list_ex_iff)

lemma validate_rows_Ok: "validate_rows rows = Ok () \<longleftrightarrow> valid_rows rows"
  by (simp add: validate_rows_def validate_from_Ok)

lemma validate_rows_calm [simp]: "validate_rows rows \<noteq> Panic"
proof -
  have "validate_from p rows \<noteq> Panic" for p by (induction p rows rule: validate_from.induct) auto
  then show ?thesis by (simp add: validate_rows_def)
qed

lemma rows_apart_sym: "rows_apart p r \<longleftrightarrow> rows_apart r p"
  by (auto simp: rows_apart_def overlap_in_def overlap_out_def)

lemma rows_apart_rel:
  assumes "rows_apart p r" and "row_maps p x y" and "row_maps r x' y'"
  shows "x \<noteq> x' \<and> y \<noteq> y'"
  using assms by (auto simp: rows_apart_def overlap_in_def overlap_out_def row_maps_def)

lemma row_maps_same: "row_maps r x y \<Longrightarrow> row_maps r x' y' \<Longrightarrow> x = x' \<longleftrightarrow> y = y'"
  by (auto simp: row_maps_def)

lemma valid_rows_good:
  assumes "valid_rows rows"
  shows "good_rows rows"
proof -
  have pair: "r = s \<or> rows_apart r s" if "r \<in> set rows" "s \<in> set rows" for r s
  proof -
    have s: "sorted_wrt rows_apart rows" using assms by (simp add: valid_rows_def)
    from that obtain i j where "i < length rows" "rows ! i = r" "j < length rows" "rows ! j = s"
      by (auto simp: in_set_conv_nth)
    then have "i < j \<Longrightarrow> rows_apart r s" "j < i \<Longrightarrow> rows_apart s r" "i = j \<Longrightarrow> r = s"
      using sorted_wrt_nth_less [OF s, of i j] sorted_wrt_nth_less [OF s, of j i] by auto
    then show ?thesis using rows_apart_sym [of r s] by (cases rule: linorder_cases [of i j]) simp_all
  qed
  have eq: "x = x' \<longleftrightarrow> y = y'" if "rows_rel rows x y" "rows_rel rows x' y'" for x y x' y'
  proof -
    from that obtain r s where rs: "r \<in> set rows" "s \<in> set rows" "row_maps r x y" "row_maps s x' y'"
      by (auto simp: rows_rel_def)
    from pair [OF rs(1,2)] show ?thesis
    proof
      assume "r = s"
      then show ?thesis using row_maps_same [OF rs(3), of x' y'] rs(4) by blast
    next
      assume "rows_apart r s"
      then show ?thesis using rows_apart_rel [OF _ rs(3,4)] by blast
    qed
  qed
  have "\<forall>x y z. rows_rel rows x y \<longrightarrow> rows_rel rows x z \<longrightarrow> y = z"
    using eq by (intro allI impI) (rule iffD1 [OF eq]; simp)
  moreover have "\<forall>x y z. rows_rel rows x z \<longrightarrow> rows_rel rows y z \<longrightarrow> x = y"
    using eq by (intro allI impI) (rule iffD2 [OF eq]; simp)
  ultimately show ?thesis using assms unfolding good_rows_def valid_rows_def by blast
qed

section \<open>Composition\<close>

lemma unat_small: "k < 2 ^ 32 \<Longrightarrow> unat (word_of_nat k :: u32) = k"
  by (simp add: unat_of_nat)

lemma compose_row_rel:
  assumes "\<not> bad_row r" and "\<not> bad_row p"
  shows "\<exists>cs. compose_row r p = Ok cs \<and> (\<forall>c \<in> set cs. \<not> bad_row c)
    \<and> (\<forall>x z. rows_rel cs x z \<longleftrightarrow> (\<exists>y. row_maps r x y \<and> row_maps p y z))"
proof -
  define lo hi where "lo = max (row_out r) (row_in p)"
    and "hi = min (row_out r + row_len r) (row_in p + row_len p)"
  obtain a b n where r: "r = (a, b, n)" by (cases r)
  obtain a' b' n' where p: "p = (a', b', n')" by (cases p)
  have fits: "unat a + unat n < 2 ^ 32" "unat b + unat n < 2 ^ 32" "unat a' + unat n' < 2 ^ 32" "unat b' + unat n' < 2 ^ 32"
    using assms by (simp_all add: r p bad_row_def u32_max_def)
  show ?thesis
  proof (cases "lo < hi")
    case False
    then have "\<not> (row_maps r x y \<and> row_maps p y z)" for x y z
      by (auto simp: lo_def hi_def row_maps_def max_def min_def split: if_splits)
    then show ?thesis using False by (auto simp: compose_row_def lo_def hi_def)
  next
    case True
    have d: "lo - unat b < unat n" "lo - unat a' < unat n'" "hi - lo \<le> unat n" "unat b \<le> lo" "unat a' \<le> lo"
      using True by (auto simp: lo_def hi_def r p)
    have u: "unat (word_of_nat (lo - unat b) :: u32) = lo - unat b" "unat (word_of_nat (lo - unat a') :: u32) = lo - unat a'"
        "unat (word_of_nat (hi - lo) :: u32) = hi - lo"
      using d fits by (intro unat_small; linarith)+
    define c where "c = (a + word_of_nat (lo - unat b), b' + word_of_nat (lo - unat a'), word_of_nat (hi - lo) :: u32)"
    have c: "row_in c = unat a + (lo - unat b)" "row_out c = unat b' + (lo - unat a')" "row_len c = hi - lo"
      using d fits u by (simp_all add: c_def unat_word_ariths)
    have s: "unat a + lo - unat b < 2 ^ 32" "unat b' + lo - unat a' < 2 ^ 32"
      using d fits by auto
    have "compose_row r p = Ok [c]"
      using True d fits u s
      by (simp add: compose_row_def lo_def [symmetric] hi_def [symmetric] checked_add_u32_def c_def r p
          flip: lo_def [unfolded r p, simplified] hi_def [unfolded r p, simplified])
    moreover have "\<not> bad_row c"
      using True d fits by (auto simp: bad_row_def c u32_max_def hi_def r p)
    moreover have "row_maps c x z \<longleftrightarrow> (\<exists>y. row_maps r x y \<and> row_maps p y z)" for x z
    proof
      assume m: "row_maps c x z"
      have h: "hi \<le> unat b + unat n" "hi \<le> unat a' + unat n'" by (simp_all add: hi_def r p)
      obtain i j where ij: "lo = unat b + i" "lo = unat a' + j" using d(4,5) le_Suc_ex by meson
      have cc: "row_in c = unat a + i" "row_out c = unat b' + j" using c(1,2) ij by (simp, metis add_diff_cancel_left')
      obtain k where k: "x = unat a + i + k" using m unfolding row_maps_def cc by (meson le_Suc_ex)
      obtain k' where k': "z = unat b' + j + k'" using m unfolding row_maps_def cc by (meson le_Suc_ex)
      have "k = k'" using m unfolding row_maps_def cc k k' by simp
      moreover have "k < hi - lo" using m unfolding row_maps_def cc c(3) k by auto
      moreover then have "lo + k < hi" by linarith
      ultimately have "row_maps r x (lo + k) \<and> row_maps p (lo + k) z"
        using h ij unfolding row_maps_def r p k k' row_in.simps row_out.simps row_len.simps by simp
      then show "\<exists>y. row_maps r x y \<and> row_maps p y z" ..
    next
      assume "\<exists>y. row_maps r x y \<and> row_maps p y z"
      then show "row_maps c x z"
        using d by (auto simp: row_maps_def c r p lo_def hi_def max_def min_def split: if_splits)
    qed
    ultimately show ?thesis by (auto simp: rows_rel_def)
  qed
qed

lemma compose_all_rel:
  "\<forall>(r, p) \<in> set ps. \<not> bad_row r \<and> \<not> bad_row p \<Longrightarrow>
    \<exists>cs. compose_all ps = Ok cs \<and> (\<forall>c \<in> set cs. \<not> bad_row c)
      \<and> (\<forall>x z. rows_rel cs x z \<longleftrightarrow> (\<exists>(r, p) \<in> set ps. \<exists>y. row_maps r x y \<and> row_maps p y z))"
proof (induction ps)
  case (Cons rp ps)
  obtain r p where rp: "rp = (r, p)" by (cases rp)
  obtain cs where cs: "compose_row r p = Ok cs" "\<forall>c \<in> set cs. \<not> bad_row c"
      "\<And>x z. rows_rel cs x z \<longleftrightarrow> (\<exists>y. row_maps r x y \<and> row_maps p y z)"
    using compose_row_rel [of r p] Cons.prems by (auto simp: rp)
  obtain ds where ds: "compose_all ps = Ok ds" "\<forall>c \<in> set ds. \<not> bad_row c"
      "\<And>x z. rows_rel ds x z \<longleftrightarrow> (\<exists>(r, p) \<in> set ps. \<exists>y. row_maps r x y \<and> row_maps p y z)"
    using Cons by (auto simp: rp)
  have "rows_rel (cs @ ds) x z \<longleftrightarrow> rows_rel cs x z \<or> rows_rel ds x z" for x z by (auto simp: rows_rel_def)
  then show ?case using cs ds by (auto simp: rp)
qed (simp add: rows_rel_def)

lemma compose_rel:
  assumes "good_rows rows" and "good_rows parent"
  shows "\<exists>cs. compose rows parent = Ok cs \<and> good_rows cs
    \<and> (\<forall>x z. rows_rel cs x z \<longleftrightarrow> (\<exists>y. rows_rel rows x y \<and> rows_rel parent y z))"
proof -
  have "\<forall>(r, p) \<in> set (List.product rows parent). \<not> bad_row r \<and> \<not> bad_row p"
    using assms by (auto simp: good_rows_def)
  from compose_all_rel [OF this] obtain cs where cs: "compose rows parent = Ok cs" "\<forall>c \<in> set cs. \<not> bad_row c"
      "\<And>x z. rows_rel cs x z \<longleftrightarrow> (\<exists>(r, p) \<in> set (List.product rows parent). \<exists>y. row_maps r x y \<and> row_maps p y z)"
    by (auto simp: compose_def)
  then have rel: "rows_rel cs x z \<longleftrightarrow> (\<exists>y. rows_rel rows x y \<and> rows_rel parent y z)" for x z
    by (auto simp: rows_rel_def)
  have "good_rows cs"
    unfolding good_rows_def rel using assms cs(2) unfolding good_rows_def by blast
  then show ?thesis using cs(1) rel by blast
qed

section \<open>Maps\<close>

definition map_rel :: "id_mapping \<Rightarrow> bool \<Rightarrow> nat \<Rightarrow> nat \<Rightarrow> bool" where
  "map_rel m g = rows_rel (map_rows m g)"

definition good_map :: "id_mapping \<Rightarrow> bool" where
  "good_map m \<longleftrightarrow> good_rows (im_uid m) \<and> good_rows (im_gid m)"

definition valid_map :: "id_mapping \<Rightarrow> bool" where
  "valid_map m \<longleftrightarrow> valid_rows (im_uid m) \<and> length (im_uid m) \<le> 340 \<and> valid_rows (im_gid m) \<and> length (im_gid m) \<le> 340"

lemma good_map_rows: "good_map m \<Longrightarrow> good_rows (map_rows m g)"
  by (simp add: good_map_def map_rows_def)

lemma valid_map_good: "valid_map m \<Longrightarrow> good_map m"
  by (simp add: valid_map_def good_map_def valid_rows_good)

lemma map_down_rel: "good_map m \<Longrightarrow> map_down m x g = Some y \<longleftrightarrow> map_rel m g (unat x) (unat y)"
  by (simp add: map_down_def map_rel_def translate_down good_map_rows)

lemma map_up_rel: "good_map m \<Longrightarrow> map_up m y g = Some x \<longleftrightarrow> map_rel m g (unat x) (unat y)"
  by (simp add: map_up_def map_rel_def translate_up good_map_rows)

fun path_rel :: "id_mapping list \<Rightarrow> bool \<Rightarrow> nat \<Rightarrow> nat \<Rightarrow> bool" where
  "path_rel [] g x y \<longleftrightarrow> x = y"
| "path_rel (m # ms) g x z \<longleftrightarrow> (\<exists>y. map_rel m g x y \<and> path_rel ms g y z)"

lemma path_rel_append: "path_rel (ms @ ns) g x z \<longleftrightarrow> (\<exists>y. path_rel ms g x y \<and> path_rel ns g y z)"
  by (induction ms arbitrary: x) auto

lemma compose_chain_rel:
  "good_map result \<Longrightarrow> \<forall>m \<in> set ms. good_map m \<Longrightarrow>
     \<exists>m. compose_chain ms result = Ok m \<and> good_map m
       \<and> (\<forall>g x z. map_rel m g x z \<longleftrightarrow> (\<exists>y. path_rel (rev ms) g x y \<and> map_rel result g y z))"
proof (induction ms arbitrary: result)
  case (Cons c ms)
  obtain us where us: "compose (im_uid c) (im_uid result) = Ok us" "good_rows us"
      "\<And>x z. rows_rel us x z \<longleftrightarrow> (\<exists>y. rows_rel (im_uid c) x y \<and> rows_rel (im_uid result) y z)"
    using compose_rel [of "im_uid c" "im_uid result"] Cons.prems by (auto simp: good_map_def)
  obtain gs where gs: "compose (im_gid c) (im_gid result) = Ok gs" "good_rows gs"
      "\<And>x z. rows_rel gs x z \<longleftrightarrow> (\<exists>y. rows_rel (im_gid c) x y \<and> rows_rel (im_gid result) y z)"
    using compose_rel [of "im_gid c" "im_gid result"] Cons.prems by (auto simp: good_map_def)
  define r where "r = \<lparr>im_uid = us, im_gid = gs\<rparr>"
  have rel: "map_rel r g x z \<longleftrightarrow> (\<exists>y. map_rel c g x y \<and> map_rel result g y z)" for g x z
    using us(3) gs(3) by (simp add: r_def map_rel_def map_rows_def)
  have "good_map r" using us(2) gs(2) by (simp add: r_def good_map_def)
  from Cons.IH [OF this] Cons.prems obtain m where m: "compose_chain ms r = Ok m" "good_map m"
      "\<And>g x z. map_rel m g x z \<longleftrightarrow> (\<exists>y. path_rel (rev ms) g x y \<and> map_rel r g y z)"
    by auto
  have "map_rel m g x z \<longleftrightarrow> (\<exists>y. path_rel (rev (c # ms)) g x y \<and> map_rel result g y z)" for g x z
    unfolding m(3) rel by (auto simp: path_rel_append)
  then show ?case using m(1,2) us(1) gs(1) by (simp add: r_def)
qed auto

section \<open>Codec\<close>

lemma take_word_encode [simp]: "take_word (u32_le a @ rest) = Ok (a, rest)"
  by (simp add: take_word_def)

lemma take_word_Ok: "take_word bs = Ok (a, rest) \<longleftrightarrow> bs = u32_le a @ rest"
proof
  assume "take_word bs = Ok (a, rest)"
  then have *: "4 \<le> length bs" "a = word_of_nat (le_nat (take 4 bs))" "rest = drop 4 bs"
    by (auto simp: take_word_def split: if_splits)
  have "le_nat (take 4 bs) < 2 ^ 32" using le_nat_less [of "take 4 bs"] *(1) by simp
  then have "u32_le a = take 4 bs"
    using * le_bytes_le_nat [of "take 4 bs" 4] by (simp add: u32_le_def unat_of_nat)
  then show "bs = u32_le a @ rest" using *(3) by simp
qed simp

lemma take_rows_Ok: "take_rows n bs = Ok (rows, rest) \<longleftrightarrow> length rows = n \<and> bs = concat (map row_encode rows) @ rest"
proof (induction n arbitrary: bs rows)
  case 0
  then show ?case by auto
next
  case (Suc n)
  show ?case
  proof (cases rows)
    case Nil
    then show ?thesis by (auto split: prod.splits)
  next
    case (Cons r rs)
    obtain a b m where r: "r = (a, b, m)" by (cases r)
    have "take_rows (Suc n) bs = Ok (rows, rest) \<longleftrightarrow>
        (\<exists>r1 r2 r3. take_word bs = Ok (a, r1) \<and> take_word r1 = Ok (b, r2) \<and> take_word r2 = Ok (m, r3)
           \<and> take_rows n r3 = Ok (rs, rest))"
      by (auto simp: Cons r split: prod.splits)
    then show ?thesis unfolding take_word_Ok Suc by (auto simp: Cons r)
  qed
qed

lemma take_map_Ok:
  "take_map bs = Ok (rows, rest) \<longleftrightarrow> valid_rows rows \<and> length rows \<le> 340 \<and> bs = rows_encode rows @ rest"
proof -
  have "take_map bs = Ok (rows, rest) \<longleftrightarrow>
      (\<exists>c r. take_word bs = Ok (c, r) \<and> c \<le> 340 \<and> take_rows (unat c) r = Ok (rows, rest) \<and> valid_rows rows)"
    by (auto simp: take_map_def validate_rows_Ok not_less split: prod.splits if_splits)
  also have "\<dots> \<longleftrightarrow> (\<exists>c. c \<le> (340 :: u32) \<and> length rows = unat c \<and> valid_rows rows
      \<and> bs = u32_le c @ concat (map row_encode rows) @ rest)"
    unfolding take_word_Ok take_rows_Ok by auto
  also have "\<dots> \<longleftrightarrow> valid_rows rows \<and> length rows \<le> 340 \<and> bs = rows_encode rows @ rest"
  proof
    assume "\<exists>c. c \<le> (340 :: u32) \<and> length rows = unat c \<and> valid_rows rows
        \<and> bs = u32_le c @ concat (map row_encode rows) @ rest"
    then show "valid_rows rows \<and> length rows \<le> 340 \<and> bs = rows_encode rows @ rest"
      by (auto simp: rows_encode_def word_le_nat_alt)
  next
    assume v: "valid_rows rows \<and> length rows \<le> 340 \<and> bs = rows_encode rows @ rest"
    then have "unat (word_of_nat (length rows) :: u32) = length rows" by (simp add: unat_of_nat)
    then show "\<exists>c. c \<le> (340 :: u32) \<and> length rows = unat c \<and> valid_rows rows
        \<and> bs = u32_le c @ concat (map row_encode rows) @ rest"
      using v by (intro exI [where x = "word_of_nat (length rows)"]) (simp add: rows_encode_def word_le_nat_alt)
  qed
  finally show ?thesis .
qed

lemma mapping_decode_Ok: "mapping_decode bs = Ok m \<longleftrightarrow> valid_map m \<and> bs = mapping_encode m"
proof -
  obtain us gs where m: "m = \<lparr>im_uid = us, im_gid = gs\<rparr>" by (cases m)
  have "mapping_decode bs = Ok m \<longleftrightarrow> (\<exists>r. take_map bs = Ok (us, r) \<and> take_map r = Ok (gs, []))"
    by (auto simp: mapping_decode_def m split: prod.splits if_splits)
  then show ?thesis unfolding take_map_Ok by (auto simp: m valid_map_def mapping_encode_def)
qed

lemma take_calm [simp]: "take_word bs \<noteq> Panic" "take_rows n bs \<noteq> Panic" "take_map bs \<noteq> Panic" "mapping_decode bs \<noteq> Panic"
proof -
  show w: "take_word bs \<noteq> Panic" for bs by (simp add: take_word_def)
  show r: "take_rows n bs \<noteq> Panic" for n bs by (induction n arbitrary: bs) (auto simp: w split: prod.splits)
  show m: "take_map bs \<noteq> Panic" for bs by (auto simp: take_map_def w r split: prod.splits if_splits)
  show "mapping_decode bs \<noteq> Panic" by (auto simp: mapping_decode_def m split: prod.splits if_splits)
qed

lemma flag_bytes: "u32_le 0 = [0, 0, 0, 0]" "u32_le 1 = [1, 0, 0, 0]"
proof -
  have "(4 :: nat) = Suc (Suc (Suc (Suc 0)))" by simp
  then show "u32_le 0 = [0, 0, 0, 0]" "u32_le 1 = [1, 0, 0, 0]" by (simp_all only: u32_le_def le_bytes.simps) simp_all
qed

lemma state_decode_encode:
  assumes "valid_map (ns_maps st)"
  shows "state_decode (state_encode st) = Ok st"
proof -
  define flag where "flag = u32_le (if ns_denied_groups st then 1 else 0)"
  have flag: "length flag = 4" "flag \<noteq> [0, 0, 0, 0] \<longleftrightarrow> ns_denied_groups st"
    by (auto simp: flag_def flag_bytes)
  have e: "state_encode st = NS_MAGIC @ u32_le (ns_owner st) @ flag @ u64_le (ns_parent st) @ mapping_encode (ns_maps st)"
    by (simp add: state_encode_def flag_def)
  have m: "length NS_MAGIC = 8" by (simp add: NS_MAGIC_def)
  have "mapping_decode (mapping_encode (ns_maps st)) = Ok (ns_maps st)" using assms by (simp add: mapping_decode_Ok)
  moreover have "take 8 (state_encode st) = NS_MAGIC" by (simp only: e) (simp add: m)
  moreover have "drop 24 (state_encode st) = mapping_encode (ns_maps st)" by (simp only: e) (simp add: m flag(1))
  moreover have "take 4 (drop 8 (state_encode st)) = u32_le (ns_owner st)" by (simp only: e) (simp add: m flag(1))
  moreover have "take 4 (drop 12 (state_encode st)) = flag" by (simp only: e) (simp add: m flag(1))
  moreover have "take 8 (drop 16 (state_encode st)) = u64_le (ns_parent st)" by (simp only: e) (simp add: m flag(1))
  moreover have "\<not> length (state_encode st) < 24" by (simp only: e) (simp add: m flag(1))
  ultimately show ?thesis using flag(2) unfolding state_decode_def by simp
qed

end
