(* ===== verification/Userns_World.thy ===== *)
theory Userns_World
  imports Userns_Maps
begin

text \<open>
  The namespaces of a world form a tree under the initial one. The invariant of the reachable
  worlds says so and bounds its depth; every step keeps it and keeps what was written.
\<close>

section \<open>Ancestry\<close>

inductive ancestry :: "ns_world \<Rightarrow> u64 \<Rightarrow> ns_state list \<Rightarrow> bool" for w where
  anc_root: "state_of w 1 = Ok st \<Longrightarrow> ancestry w 1 [st]"
| anc_step: "ident \<noteq> 1 \<Longrightarrow> state_of w ident = Ok st \<Longrightarrow> ns_parent st \<noteq> 0 \<Longrightarrow> ancestry w (ns_parent st) sts
    \<Longrightarrow> ancestry w ident (st # sts)"

inductive_cases ancestry_cases: "ancestry w ident sts"

lemma ancestry_not_Nil: "ancestry w ident sts \<Longrightarrow> sts \<noteq> []"
  by (auto elim: ancestry_cases)

lemma ancestry_unique: "ancestry w ident sts \<Longrightarrow> ancestry w ident ts \<Longrightarrow> sts = ts"
proof (induction arbitrary: ts rule: ancestry.induct)
  case (anc_root st)
  then show ?case by (auto elim: ancestry_cases)
next
  case (anc_step ident st sts)
  from anc_step.prems anc_step.hyps obtain us where "ts = st # us" "ancestry w (ns_parent st) us"
    by (auto elim: ancestry_cases)
  then show ?case using anc_step.IH by simp
qed

lemma ancestry_hd: "ancestry w ident sts \<Longrightarrow> state_of w ident = Ok (hd sts)"
  by (auto elim: ancestry_cases)

definition path_maps :: "ns_state list \<Rightarrow> id_mapping list" where
  "path_maps sts = map ns_maps sts"

lemma state_of_valid: "state_of w ident = Ok st \<Longrightarrow> valid_map (ns_maps st)"
  by (auto simp: state_of_def state_decode_def mapping_decode_Ok split: sum.splits if_splits)

lemma state_of_calm [simp]: "state_of w ident \<noteq> Panic"
  by (auto simp: state_of_def state_decode_def split: sum.splits)

lemma ancestry_valid: "ancestry w ident sts \<Longrightarrow> st \<in> set sts \<Longrightarrow> valid_map (ns_maps st)"
  by (induction rule: ancestry.induct) (auto dest: state_of_valid)

lemma ancestry_good: "ancestry w ident sts \<Longrightarrow> m \<in> set (path_maps sts) \<Longrightarrow> good_map m"
  by (auto simp: path_maps_def dest: ancestry_valid valid_map_good)

section \<open>The initial map\<close>

definition identity_map :: id_mapping where
  "identity_map = \<lparr>im_uid = [(0, 0, - 1)], im_gid = [(0, 0, - 1)]\<rparr>"

lemma unat_max_u32: "unat (- 1 :: u32) = u32_max"
  by (simp add: u32_max_def unsigned_minus_1_eq_mask mask_eq_exp_minus_1)

lemma identity_rel [simp]: "map_rel identity_map g x y \<longleftrightarrow> x = y \<and> x < u32_max"
  by (auto simp: map_rel_def map_rows_def identity_map_def rows_rel_def row_maps_def unat_max_u32 simp del: unsigned_minus_1_eq_mask)

lemma good_map_bounds: "good_map m \<Longrightarrow> map_rel m g x y \<Longrightarrow> x < u32_max \<and> y < u32_max"
  by (auto simp: map_rel_def rows_rel_def good_map_def good_rows_def map_rows_def split: if_splits
      dest: row_maps_bounds)

lemma path_rel_bounds:
  "path_rel ms g x z \<Longrightarrow> ms \<noteq> [] \<Longrightarrow> \<forall>m \<in> set ms. good_map m \<Longrightarrow> x < u32_max \<and> z < u32_max"
proof (induction ms arbitrary: x)
  case (Cons m ms)
  then show ?case by (cases ms) (auto dest: good_map_bounds)
qed simp

lemma path_rel_identity:
  assumes "ms \<noteq> []" and "\<forall>m \<in> set ms. good_map m"
  shows "path_rel (ms @ [identity_map]) g x z \<longleftrightarrow> path_rel ms g x z"
  using path_rel_bounds [OF _ assms] by (auto simp: path_rel_append)

section \<open>The composed map\<close>

lemma chain_loop_ancestry:
  "ancestry w ident sts \<Longrightarrow> length sts \<le> n \<Longrightarrow> chain_loop n w ident = Ok (path_maps sts, 1)"
proof (induction arbitrary: n rule: ancestry.induct)
  case (anc_root st)
  then show ?case by (cases n) (simp_all add: path_maps_def)
next
  case (anc_step ident st sts)
  then show ?case by (cases n) (simp_all add: path_maps_def)
qed

lemma chain_loop_deepest:
  "ancestry w ident sts \<Longrightarrow> length sts = Suc n \<Longrightarrow> chain_loop n w ident = Ok (path_maps (butlast sts), 1)"
proof (induction arbitrary: n rule: ancestry.induct)
  case (anc_root st)
  then show ?case by (simp add: path_maps_def)
next
  case (anc_step ident st sts)
  then show ?case by (cases n) (auto simp: path_maps_def dest: ancestry_not_Nil)
qed

definition rooted :: "ns_world \<Rightarrow> bool" where
  "rooted w \<longleftrightarrow> (\<exists>st. state_of w 1 = Ok st \<and> ns_maps st = identity_map \<and> ns_parent st = 0)"

lemma ancestry_last: "ancestry w ident sts \<Longrightarrow> rooted w \<Longrightarrow> ns_maps (List.last sts) = identity_map"
  by (induction rule: ancestry.induct) (auto simp: rooted_def dest: ancestry_not_Nil)

lemma compose_reversed:
  assumes "\<forall>m \<in> set ms. good_map m" and "rev ms = result # children"
  shows "\<exists>m. compose_chain children result = Ok m \<and> good_map m \<and> map_rel m = path_rel ms"
proof -
  have ms: "ms = rev children @ [result]" using assms(2) by (metis rev.simps(2) rev_rev_ident)
  then have "good_map result" "\<forall>m \<in> set children. good_map m" using assms(1) by auto
  from compose_chain_rel [OF this] obtain m where m: "compose_chain children result = Ok m" "good_map m"
      "\<And>g x z. map_rel m g x z \<longleftrightarrow> (\<exists>y. path_rel (rev children) g x y \<and> map_rel result g y z)"
    by blast
  have "map_rel m g x z \<longleftrightarrow> path_rel ms g x z" for g x z unfolding m(3) ms by (auto simp: path_rel_append)
  then show ?thesis using m(1,2) by blast
qed

lemma map_to_initial_path:
  assumes "ancestry w ident sts" and "length sts \<le> 34" and "rooted w"
  shows "\<exists>m. map_to_initial w ident = Ok m \<and> good_map m \<and> map_rel m = path_rel (path_maps sts)"
proof -
  have good: "\<forall>m \<in> set (path_maps sts). good_map m" using ancestry_good [OF assms(1)] by blast
  obtain ms where ms: "chain_loop 33 w ident = Ok (ms, 1)" "ms \<noteq> []" "\<forall>m \<in> set ms. good_map m"
      "path_rel ms = path_rel (path_maps sts)"
  proof (cases "length sts \<le> 33")
    case True
    then show ?thesis
      using that [of "path_maps sts"] chain_loop_ancestry [OF assms(1) True] good ancestry_not_Nil [OF assms(1)]
      by (simp add: path_maps_def)
  next
    case False
    then have l: "length sts = Suc 33" using assms(2) by simp
    define bs where "bs = path_maps (butlast sts)"
    have "bs \<noteq> []" using l by (cases sts rule: rev_cases) (auto simp: bs_def path_maps_def)
    moreover have bg: "\<forall>m \<in> set bs. good_map m"
      using good by (auto simp: bs_def path_maps_def dest: in_set_butlastD)
    moreover have "path_maps sts = bs @ [identity_map]"
      using ancestry_last [OF assms(1,3)] ancestry_not_Nil [OF assms(1)]
      by (cases sts rule: rev_cases) (auto simp: bs_def path_maps_def)
    ultimately have "path_rel bs = path_rel (path_maps sts)" using path_rel_identity by (intro ext) simp
    then show ?thesis
      using that [of bs] chain_loop_deepest [OF assms(1) l] \<open>bs \<noteq> []\<close> bg by (simp add: bs_def)
  qed
  obtain result children where rc: "rev ms = result # children" using ms(2) by (cases "rev ms") auto
  then show ?thesis using compose_reversed [OF ms(3) rc] ms(1,4) by (simp add: map_to_initial_def)
qed

section \<open>What later worlds keep\<close>

definition state_keeps :: "ns_state \<Rightarrow> ns_state \<Rightarrow> bool" where
  "state_keeps st st' \<longleftrightarrow> ns_parent st' = ns_parent st \<and> ns_owner st' = ns_owner st
     \<and> (\<forall>g. map_rows (ns_maps st) g \<noteq> [] \<longrightarrow> map_rows (ns_maps st') g = map_rows (ns_maps st) g)"

definition grows :: "ns_world \<Rightarrow> ns_world \<Rightarrow> bool" where
  "grows w w' \<longleftrightarrow> (\<forall>i st. state_of w i = Ok st \<longrightarrow> (\<exists>st'. state_of w' i = Ok st' \<and> state_keeps st st'))"

lemma state_keeps_refl [simp]: "state_keeps st st"
  by (simp add: state_keeps_def)

lemma state_keeps_trans: "state_keeps a b \<Longrightarrow> state_keeps b c \<Longrightarrow> state_keeps a c"
  by (auto simp: state_keeps_def)

lemma grows_trans: "grows a b \<Longrightarrow> grows b c \<Longrightarrow> grows a c"
  unfolding grows_def by (meson state_keeps_trans)

lemma state_keeps_rel: "state_keeps st st' \<Longrightarrow> map_rel (ns_maps st) g x y \<Longrightarrow> map_rel (ns_maps st') g x y"
  by (auto simp: state_keeps_def map_rel_def rows_rel_def) (metis empty_iff list.set(1))

lemma ancestry_grows:
  "ancestry w ident sts \<Longrightarrow> grows w w' \<Longrightarrow> \<exists>sts'. ancestry w' ident sts' \<and> list_all2 state_keeps sts sts'"
proof (induction rule: ancestry.induct)
  case (anc_root st)
  then obtain st' where "state_of w' 1 = Ok st'" "state_keeps st st'" by (auto simp: grows_def)
  then show ?case by (intro exI [where x = "[st']"]) (simp add: ancestry.anc_root)
next
  case (anc_step ident st sts)
  from anc_step.IH [OF anc_step.prems] obtain sts' where s: "ancestry w' (ns_parent st) sts'" "list_all2 state_keeps sts sts'"
    by blast
  from anc_step.hyps anc_step.prems obtain st' where st': "state_of w' ident = Ok st'" "state_keeps st st'"
    by (auto simp: grows_def)
  then have "ancestry w' ident (st' # sts')"
    using s(1) anc_step.hyps(1,3) by (intro ancestry.anc_step) (simp_all add: state_keeps_def)
  then show ?case using s(2) st'(2) by blast
qed

lemma path_rel_keeps:
  "list_all2 state_keeps sts sts' \<Longrightarrow> path_rel (path_maps sts) g x z \<Longrightarrow> path_rel (path_maps sts') g x z"
proof (induction arbitrary: x rule: list_all2_induct)
  case (Cons st sts st' sts')
  then show ?case by (auto simp: path_maps_def dest: state_keeps_rel)
qed (simp add: path_maps_def)

section \<open>The invariant\<close>

definition ids_covered :: "ns_state list \<Rightarrow> bool" where
  "ids_covered sts \<longleftrightarrow> (\<forall>g x y. map_rel (ns_maps (hd sts)) g x y \<longrightarrow> (\<exists>z. path_rel (path_maps (tl sts)) g y z))"

definition placed :: "ns_world \<Rightarrow> u64 \<Rightarrow> bool" where
  "placed w i \<longleftrightarrow> (\<exists>sts. ancestry w i sts \<and> length sts \<le> 34 \<and> ids_covered sts)"

definition ns_inv :: "ns_world \<Rightarrow> bool" where
  "ns_inv w \<longleftrightarrow> rooted w \<and> 2 \<le> nw_next w
     \<and> (\<forall>i st. state_of w i = Ok st \<longrightarrow> i < nw_next w \<and> ns_parent st < i \<and> placed w i)
     \<and> (\<forall>me p. nw_proc w me = Some p \<longrightarrow> (\<exists>st. state_of w (np_ns p) = Ok st))"

lemma placed_grows:
  assumes "placed w i" and "grows w w'" and "state_of w' i = state_of w i"
  shows "placed w' i"
proof -
  obtain sts where s: "ancestry w i sts" "length sts \<le> 34" "ids_covered sts" using assms(1) by (auto simp: placed_def)
  then obtain sts' where s': "ancestry w' i sts'" "list_all2 state_keeps sts sts'" using ancestry_grows assms(2) by blast
  have "hd sts' = hd sts" using ancestry_hd [OF s(1)] ancestry_hd [OF s'(1)] assms(3) by simp
  moreover have "list_all2 state_keeps (tl sts) (tl sts')" using s'(2) by (cases sts; cases sts') auto
  ultimately have "ids_covered sts'"
    using s(3) path_rel_keeps [of "tl sts" "tl sts'"] unfolding ids_covered_def by fastforce
  moreover have "length sts' \<le> 34" using s(2) s'(2) by (simp add: list_all2_lengthD [symmetric])
  ultimately show ?thesis using s'(1) by (auto simp: placed_def)
qed

text \<open>Steps that leave the objects alone.\<close>

lemma same_states:
  assumes "nw_store w' = nw_store w"
  shows "state_of w' = state_of w" "ancestry w' = ancestry w" "rooted w' = rooted w" "placed w' = placed w"
proof -
  show s: "state_of w' = state_of w" using assms by (intro ext) (simp add: state_of_def)
  have le: "ancestry v' i sts" if "ancestry v i sts" "state_of v' = state_of v" for v v' i sts
    using that by (induction rule: ancestry.induct) (auto intro: ancestry.intros)
  show a: "ancestry w' = ancestry w" by (intro ext iffI) (auto intro: le simp: s)
  show "rooted w' = rooted w" by (simp add: rooted_def s)
  show "placed w' = placed w" by (intro ext) (simp add: placed_def a)
qed

lemma inv_same_store:
  assumes "ns_inv w" and "nw_store w' = nw_store w" and "nw_next w \<le> nw_next w'"
    and "\<And>me p. nw_proc w' me = Some p \<Longrightarrow> \<exists>st. state_of w (np_ns p) = Ok st"
  shows "ns_inv w' \<and> grows w w'"
proof -
  have "i < nw_next w'" if "i < nw_next w" for i using that assms(3) by (rule less_le_trans)
  moreover have "2 \<le> nw_next w'" using assms(1,3) order_trans unfolding ns_inv_def by blast
  ultimately show ?thesis
    using assms(1,4) unfolding ns_inv_def grows_def same_states [OF assms(2)] by (auto intro: state_keeps_refl)
qed

text \<open>A change of one object that keeps what was there.\<close>

lemma inv_update:
  assumes inv: "ns_inv w" and st: "state_of w k = Ok st" and state_keeps: "state_keeps st st'"
    and valid: "valid_map (ns_maps st')" and root: "k = 1 \<Longrightarrow> ns_maps st' = ns_maps st"
    and w': "w' = w\<lparr>nw_store := (nw_store w)(k := Inr (state_encode st'))\<rparr>"
    and cover: "\<And>sts. ancestry w (ns_parent st) sts \<Longrightarrow> k \<noteq> 1 \<Longrightarrow> ids_covered (st' # sts)"
  shows "ns_inv w' \<and> grows w w' \<and> state_of w' k = Ok st'"
proof -
  have sk: "state_of w' k = Ok st'" using valid by (simp add: w' state_of_def state_decode_encode)
  have so: "state_of w' i = state_of w i" if "i \<noteq> k" for i using that by (simp add: w' state_of_def)
  have grows: "grows w w'"
    unfolding grows_def
  proof (intro allI impI)
    fix i s assume "state_of w i = Ok s"
    then show "\<exists>s'. state_of w' i = Ok s' \<and> state_keeps s s'" using sk so [of i] st state_keeps by (cases "i = k") auto
  qed
  have rooted: "rooted w'"
    using inv sk so [of 1] st state_keeps root by (cases "k = 1") (auto simp: ns_inv_def rooted_def state_keeps_def)
  have "placed w' k"
  proof (cases "k = 1")
    case True
    then show ?thesis
      using sk by (auto simp: placed_def ids_covered_def path_maps_def intro!: exI [where x = "[st']"] ancestry.anc_root)
  next
    case False
    obtain sts where s: "ancestry w k sts" "length sts \<le> 34" using inv st unfolding ns_inv_def placed_def by blast
    then obtain us where us: "sts = st # us" "ns_parent st \<noteq> 0" "ancestry w (ns_parent st) us"
      using False st by (auto elim: ancestry_cases)
    from ancestry_grows [OF us(3) grows] obtain us' where u': "ancestry w' (ns_parent st) us'" "list_all2 state_keeps us us'"
      by blast
    have "ids_covered (st' # us')"
      using cover [OF us(3) False] path_rel_keeps [OF u'(2)] by (fastforce simp: ids_covered_def)
    moreover have "ancestry w' k (st' # us')"
      using False sk state_keeps us(2) u'(1) by (intro ancestry.anc_step) (simp_all add: state_keeps_def)
    moreover have "length us' = length us" using u'(2) by (simp add: list_all2_lengthD [symmetric])
    ultimately show ?thesis using s(2) us(1) by (auto simp: placed_def)
  qed
  note pk = this
  have each: "i < nw_next w \<and> ns_parent s < i \<and> placed w' i" if s: "state_of w' i = Ok s" for i s
  proof (cases "i = k")
    case True
    then have "ns_parent s = ns_parent st" using s sk state_keeps by (simp add: state_keeps_def)
    then show ?thesis using True pk inv st unfolding ns_inv_def by simp
  next
    case False
    then have "state_of w i = Ok s" "state_of w' i = state_of w i" using s so by simp_all
    then show ?thesis using placed_grows [OF _ grows] inv unfolding ns_inv_def by blast
  qed
  moreover have "\<exists>st. state_of w' (np_ns p) = Ok st" if "nw_proc w me = Some p" for me p
    using that inv grows unfolding ns_inv_def grows_def by blast
  ultimately have "ns_inv w'" using rooted inv unfolding ns_inv_def by (simp add: w')
  then show ?thesis using grows sk by simp
qed

end
