(* ===== verification/Userns_Steps.thy ===== *)
theory Userns_Steps
  imports Userns_World
begin

text \<open>
  The transition system of user namespaces: any process may call any operation at any time
  with any arguments and any host failures, processes come and go and change credentials, and
  other objects use up identities.
\<close>

section \<open>Steps\<close>

inductive ns_step :: "ns_world \<Rightarrow> ns_world \<Rightarrow> bool" where
  step_prepare: "prepare_unshare h me w = (r, w') \<Longrightarrow> ns_step w w'"
| step_unshare: "ns_unshare h me w = (r, w') \<Longrightarrow> ns_step w w'"
| step_enter: "ns_enter h ident me w = (r, w') \<Longrightarrow> ns_step w w'"
| step_write: "write_map h pid grp bs off me w = (r, w') \<Longrightarrow> ns_step w w'"
| step_groups: "ns_groups h pid value me w = (r, w') \<Longrightarrow> ns_step w w'"
| step_caps: "set_capabilities caps me w = (r, w') \<Longrightarrow> ns_step w w'"
| step_restore: "ns_restore h bs me w = (ok, w') \<Longrightarrow> ns_step w w'"
| step_processes: "\<forall>me p. f me = Some p \<longrightarrow> (\<exists>st. state_of w (np_ns p) = Ok st)
    \<Longrightarrow> ns_step w (w\<lparr>nw_proc := f\<rparr>)"
| step_objects: "nw_next w < - 1 - push_bit 32 1 \<Longrightarrow> ns_step w (w\<lparr>nw_next := nw_next w + 1\<rparr>)"

definition ns_initial :: "ns_world \<Rightarrow> bool" where
  "ns_initial w \<longleftrightarrow> (\<exists>e. nw_store w = (\<lambda>i. if i = 1 then Inr (state_encode initial_state) else Inl e))
     \<and> nw_next w = 2 \<and> (\<forall>me p. nw_proc w me = Some p \<longrightarrow> np_ns p = 1)"

section \<open>New namespaces\<close>

lemma depth_check_Ok: "ancestry w i sts \<Longrightarrow> depth_check n w i = Ok () \<longleftrightarrow> length sts \<le> Suc n"
proof (induction arbitrary: n rule: ancestry.induct)
  case (anc_root st)
  then show ?case by (simp add: depth_check.simps)
next
  case (anc_step i st sts)
  have "sts \<noteq> []" using anc_step.hyps(4) by (rule ancestry_not_Nil)
  then show ?case
    using anc_step by (cases n) (simp_all add: depth_check.simps [of _ w i])
qed

lemma inv_parent:
  assumes "ns_inv w" and "state_of w i = Ok st"
  shows "i \<noteq> 0" "i < nw_next w" "rooted w" "\<exists>sts. ancestry w i sts \<and> length sts \<le> 34 \<and> ids_covered sts"
proof -
  have *: "i < nw_next w" "ns_parent st < i" "placed w i" "rooted w" using assms unfolding ns_inv_def by auto
  show "i \<noteq> 0" using *(2) word_not_simps(1) by blast
  show "i < nw_next w" "rooted w" "\<exists>sts. ancestry w i sts \<and> length sts \<le> 34 \<and> ids_covered sts"
    using *(1,3,4) by (simp_all add: placed_def)
qed

lemma next_no_wrap:
  assumes "n < - 1 - push_bit 32 (1 :: u64)"
  shows "n < n + 1"
proof -
  have "n \<noteq> - 1" using assms word_order.extremum_strict by auto
  then show ?thesis using unat_Suc_no_wrap [of n] by (simp add: word_less_nat_alt)
qed

lemma inv_new:
  assumes inv: "ns_inv w" and anc: "ancestry w i sts" and len: "length sts \<le> 33"
    and room: "nw_next w < - 1 - push_bit 32 1"
    and st': "ns_parent st' = i" "ns_maps st' = \<lparr>im_uid = [], im_gid = []\<rparr>"
    and w': "w' = w\<lparr>nw_next := nw_next w + 1, nw_store := (nw_store w)(nw_next w := Inr (state_encode st'))\<rparr>"
  shows "ns_inv w' \<and> grows w w' \<and> ancestry w' (nw_next w) (st' # sts) \<and> state_of w' (nw_next w) = Ok st'"
proof -
  define j where "j = nw_next w"
  have "valid_map (ns_maps st')" by (simp add: st' valid_map_def valid_rows_def)
  then have sj: "state_of w' j = Ok st'" by (simp add: w' j_def state_of_def state_decode_encode)
  have so: "state_of w' k = state_of w k" if "k \<noteq> j" for k using that by (simp add: w' j_def state_of_def)
  have old: "k < j" if "state_of w k = Ok s" for k s using inv_parent(2) [OF inv that] by (simp add: j_def)
  have grows: "grows w w'" unfolding grows_def using old so by (metis state_keeps_refl less_irrefl)
  have i: "i \<noteq> 0" "i < j" using inv_parent [OF inv ancestry_hd [OF anc]] by (simp_all add: j_def)
  have j: "j < nw_next w'" using next_no_wrap [OF room] by (simp add: w' j_def)
  have "2 \<le> j" using inv by (simp add: ns_inv_def j_def)
  then have j1: "j \<noteq> 1" by (auto simp: word_le_nat_alt)
  have same: "sts' = sts" if "ancestry w' i sts'" "list_all2 state_keeps sts sts'" for sts'
  proof -
    have "ancestry w' k us" if "ancestry w k us" for k us
      using that
    proof (induction rule: ancestry.induct)
      case (anc_root st)
      then show ?case using so [of 1] j1 by (auto intro: ancestry.anc_root)
    next
      case (anc_step k st us)
      then have "state_of w' k = Ok st" using so [of k] old [of k] by auto
      with anc_step show ?case by (intro ancestry.anc_step)
    qed
    from this [OF anc] that(1) show ?thesis by (rule ancestry_unique [symmetric])
  qed
  obtain us where "ancestry w' i us" "list_all2 state_keeps sts us" using ancestry_grows [OF anc grows] by blast
  then have "ancestry w' i sts" using same by blast
  then have aj: "ancestry w' j (st' # sts)" using j1 sj i(1) st'(1) by (intro ancestry.anc_step) simp_all
  have "ids_covered (st' # sts)" by (simp add: ids_covered_def st' map_rel_def map_rows_def)
  with aj len have pj: "placed w' j" by (auto simp: placed_def)
  have each: "k < nw_next w' \<and> ns_parent s < k \<and> placed w' k" if s: "state_of w' k = Ok s" for k s
  proof (cases "k = j")
    case True
    then show ?thesis using s sj j i(2) pj st'(1) by simp
  next
    case False
    then have "state_of w k = Ok s" "state_of w' k = state_of w k" using s so by simp_all
    then show ?thesis
      using placed_grows [OF _ grows] inv less_trans [OF old j] unfolding ns_inv_def by blast
  qed
  have "rooted w'" using inv so [of 1] j1 by (simp add: ns_inv_def rooted_def)
  moreover have "2 \<le> nw_next w'" using \<open>2 \<le> j\<close> j by simp
  moreover have "\<exists>st. state_of w' (np_ns p) = Ok st" if "nw_proc w me = Some p" for me p
    using that inv grows unfolding ns_inv_def grows_def by blast
  ultimately have "ns_inv w'" using each unfolding ns_inv_def by (simp add: w')
  then show ?thesis using grows aj sj by (simp add: j_def)
qed

definition next_bumped :: "ns_world \<Rightarrow> ns_world \<Rightarrow> bool" where
  "next_bumped w w' \<longleftrightarrow> w' = w \<or> nw_next w < - 1 - push_bit 32 1 \<and> w' = w\<lparr>nw_next := nw_next w + 1\<rparr>"

lemma child_state_simps [simp]:
  "ns_parent (child_state w me p) = np_ns p" "ns_owner (child_state w me p) = np_uid p"
  "ns_maps (child_state w me p) = \<lparr>im_uid = [], im_gid = []\<rparr>"
  by (simp_all add: child_state_def)

definition with_child :: "u32 \<Rightarrow> ns_process \<Rightarrow> ns_world \<Rightarrow> ns_world" where
  "with_child me p w =
     w\<lparr>nw_next := nw_next w + 1, nw_store := (nw_store w)
        (nw_next w := Inr (state_encode (child_state (w\<lparr>nw_next := nw_next w + 1\<rparr>) me p)))\<rparr>"

lemma prepare_unshare_cases:
  assumes "prepare_unshare h me w = (r, w')"
  obtains "next_bumped w w'" "\<And>i. r \<noteq> Ok i"
  | p where "nw_proc w me = Some p" "depth_check 32 w (np_ns p) = Ok ()" "nw_next w < - 1 - push_bit 32 1"
      "r = Ok (nw_next w)" "w' = with_child me p w"
proof -
  have "(\<exists>p. nw_proc w me = Some p \<and> depth_check 32 w (np_ns p) = Ok () \<and> nw_next w < - 1 - push_bit 32 1
      \<and> r = Ok (nw_next w) \<and> w' = with_child me p w) \<or> next_bumped w w' \<and> (\<forall>i. r \<noteq> Ok i)"
  proof (cases "nw_proc w me")
    case None
    then show ?thesis using assms by (auto simp: prepare_unshare_def next_bumped_def)
  next
    case (Some p)
    then show ?thesis
      using assms
      by (auto simp: prepare_unshare_def new_object_def next_bumped_def with_child_def
          split: try_or_splits if_splits option.splits)
  qed
  then show thesis using that by blast
qed

lemma inv_bumped: "ns_inv w \<Longrightarrow> next_bumped w w' \<Longrightarrow> ns_inv w' \<and> grows w w'"
  using next_no_wrap [of "nw_next w"]
  by (intro inv_same_store) (auto simp: next_bumped_def ns_inv_def)

lemma inv_prepare:
  assumes "ns_inv w" and "prepare_unshare h me w = (r, w')"
  shows "ns_inv w' \<and> grows w w' \<and> (\<forall>i. r = Ok i \<longrightarrow> (\<exists>st. state_of w' i = Ok st))"
  using assms(2)
proof (cases rule: prepare_unshare_cases)
  case 1
  then show ?thesis using inv_bumped [OF assms(1)] by blast
next
  case (2 p)
  obtain st0 where "state_of w (np_ns p) = Ok st0" using 2(1) assms(1) unfolding ns_inv_def by blast
  then obtain sts where s: "ancestry w (np_ns p) sts" using inv_parent(4) [OF assms(1)] by blast
  then have "length sts \<le> 33" using 2(2) depth_check_Ok [OF s, of 32] by simp
  from inv_new [OF assms(1) s this 2(3) child_state_simps(1,3) 2(5) [unfolded with_child_def]]
  show ?thesis using 2(4) by simp
qed

section \<open>Updates\<close>

lemma store_update_cases:
  assumes "store_update h k action w = (r, w')"
  obtains "w' = w"
  | old new res where "nw_store w k = Inr old" "action old = Ok (new, res)" "r = Ok res"
      "w' = w\<lparr>nw_store := (nw_store w)(k := Inr new)\<rparr>"
  using assms by (auto simp: store_update_def split: sum.splits try_or_splits if_splits option.splits)

lemma set_rows_simps [simp]:
  "ns_parent (set_rows g rows st) = ns_parent st" "ns_owner (set_rows g rows st) = ns_owner st"
  "map_rows (ns_maps (set_rows g rows st)) g' = (if g' = g then rows else map_rows (ns_maps st) g')"
  by (auto simp: set_rows_def map_rows_def)

lemma write_action_Ok:
  assumes "write_action w me p k g rows len old = Ok (new, res)"
  obtains st pm where "state_decode old = Ok st" "map_to_initial w (ns_parent st) = Ok pm"
    "\<forall>row \<in> set rows. \<exists>q \<in> set (map_rows pm g). row_contained row q" "map_rows (ns_maps st) g = []"
    "new = state_encode (set_rows g rows st)" "np_ns p = k \<or> np_ns p = ns_parent st"
    "\<not> capable w me (ns_parent st) (if g then 6 else 7) \<Longrightarrow>
       \<exists>a own. rows = [(a, own, 1)] \<and> map_up pm (if g then np_gid p else np_uid p) g = Some own
         \<and> np_uid p = ns_owner st \<and> (g \<longrightarrow> ns_denied_groups st)"
proof -
  from assms obtain st pm where *: "state_decode old = Ok st" "map_to_initial w (ns_parent st) = Ok pm"
      "list_all (\<lambda>row. list_ex (row_contained row) (map_rows pm g)) rows" "map_rows (ns_maps st) g = []"
      "new = state_encode (set_rows g rows st)" "np_ns p = k \<or> np_ns p = ns_parent st"
      and priv: "\<not> capable w me (ns_parent st) (if g then 6 else 7) \<Longrightarrow>
        \<exists>own. map_up pm (if g then np_gid p else np_uid p) g = Some own \<and> length rows = 1 \<and> fst (snd (hd rows)) = own
          \<and> snd (snd (hd rows)) = 1 \<and> np_uid p = ns_owner st \<and> (g \<longrightarrow> ns_denied_groups st)"
    by (auto simp: write_action_def split: if_splits option.splits)
  have "\<exists>a own. rows = [(a, own, 1)] \<and> map_up pm (if g then np_gid p else np_uid p) g = Some own
         \<and> np_uid p = ns_owner st \<and> (g \<longrightarrow> ns_denied_groups st)"
    if "\<not> capable w me (ns_parent st) (if g then 6 else 7)"
    using priv [OF that] by (cases rows) auto
  then show thesis using that * by (auto simp: list_all_iff list_ex_iff)
qed

lemma contained_rel:
  assumes "row_contained row q" and "row_maps row x y"
  shows "\<exists>z. row_maps q y z"
  using assms
  by (intro exI [where x = "row_out q + (y - row_in q)"]) (auto simp: row_contained_def row_maps_def)

lemma inv_write_action:
  assumes inv: "ns_inv w" and old: "nw_store w k = Inr old" and act: "write_action w me p k g rows len old = Ok (new, res)"
    and rows: "valid_rows rows" "length rows \<le> 340" and k: "k \<noteq> 1"
    and w': "w' = w\<lparr>nw_store := (nw_store w)(k := Inr new)\<rparr>"
  shows "ns_inv w' \<and> grows w w'"
  using act
proof (rule write_action_Ok)
  fix st pm
  assume st: "state_decode old = Ok st" and pm: "map_to_initial w (ns_parent st) = Ok pm"
    and con: "\<forall>row \<in> set rows. \<exists>q \<in> set (map_rows pm g). row_contained row q"
    and empty: "map_rows (ns_maps st) g = []" and new: "new = state_encode (set_rows g rows st)"
  have sk: "state_of w k = Ok st" using old st by (simp add: state_of_def)
  have state_keeps: "state_keeps st (set_rows g rows st)" using empty by (simp add: state_keeps_def)
  have valid: "valid_map (ns_maps (set_rows g rows st))"
    using state_of_valid [OF sk] rows by (auto simp: set_rows_def valid_map_def)
  have "ids_covered (set_rows g rows st # sts)" if anc: "ancestry w (ns_parent st) sts" for sts
  proof -
    from inv_parent(4) [OF inv sk] obtain us where us: "ancestry w k us" "length us \<le> 34" "ids_covered us" by blast
    then have "us = st # sts" using k sk ancestry_unique [OF anc] by (auto elim: ancestry_cases)
    then have cov: "ids_covered (st # sts)" and len: "length sts \<le> 34" using us(2,3) by auto
    have rel: "map_rel pm = path_rel (path_maps sts)"
      using map_to_initial_path [OF anc len inv_parent(3) [OF inv sk]] pm by auto
    show ?thesis
      unfolding ids_covered_def list.sel
    proof (intro allI impI)
      fix g' x y assume m: "map_rel (ns_maps (set_rows g rows st)) g' x y"
      show "\<exists>z. path_rel (path_maps sts) g' y z"
      proof (cases "g' = g")
        case True
        then obtain row where row: "row \<in> set rows" "row_maps row x y" using m by (auto simp: map_rel_def rows_rel_def)
        then obtain q where "q \<in> set (map_rows pm g)" "row_contained row q" using con by blast
        then have "\<exists>z. map_rel pm g y z" using contained_rel [OF _ row(2)] unfolding map_rel_def rows_rel_def by blast
        then show ?thesis using rel True by simp
      next
        case False
        then show ?thesis using m cov by (auto simp: ids_covered_def map_rel_def)
      qed
    qed
  qed
  with inv_update [OF inv sk state_keeps valid _ w' [unfolded new]] k show ?thesis by blast
qed

lemma inv_write:
  assumes "ns_inv w" and "write_map h pid g bs off me w = (r, w')"
  shows "ns_inv w' \<and> grows w w'"
proof -
  have same: "ns_inv w \<and> grows w w" using inv_same_store [OF assms(1), of w] assms(1) by (auto simp: ns_inv_def)
  consider "w' = w" | p k rows where "nw_proc w me = Some p" "k \<noteq> 1" "length rows \<le> 340" "valid_rows rows"
      "store_update h k (write_action w me p k g rows (length bs)) w = (r, w')"
    using assms(2)
    by (auto simp: write_map_def validate_rows_Ok not_less split: option.splits if_splits try_or_splits)
  then show ?thesis
  proof cases
    case 1
    then show ?thesis using same by simp
  next
    case (2 p k rows)
    from 2(5) show ?thesis
    proof (cases rule: store_update_cases)
      case 1
      then show ?thesis using same by simp
    next
      case (2 old new res)
      with inv_write_action [OF assms(1) 2(1,2)] \<open>valid_rows rows\<close> \<open>length rows \<le> 340\<close> \<open>k \<noteq> 1\<close>
      show ?thesis by blast
    qed
  qed
qed

lemma groups_action_Ok:
  assumes "groups_action w me k value old = Ok (new, res)"
  obtains st st' where "state_decode old = Ok st" "new = state_encode st'" "ns_maps st' = ns_maps st" "state_keeps st st'"
proof -
  from assms obtain st where st: "state_decode old = Ok st" by (auto simp: groups_action_def)
  define choice where "choice = (case value of
      None \<Rightarrow> Ok st
    | Some v \<Rightarrow>
        if k = 1 \<or> \<not> capable w me k 21 then Err EPERM
        else and_then (write_text v) (\<lambda>text.
          let word = trim_end text in
          if word = DENY \<and> im_gid (ns_maps st) = [] then Ok (st\<lparr>ns_denied_groups := True\<rparr>)
          else if word = ALLOW \<and> \<not> ns_denied_groups st then Ok st
          else if word = DENY \<or> word = ALLOW then Err EPERM
          else Err EINVAL))"
  have c: "choice = Ok st' \<Longrightarrow> st' = st \<or> st' = st\<lparr>ns_denied_groups := True\<rparr>" for st'
    unfolding choice_def by (cases "value") (auto simp: Let_def split: if_splits)
  from assms st obtain st' where st': "choice = Ok st'" "new = state_encode st'"
    unfolding groups_action_def choice_def [symmetric] by (simp add: choice_def [symmetric]) blast
  then show thesis using that [OF st st'(2)] c [OF st'(1)] by (auto simp: state_keeps_def)
qed

lemma inv_groups:
  assumes inv: "ns_inv w" and "ns_groups h pid value me w = (r, w')"
  shows "ns_inv w' \<and> grows w w'"
proof -
  have same: "ns_inv w \<and> grows w w" using inv_same_store [OF inv, of w] inv by (auto simp: ns_inv_def)
  consider "w' = w" | k where "store_update h k (groups_action w me k value) w = (r, w')"
    using assms(2) by (auto simp: ns_groups_def split: try_or_splits)
  then show ?thesis
  proof cases
    case 1
    then show ?thesis using same by simp
  next
    case (2 k)
    then show ?thesis
    proof (cases rule: store_update_cases)
      case 1
      then show ?thesis using same by simp
    next
      case (2 old new res)
      from 2(2) show ?thesis
      proof (rule groups_action_Ok)
        fix st st' assume st: "state_decode old = Ok st" and new: "new = state_encode st'"
          and m: "ns_maps st' = ns_maps st" "state_keeps st st'"
        have sk: "state_of w k = Ok st" using 2(1) st by (simp add: state_of_def)
        have "ids_covered (st' # sts)" if anc: "ancestry w (ns_parent st) sts" "k \<noteq> 1" for sts
        proof -
          from inv_parent(4) [OF inv sk] obtain us where us: "ancestry w k us" "ids_covered us" by blast
          then have "us = st # sts" using anc(2) sk ancestry_unique [OF anc(1)] by (auto elim: ancestry_cases)
          then show ?thesis using us(2) m(1) by (simp add: ids_covered_def)
        qed
        moreover have "valid_map (ns_maps st')" using state_of_valid [OF sk] m(1) by simp
        ultimately show ?thesis using inv_update [OF inv sk m(2) _ m(1) 2(4) [unfolded new]] by blast
      qed
    qed
  qed
qed

section \<open>Processes\<close>

lemma inv_procs:
  assumes inv: "ns_inv w" and p: "\<And>me p. nw_proc w' me = Some p \<Longrightarrow> \<exists>st. state_of w (np_ns p) = Ok st"
    and "nw_store w' = nw_store w" and "nw_next w' = nw_next w"
  shows "ns_inv w' \<and> grows w w'"
  using inv_same_store [OF inv assms(3) _ p] assms(4) by simp

lemma inv_install:
  assumes inv: "ns_inv w" and st: "state_of w k = Ok st" and "ns_install h k me w = (r, w')"
  shows "ns_inv w' \<and> grows w w'"
  using inv st assms(3)
  by (intro inv_procs) (auto simp: ns_install_def ns_inv_def split: option.splits if_splits)

lemma inv_unshare:
  assumes inv: "ns_inv w" and u: "ns_unshare h me w = (r, w')"
  shows "ns_inv w' \<and> grows w w'"
proof -
  obtain pr w1 where pre: "prepare_unshare h me w = (pr, w1)" by (cases "prepare_unshare h me w")
  note one = inv_prepare [OF inv pre]
  show ?thesis
  proof (cases pr)
    case (Ok k)
    define w2 where "w2 = w1\<lparr>nw_proc := (nw_proc w1)(me := map_option (\<lambda>p. p\<lparr>np_private := True\<rparr>) (nw_proc w1 me))\<rparr>"
    have two: "ns_inv w2 \<and> grows w1 w2"
      using one by (intro inv_procs) (auto simp: w2_def ns_inv_def split: if_splits)
    obtain st where "state_of w1 k = Ok st" using one Ok by blast
    then have "state_of w2 k = Ok st" by (simp add: w2_def state_of_def)
    from inv_install [OF _ this] two u pre Ok have "ns_inv w' \<and> grows w2 w'"
      by (simp add: ns_unshare_def w2_def)
    then show ?thesis using one two grows_trans by blast
  qed (use one u pre in \<open>auto simp: ns_unshare_def\<close>)
qed

lemma restore_cases:
  assumes "ns_restore h bs me w = (ok, w')"
  obtains "w' = w"
  | p st where "state_of w (np_ns p) = Ok st" "w' = w\<lparr>nw_proc := (nw_proc w)(me \<mapsto> p)\<rparr>"
proof (cases "nw_proc w me")
  case None
  then show thesis using assms that(1) by (simp add: ns_restore_def)
next
  case (Some p)
  show thesis
  proof (cases "state_of w (word_at bs 0)")
    case (Ok st)
    define w1 where "w1 = w\<lparr>nw_proc := (nw_proc w)(me \<mapsto> p\<lparr>np_ns := word_at bs 0\<rparr>)\<rparr>"
    define q where "q = p\<lparr>np_ns := word_at bs 0, np_caps := (word_at bs 8, word_at bs 16, word_at bs 24)\<rparr>"
    have "w' = w \<or> w' = w1 \<or> w' = w\<lparr>nw_proc := (nw_proc w)(me \<mapsto> q)\<rparr>"
      using assms Some Ok unfolding ns_restore_def Let_def w1_def [symmetric] q_def [symmetric]
      by (cases "map_to_initial w1 (word_at bs 0)")
        (auto simp: w1_def [symmetric] q_def [symmetric] split: if_splits)
    then show thesis
      using that(1) that(2) [of "p\<lparr>np_ns := word_at bs 0\<rparr>" st] that(2) [of q st] Ok by (auto simp: w1_def q_def)
  qed (use assms Some that(1) in \<open>simp_all add: ns_restore_def Let_def split: if_splits\<close>)
qed

lemma inv_restore:
  assumes "ns_restore h bs me w = (ok, w')" and inv: "ns_inv w"
  shows "ns_inv w' \<and> grows w w'"
  using assms(1)
proof (cases rule: restore_cases)
  case 1
  then show ?thesis using inv_procs [OF inv, of w] inv by (auto simp: ns_inv_def)
next
  case (2 p st)
  then show ?thesis using inv by (intro inv_procs) (auto simp: ns_inv_def split: if_splits)
qed

lemma inv_enter:
  assumes "ns_enter h ident me w = (r, w')" and inv: "ns_inv w"
  shows "ns_inv w' \<and> grows w w'"
proof -
  have "w' = w \<or> (\<exists>st. state_of w ident = Ok st \<and> ns_install h ident me w = (r, w'))"
    using assms(1) by (auto simp: ns_enter_def split: option.splits if_splits try_or_splits)
  then show ?thesis
    using inv_install [OF inv] inv_procs [OF inv, of w] inv unfolding ns_inv_def by blast
qed

lemma inv_caps:
  assumes "set_capabilities caps me w = (r, w')" and inv: "ns_inv w"
  shows "ns_inv w' \<and> grows w w'"
  using assms
  by (intro inv_procs) (auto simp: set_capabilities_def ns_inv_def split: option.splits if_splits prod.splits)

lemma step_inv: "ns_step w w' \<Longrightarrow> ns_inv w \<Longrightarrow> ns_inv w' \<and> grows w w'"
proof (induction rule: ns_step.induct)
  case (step_prepare h me w r w')
  then show ?case using inv_prepare by blast
next
  case (step_processes f w)
  then show ?case by (intro inv_procs) auto
next
  case (step_objects w)
  then show ?case by (intro inv_bumped) (auto simp: next_bumped_def)
qed (erule inv_unshare [rotated] inv_enter inv_write [rotated] inv_groups [rotated] inv_caps inv_restore, assumption)+

lemma initial_valid: "valid_map (ns_maps initial_state)"
proof -
  have "valid_rows [(0, 0, - 1)]"
    by (simp add: valid_rows_def bad_row_def unat_max_u32 u32_max_def del: unsigned_minus_1_eq_mask)
  then show ?thesis by (simp add: valid_map_def initial_state_def)
qed

lemma initial_states:
  assumes "ns_initial w"
  shows "state_of w i = Ok st \<longleftrightarrow> i = 1 \<and> st = initial_state"
  using assms state_decode_encode [OF initial_valid] by (auto simp: ns_initial_def state_of_def split: if_splits)

lemma initial_inv:
  assumes "ns_initial w"
  shows "ns_inv w"
proof -
  note s = initial_states [OF assms]
  have "ancestry w 1 [initial_state]" using s by (intro ancestry.anc_root) simp
  then have "placed w 1" by (force simp: placed_def ids_covered_def path_maps_def)
  moreover have "rooted w" using s by (simp add: rooted_def initial_state_def identity_map_def)
  ultimately show ?thesis
    unfolding ns_inv_def s using assms by (auto simp: ns_initial_def initial_state_def)
qed

lemma grows_refl: "grows w w"
  by (auto simp: grows_def)

interpretation userns: monotone_system ns_initial ns_step ns_inv grows
proof
  show "ns_inv w" if "ns_initial w" for w using that by (rule initial_inv)
  show "ns_inv w'" if "ns_step w w'" "ns_inv w" for w w' using step_inv [OF that] ..
  show "grows w w" if "ns_inv w" for w by (rule grows_refl)
  show "grows a c" if "grows a b" "grows b c" for a b c using that by (rule grows_trans)
  show "grows w w'" if "ns_step w w'" "ns_inv w" for w w' using step_inv [OF that] ..
qed

end
