(* ===== verification/Userns_Run.thy ===== *)
theory Userns_Run
  imports Userns_Steps
begin

text \<open>
  When the operations succeed: what a process has to bring to create a namespace and to write
  its maps, and the worlds these calls lead to.
\<close>

definition ok_host :: ns_host where
  "ok_host = \<lparr>nh_create = (\<lambda>_. None), nh_publish = (\<lambda>_. None), nh_retain = (\<lambda>_. None), nh_register = (\<lambda>_. True)\<rparr>"

lemma ok_host_simps [simp]:
  "nh_create ok_host i = None" "nh_publish ok_host bs = None" "nh_retain ok_host i = None" "nh_register ok_host i"
  by (simp_all add: ok_host_def)

definition entered :: "u64 \<Rightarrow> ns_process \<Rightarrow> ns_process" where
  "entered i p = p\<lparr>np_private := True, np_ns := i, np_caps := (ALL_CAPS, ALL_CAPS, 0)\<rparr>"

lemma entered_simps [simp]:
  "np_ns (entered i p) = i" "np_caps (entered i p) = (ALL_CAPS, ALL_CAPS, 0)" "np_uid (entered i p) = np_uid p"
  "np_gid (entered i p) = np_gid p"
  by (simp_all add: entered_def)

lemma unshare_succeeds:
  assumes "nw_proc w me = Some p" and "np_threads p = 1" and "\<not> np_confined p"
    and "map_to_initial w (np_ns p) = Ok m" and "map_up m (np_uid p) False \<noteq> None" and "map_up m (np_gid p) True \<noteq> None"
    and "depth_check 32 w (np_ns p) = Ok ()" and "nw_next w < - 1 - push_bit 32 1"
  shows "ns_unshare ok_host me w
    = (Ok (), (with_child me p w)\<lparr>nw_proc := (nw_proc w)(me \<mapsto> entered (nw_next w) p)\<rparr>)"
  using assms
  by (simp add: ns_unshare_def prepare_unshare_def new_object_def ns_install_def with_child_def entered_def)

lemma row_encode_length: "length (row_encode r) = 12"
  by (cases r) simp

lemma rows_encode_length: "length (rows_encode rows) = 4 + 12 * length rows"
  by (induction rows) (simp_all add: rows_encode_def row_encode_length)

lemma state_encode_length: "length (state_encode st) = 32 + 12 * length (im_uid (ns_maps st)) + 12 * length (im_gid (ns_maps st))"
  by (simp add: state_encode_def NS_MAGIC_def mapping_encode_def rows_encode_length)

lemma state_encode_small:
  "valid_map (ns_maps st) \<Longrightarrow> \<not> NS_BANK_SIZE - 8 < length (state_encode st)"
  by (auto simp: state_encode_length NS_BANK_SIZE_def valid_map_def)

lemma update_succeeds:
  assumes "nw_store w i = Inr old" and "action old = Ok (state_encode st, res)" and "valid_map (ns_maps st)"
  shows "store_update ok_host i action w = (Ok res, w\<lparr>nw_store := (nw_store w)(i := Inr (state_encode st))\<rparr>)"
proof (cases "state_encode st = old")
  case True
  then have "w\<lparr>nw_store := (nw_store w)(i := Inr (state_encode st))\<rparr> = w" using assms(1) by (simp add: fun_upd_idem)
  then show ?thesis using assms True state_encode_small [OF assms(3)] by (simp add: store_update_def)
next
  case False
  then show ?thesis using assms state_encode_small [OF assms(3)] by (simp add: store_update_def)
qed

lemma write_succeeds:
  assumes "nw_proc w me = Some p" and "off = 0" and "bs \<noteq> []" and "length bs < 4096" and "ns_id w me pid = Ok i" and "i \<noteq> 1"
    and "write_text bs = Ok text" and "parse_lines (str_lines text) = Ok rows" and "rows \<noteq> []" and "length rows \<le> 340"
    and "valid_rows rows" and "nw_store w i = Inr old" and "valid_map (ns_maps st)"
    and "write_action w me p i g rows (length bs) old = Ok (state_encode st, length bs)"
  shows "write_map ok_host pid g bs off me w
    = (Ok (length bs), w\<lparr>nw_store := (nw_store w)(i := Inr (state_encode st))\<rparr>)"
  using assms update_succeeds [where action = "write_action w me p i g rows (length bs)", OF assms(12,14,13)]
  by (simp add: write_map_def validate_rows_Ok [THEN iffD2])

section \<open>A first namespace\<close>

definition demo_ns_world :: ns_world where
  "demo_ns_world = \<lparr>nw_store = (\<lambda>i. if i = 1 then Inr (state_encode initial_state) else Inl ENOENT), nw_next = 2,
     nw_proc = [7 \<mapsto> \<lparr>np_ns = 1, np_caps = (0, 0, 0), np_uid = 1000, np_gid = 1000, np_threads = 1,
                      np_confined = False, np_private = True\<rparr>]\<rparr>"

definition demo_process :: ns_process where
  "demo_process = \<lparr>np_ns = 2, np_caps = (ALL_CAPS, ALL_CAPS, 0), np_uid = 1000, np_gid = 1000, np_threads = 1,
     np_confined = False, np_private = True\<rparr>"

definition demo_child :: ns_state where
  "demo_child = \<lparr>ns_owner = 1000, ns_parent = 1, ns_denied_groups = False, ns_maps = \<lparr>im_uid = [], im_gid = []\<rparr>\<rparr>"

definition demo_unshared :: ns_world where
  "demo_unshared = demo_ns_world\<lparr>nw_next := 3, nw_proc := [7 \<mapsto> demo_process],
     nw_store := (nw_store demo_ns_world)(2 := Inr (state_encode demo_child))\<rparr>"

text \<open>The line \<open>0 1000 1\<close>.\<close>

definition demo_line :: bytes where
  "demo_line = [48, 32, 49, 48, 48, 48, 32, 49, 10]"

lemma demo_ns_initial: "ns_initial demo_ns_world"
  by (auto simp: ns_initial_def demo_ns_world_def split: if_splits)

lemma demo_ns_state: "state_of demo_ns_world 1 = Ok initial_state"
  using initial_states [OF demo_ns_initial] by simp

lemma root_map:
  assumes "state_of w 1 = Ok initial_state"
  shows "map_to_initial w 1 = Ok identity_map" "depth_check n w 1 = Ok ()"
  using assms chain_loop.simps(2) [of 32 w 1]
  by (simp_all add: map_to_initial_def depth_check.simps initial_state_def identity_map_def)

lemma identity_rows: "im_uid identity_map = [(0, 0, - 1)]" "im_gid identity_map = [(0, 0, - 1)]"
  by (simp_all add: identity_map_def)

lemma identity_up: "map_up identity_map v g = (if v = - 1 then None else Some v)"
proof -
  have "v < - 1 \<longleftrightarrow> v \<noteq> - 1" by (simp add: word_order.not_eq_extremum)
  moreover have "unat v < 2 ^ 32" using unsigned_less [of v] by simp
  ultimately show ?thesis
    by (simp add: map_up_def map_rows_def identity_map_def translate_def checked_sub_u32_def checked_add_u32_def)
qed

lemma demo_unshare: "ns_unshare ok_host 7 demo_ns_world = (Ok (), demo_unshared)"
proof -
  define p where "p = \<lparr>np_ns = 1, np_caps = (0, 0, 0), np_uid = 1000, np_gid = 1000, np_threads = 1,
    np_confined = False, np_private = True\<rparr>"
  have p: "nw_proc demo_ns_world 7 = Some p" by (simp add: demo_ns_world_def p_def)
  have "ns_unshare ok_host 7 demo_ns_world = (Ok (), (with_child 7 p demo_ns_world)\<lparr>nw_proc :=
      (nw_proc demo_ns_world)(7 \<mapsto> entered (nw_next demo_ns_world) p)\<rparr>)"
    using p root_map [OF demo_ns_state]
    by (intro unshare_succeeds [where m = identity_map]) (simp_all add: p_def identity_up demo_ns_world_def)
  then show ?thesis
    by (simp add: with_child_def entered_def demo_unshared_def demo_ns_world_def child_state_def p_def
        groups_allowed_def current_ns_def demo_child_def demo_process_def)
qed

lemma demo_text: "write_text demo_line = Ok demo_line" "parse_lines (str_lines demo_line) = Ok [(0, 1000, 1)]"
  by (simp_all add: demo_line_def write_text_def str_lines_def strip_cr_def parse_line_def is_space_def parse_u32_def
      digits_value_def is_digit_def)

lemma demo_states: "state_of demo_unshared 1 = Ok initial_state" "state_of demo_unshared 2 = Ok demo_child"
proof -
  have "valid_map (ns_maps demo_child)" by (simp add: demo_child_def valid_map_def valid_rows_def)
  then show "state_of demo_unshared 2 = Ok demo_child" by (simp add: demo_unshared_def state_of_def state_decode_encode)
  show "state_of demo_unshared 1 = Ok initial_state"
    using demo_ns_state by (simp add: demo_unshared_def state_of_def)
qed

lemma demo_not_capable: "\<not> capable demo_unshared 7 1 cap"
  using demo_states(1) capable_loop.simps(2) [of 32 demo_unshared 2]
  by (simp add: capable_def demo_unshared_def demo_process_def initial_state_def)

lemma demo_write:
  "write_map ok_host 7 False demo_line 0 7 demo_unshared
   = (Ok 9, demo_unshared\<lparr>nw_store := (nw_store demo_unshared)
       (2 := Inr (state_encode (set_rows False [(0, 1000, 1)] demo_child)))\<rparr>)"
proof -
  have len: "length demo_line = 9" by (simp add: demo_line_def)
  have valid: "valid_rows [(0, 1000, 1)]" by (simp add: valid_rows_def bad_row_def u32_max_def)
  have store: "nw_store demo_unshared 2 = Inr (state_encode demo_child)" by (simp add: demo_unshared_def)
  have act: "write_action demo_unshared 7 demo_process 2 False [(0, 1000, 1)] (length demo_line) (state_encode demo_child)
      = Ok (state_encode (set_rows False [(0, 1000, 1)] demo_child), length demo_line)"
    using demo_states(2) root_map [OF demo_states(1)] demo_not_capable
    by (simp add: write_action_def state_of_def store demo_process_def demo_child_def identity_up map_rows_def
        identity_rows row_contained_def unat_max_u32 u32_max_def del: unsigned_minus_1_eq_mask)
  have "valid_map (ns_maps (set_rows False [(0, 1000, 1)] demo_child))"
    using valid by (simp add: valid_map_def set_rows_def demo_child_def valid_rows_def)
  then show ?thesis
    using write_succeeds [OF _ refl _ _ _ _ demo_text _ _ valid store _ act, of 7] len
    by (simp add: demo_unshared_def demo_line_def ns_id_def current_ns_def demo_process_def)
qed

text \<open>The world after the write.\<close>

definition demo_written :: ns_world where
  "demo_written = demo_unshared\<lparr>nw_store := (nw_store demo_unshared)
     (2 := Inr (state_encode (set_rows False [(0, 1000, 1)] demo_child)))\<rparr>"

lemma demo_steps: "ns_step\<^sup>*\<^sup>* demo_ns_world demo_unshared" "ns_step\<^sup>*\<^sup>* demo_unshared demo_written" "ns_step\<^sup>*\<^sup>* demo_ns_world demo_written"
proof -
  show a: "ns_step\<^sup>*\<^sup>* demo_ns_world demo_unshared" using step_unshare [OF demo_unshare] by blast
  show b: "ns_step\<^sup>*\<^sup>* demo_unshared demo_written" using step_write [OF demo_write] by (simp add: demo_written_def)
  show "ns_step\<^sup>*\<^sup>* demo_ns_world demo_written" using a b by (rule rtranclp_trans)
qed

lemma demo_written_state: "state_of demo_written 2 = Ok (set_rows False [(0, 1000, 1)] demo_child)"
proof -
  have "valid_map (ns_maps (set_rows False [(0, 1000, 1)] demo_child))"
    by (simp add: valid_map_def set_rows_def demo_child_def valid_rows_def bad_row_def u32_max_def)
  then show ?thesis by (simp add: state_of_def demo_written_def state_decode_encode)
qed

end
