(* ===== verification/Userns_Auth.thy ===== *)
theory Userns_Auth
  imports Userns_Run
begin

text \<open>
  Authority over a namespace as Linux defines it, without a bound on the levels, how far the
  capability check of the sources agrees with it, and the nesting that separates the two.
\<close>

section \<open>Authority\<close>

text \<open>A process has authority over its own namespace by its capabilities, over a child of its own
  namespace as its owner, and over whatever is below a namespace it has authority over.\<close>

inductive authority :: "ns_world \<Rightarrow> u64 \<Rightarrow> u32 \<Rightarrow> bool \<Rightarrow> u64 \<Rightarrow> bool" for w own uid has_cap where
  auth_here: "has_cap \<Longrightarrow> authority w own uid has_cap own"
| auth_owner: "ns \<noteq> own \<Longrightarrow> state_of w ns = Ok st \<Longrightarrow> ns_parent st = own \<Longrightarrow> ns_owner st = uid
    \<Longrightarrow> authority w own uid has_cap ns"
| auth_up: "ns \<noteq> own \<Longrightarrow> state_of w ns = Ok st \<Longrightarrow> authority w own uid has_cap (ns_parent st)
    \<Longrightarrow> authority w own uid has_cap ns"

inductive_simps authority_iff: "authority w own uid has_cap ns"

lemma no_authority_nowhere: "own \<noteq> 0 \<Longrightarrow> (\<And>st. state_of w 0 \<noteq> Ok st) \<Longrightarrow> \<not> authority w own uid has_cap 0"
  by (auto elim: authority.cases)

lemma capable_loop_authority:
  assumes "ancestry w ns sts" and "length sts \<le> n" and "rooted w" and "own \<noteq> 0" and zero: "\<And>st. state_of w 0 \<noteq> Ok st"
  shows "capable_loop n w own uid has_cap ns \<longleftrightarrow> authority w own uid has_cap ns"
  using assms(1,2)
proof (induction arbitrary: n rule: ancestry.induct)
  case (anc_root st)
  then obtain m where n: "n = Suc m" by (cases n) auto
  have "ns_parent st = 0" using anc_root.hyps assms(3) by (simp add: rooted_def)
  then show ?case
    unfolding n using anc_root.hyps assms(4) no_authority_nowhere [OF assms(4) zero]
    by (simp add: authority_iff [of w own uid has_cap 1])
next
  case (anc_step ns st sts)
  then obtain m where n: "n = Suc m" "length sts \<le> m" by (cases n) auto
  show ?case
    unfolding n(1) using anc_step.hyps anc_step.IH [OF n(2)] by (auto simp: authority_iff [of w own uid has_cap ns])
qed

lemma capable_authority:
  assumes inv: "ns_inv w" and p: "nw_proc w me = Some p" and anc: "ancestry w i sts" and "length sts \<le> 33"
  shows "capable w me i cap \<longleftrightarrow> authority w (np_ns p) (np_uid p) (holds_cap p cap) i"
proof -
  have zero: "state_of w 0 \<noteq> Ok st" for st using inv_parent(1) [OF inv, of 0 st] by blast
  moreover have "np_ns p \<noteq> 0" using inv p zero unfolding ns_inv_def by metis
  moreover have "rooted w" using inv by (simp add: ns_inv_def)
  ultimately show ?thesis using capable_loop_authority [OF anc assms(4)] p by (simp add: capable_def)
qed

lemma root_authority: "ancestry w i sts \<Longrightarrow> authority w 1 uid True i"
  by (induction rule: ancestry.induct) (auto intro: authority.intros)

lemma capable_ends_early:
  "ancestry w i sts \<Longrightarrow> \<forall>st \<in> set (butlast sts). ns_owner st \<noteq> uid \<Longrightarrow> n < length sts
    \<Longrightarrow> \<not> capable_loop n w 1 uid has_cap i"
proof (induction arbitrary: n rule: ancestry.induct)
  case (anc_root st)
  then show ?case by simp
next
  case (anc_step i st sts)
  have "sts \<noteq> []" using anc_step.hyps(4) by (rule ancestry_not_Nil)
  then show ?case using anc_step by (cases n) auto
qed

section \<open>Nesting as deep as the sources allow\<close>

definition deep :: "ns_world \<Rightarrow> u64 \<Rightarrow> nat \<Rightarrow> bool" where
  "deep w i k \<longleftrightarrow> (\<exists>sts. ancestry w i sts \<and> length sts = Suc k
     \<and> (\<forall>g. path_rel (path_maps sts) g 5 5) \<and> (\<forall>st \<in> set (butlast sts). ns_owner st = 5))"

lemma deepD:
  assumes "ns_inv w" and "deep w i k" and "k \<le> 33"
  obtains m where "map_to_initial w i = Ok m" "good_map m" "\<And>g. map_rel m g 5 5"
proof -
  obtain sts where s: "ancestry w i sts" "length sts = Suc k" "\<And>g. path_rel (path_maps sts) g 5 5"
    using assms(2) unfolding deep_def by blast
  have "rooted w" using assms(1) by (simp add: ns_inv_def)
  then show thesis using map_to_initial_path [OF s(1)] that s(2,3) assms(3) by force
qed

lemma deep_grows:
  assumes "deep w i k" and "grows w w'"
  shows "deep w' i k"
proof -
  obtain sts where s: "ancestry w i sts" "length sts = Suc k" "\<And>g. path_rel (path_maps sts) g 5 5"
      "\<forall>st \<in> set (butlast sts). ns_owner st = 5"
    using assms(1) unfolding deep_def by blast
  obtain us where u: "ancestry w' i us" "list_all2 state_keeps sts us" using ancestry_grows [OF s(1) assms(2)] by blast
  have len: "length us = length sts" using list_all2_lengthD [OF u(2)] by simp
  have "ns_owner (butlast us ! n) = 5" if n: "n < length (butlast us)" for n
  proof -
    have "state_keeps (sts ! n) (us ! n)" using u(2) n len by (simp add: list_all2_nthD)
    moreover have "ns_owner (butlast sts ! n) = 5" using s(4) n len by (metis length_butlast nth_mem)
    ultimately show ?thesis using n len by (simp add: nth_butlast state_keeps_def)
  qed
  then have "\<forall>st \<in> set (butlast us). ns_owner st = 5" by (metis in_set_conv_nth)
  moreover have "\<forall>g. path_rel (path_maps us) g 5 5" using path_rel_keeps [OF u(2) s(3)] by blast
  ultimately show ?thesis unfolding deep_def using u(1) s(2) len by metis
qed

text \<open>The line \<open>5 5 1\<close>.\<close>

definition self_line :: bytes where
  "self_line = [53, 32, 53, 32, 49, 10]"

lemma self_text: "write_text self_line = Ok self_line" "parse_lines (str_lines self_line) = Ok [(5, 5, 1)]"
  by (simp_all add: self_line_def write_text_def str_lines_def strip_cr_def parse_line_def is_space_def parse_u32_def
      digits_value_def is_digit_def)

lemma self_rows: "valid_rows [(5, 5, 1)]"
  by (simp add: valid_rows_def bad_row_def u32_max_def)

definition user5 :: "u64 \<Rightarrow> ns_process" where
  "user5 i = \<lparr>np_ns = i, np_caps = (ALL_CAPS, ALL_CAPS, 0), np_uid = 5, np_gid = 5, np_threads = 1,
     np_confined = False, np_private = True\<rparr>"

lemma user5_simps [simp]:
  "np_ns (user5 i) = i" "np_uid (user5 i) = 5" "np_gid (user5 i) = 5" "np_threads (user5 i) = 1" "\<not> np_confined (user5 i)"
  by (simp_all add: user5_def)

lemma user5_capable: "nw_proc w 2 = Some (user5 i) \<Longrightarrow> capable w 2 i (if g then 6 else 7)"
  using capable_loop.simps(2) [of 32 w i]
  by (simp add: capable_def holds_cap_def user5_def ALL_CAPS_def)

lemma user5_write:
  assumes inv: "ns_inv w" and i: "deep w i k" "k \<le> 33" and procs: "nw_proc w 2 = Some (user5 i)" "nw_proc w 3 = Some q"
    and q: "np_ns q = j" "j \<noteq> 1" and st: "state_of w j = Ok st" "ns_parent st = i" "map_rows (ns_maps st) g = []"
  shows "\<exists>w'. ns_step w w' \<and> nw_proc w' = nw_proc w \<and> nw_next w' = nw_next w
    \<and> state_of w' j = Ok (set_rows g [(5, 5, 1)] st)"
proof -
  obtain m where m: "map_to_initial w i = Ok m" "map_rel m g 5 5" using deepD [OF inv i] by blast
  obtain old where old: "nw_store w j = Inr old" "state_decode old = Ok st"
    using st(1) by (auto simp: state_of_def split: sum.splits)
  obtain r where "r \<in> set (map_rows m g)" "row_maps r 5 5" using m(2) by (auto simp: map_rel_def rows_rel_def)
  then have "list_ex (row_contained (5, 5, 1)) (map_rows m g)"
    by (auto simp: list_ex_iff row_contained_def row_maps_def intro!: bexI [where x = r])
  then have act: "write_action w 2 (user5 i) j g [(5, 5, 1)] (length self_line) old
      = Ok (state_encode (set_rows g [(5, 5, 1)] st), length self_line)"
    using old(2) m(1) user5_capable [OF procs(1), of g] st(2,3) by (simp add: write_action_def)
  have valid: "valid_map (ns_maps (set_rows g [(5, 5, 1)] st))"
    using state_of_valid [OF st(1)] self_rows by (auto simp: set_rows_def valid_map_def)
  have "ns_id w 2 3 = Ok j" using procs(2) q(1) by (simp add: ns_id_def)
  then have "write_map ok_host 3 g self_line 0 2 w
      = (Ok (length self_line), w\<lparr>nw_store := (nw_store w)(j := Inr (state_encode (set_rows g [(5, 5, 1)] st)))\<rparr>)"
    using write_succeeds [OF procs(1) refl _ _ _ q(2) self_text _ _ self_rows old(1) valid act, of 3]
    by (simp add: self_line_def)
  from step_write [OF this] show ?thesis using valid by (auto simp: state_of_def state_decode_encode)
qed

lemma next_room: "unat n \<le> 40 \<Longrightarrow> n < - 1 - push_bit 32 (1 :: u64)"
proof -
  assume "unat n \<le> 40"
  then have "n \<le> 40" by (simp add: word_le_nat_alt)
  also have "40 < - 1 - push_bit 32 (1 :: u64)" by simp
  finally show ?thesis .
qed

lemma user5_unshare:
  assumes inv: "ns_inv w" and i: "deep w i k" "k \<le> 32" and n: "unat (nw_next w) = k + 2"
  shows "\<exists>w' st. ns_step\<^sup>*\<^sup>* w w' \<and> ns_inv w' \<and> deep w' i k \<and> unat (nw_next w') = k + 3
    \<and> nw_proc w' 2 = Some (user5 i) \<and> nw_proc w' 3 = Some (entered (nw_next w) (user5 i))
    \<and> state_of w' (nw_next w) = Ok st \<and> ns_parent st = i \<and> ns_owner st = 5
    \<and> (\<forall>g. map_rows (ns_maps st) g = [])"
proof -
  obtain sts where s: "ancestry w i sts" "length sts = Suc k" using i(1) unfolding deep_def by blast
  define w1 where "w1 = w\<lparr>nw_proc := [2 \<mapsto> user5 i, 3 \<mapsto> user5 i]\<rparr>"
  have "ns_step w w1"
    unfolding w1_def using ancestry_hd [OF s(1)] by (intro step_processes) (auto split: if_splits)
  note one = this step_inv [OF this inv]
  obtain m where m: "map_to_initial w1 i = Ok m" "good_map m" "\<And>g. map_rel m g 5 5"
    using deepD [of w1 i k] deep_grows [OF i(1)] one i(2) by auto
  have up: "map_up m 5 g = Some 5" for g using m(2,3) by (simp add: map_up_rel)
  have d: "depth_check 32 w1 i = Ok ()" using depth_check_Ok [of w1 i sts 32] same_states(2) [of w1 w] s i(2) by (simp add: w1_def)
  define w2 where "w2 = (with_child 3 (user5 i) w1)\<lparr>nw_proc := (nw_proc w1)(3 \<mapsto> entered (nw_next w) (user5 i))\<rparr>"
  have "ns_unshare ok_host 3 w1 = (Ok (), w2)"
    using unshare_succeeds [of w1 3 "user5 i" m] m(1) up d next_room [of "nw_next w"] n i(2) by (simp add: w1_def w2_def)
  note two = step_unshare [OF this] step_inv [OF step_unshare [OF this]]
  define st where "st = child_state (w1\<lparr>nw_next := nw_next w1 + 1\<rparr>) 3 (user5 i)"
  have "valid_map (ns_maps st)" by (simp add: st_def valid_map_def valid_rows_def)
  then have "state_of w2 (nw_next w) = Ok st"
    by (simp add: w2_def with_child_def st_def w1_def state_of_def state_decode_encode)
  moreover have "nw_proc w2 2 = Some (user5 i)" "nw_proc w2 3 = Some (entered (nw_next w) (user5 i))"
    by (simp_all add: w2_def w1_def)
  moreover have "unat (nw_next w2) = k + 3"
  proof -
    have "nw_next w < nw_next w + 1" using next_no_wrap next_room n i(2) by simp
    then have "nw_next w \<noteq> - 1" by auto
    then show ?thesis using n unat_Suc_no_wrap [of "nw_next w"] by (simp add: w2_def with_child_def w1_def)
  qed
  moreover have "ns_step\<^sup>*\<^sup>* w w2" using one(1) two(1) by simp
  moreover have "deep w2 i k" "ns_inv w2" using deep_grows [OF deep_grows [OF i(1)]] one two by blast+
  ultimately show ?thesis by (intro exI [where x = w2] exI [where x = st]) (auto simp: st_def map_rows_def)
qed

lemma deep_step:
  assumes inv: "ns_inv w" and i: "deep w i k" "k \<le> 32" and n: "unat (nw_next w) = k + 2"
  shows "\<exists>w' j. ns_step\<^sup>*\<^sup>* w w' \<and> deep w' j (Suc k) \<and> unat (nw_next w') = Suc k + 2"
proof -
  define j where "j = nw_next w"
  obtain w2 st where steps: "ns_step\<^sup>*\<^sup>* w w2" and two: "ns_inv w2" "deep w2 i k" "unat (nw_next w2) = k + 3"
      and procs: "nw_proc w2 2 = Some (user5 i)" "nw_proc w2 3 = Some (entered j (user5 i))"
      and st: "state_of w2 j = Ok st" "ns_parent st = i" "ns_owner st = 5" "\<And>g. map_rows (ns_maps st) g = []"
    using user5_unshare [OF assms] unfolding j_def by metis
  have j: "j \<noteq> 1" using n by (auto simp: j_def)
  have k: "k \<le> 33" using i(2) by simp
  obtain w3 where w3: "ns_step w2 w3" "nw_proc w3 = nw_proc w2" "nw_next w3 = nw_next w2"
      "state_of w3 j = Ok (set_rows False [(5, 5, 1)] st)"
    using user5_write [OF two(1,2) k procs entered_simps(1) j st(1,2,4)] by blast
  have three: "ns_inv w3" "deep w3 i k" using step_inv [OF w3(1) two(1)] deep_grows [OF two(2)] by auto
  obtain w4 where w4: "ns_step w3 w4" "nw_next w4 = nw_next w3"
      "state_of w4 j = Ok (set_rows True [(5, 5, 1)] (set_rows False [(5, 5, 1)] st))"
    using user5_write [OF three k procs [folded w3(2)] entered_simps(1) j w3(4), of True] st by auto
  have "deep w4 i k" using step_inv [OF w4(1) three(1)] deep_grows [OF three(2)] by auto
  then obtain sts where s: "ancestry w4 i sts" "length sts = Suc k" "\<And>g. path_rel (path_maps sts) g 5 5"
      "\<forall>st \<in> set (butlast sts). ns_owner st = 5"
    unfolding deep_def by blast
  define new where "new = set_rows True [(5, 5, 1)] (set_rows False [(5, 5, 1)] st)"
  have "state_of w4 i = Ok (hd sts)" using ancestry_hd [OF s(1)] .
  then have "i \<noteq> 0" using inv_parent(1) step_inv [OF w4(1) three(1)] by blast
  then have "ancestry w4 j (new # sts)" using w4(3) j st(2) s(1) by (intro anc_step) (simp_all add: new_def)
  moreover have "map_rel (ns_maps new) g 5 5" for g
    by (cases g) (simp_all add: map_rel_def new_def rows_rel_def row_maps_def)
  then have "path_rel (path_maps (new # sts)) g 5 5" for g using s(3) by (auto simp: path_maps_def)
  moreover have "\<forall>st \<in> set (butlast (new # sts)). ns_owner st = 5" using s(4) st(3) by (auto simp: new_def)
  ultimately have "deep w4 j (Suc k)" unfolding deep_def using s(2) by (intro exI [where x = "new # sts"]) simp
  moreover have "ns_step\<^sup>*\<^sup>* w w4" using steps w3(1) w4(1) by simp
  ultimately show ?thesis using two(3) w3(3) w4(2) by auto
qed

lemma deep_reachable:
  assumes "ns_initial w" and "k \<le> 33"
  shows "\<exists>w' i. ns_step\<^sup>*\<^sup>* w w' \<and> deep w' i k \<and> unat (nw_next w') = k + 2"
  using assms(2)
proof (induction k)
  case 0
  have "ancestry w 1 [initial_state]" using initial_states [OF assms(1)] by (intro anc_root) simp
  moreover have "path_rel (path_maps [initial_state]) g 5 5" for g
    using identity_rel [of g 5 5] by (simp add: path_maps_def initial_state_def identity_map_def u32_max_def)
  ultimately have "deep w 1 0" unfolding deep_def by (intro exI [where x = "[initial_state]"]) simp
  then show ?case using assms(1) by (intro exI [where x = w] exI [where x = 1]) (simp add: ns_initial_def)
next
  case (Suc k)
  then obtain w' i where w': "ns_step\<^sup>*\<^sup>* w w'" "deep w' i k" "unat (nw_next w') = k + 2" by auto
  have "ns_inv w'" using userns.inv_reachable assms(1) w'(1) by blast
  moreover have "k \<le> 32" using Suc.prems by simp
  ultimately obtain v j where "ns_step\<^sup>*\<^sup>* w' v" "deep v j (Suc k)" "unat (nw_next v) = Suc k + 2"
    using deep_step w'(2,3) by blast
  then show ?case using rtranclp_trans [OF w'(1)] by blast
qed

end
