(* ===== verification/Userns_Props.thy ===== *)
theory Userns_Props
  imports Userns_Auth
begin

text \<open>
  What user namespaces promise, in every world reachable by any interleaving of calls: maps are
  written once, identities of a namespace are kernel identities, an unprivileged process maps
  only itself, and who has capabilities over a namespace.
\<close>

section \<open>Composed maps\<close>

fun path_down :: "id_mapping list \<Rightarrow> bool \<Rightarrow> u32 \<Rightarrow> u32 option" where
  "path_down [] g x = Some x"
| "path_down (m # ms) g x = Option.bind (map_down m x g) (path_down ms g)"

fun path_up :: "id_mapping list \<Rightarrow> bool \<Rightarrow> u32 \<Rightarrow> u32 option" where
  "path_up [] g y = Some y"
| "path_up (m # ms) g y = Option.bind (path_up ms g y) (\<lambda>x. map_up m x g)"

lemma map_rel_word:
  assumes "good_map m" and "map_rel m g x y"
  shows "\<exists>(u :: u32) (v :: u32). unat u = x \<and> unat v = y"
proof -
  have "x < 2 ^ 32" "y < 2 ^ 32" using good_map_bounds [OF assms] by (simp_all add: u32_max_def)
  then have "\<exists>u :: u32. unat u = x" "\<exists>v :: u32. unat v = y" using unat_small by blast+
  then show ?thesis by blast
qed

lemma path_down_rel:
  "\<forall>m \<in> set ms. good_map m \<Longrightarrow> path_down ms g x = Some y \<longleftrightarrow> path_rel ms g (unat x) (unat y)"
proof (induction ms arbitrary: x)
  case Nil
  then show ?case by (simp add: word_unat_eq_iff)
next
  case (Cons m ms)
  then have "path_down (m # ms) g x = Some y \<longleftrightarrow> (\<exists>v :: u32. map_rel m g (unat x) (unat v) \<and> path_rel ms g (unat v) (unat y))"
    by (auto simp: bind_eq_Some_conv map_down_rel)
  also have "\<dots> \<longleftrightarrow> path_rel (m # ms) g (unat x) (unat y)"
    using map_rel_word [of m g] Cons.prems by (auto, metis)
  finally show ?case .
qed

lemma path_up_rel:
  "\<forall>m \<in> set ms. good_map m \<Longrightarrow> path_up ms g y = Some x \<longleftrightarrow> path_rel ms g (unat x) (unat y)"
proof (induction ms arbitrary: x)
  case Nil
  then show ?case by (auto simp: word_unat_eq_iff)
next
  case (Cons m ms)
  then have "path_up (m # ms) g y = Some x \<longleftrightarrow> (\<exists>v :: u32. map_rel m g (unat x) (unat v) \<and> path_rel ms g (unat v) (unat y))"
    by (auto simp: bind_eq_Some_conv map_up_rel)
  also have "\<dots> \<longleftrightarrow> path_rel (m # ms) g (unat x) (unat y)"
    using map_rel_word [of m g] Cons.prems by (auto, metis)
  finally show ?case .
qed

lemma option_eqI: "(\<And>y. a = Some y \<longleftrightarrow> b = Some y) \<Longrightarrow> a = b"
  by (cases a; cases b) auto

lemma inv_map:
  assumes "ns_inv w" and "state_of w i = Ok st"
  obtains sts m where "ancestry w i sts" "length sts \<le> 34" "ids_covered sts" "map_to_initial w i = Ok m" "good_map m"
    "map_rel m = path_rel (path_maps sts)"
proof -
  obtain sts where s: "ancestry w i sts" "length sts \<le> 34" "ids_covered sts" using inv_parent(4) [OF assms] by blast
  then show thesis using map_to_initial_path [OF s(1,2) inv_parent(3) [OF assms]] that by blast
qed

text \<open>C23: (equivalence) the map of a namespace to kernel identities, composed from the extents of its
  ancestors, exists for every namespace of a reachable world and translates every identity in both
  directions exactly as translating it level by level does; the composition of extents does not
  overflow. The limit of 33 levels in the loop over the ancestors is enough for every namespace.\<close>

theorem map_to_initial_composes:
  assumes "ns_initial w0" and "ns_step\<^sup>*\<^sup>* w0 w" and "state_of w i = Ok st"
  shows "\<exists>m sts. map_to_initial w i = Ok m \<and> ancestry w i sts
    \<and> (\<forall>g x. map_down m x g = path_down (map ns_maps sts) g x \<and> map_up m x g = path_up (map ns_maps sts) g x)"
proof -
  have inv: "ns_inv w" using userns.inv_reachable assms(1,2) by blast
  obtain sts m where s: "ancestry w i sts" and m: "map_to_initial w i = Ok m" "good_map m" "map_rel m = path_rel (path_maps sts)"
    using inv_map [OF inv assms(3)] by metis
  have good: "\<forall>m \<in> set (map ns_maps sts). good_map m" using ancestry_good [OF s] by (simp add: path_maps_def)
  have "map_down m x g = path_down (map ns_maps sts) g x" for g x
    using path_down_rel [OF good] map_down_rel [OF m(2)] m(3) by (intro option_eqI) (simp add: path_maps_def)
  moreover have "map_up m x g = path_up (map ns_maps sts) g x" for g x
    using path_up_rel [OF good] map_up_rel [OF m(2)] m(3) by (intro option_eqI) (simp add: path_maps_def)
  ultimately show ?thesis using s m(1) by blast
qed

theorem map_to_initial_composes_witness:
  "ns_initial demo_ns_world \<and> ns_step\<^sup>*\<^sup>* demo_ns_world demo_ns_world \<and> state_of demo_ns_world 1 = Ok initial_state
   \<and> (\<exists>m sts. map_to_initial demo_ns_world 1 = Ok m \<and> ancestry demo_ns_world 1 sts
        \<and> map_down m 5 False = path_down (map ns_maps sts) False 5)"
  using map_to_initial_composes [OF demo_ns_initial rtranclp.rtrancl_refl demo_ns_state] demo_ns_initial demo_ns_state
  by blast

text \<open>C17: (invariant) in every reachable world, an identity that the map of a namespace names has a
  kernel identity: nothing a map promises is lost on the way through the ancestors, whatever was
  written in whatever order. Different identities have different kernel identities, and
  translating back and forth is the identity.\<close>

theorem namespace_ids_have_kernel_ids:
  assumes "ns_initial w0" and "ns_step\<^sup>*\<^sup>* w0 w" and "state_of w i = Ok st"
  shows "\<exists>m. map_to_initial w i = Ok m
    \<and> (\<forall>g x. (map_down m x g = None) = (map_down (ns_maps st) x g = None))
    \<and> (\<forall>g x y. (map_down m x g = Some y) = (map_up m y g = Some x))"
proof -
  have inv: "ns_inv w" using userns.inv_reachable assms(1,2) by blast
  obtain sts m where s: "ancestry w i sts" "ids_covered sts"
      and m: "map_to_initial w i = Ok m" "good_map m" "map_rel m = path_rel (path_maps sts)"
    using inv_map [OF inv assms(3)] by metis
  have st: "hd sts = st" using ancestry_hd [OF s(1)] assms(3) by simp
  have split: "path_maps sts = ns_maps st # path_maps (tl sts)"
    using ancestry_not_Nil [OF s(1)] st by (cases sts) (auto simp: path_maps_def)
  have good: "good_map (ns_maps st)" using state_of_valid [OF assms(3)] by (rule valid_map_good)
  have "map_down m x g \<noteq> None \<longleftrightarrow> map_down (ns_maps st) x g \<noteq> None" for g x
  proof
    assume "map_down m x g \<noteq> None"
    then obtain y :: u32 where "path_rel (path_maps sts) g (unat x) (unat y)" using m(2,3) by (auto simp: map_down_rel)
    then obtain v where v: "map_rel (ns_maps st) g (unat x) v" unfolding split by auto
    then obtain u :: u32 where "unat u = v" using map_rel_word [OF good] by blast
    then show "map_down (ns_maps st) x g \<noteq> None" using v map_down_rel [OF good, of x g u] by simp
  next
    assume "map_down (ns_maps st) x g \<noteq> None"
    then obtain u :: u32 where u: "map_rel (ns_maps st) g (unat x) (unat u)" using good by (auto simp: map_down_rel)
    then obtain z where "path_rel (path_maps (tl sts)) g (unat u) z" using s(2) st unfolding ids_covered_def by blast
    then have z: "map_rel m g (unat x) z" unfolding m(3) split using u by auto
    then obtain y :: u32 where "unat y = z" using map_rel_word [OF m(2)] by blast
    then show "map_down m x g \<noteq> None" using z map_down_rel [OF m(2), of x g y] by simp
  qed
  then show ?thesis using m(1) map_down_rel [OF m(2)] map_up_rel [OF m(2)] by blast
qed

theorem namespace_ids_have_kernel_ids_witness:
  "ns_initial demo_ns_world \<and> ns_step\<^sup>*\<^sup>* demo_ns_world demo_written
   \<and> (\<exists>m y. map_to_initial demo_written 2 = Ok m \<and> map_down m 0 False = Some y \<and> map_up m y False = Some 0)"
proof -
  note ids = namespace_ids_have_kernel_ids [OF demo_ns_initial demo_steps(3) demo_written_state]
  have named: "map_down (ns_maps (set_rows False [(0, 1000, 1)] demo_child)) 0 False = Some 1000"
    by (simp add: map_down_def translate_def map_rows_def set_rows_def checked_sub_u32_def checked_add_u32_def)
  from ids obtain m where m: "map_to_initial demo_written 2 = Ok m"
      "(map_down m 0 False = None) = (map_down (ns_maps (set_rows False [(0, 1000, 1)] demo_child)) 0 False = None)"
      "\<And>y. (map_down m 0 False = Some y) = (map_up m y False = Some 0)"
    by blast
  from m(2) obtain y where "map_down m 0 False = Some y" unfolding named by (cases "map_down m 0 False") simp_all
  then show ?thesis using m(1,3) demo_ns_initial demo_steps(3) by blast
qed

text \<open>C22: (safety) what is written stays: a namespace of a reachable world exists in every later world
  with the same parent and owner, and a map that has been written once is never changed again.\<close>

theorem maps_write_once:
  assumes "ns_initial w0" and "ns_step\<^sup>*\<^sup>* w0 w" and "ns_step\<^sup>*\<^sup>* w w'" and "state_of w i = Ok st"
  shows "\<exists>st'. state_of w' i = Ok st' \<and> ns_parent st' = ns_parent st \<and> ns_owner st' = ns_owner st
    \<and> (im_uid (ns_maps st) = [] \<or> im_uid (ns_maps st') = im_uid (ns_maps st))
    \<and> (im_gid (ns_maps st) = [] \<or> im_gid (ns_maps st') = im_gid (ns_maps st))"
proof -
  have "ns_inv w" using userns.inv_reachable assms(1,2) by blast
  then have "grows w w'" using userns.le_steps assms(3) by blast
  then obtain st' where "state_of w' i = Ok st'" "state_keeps st st'" using assms(4) by (auto simp: grows_def)
  then show ?thesis unfolding state_keeps_def map_rows_def by (metis (full_types))
qed

theorem maps_write_once_witness:
  "ns_initial demo_ns_world \<and> ns_step\<^sup>*\<^sup>* demo_ns_world demo_unshared \<and> ns_step\<^sup>*\<^sup>* demo_unshared demo_written
   \<and> (\<exists>st'. state_of demo_written 1 = Ok st' \<and> ns_parent st' = ns_parent initial_state
        \<and> im_uid (ns_maps st') = im_uid (ns_maps initial_state))
   \<and> (\<exists>st'. state_of demo_written 2 = Ok st' \<and> ns_parent st' = ns_parent demo_child \<and> ns_owner st' = ns_owner demo_child)"
proof -
  note kept = maps_write_once [OF demo_ns_initial demo_steps(1,2)]
  have "im_uid (ns_maps initial_state) \<noteq> []" by (simp add: initial_state_def)
  then show ?thesis using kept [OF demo_states(1)] kept [OF demo_states(2)] demo_ns_initial demo_steps(1,2) by blast
qed

section \<open>Unprivileged writes\<close>

lemma write_map_Ok:
  assumes "write_map h pid g bs off me w = (Ok n, w')" and "nw_proc w me = Some p" and "ns_id w me pid = Ok i"
  obtains rows old new where "i \<noteq> 1" "valid_rows rows" "length rows \<le> 340" "rows \<noteq> []" "nw_store w i = Inr old"
    "write_action w me p i g rows (length bs) old = Ok (new, n)"
    "nw_store w' i = Inr new"
proof -
  from assms obtain rows where r: "i \<noteq> 1" "valid_rows rows" "length rows \<le> 340" "rows \<noteq> []"
      "store_update h i (write_action w me p i g rows (length bs)) w = (Ok n, w')"
    by (auto simp: write_map_def validate_rows_Ok not_less split: if_splits try_or_splits)
  from r(5) obtain old new where "nw_store w i = Inr old"
      "write_action w me p i g rows (length bs) old = Ok (new, n)" "nw_store w' i = Inr new"
    by (auto simp: store_update_def split: sum.splits try_or_splits if_splits option.splits)
  then show thesis using that r by blast
qed

lemma path_rel_unique:
  assumes "ns_inv w" and "ancestry w i sts" and "path_rel (path_maps sts) g x y" and "path_rel (path_maps sts) g x z"
  shows "y = z"
proof -
  obtain us m where u: "ancestry w i us" "good_map m" "map_rel m = path_rel (path_maps us)"
    using inv_map [OF assms(1) ancestry_hd [OF assms(2)]] by metis
  then have "us = sts" using ancestry_unique assms(2) by blast
  then have "map_rel m g x y" "map_rel m g x z" using u(3) assms(3,4) by simp_all
  then show ?thesis using good_map_rows [OF u(2), of g] unfolding good_rows_def map_rel_def by blast
qed

text \<open>C18: (safety) a process without the capability over the parent namespace can only map itself: when
  such a process succeeds in writing a map, every identity the written map names is the kernel identity
  of the caller, through however many levels the namespaces are nested.\<close>

theorem unprivileged_maps_self:
  assumes "ns_initial w0" and "ns_step\<^sup>*\<^sup>* w0 w" and p: "nw_proc w me = Some p" and i: "ns_id w me pid = Ok i"
    and st: "state_of w i = Ok st" and unpriv: "\<not> capable w me (ns_parent st) (if g then 6 else 7)"
    and wr: "write_map h pid g bs off me w = (Ok n, w')"
  shows "\<exists>m. map_to_initial w' i = Ok m
    \<and> (\<forall>x y. map_down m x g = Some y \<longrightarrow> y = (if g then np_gid p else np_uid p))"
proof -
  define cred where "cred = (if g then np_gid p else np_uid p)"
  have inv: "ns_inv w" using userns.inv_reachable assms(1,2) by blast
  have step: "ns_step w w'" using wr by (rule step_write)
  then have inv': "ns_inv w'" and grows: "grows w w'" using step_inv [OF step inv] by auto
  obtain rows old new where i1: "i \<noteq> 1" and rows: "valid_rows rows" "length rows \<le> 340" and old: "nw_store w i = Inr old"
      and act: "write_action w me p i g rows (length bs) old = Ok (new, n)" and new: "nw_store w' i = Inr new"
    using write_map_Ok [OF wr p i] by metis
  have dec: "state_decode old = Ok st" using st old by (simp add: state_of_def)
  obtain pm a own where pm: "map_to_initial w (ns_parent st) = Ok pm" and enc: "new = state_encode (set_rows g rows st)"
      and row: "rows = [(a, own, 1)]" and own: "map_up pm cred g = Some own"
    using write_action_Ok [OF act] dec unpriv unfolding cred_def by (metis outcome.inject(1))
  have "valid_map (ns_maps (set_rows g rows st))"
    using state_of_valid [OF st] rows by (auto simp: set_rows_def valid_map_def)
  then have st': "state_of w' i = Ok (set_rows g rows st)" using new enc by (simp add: state_of_def state_decode_encode)
  obtain us m where us: "ancestry w' i us" and m: "map_to_initial w' i = Ok m" "good_map m" "map_rel m = path_rel (path_maps us)"
    using inv_map [OF inv' st'] by metis
  obtain vs where vs: "us = set_rows g rows st # vs" "ancestry w' (ns_parent st) vs"
    using us i1 st' by (auto elim: ancestry_cases)
  obtain ws where ws: "ancestry w i ws" using inv_parent(4) [OF inv st] by blast
  obtain ss where ss: "ancestry w (ns_parent st) ss" using ws i1 st by (auto elim: ancestry_cases)
  have "map_rel pm = path_rel (path_maps ss)" and "good_map pm"
    using inv_map [OF inv ancestry_hd [OF ss]] pm ancestry_unique [OF ss] by (metis outcome.inject(1))+
  then have "path_rel (path_maps ss) g (unat own) (unat cred)" using own by (simp add: map_up_rel)
  moreover obtain vs' where "ancestry w' (ns_parent st) vs'" "list_all2 state_keeps ss vs'" using ancestry_grows [OF ss grows] by blast
  ultimately have self: "path_rel (path_maps vs) g (unat own) (unat cred)"
    using path_rel_keeps ancestry_unique [OF vs(2)] by blast
  have "y = cred" if "map_down m x g = Some y" for x y
  proof -
    have "path_rel (path_maps us) g (unat x) (unat y)" using that m(2,3) by (simp add: map_down_rel)
    then obtain v where v: "map_rel (ns_maps (set_rows g rows st)) g (unat x) v" "path_rel (path_maps vs) g v (unat y)"
      by (auto simp: vs(1) path_maps_def)
    then have "v = unat own" by (auto simp: map_rel_def row rows_rel_def row_maps_def)
    then have "unat y = unat cred" using path_rel_unique [OF inv' vs(2)] v(2) self by blast
    then show ?thesis by (simp add: word_unat_eq_iff)
  qed
  then show ?thesis using m(1) by (auto simp: cred_def)
qed

theorem unprivileged_maps_self_witness:
  "ns_initial demo_ns_world \<and> ns_step\<^sup>*\<^sup>* demo_ns_world demo_unshared
   \<and> (\<exists>w'. write_map ok_host 7 False demo_line 0 7 demo_unshared = (Ok 9, w')
        \<and> (\<exists>m. map_to_initial w' 2 = Ok m \<and> (\<forall>x y. map_down m x False = Some y \<longrightarrow> y = 1000)))"
proof -
  have reach: "ns_step\<^sup>*\<^sup>* demo_ns_world demo_unshared" using step_unshare [OF demo_unshare] by blast
  have p: "nw_proc demo_unshared 7 = Some demo_process" by (simp add: demo_unshared_def)
  have i: "ns_id demo_unshared 7 7 = Ok 2" by (simp add: ns_id_def current_ns_def p demo_process_def)
  have "ns_parent demo_child = 1" "np_uid demo_process = 1000" by (simp_all add: demo_child_def demo_process_def)
  then show ?thesis
    using unprivileged_maps_self [OF demo_ns_initial reach p i demo_states(2) _ demo_write] demo_ns_initial reach
      demo_write demo_not_capable by auto
qed

section \<open>Capabilities\<close>

text \<open>C24: (equivalence) for every namespace down to 32 levels below the initial one, the bounded capability
  check decides the authority relation: capabilities held in the caller's own namespace, or ownership of a
  child of it, reach every namespace below, and nothing else does.\<close>

theorem capable_iff_authority:
  assumes "ns_initial w0" and "ns_step\<^sup>*\<^sup>* w0 w" and "nw_proc w me = Some p"
    and "ancestry w i sts" and "length sts \<le> 33"
  shows "capable w me i cap \<longleftrightarrow> authority w (np_ns p) (np_uid p) (holds_cap p cap) i"
  using userns.inv_reachable [OF assms(1,2)] capable_authority assms(3-5) by blast

theorem capable_iff_authority_witness:
  "ns_initial demo_ns_world \<and> ns_step\<^sup>*\<^sup>* demo_ns_world demo_unshared \<and> nw_proc demo_unshared 7 = Some demo_process
   \<and> ancestry demo_unshared 2 [demo_child, initial_state]
   \<and> capable demo_unshared 7 2 21 = authority demo_unshared 2 1000 (holds_cap demo_process 21) 2"
proof -
  have reach: "ns_step\<^sup>*\<^sup>* demo_ns_world demo_unshared" using step_unshare [OF demo_unshare] by blast
  have p: "nw_proc demo_unshared 7 = Some demo_process" by (simp add: demo_unshared_def)
  have parent: "ns_parent demo_child = 1" by (simp add: demo_child_def)
  then have anc: "ancestry demo_unshared 2 [demo_child, initial_state]"
    using anc_step [OF _ demo_states(2)] anc_root [OF demo_states(1)] by simp
  show ?thesis
    using capable_iff_authority [OF demo_ns_initial reach p anc, of 21] demo_ns_initial reach p anc
    by (simp add: demo_process_def)
qed

text \<open>C25: (error) the check stops one level short. Namespaces may be nested 33 levels below the initial one, but
  the capability check looks at 33 namespaces only and never gets to the initial one from the deepest: there is a
  reachable world in which the root user of the initial namespace, who has authority over every namespace, has no
  capability over the deepest.\<close>

theorem capable_misses_deepest:
  "\<exists>w0 w i p st. ns_initial w0 \<and> ns_step\<^sup>*\<^sup>* w0 w \<and> nw_proc w 1 = Some p \<and> np_ns p = 1 \<and> np_uid p = 0
    \<and> state_of w i = Ok st \<and> (\<forall>cap. authority w 1 0 (holds_cap p cap) i \<and> \<not> capable w 1 i cap)"
proof -
  obtain w i where w: "ns_step\<^sup>*\<^sup>* demo_ns_world w" "deep w i 33" using deep_reachable [OF demo_ns_initial, of 33] by auto
  define root where "root = \<lparr>np_ns = 1, np_caps = (0, 0, 0), np_uid = 0, np_gid = 0, np_threads = 1,
    np_confined = False, np_private = True\<rparr>"
  define w' where "w' = w\<lparr>nw_proc := [1 \<mapsto> root]\<rparr>"
  have "ns_inv w" using userns.inv_reachable [OF demo_ns_initial w(1)] .
  then have "\<exists>st. state_of w 1 = Ok st" by (auto simp: ns_inv_def rooted_def)
  then have "ns_step w w'" unfolding w'_def by (intro step_processes) (auto simp: root_def)
  then have reach: "ns_step\<^sup>*\<^sup>* demo_ns_world w'" using w(1) by simp
  obtain sts where s: "ancestry w' i sts" "length sts = 34" "\<forall>st \<in> set (butlast sts). ns_owner st = 5"
    using w(2) same_states(2) [of w' w] unfolding deep_def w'_def by auto
  have "\<not> capable_loop 33 w' 1 0 b i" for b using capable_ends_early [OF s(1), of 0 33 b] s(2,3) by simp
  then have "\<not> capable w' 1 i cap" for cap by (simp add: capable_def w'_def root_def)
  moreover have "holds_cap root cap" for cap by (simp add: holds_cap_def root_def)
  then have "authority w' 1 0 (holds_cap root cap) i" for cap using root_authority [OF s(1), of 0] by simp
  moreover have "nw_proc w' 1 = Some root" "np_ns root = 1" "np_uid root = 0" by (simp_all add: w'_def root_def)
  ultimately show ?thesis using demo_ns_initial reach ancestry_hd [OF s(1)] by blast
qed

end
