(* ===== verification/Verity.thy ===== *)
theory Verity
  imports Vfs_Errno
begin

text \<open>
  File verification, \<^verbatim>\<open>kinakaze-vfs/src/fs/verity/merkle.rs\<close>: the descriptor of a protected file, the
  layout of its hash tree, the streaming construction and the check of one data block. The hash
  functions of the \<open>sha2\<close> crate are the record \<open>sha2\<close>; feeding a hash in pieces is hashing their
  concatenation. The callbacks that read the file and read and write the tree are arguments; a
  callback that fills a buffer returns its new contents, and the writer passes on a state of its own.
  Offsets and sizes are natural numbers; what leaves 64 bits is an error where the source checks and a
  panic where it does not.
\<close>

section \<open>Descriptors\<close>

record sha2 =
  sha256 :: "bytes \<Rightarrow> bytes"
  sha512 :: "bytes \<Rightarrow> bytes"

type_synonym verity_descriptor = bytes

definition u32_trailing_zeros :: "u32 \<Rightarrow> nat" where
  "u32_trailing_zeros w = length (takeWhile (\<lambda>i. \<not> bit w i) [0..<32])"

text \<open>\<open>copy_from_slice\<close> into a range of a buffer, which panics outside the buffer or when the lengths differ.\<close>

definition copy_range :: "nat \<Rightarrow> nat \<Rightarrow> bytes \<Rightarrow> bytes \<Rightarrow> (i32, bytes) outcome" where
  "copy_range lo hi src buf =
     (if lo \<le> hi \<and> hi \<le> length buf \<and> length src = hi - lo then Ok (take lo buf @ src @ drop hi buf) else Panic)"

definition descriptor_new :: "u32 \<Rightarrow> u32 \<Rightarrow> bytes \<Rightarrow> u64 \<Rightarrow> (i32, verity_descriptor) outcome" where
  "descriptor_new alg block_size salt data_size =
     (if \<not> (alg = 1 \<or> alg = 2) \<or> \<not> (block_size = 1024 \<or> block_size = 2048 \<or> block_size = 4096)
         \<or> 32 < length salt \<or> 2 ^ 63 - 1 < unat data_size
      then Err EINVAL
      else
        let bs = (replicate 256 0)[0 := 1, 1 := ucast alg, 2 := word_of_nat (u32_trailing_zeros block_size),
                    3 := word_of_nat (length salt)] in
        and_then (copy_range 8 16 (u64_le data_size) bs) (copy_range 80 (80 + length salt) salt))"

definition data_size :: "verity_descriptor \<Rightarrow> nat" where
  "data_size d = le_nat (take 8 (drop 8 d))"

definition verity_block_size :: "verity_descriptor \<Rightarrow> nat" where
  "verity_block_size d = 2 ^ unat (d ! 2)"

definition verity_algorithm :: "verity_descriptor \<Rightarrow> u32" where
  "verity_algorithm d = ucast (d ! 1)"

definition digest_size :: "verity_descriptor \<Rightarrow> nat" where
  "digest_size d = (if verity_algorithm d = 1 then 32 else 64)"

definition verity_arity :: "verity_descriptor \<Rightarrow> nat" where
  "verity_arity d = verity_block_size d div digest_size d"

definition verity_digest :: "sha2 \<Rightarrow> verity_descriptor \<Rightarrow> bytes" where
  "verity_digest h d = (if verity_algorithm d = 1 then sha256 h d else sha512 h d)"

definition verity_hash :: "sha2 \<Rightarrow> verity_descriptor \<Rightarrow> bytes \<Rightarrow> bytes" where
  "verity_hash h d block =
     (let salt = take (unat (d ! 3)) (drop 80 d);
          padded = salt @ replicate (128 - length salt) 0
      in if verity_algorithm d = 1
         then sha256 h ((if salt \<noteq> [] then take 64 padded else []) @ block)
         else sha512 h ((if salt \<noteq> [] then padded else []) @ block))"

section \<open>Layout\<close>

definition div_ceil :: "nat \<Rightarrow> nat \<Rightarrow> nat" where
  "div_ceil a b = (a + b - 1) div b"

text \<open>The loop ends for every arity above one; that of a descriptor is 16 to 128.\<close>

function level_counts :: "nat \<Rightarrow> nat \<Rightarrow> nat list" where
  "level_counts arity blocks =
     (if 1 < blocks \<and> 1 < arity then div_ceil blocks arity # level_counts arity (div_ceil blocks arity) else [])"
  by auto

lemma div_ceil_less:
  assumes "1 < a" and "1 < b"
  shows "div_ceil a b < a"
proof -
  obtain x y where "a = Suc (Suc x)" "b = Suc (Suc y)" using assms by (metis less_natE add_Suc plus_1_eq_Suc)
  then have "a + b - 1 < a * b" by simp
  then show ?thesis using assms(2) unfolding div_ceil_def by (simp add: div_less_iff_less_mult)
qed

termination level_counts
  by (relation "measure snd") (auto intro: div_ceil_less)

declare level_counts.simps [simp del]

definition checked_u64 :: "nat \<Rightarrow> (i32, nat) outcome" where
  "checked_u64 n = (if n < 2 ^ 64 then Ok n else Err EOVERFLOW)"

text \<open>The highest level comes first in the tree.\<close>

fun level_starts :: "nat \<Rightarrow> nat list \<Rightarrow> (i32, nat list \<times> nat) outcome" where
  "level_starts block_size [] = Ok ([], 0)"
| "level_starts block_size (count # counts) =
     and_then (level_starts block_size counts) (\<lambda>(starts, size).
     and_then (checked_u64 (count * block_size)) (\<lambda>bytes.
     and_then (checked_u64 (size + bytes)) (\<lambda>size'. Ok (size # starts, size'))))"

record verity_layout =
  vl_starts :: "nat list"
  vl_size :: nat

definition data_blocks :: "verity_descriptor \<Rightarrow> nat" where
  "data_blocks d = div_ceil (data_size d) (verity_block_size d)"

definition layout :: "verity_descriptor \<Rightarrow> (i32, verity_layout) outcome" where
  "layout d =
     and_then (level_starts (verity_block_size d) (level_counts (verity_arity d) (data_blocks d))) (\<lambda>(starts, size).
     Ok \<lparr>vl_starts = starts, vl_size = size\<rparr>)"

definition tree_size :: "verity_descriptor \<Rightarrow> (i32, nat) outcome" where
  "tree_size d = and_then (layout d) (\<lambda>l. Ok (vl_size l))"

definition descriptor_decode :: "bytes \<Rightarrow> (i32, verity_descriptor) outcome" where
  "descriptor_decode bs =
     (if length bs \<noteq> 256 \<or> bs ! 0 \<noteq> 1 \<or> \<not> (bs ! 1 = 1 \<or> bs ! 1 = 2) \<or> \<not> (10 \<le> bs ! 2 \<and> bs ! 2 \<le> 12)
         \<or> 32 < bs ! 3 \<or> take 4 (drop 4 bs) \<noteq> replicate 4 0 \<or> list_ex (\<lambda>v. v \<noteq> 0) (drop 112 bs)
         \<or> list_ex (\<lambda>v. v \<noteq> 0) (take (32 - unat (bs ! 3)) (drop (80 + unat (bs ! 3)) bs))
         \<or> bs ! 1 = 1 \<and> list_ex (\<lambda>v. v \<noteq> 0) (take 32 (drop 48 bs))
      then Err EIO
      else if 2 ^ 63 - 1 < data_size bs \<or> data_size bs = 0 \<and> list_ex (\<lambda>v. v \<noteq> 0) (take 64 (drop 16 bs))
      then Err EIO
      else and_then (layout bs) (\<lambda>_. Ok bs))"

section \<open>Checking a block\<close>

definition panic_u64 :: "nat \<Rightarrow> (i32, nat) outcome" where
  "panic_u64 n = (if n < 2 ^ 64 then Ok n else Panic)"

text \<open>The buffer of the tree block is used again at every level.\<close>

fun verify_levels ::
    "sha2 \<Rightarrow> verity_descriptor \<Rightarrow> (nat \<Rightarrow> bytes \<Rightarrow> (i32, bytes) outcome) \<Rightarrow> nat list \<Rightarrow> nat \<Rightarrow> bytes \<Rightarrow> bytes
     \<Rightarrow> (i32, unit) outcome" where
  "verify_levels h d read_tree [] index hash tree_block =
     (if take (digest_size d) (drop 16 d) \<noteq> hash then Err EIO else Ok ())"
| "verify_levels h d read_tree (start # starts) index hash tree_block =
     and_then (panic_u64 (start + index div verity_arity d * verity_block_size d)) (\<lambda>offset.
     and_then (read_tree offset tree_block) (\<lambda>tree_block.
     let slot = index mod verity_arity d * digest_size d in
     if length tree_block < slot + digest_size d then Panic
     else if take (digest_size d) (drop slot tree_block) \<noteq> hash then Err EIO
     else verify_levels h d read_tree starts (index div verity_arity d) (verity_hash h d tree_block) tree_block))"

definition verify_block ::
    "sha2 \<Rightarrow> verity_descriptor \<Rightarrow> nat \<Rightarrow> bytes \<Rightarrow> (nat \<Rightarrow> bytes \<Rightarrow> (i32, bytes) outcome) \<Rightarrow> (i32, unit) outcome" where
  "verify_block h d index block read_tree =
     (if length block \<noteq> verity_block_size d \<or> data_blocks d \<le> index then Err EINVAL
      else
        and_then (layout d) (\<lambda>l.
        verify_levels h d read_tree (vl_starts l) index (verity_hash h d block)
          (replicate (verity_block_size d) 0)))"

section \<open>Building the tree\<close>

record verity_builder =
  vb_buffers :: "bytes list"
  vb_filled :: "nat list"
  vb_written :: "nat list"
  vb_root :: bytes

type_synonym 's tree_writer = "nat \<Rightarrow> bytes \<Rightarrow> 's \<Rightarrow> (i32, unit) outcome \<times> 's"

text \<open>\<open>write_tree(..)?\<close> at an offset that is computed in 64 bits.\<close>

definition write_at ::
    "'s tree_writer \<Rightarrow> nat \<Rightarrow> bytes \<Rightarrow> 's \<Rightarrow> ('s \<Rightarrow> (i32, 'a) outcome \<times> 's) \<Rightarrow> (i32, 'a) outcome \<times> 's" where
  "write_at write_tree offset block s k =
     try_or s (panic_u64 offset) (\<lambda>offset.
     case write_tree offset block s of (r, s) \<Rightarrow> try_or s r (\<lambda>_. k s))"

function feed ::
    "sha2 \<Rightarrow> verity_descriptor \<Rightarrow> nat list \<Rightarrow> 's tree_writer \<Rightarrow> nat \<Rightarrow> bytes \<Rightarrow> verity_builder \<Rightarrow> 's
     \<Rightarrow> (i32, verity_builder) outcome \<times> 's" where
  "feed h d starts write_tree level hash v s =
     (if level = length (vb_buffers v) then
        try_or s (copy_range 0 (length (vb_root v)) hash (vb_root v)) (\<lambda>root. (Ok (v\<lparr>vb_root := root\<rparr>), s))
      else if length (vb_buffers v) < level then (Panic, s)
      else
        let next = vb_filled v ! level + digest_size d in
        try_or s (copy_range (vb_filled v ! level) next hash (vb_buffers v ! level)) (\<lambda>block.
        if next \<noteq> verity_block_size d then
          (Ok (v\<lparr>vb_buffers := (vb_buffers v)[level := block], vb_filled := (vb_filled v)[level := next]\<rparr>), s)
        else
          write_at write_tree (starts ! level + vb_written v ! level) block s (\<lambda>s.
          feed h d starts write_tree (level + 1) (verity_hash h d block)
            (v\<lparr>vb_buffers := (vb_buffers v)[level := replicate (length block) 0],
               vb_filled := (vb_filled v)[level := 0],
               vb_written := (vb_written v)[level := vb_written v ! level + verity_block_size d]\<rparr>) s)))"
  by pat_completeness auto

termination feed
  by (relation "measure (\<lambda>(h, d, starts, wt, level, hash, v, s). length (vb_buffers v) - level)") auto

declare feed.simps [simp del]

text \<open>The last block of the file is padded with zeros.\<close>

function feed_data ::
    "sha2 \<Rightarrow> verity_descriptor \<Rightarrow> nat list \<Rightarrow> (nat \<Rightarrow> nat \<Rightarrow> (i32, bytes) outcome) \<Rightarrow> 's tree_writer \<Rightarrow> nat
     \<Rightarrow> verity_builder \<Rightarrow> 's \<Rightarrow> (i32, verity_builder) outcome \<times> 's" where
  "feed_data h d starts read_data write_tree offset v s =
     (if offset < data_size d then
        let amount = min (data_size d - offset) (verity_block_size d) in
        try_or s (read_data offset amount) (\<lambda>bs.
        case feed h d starts write_tree 0 (verity_hash h d (bs @ replicate (verity_block_size d - amount) 0)) v s of
          (r, s) \<Rightarrow> try_or s r (\<lambda>v. feed_data h d starts read_data write_tree (offset + amount) v s))
      else (Ok v, s))"
  by pat_completeness auto

termination feed_data
  by (relation "measure (\<lambda>(h, d, starts, rd, wt, offset, v, s). data_size d - offset)") (auto simp: verity_block_size_def intro!: diff_less_mono2)

declare feed_data.simps [simp del]

fun flush_levels ::
    "sha2 \<Rightarrow> verity_descriptor \<Rightarrow> nat list \<Rightarrow> 's tree_writer \<Rightarrow> nat list \<Rightarrow> verity_builder \<Rightarrow> 's
     \<Rightarrow> (i32, verity_builder) outcome \<times> 's" where
  "flush_levels h d starts write_tree [] v s = (Ok v, s)"
| "flush_levels h d starts write_tree (level # levels) v s =
     (if vb_filled v ! level = 0 then flush_levels h d starts write_tree levels v s
      else
        write_at write_tree (starts ! level + vb_written v ! level) (vb_buffers v ! level) s (\<lambda>s.
        let hash = verity_hash h d (vb_buffers v ! level) in
        if level + 1 = length (vb_buffers v) then
          try_or s (copy_range 0 (length (vb_root v)) hash (vb_root v)) (\<lambda>root.
          flush_levels h d starts write_tree levels (v\<lparr>vb_root := root\<rparr>) s)
        else
          let slot = vb_filled v ! (level + 1) in
          try_or s (copy_range slot (slot + digest_size d) hash (vb_buffers v ! (level + 1))) (\<lambda>block.
          flush_levels h d starts write_tree levels
            (v\<lparr>vb_buffers := (vb_buffers v)[level + 1 := block],
               vb_filled := (vb_filled v)[level + 1 := slot + digest_size d]\<rparr>) s)))"

definition builder_start :: "verity_descriptor \<Rightarrow> nat \<Rightarrow> verity_builder" where
  "builder_start d levels =
     \<lparr>vb_buffers = replicate levels (replicate (verity_block_size d) 0), vb_filled = replicate levels 0,
      vb_written = replicate levels 0, vb_root = replicate (digest_size d) 0\<rparr>"

definition verity_build ::
    "sha2 \<Rightarrow> verity_descriptor \<Rightarrow> (nat \<Rightarrow> nat \<Rightarrow> (i32, bytes) outcome) \<Rightarrow> 's tree_writer \<Rightarrow> 's
     \<Rightarrow> (i32, verity_descriptor) outcome \<times> 's" where
  "verity_build h d read_data write_tree s =
     try_or s (layout d) (\<lambda>l.
     let starts = vl_starts l in
     case feed_data h d starts read_data write_tree 0 (builder_start d (length starts)) s of
       (r, s) \<Rightarrow> try_or s r (\<lambda>v.
         case flush_levels h d starts write_tree [0..<length (vb_buffers v)] v s of
           (r, s) \<Rightarrow> try_or s r (\<lambda>v. try_or s (copy_range 16 (16 + digest_size d) (vb_root v) d) (\<lambda>d. (Ok d, s)))))"

end
