(* ===== verification/Verity_Tree.thy ===== *)
theory Verity_Tree
  imports Verity
begin

text \<open>
  The hash tree as a specification: from the hashes of one level the blocks of the next, each the
  concatenation of as many hashes as fit, the last one padded with zeros. What the builder does to a
  buffer is what appending one hash does to the block under construction.
\<close>

section \<open>Blocks of hashes\<close>

text \<open>\<open>ar\<close> digests of \<open>ds\<close> bytes fill a block of \<open>bs\<close> bytes.\<close>

definition geometry :: "nat \<Rightarrow> nat \<Rightarrow> nat \<Rightarrow> bool" where
  "geometry ar ds bs \<longleftrightarrow> 1 < ar \<and> 0 < ds \<and> bs = ar * ds"

definition digests :: "nat \<Rightarrow> bytes list \<Rightarrow> bool" where
  "digests ds hs \<longleftrightarrow> (\<forall>x \<in> set hs. length x = ds)"

definition hash_block :: "nat \<Rightarrow> nat \<Rightarrow> bytes list \<Rightarrow> nat \<Rightarrow> bytes" where
  "hash_block ar bs hs j =
     (let c = concat (take ar (drop (j * ar) hs)) in c @ replicate (bs - length c) 0)"

definition next_hashes :: "(bytes \<Rightarrow> bytes) \<Rightarrow> nat \<Rightarrow> nat \<Rightarrow> nat \<Rightarrow> bytes list \<Rightarrow> bytes list" where
  "next_hashes H ar bs n hs = map (\<lambda>j. H (hash_block ar bs hs j)) [0..<n]"

fun tree_level :: "(bytes \<Rightarrow> bytes) \<Rightarrow> nat \<Rightarrow> nat \<Rightarrow> nat \<Rightarrow> bytes list \<Rightarrow> bytes list" where
  "tree_level H ar bs 0 hs = hs"
| "tree_level H ar bs (Suc k) hs =
     (let below = tree_level H ar bs k hs in next_hashes H ar bs (div_ceil (length below) ar) below)"

lemma next_hashes_simps [simp]:
  "length (next_hashes H ar bs n hs) = n" "j < n \<Longrightarrow> next_hashes H ar bs n hs ! j = H (hash_block ar bs hs j)"
  "next_hashes H ar bs (Suc n) hs = next_hashes H ar bs n hs @ [H (hash_block ar bs hs n)]"
  by (simp_all add: next_hashes_def)

lemma digests_next: "(\<And>x. length (H x) = ds) \<Longrightarrow> digests ds (next_hashes H ar bs n hs)"
  by (auto simp: digests_def next_hashes_def)

lemma digests_append [simp]: "digests ds (xs @ ys) \<longleftrightarrow> digests ds xs \<and> digests ds ys" "digests ds [x] \<longleftrightarrow> length x = ds"
  "digests ds []"
  by (auto simp: digests_def)

lemma digests_part: "digests ds hs \<Longrightarrow> digests ds (take n (drop m hs))"
  by (auto simp: digests_def dest: in_set_takeD in_set_dropD)

lemma concat_digests: "digests ds hs \<Longrightarrow> length (concat hs) = length hs * ds"
  by (induction hs) (auto simp: digests_def)

lemma digest_slot: "digests ds hs \<Longrightarrow> k < length hs \<Longrightarrow> take ds (drop (k * ds) (concat hs @ rest)) = hs ! k"
proof (induction hs arbitrary: k)
  case (Cons x hs)
  then show ?case by (cases k) (auto simp: digests_def)
qed simp

lemma hash_block_length:
  assumes "geometry ar ds bs" and "digests ds hs"
  shows "length (hash_block ar bs hs j) = bs"
proof -
  have "length (take ar (drop (j * ar) hs)) * ds \<le> bs" using assms(1) by (simp add: geometry_def)
  then show ?thesis using concat_digests [OF digests_part [OF assms(2)]] by (simp add: hash_block_def Let_def)
qed

lemma hash_block_slot:
  assumes "geometry ar ds bs" and "digests ds hs" and "i < length hs"
  shows "take ds (drop (i mod ar * ds) (hash_block ar bs hs (i div ar))) = hs ! i"
proof -
  define b where "b = i div ar * ar"
  define k where "k = i mod ar"
  have i: "b + k = i" and k: "k < ar" using assms(1) by (auto simp: geometry_def b_def k_def)
  have "k < length (take ar (drop b hs))" using i k assms(3) by simp
  moreover have "take ar (drop b hs) ! k = hs ! i" using i k assms(3) by (simp flip: i)
  ultimately have "take ds (drop (k * ds) (concat (take ar (drop b hs)) @ rest)) = hs ! i" for rest
    using digest_slot [OF digests_part [OF assms(2)], of k ar b rest] by (simp only:)
  then show ?thesis unfolding hash_block_def Let_def b_def [symmetric] k_def [symmetric] .
qed

lemma hash_block_old: "j * ar + ar \<le> length hs \<Longrightarrow> hash_block ar bs (hs @ [x]) j = hash_block ar bs hs j"
  by (simp add: hash_block_def)

lemma hash_block_beyond: "length hs \<le> j * ar \<Longrightarrow> hash_block ar bs hs j = replicate bs 0"
  by (simp add: hash_block_def)

lemma next_hashes_old: "n * ar \<le> length hs \<Longrightarrow> next_hashes H ar bs n (hs @ [x]) = next_hashes H ar bs n hs"
proof -
  assume "n * ar \<le> length hs"
  then have "j * ar + ar \<le> length hs" if "j < n" for j
    using that mult_le_mono1 [of "Suc j" n ar] by simp
  then show ?thesis by (simp add: next_hashes_def hash_block_old)
qed

lemma hash_block_push:
  assumes g: "geometry ar ds bs" and hs: "digests ds hs" and x: "length x = ds"
    and j: "j * ar \<le> length hs" "length hs < j * ar + ar"
  shows "copy_range ((length hs - j * ar) * ds) ((length hs - j * ar) * ds + ds) x (hash_block ar bs hs j)
    = Ok (hash_block ar bs (hs @ [x]) j)"
proof -
  define c where "c = concat (drop (j * ar) hs)"
  define n where "n = length hs - j * ar"
  have n: "n < ar" using j by (simp add: n_def)
  have old: "hash_block ar bs hs j = c @ replicate (bs - length c) 0"
    using j n by (simp add: hash_block_def Let_def c_def n_def)
  have new: "hash_block ar bs (hs @ [x]) j = c @ x @ replicate (bs - (length c + ds)) 0"
    using j n x by (simp add: hash_block_def Let_def c_def n_def)
  have c: "length c = n * ds"
    using concat_digests [OF digests_part [OF hs, of "length hs" "j * ar"]] j by (simp add: c_def n_def)
  have "n * ds + ds \<le> bs" using n g mult_le_mono1 [of "Suc n" ar ds] by (simp add: geometry_def)
  then show ?thesis
    unfolding n_def [symmetric] old new using c x by (simp add: copy_range_def)
qed

lemma full_block:
  assumes "geometry ar ds bs"
  shows "n * ds + ds = bs \<longleftrightarrow> Suc n = ar"
proof -
  have "n * ds + ds = bs \<longleftrightarrow> Suc n * ds = ar * ds" using assms by (auto simp: geometry_def)
  also have "\<dots> \<longleftrightarrow> Suc n = ar" using assms mult_cancel2 [of "Suc n" ds ar] unfolding geometry_def by simp
  finally show ?thesis .
qed

section \<open>Counting blocks\<close>

lemma div_ceil_mono: "a \<le> b \<Longrightarrow> div_ceil a n \<le> div_ceil b n"
  by (simp add: div_ceil_def div_le_mono)

lemma div_ceil_unique: "w * ar < n \<Longrightarrow> n \<le> w * ar + ar \<Longrightarrow> div_ceil n ar = Suc w"
  unfolding div_ceil_def by (rule div_nat_eqI) (auto simp: mult.commute)

lemma div_ceil_exact: "0 < ar \<Longrightarrow> div_ceil (w * ar) ar = w"
  unfolding div_ceil_def by (rule div_nat_eqI) (auto simp: mult.commute)

lemma div_ceil_le: "0 < ar \<Longrightarrow> w * ar \<le> n \<Longrightarrow> w \<le> div_ceil n ar"
  using div_ceil_mono [of "w * ar" n ar] by (simp add: div_ceil_exact)

lemma div_ceil_covers:
  assumes "0 < ar"
  shows "i < n \<Longrightarrow> i div ar < div_ceil n ar"
proof -
  assume "i < n"
  then have "i + ar \<le> n + ar - 1" by simp
  then have "Suc (i div ar) \<le> div_ceil n ar" unfolding div_ceil_def
    using assms div_le_mono [of "i + ar" "n + ar - 1" ar] by simp
  then show ?thesis by simp
qed

end
