(* ===== verification/Verity_Build.thy ===== *)
theory Verity_Build
  imports Verity_Tree
begin

text \<open>
  The streaming builder against the tree of the specification. Its state stands for the hashes
  every level has received and the number of blocks it has written; a hash that completes a block
  is passed on to the level above.
\<close>

section \<open>Layout\<close>

lemma level_counts_nth:
  "l < length (level_counts ar n) \<Longrightarrow>
    level_counts ar n ! l = div_ceil (case l of 0 \<Rightarrow> n | Suc m \<Rightarrow> level_counts ar n ! m) ar"
proof (induction ar n arbitrary: l rule: level_counts.induct)
  case (1 ar n)
  then show ?case
    by (cases l) (auto simp: level_counts.simps [of ar n] nth_Cons split: if_splits nat.splits)
qed

lemma level_starts_nth:
  "level_starts bs counts = Ok (starts, sz) \<Longrightarrow> length starts = length counts \<and> sz = sum_list counts * bs
    \<and> sz < 2 ^ 64 \<and> (\<forall>l < length counts. starts ! l = sum_list (drop (Suc l) counts) * bs)"
proof (induction counts arbitrary: starts sz)
  case (Cons c counts)
  from Cons.prems obtain starts' sz' where *: "level_starts bs counts = Ok (starts', sz')"
      "starts = sz' # starts'" "sz = sz' + c * bs" "sz < 2 ^ 64"
    by (auto simp: checked_u64_def split: if_splits)
  from Cons.IH [OF *(1)] *(2-4) show ?case by (auto simp: nth_Cons algebra_simps split: nat.splits)
qed simp

definition offsets_ok :: "nat \<Rightarrow> nat list \<Rightarrow> nat list \<Rightarrow> bool" where
  "offsets_ok bs starts counts \<longleftrightarrow> length starts = length counts
     \<and> (\<forall>l < length counts. \<forall>j < counts ! l. starts ! l + j * bs < 2 ^ 64)
     \<and> (\<forall>l < length counts. \<forall>m < length counts. \<forall>j < counts ! l. \<forall>k < counts ! m.
          starts ! l + j * bs = starts ! m + k * bs \<longrightarrow> l = m \<and> j = k)"

lemma sum_drop: "l < length counts \<Longrightarrow> sum_list (drop l counts) = counts ! l + sum_list (drop (Suc l) counts)"
  by (simp add: Cons_nth_drop_Suc [symmetric])

lemma sum_drop_mono: "l \<le> m \<Longrightarrow> sum_list (drop m counts) \<le> sum_list (drop l (counts :: nat list))"
proof (induction m rule: dec_induct)
  case (step m)
  show ?case
  proof (cases "m < length counts")
    case True
    then show ?thesis using sum_drop [OF True] step.IH by simp
  qed (use step in simp)
qed simp

lemma level_offsets:
  assumes "level_starts bs counts = Ok (starts, sz)" and "0 < bs"
  shows "offsets_ok bs starts counts"
proof -
  note s = level_starts_nth [OF assms(1)]
  define pos where "pos l j = sum_list (drop (Suc l) counts) + j" for l j
  have off: "starts ! l + j * bs = pos l j * bs" if "l < length counts" for l j
    using s that by (simp add: pos_def algebra_simps)
  have range: "pos l j < sum_list (drop l counts)" if "l < length counts" "j < counts ! l" for l j
    using that sum_drop [OF that(1)] by (simp add: pos_def)
  have below: "pos l j < sum_list counts" if "l < length counts" "j < counts ! l" for l j
    using range [OF that] sum_drop_mono [of 0 l counts] by simp
  have apart: "pos m k < pos l j" if "l < m" "m < length counts" "k < counts ! m" for l m j k
    using range [OF that(2,3)] sum_drop_mono [of "Suc l" m counts] that(1) by (simp add: pos_def)
  have same: "l = m \<and> j = k" if "l < length counts" "m < length counts" "j < counts ! l" "k < counts ! m"
      "pos l j = pos m k" for l m j k
  proof -
    have "l = m" using apart [of l m k j] apart [of m l j k] that by (metis linorder_neqE_nat less_irrefl)
    then show ?thesis using that(5) by (simp add: pos_def)
  qed
  have "starts ! l + j * bs < 2 ^ 64" if "l < length counts" "j < counts ! l" for l j
  proof -
    have "pos l j * bs < sum_list counts * bs" using below [OF that] assms(2) by simp
    moreover have "sum_list counts * bs < 2 ^ 64" using s by simp
    ultimately show ?thesis unfolding off [OF that(1)] by (rule less_trans)
  qed
  moreover have "l = m \<and> j = k" if "l < length counts" "m < length counts" "j < counts ! l" "k < counts ! m"
      "starts ! l + j * bs = starts ! m + k * bs" for l m j k
    using same [OF that(1-4)] that(5) off [OF that(1), of j] off [OF that(2), of k] assms(2) by simp
  ultimately show ?thesis using s by (auto simp: offsets_ok_def)
qed

section \<open>Representation\<close>

text \<open>The tree kept in memory, a block at each offset.\<close>

definition memory_tree :: "(nat \<Rightarrow> bytes option) tree_writer" where
  "memory_tree offset block s = (Ok (), s(offset \<mapsto> block))"

definition linked :: "(bytes \<Rightarrow> bytes) \<Rightarrow> nat \<Rightarrow> nat \<Rightarrow> bytes list list \<Rightarrow> nat list \<Rightarrow> bool" where
  "linked H ar bs Ts ws \<longleftrightarrow> length Ts = Suc (length ws)
     \<and> (\<forall>l < length ws. Ts ! Suc l = next_hashes H ar bs (ws ! l) (Ts ! l))"

definition level_rep :: "nat \<Rightarrow> nat \<Rightarrow> nat \<Rightarrow> verity_builder \<Rightarrow> bytes list \<Rightarrow> nat \<Rightarrow> nat \<Rightarrow> bool" where
  "level_rep ar ds bs v hs w l \<longleftrightarrow> w * ar \<le> length hs \<and> length hs \<le> w * ar + ar
     \<and> vb_buffers v ! l = hash_block ar bs hs w \<and> vb_filled v ! l = (length hs - w * ar) * ds
     \<and> vb_written v ! l = w * bs"

definition stored :: "nat \<Rightarrow> nat \<Rightarrow> nat list \<Rightarrow> bytes list list \<Rightarrow> nat list \<Rightarrow> (nat \<Rightarrow> bytes option) \<Rightarrow> bool" where
  "stored ar bs starts Ts ws s \<longleftrightarrow>
     (\<forall>l < length ws. \<forall>j < ws ! l. s (starts ! l + j * bs) = Some (hash_block ar bs (Ts ! l) j))"

definition builder_rep :: "nat \<Rightarrow> nat \<Rightarrow> nat \<Rightarrow> nat \<Rightarrow> bytes list list \<Rightarrow> nat list \<Rightarrow> verity_builder \<Rightarrow> bool" where
  "builder_rep ar ds bs k Ts ws v \<longleftrightarrow> length Ts = Suc (length ws) \<and> length (vb_buffers v) = length ws
     \<and> length (vb_filled v) = length ws \<and> length (vb_written v) = length ws
     \<and> (\<forall>l \<le> length ws. digests ds (Ts ! l))
     \<and> (\<forall>l < length ws. k \<le> l \<longrightarrow> level_rep ar ds bs v (Ts ! l) (ws ! l) l)
     \<and> vb_root v = (if Ts ! length ws = [] then replicate ds 0 else List.last (Ts ! length ws))"

definition room :: "nat \<Rightarrow> nat \<Rightarrow> bytes list list \<Rightarrow> nat list \<Rightarrow> bool" where
  "room ar k Ts ws \<longleftrightarrow> (\<forall>l < length ws. k \<le> l \<longrightarrow> length (Ts ! l) < ws ! l * ar + ar)"

definition push :: "nat \<Rightarrow> bytes \<Rightarrow> bytes list list \<Rightarrow> bytes list list" where
  "push l x Ts = Ts[l := Ts ! l @ [x]]"

lemma push_simps [simp]:
  "length (push l x Ts) = length Ts"
  "l < length Ts \<Longrightarrow> push l x Ts ! m = (if m = l then Ts ! l @ [x] else Ts ! m)"
  by (auto simp: push_def nth_list_update)

lemma rep_root:
  assumes "builder_rep ar ds bs k Ts ws v" and "length x = ds"
  shows "copy_range 0 (length (vb_root v)) x (vb_root v) = Ok x"
    and "builder_rep ar ds bs k (push (length ws) x Ts) ws (v\<lparr>vb_root := x\<rparr>)"
proof -
  have "digests ds (Ts ! length ws)" using assms(1) by (auto simp: builder_rep_def)
  then have "length (vb_root v) = ds"
    using assms(1) by (auto simp: builder_rep_def digests_def)
  then show "copy_range 0 (length (vb_root v)) x (vb_root v) = Ok x" using assms(2) by (simp add: copy_range_def)
  show "builder_rep ar ds bs k (push (length ws) x Ts) ws (v\<lparr>vb_root := x\<rparr>)"
    using assms by (auto simp: builder_rep_def level_rep_def)
qed

lemma rep_push:
  assumes g: "geometry ar ds bs" and rep: "builder_rep ar ds bs k Ts ws v" and l: "k \<le> l" "l < length ws"
    and free: "length (Ts ! l) < ws ! l * ar + ar" and x: "length x = ds"
    and block: "block = hash_block ar bs (Ts ! l @ [x]) (ws ! l)"
  shows "copy_range (vb_filled v ! l) (vb_filled v ! l + ds) x (vb_buffers v ! l) = Ok block"
    and "builder_rep ar ds bs k (push l x Ts) ws
      (v\<lparr>vb_buffers := (vb_buffers v)[l := block], vb_filled := (vb_filled v)[l := vb_filled v ! l + ds]\<rparr>)"
    and "vb_filled v ! l + ds = bs \<longleftrightarrow> Suc (length (Ts ! l)) = ws ! l * ar + ar"
proof -
  have lr: "level_rep ar ds bs v (Ts ! l) (ws ! l) l" and dig: "digests ds (Ts ! l)"
    using rep l by (auto simp: builder_rep_def)
  have len: "ws ! l * ar \<le> length (Ts ! l)" and filled: "vb_filled v ! l = (length (Ts ! l) - ws ! l * ar) * ds"
    using lr by (auto simp: level_rep_def)
  show "copy_range (vb_filled v ! l) (vb_filled v ! l + ds) x (vb_buffers v ! l) = Ok block"
    using hash_block_push [OF g dig x len free] lr block by (simp add: level_rep_def)
  show "vb_filled v ! l + ds = bs \<longleftrightarrow> Suc (length (Ts ! l)) = ws ! l * ar + ar"
    unfolding filled full_block [OF g] using len free by auto
  have "(length (Ts ! l) - ws ! l * ar) * ds + ds = (Suc (length (Ts ! l)) - ws ! l * ar) * ds"
    using len by (simp add: Suc_diff_le)
  then show "builder_rep ar ds bs k (push l x Ts) ws
      (v\<lparr>vb_buffers := (vb_buffers v)[l := block], vb_filled := (vb_filled v)[l := vb_filled v ! l + ds]\<rparr>)"
    using rep l lr free x block unfolding builder_rep_def level_rep_def by (auto simp: nth_list_update)
qed

lemma rep_update:
  assumes rep: "builder_rep ar ds bs k Ts ws v" and l: "level_rep ar ds bs v' (Ts ! l) (ws' ! l) l"
    and len: "length ws' = length ws" "length (vb_buffers v') = length (vb_buffers v)"
      "length (vb_filled v') = length (vb_filled v)" "length (vb_written v') = length (vb_written v)"
    and same: "\<And>m. m \<noteq> l \<Longrightarrow> ws' ! m = ws ! m \<and> vb_buffers v' ! m = vb_buffers v ! m
      \<and> vb_filled v' ! m = vb_filled v ! m \<and> vb_written v' ! m = vb_written v ! m"
    and root: "vb_root v' = vb_root v"
  shows "builder_rep ar ds bs k Ts ws' v'"
proof -
  have "level_rep ar ds bs v' (Ts ! m) (ws' ! m) m" if "m < length ws" "k \<le> m" for m
  proof (cases "m = l")
    case False
    then show ?thesis using rep that same [OF False] by (simp add: builder_rep_def level_rep_def)
  qed (use l in simp)
  then show ?thesis using rep len root by (simp add: builder_rep_def)
qed

lemma stored_push:
  assumes "stored ar bs starts Ts ws s" and "l < length Ts" and "l < length ws \<longrightarrow> ws ! l * ar \<le> length (Ts ! l)"
  shows "stored ar bs starts (push l x Ts) ws s"
proof -
  have "hash_block ar bs (Ts ! l @ [x]) j = hash_block ar bs (Ts ! l) j" if "l < length ws" "j < ws ! l" for j
    using that assms(3) mult_le_mono1 [of "Suc j" "ws ! l" ar] by (intro hash_block_old) simp
  then show ?thesis using assms(1,2) by (auto simp: stored_def)
qed

lemma stored_write:
  assumes st: "stored ar bs starts Ts ws s" and off: "offsets_ok bs starts counts" and len: "length counts = length ws"
    and fit: "\<forall>m < length ws. ws ! m \<le> counts ! m" and l: "l < length ws" "ws ! l < counts ! l"
  shows "stored ar bs starts Ts (ws[l := Suc (ws ! l)])
    (s(starts ! l + ws ! l * bs \<mapsto> hash_block ar bs (Ts ! l) (ws ! l)))"
  unfolding stored_def length_list_update
proof (intro allI impI)
  fix m j assume m: "m < length ws" and j: "j < ws[l := Suc (ws ! l)] ! m"
  let ?s = "s(starts ! l + ws ! l * bs \<mapsto> hash_block ar bs (Ts ! l) (ws ! l))"
  show "?s (starts ! m + j * bs) = Some (hash_block ar bs (Ts ! m) j)"
  proof (cases "m = l \<and> j = ws ! l")
    case True
    then show ?thesis by simp
  next
    case False
    then have j': "j < ws ! m" using j l(1) by (auto simp: nth_list_update split: if_splits)
    then have "j < counts ! m" using fit m by (meson less_le_trans)
    then have "starts ! m + j * bs \<noteq> starts ! l + ws ! l * bs"
      using off m l len False unfolding offsets_ok_def by metis
    then show ?thesis using st m j' by (simp add: stored_def)
  qed
qed

section \<open>Feeding hashes\<close>

text \<open>The number of blocks of a level is within the layout.\<close>

lemma linked_fits:
  assumes "linked H ar bs Ts ws" and "length (level_counts ar n) = length ws" and "length (Ts ! 0) \<le> n"
    and w: "\<forall>l < length ws. ws ! l \<le> div_ceil (length (Ts ! l)) ar"
  shows "l < length ws \<Longrightarrow> ws ! l \<le> level_counts ar n ! l"
proof (induction l)
  case 0
  then have "ws ! 0 \<le> div_ceil n ar" using w div_ceil_mono [OF assms(3)] order_trans by blast
  then show ?case using level_counts_nth [of 0 ar n] assms(2) 0 by simp
next
  case (Suc l)
  then have "length (Ts ! Suc l) = ws ! l" using assms(1) by (simp add: linked_def)
  then have "ws ! Suc l \<le> div_ceil (level_counts ar n ! l) ar"
    using w Suc div_ceil_mono [of "ws ! l" "level_counts ar n ! l" ar] by (metis Suc_lessD order_trans)
  then show ?case using level_counts_nth [of "Suc l" ar n] assms(2) Suc.prems by simp
qed

lemma linked_push:
  assumes "linked H ar bs Ts ws" and "l < length ws \<longrightarrow> ws ! l * ar \<le> length (Ts ! l)"
    and "l = 0 \<or> Ts ! l @ [x] = next_hashes H ar bs n (Ts ! (l - 1))" and "l \<le> length ws"
  shows "linked H ar bs (push l x Ts) (if l = 0 then ws else ws[l - 1 := n])"
proof -
  have "next_hashes H ar bs (ws ! l) (Ts ! l @ [x]) = next_hashes H ar bs (ws ! l) (Ts ! l)" if "l < length ws"
    using that assms(2) next_hashes_old by blast
  then show ?thesis using assms by (auto simp: linked_def nth_list_update)
qed

text \<open>What the builder of a descriptor relies on.\<close>

definition tree_setting :: "sha2 \<Rightarrow> verity_descriptor \<Rightarrow> nat list \<Rightarrow> bool" where
  "tree_setting h d starts \<longleftrightarrow> geometry (verity_arity d) (digest_size d) (verity_block_size d)
     \<and> (\<forall>x. length (verity_hash h d x) = digest_size d)
     \<and> offsets_ok (verity_block_size d) starts (level_counts (verity_arity d) (data_blocks d))"

definition tree_state ::
    "sha2 \<Rightarrow> verity_descriptor \<Rightarrow> nat list \<Rightarrow> nat \<Rightarrow> bytes list list \<Rightarrow> nat list \<Rightarrow> verity_builder
     \<Rightarrow> (nat \<Rightarrow> bytes option) \<Rightarrow> bool" where
  "tree_state h d starts k Ts ws v s \<longleftrightarrow> length starts = length ws
     \<and> builder_rep (verity_arity d) (digest_size d) (verity_block_size d) k Ts ws v
     \<and> stored (verity_arity d) (verity_block_size d) starts Ts ws s"

lemma state_counts:
  assumes "tree_setting h d starts" and "tree_state h d starts k Ts ws v s"
  shows "length (level_counts (verity_arity d) (data_blocks d)) = length ws"
  using assms by (auto simp: tree_setting_def tree_state_def offsets_ok_def)

lemma state_level:
  assumes "tree_state h d starts k Ts ws v s" and "k \<le> l" and "l < length ws"
  shows "ws ! l * verity_arity d \<le> length (Ts ! l)" "vb_written v ! l = ws ! l * verity_block_size d"
    "vb_buffers v ! l = hash_block (verity_arity d) (verity_block_size d) (Ts ! l) (ws ! l)"
    "vb_filled v ! l = (length (Ts ! l) - ws ! l * verity_arity d) * digest_size d"
    "length (Ts ! l) \<le> ws ! l * verity_arity d + verity_arity d"
  using assms by (auto simp: tree_state_def builder_rep_def level_rep_def)

text \<open>Writing the block under construction at its level.\<close>

lemma write_block:
  assumes set: "tree_setting h d starts" and st: "tree_state h d starts k Ts ws v s" and l: "k \<le> l" "l < length ws"
    and link: "linked (verity_hash h d) (verity_arity d) (verity_block_size d) Ts' (ws[l := Suc (ws ! l)])"
    and n: "length (Ts' ! 0) \<le> data_blocks d"
    and w: "\<forall>m < length ws. ws[l := Suc (ws ! l)] ! m \<le> div_ceil (length (Ts' ! m)) (verity_arity d)"
    and block: "block = hash_block (verity_arity d) (verity_block_size d) (Ts ! l) (ws ! l)"
  shows "write_at memory_tree (starts ! l + vb_written v ! l) block s K = K (s(starts ! l + ws ! l * verity_block_size d \<mapsto> block))"
    and "stored (verity_arity d) (verity_block_size d) starts Ts (ws[l := Suc (ws ! l)])
      (s(starts ! l + ws ! l * verity_block_size d \<mapsto> block))"
proof -
  let ?c = "level_counts (verity_arity d) (data_blocks d)"
  have c: "length ?c = length ws" using state_counts [OF set st] .
  have fits: "ws[l := Suc (ws ! l)] ! m \<le> ?c ! m" if "m < length ws" for m
    using linked_fits [OF link] c n w that by simp
  then have lt: "ws ! l < ?c ! l" using l(2) fits [of l] by simp
  have le: "\<forall>m < length ws. ws ! m \<le> ?c ! m" using fits by (metis lt nat_less_le nth_list_update_neq)
  have off: "offsets_ok (verity_block_size d) starts ?c" using set by (simp add: tree_setting_def)
  show "stored (verity_arity d) (verity_block_size d) starts Ts (ws[l := Suc (ws ! l)])
      (s(starts ! l + ws ! l * verity_block_size d \<mapsto> block))"
    unfolding block using st by (intro stored_write [OF _ off c le l(2) lt]) (simp add: tree_state_def)
  have "starts ! l + ws ! l * verity_block_size d < 2 ^ 64" using off lt l(2) c by (auto simp: offsets_ok_def)
  then show "write_at memory_tree (starts ! l + vb_written v ! l) block s K
      = K (s(starts ! l + ws ! l * verity_block_size d \<mapsto> block))"
    using state_level(2) [OF st l] by (simp add: write_at_def panic_u64_def memory_tree_def)
qed

text \<open>A hash that completes the block of its level is stored there; the hash of the block goes to the next level.\<close>

lemma feed_completes:
  assumes set: "tree_setting h d starts" and st: "tree_state h d starts 0 Ts ws v s" and l: "l < length ws"
    and link: "linked (verity_hash h d) (verity_arity d) (verity_block_size d) (push l x Ts) ws"
    and n: "length (push l x Ts ! 0) \<le> data_blocks d" and x: "length x = digest_size d"
    and full: "Suc (length (Ts ! l)) = ws ! l * verity_arity d + verity_arity d"
    and x': "x' = verity_hash h d (hash_block (verity_arity d) (verity_block_size d) (Ts ! l @ [x]) (ws ! l))"
  shows "\<exists>v' s'. feed h d starts memory_tree l x v s = feed h d starts memory_tree (Suc l) x' v' s'
    \<and> tree_state h d starts 0 (push l x Ts) (ws[l := Suc (ws ! l)]) v' s'
    \<and> linked (verity_hash h d) (verity_arity d) (verity_block_size d) (push (Suc l) x' (push l x Ts)) (ws[l := Suc (ws ! l)])
    \<and> length (push (Suc l) x' (push l x Ts) ! 0) \<le> data_blocks d"
proof -
  let ?ar = "verity_arity d" and ?ds = "digest_size d" and ?bs = "verity_block_size d" and ?H = "verity_hash h d"
  have g: "geometry ?ar ?ds ?bs" using set by (simp add: tree_setting_def)
  have rep: "builder_rep ?ar ?ds ?bs 0 Ts ws v" and sto: "stored ?ar ?bs starts Ts ws s" and sl: "length starts = length ws"
    using st by (simp_all add: tree_state_def)
  have len: "length (vb_buffers v) = length ws" "l < length Ts" using rep l by (simp_all add: builder_rep_def)
  define block where "block = hash_block ?ar ?bs (Ts ! l @ [x]) (ws ! l)"
  have free: "length (Ts ! l) < ws ! l * ?ar + ?ar" using full by simp
  note p = rep_push [OF g rep le0 l free x block_def]
  define Ts1 where "Ts1 = push l x Ts"
  define ws1 where "ws1 = ws[l := Suc (ws ! l)]"
  define v1 where "v1 = v\<lparr>vb_buffers := (vb_buffers v)[l := block], vb_filled := (vb_filled v)[l := vb_filled v ! l + ?ds]\<rparr>"
  define v2 where "v2 = v\<lparr>vb_buffers := (vb_buffers v)[l := replicate (length block) 0],
    vb_filled := (vb_filled v)[l := 0], vb_written := (vb_written v)[l := vb_written v ! l + ?bs]\<rparr>"
  define s1 where "s1 = s(starts ! l + ws ! l * ?bs \<mapsto> block)"
  have st1: "tree_state h d starts 0 Ts1 ws v1 s"
    using p(2) stored_push [OF sto len(2)] state_level(1) [OF st le0 l] sl by (simp add: tree_state_def v1_def Ts1_def)
  have Ts1: "Ts1 ! l = Ts ! l @ [x]" "Suc l < length Ts1"
    using len(2) l rep by (simp_all add: Ts1_def builder_rep_def)
  have wl: "ws ! m * ?ar \<le> length (Ts1 ! m)" if "m < length ws" for m using state_level(1) [OF st1 le0 that] .
  have link1: "linked ?H ?ar ?bs Ts1 ws" using link by (simp add: Ts1_def)
  have link2: "linked ?H ?ar ?bs (push (Suc l) x' Ts1) ws1"
    using linked_push [OF link1, of "Suc l" x' "Suc (ws ! l)"] wl link1 l Ts1(1) by (simp add: ws1_def linked_def x')
  have "ws1 ! m * ?ar \<le> length (push (Suc l) x' Ts1 ! m)" if "m < length ws" for m
    using that wl [OF that] full Ts1 l by (auto simp: ws1_def nth_list_update)
  then have w: "\<forall>m < length ws. ws1 ! m \<le> div_ceil (length (push (Suc l) x' Ts1 ! m)) ?ar"
    using g by (auto intro!: div_ceil_le simp: geometry_def)
  have n1: "length (push (Suc l) x' Ts1 ! 0) \<le> data_blocks d" using n Ts1(2) by (simp add: Ts1_def)
  have b: "block = hash_block ?ar ?bs (Ts1 ! l) (ws ! l)" using Ts1(1) by (simp add: block_def)
  note wr = write_block [OF set st1 le0 l link2 [unfolded ws1_def] n1 w [unfolded ws1_def] b]
  have "vb_filled v ! l + ?ds = ?bs" using p(3) full by simp
  then have step: "feed h d starts memory_tree l x v s = feed h d starts memory_tree (Suc l) x' v2 s1"
    using p(1) len l wr(1) by (simp add: feed.simps [of h d starts memory_tree l] v1_def v2_def s1_def x' block_def [symmetric])
  have "length block = ?bs"
    using hash_block_length [OF g, of "Ts ! l @ [x]"] rep l x by (simp add: block_def builder_rep_def)
  then have lr: "level_rep ?ar ?ds ?bs v2 (Ts1 ! l) (ws1 ! l) l"
    using full Ts1(1) l len rep state_level(2) [OF st le0 l]
    by (simp add: level_rep_def v2_def ws1_def builder_rep_def hash_block_beyond)
  have "builder_rep ?ar ?ds ?bs 0 Ts1 ws1 v2"
    using rep_update [OF p(2) lr [unfolded Ts1_def]] by (simp add: Ts1_def v2_def ws1_def)
  then have "tree_state h d starts 0 Ts1 ws1 v2 s1" using wr(2) sl by (simp add: tree_state_def ws1_def s1_def)
  then show ?thesis using step link2 n1 unfolding Ts1_def ws1_def by blast
qed

lemma feed_state:
  assumes set: "tree_setting h d starts"
  shows "tree_state h d starts 0 Ts ws v s \<Longrightarrow> room (verity_arity d) 0 Ts ws \<Longrightarrow> l \<le> length ws
    \<Longrightarrow> linked (verity_hash h d) (verity_arity d) (verity_block_size d) (push l x Ts) ws
    \<Longrightarrow> length (push l x Ts ! 0) \<le> data_blocks d \<Longrightarrow> length x = digest_size d
    \<Longrightarrow> \<exists>v' s' Ts' ws'. feed h d starts memory_tree l x v s = (Ok v', s') \<and> tree_state h d starts 0 Ts' ws' v' s'
          \<and> room (verity_arity d) 0 Ts' ws' \<and> linked (verity_hash h d) (verity_arity d) (verity_block_size d) Ts' ws'
          \<and> Ts' ! 0 = push l x Ts ! 0 \<and> length ws' = length ws"
proof (induction "length ws - l" arbitrary: l x Ts ws v s)
  case (0 l ws)
  then have l: "l = length ws" by simp
  have rep: "builder_rep (verity_arity d) (digest_size d) (verity_block_size d) 0 Ts ws v"
    using 0 by (simp add: tree_state_def)
  then have len: "length (vb_buffers v) = l" "l < length Ts" using l by (simp_all add: builder_rep_def)
  note r = rep_root [OF rep 0(7)]
  have "feed h d starts memory_tree l x v s = (Ok (v\<lparr>vb_root := x\<rparr>), s)"
    using r(1) len by (simp add: feed.simps)
  moreover have "tree_state h d starts 0 (push l x Ts) ws (v\<lparr>vb_root := x\<rparr>) s"
    using 0(2) r(2) stored_push len(2) l by (simp add: tree_state_def)
  moreover have "room (verity_arity d) 0 (push l x Ts) ws" using 0(3) l len(2) by (simp add: room_def)
  ultimately show ?case using 0(5) by blast
next
  case (Suc k l ws)
  let ?ar = "verity_arity d" and ?ds = "digest_size d" and ?bs = "verity_block_size d" and ?H = "verity_hash h d"
  have l: "l < length ws" using Suc.hyps(2) by simp
  have g: "geometry ?ar ?ds ?bs" using set by (simp add: tree_setting_def)
  have rep: "builder_rep ?ar ?ds ?bs 0 Ts ws v" and sto: "stored ?ar ?bs starts Ts ws s" and sl: "length starts = length ws"
    using Suc.prems(1) by (simp_all add: tree_state_def)
  have len: "length (vb_buffers v) = length ws" "l < length Ts" using rep l by (simp_all add: builder_rep_def)
  have free: "length (Ts ! l) < ws ! l * ?ar + ?ar" using Suc.prems(2) l by (simp add: room_def)
  note p = rep_push [OF g rep le0 l free Suc.prems(6) refl]
  show ?case
  proof (cases "Suc (length (Ts ! l)) = ws ! l * ?ar + ?ar")
    case False
    let ?b = "hash_block ?ar ?bs (Ts ! l @ [x]) (ws ! l)"
    let ?v = "v\<lparr>vb_buffers := (vb_buffers v)[l := ?b], vb_filled := (vb_filled v)[l := vb_filled v ! l + ?ds]\<rparr>"
    have "feed h d starts memory_tree l x v s = (Ok ?v, s)"
      using p(1,3) len l False by (simp add: feed.simps [of h d starts memory_tree l])
    moreover have "tree_state h d starts 0 (push l x Ts) ws ?v s"
      using p(2) stored_push [OF sto len(2)] state_level(1) [OF Suc.prems(1) le0 l] sl by (simp add: tree_state_def)
    moreover have "room ?ar 0 (push l x Ts) ws" using Suc.prems(2) free False len(2) by (auto simp: room_def)
    ultimately show ?thesis using Suc.prems(4) by blast
  next
    case True
    define x' where "x' = ?H (hash_block ?ar ?bs (Ts ! l @ [x]) (ws ! l))"
    obtain v' s' where step: "feed h d starts memory_tree l x v s = feed h d starts memory_tree (Suc l) x' v' s'"
        and next_state: "tree_state h d starts 0 (push l x Ts) (ws[l := Suc (ws ! l)]) v' s'"
          "linked ?H ?ar ?bs (push (Suc l) x' (push l x Ts)) (ws[l := Suc (ws ! l)])"
          "length (push (Suc l) x' (push l x Ts) ! 0) \<le> data_blocks d"
      using feed_completes [OF set Suc.prems(1) l Suc.prems(4-6) True x'_def] by blast
    have "room ?ar 0 (push l x Ts) (ws[l := Suc (ws ! l)])"
      using Suc.prems(2) True g len(2) l unfolding room_def by (auto simp: nth_list_update geometry_def)
    moreover have "length x' = ?ds" using set by (simp add: tree_setting_def x'_def)
    moreover have "push (Suc l) x' (push l x Ts) ! 0 = push l x Ts ! 0"
      using len(2) l rep by (simp add: builder_rep_def)
    ultimately show ?thesis
      unfolding step using Suc.hyps(1) [OF _ next_state(1) _ _ next_state(2,3)] Suc.hyps(2) l by simp
  qed
qed

end
