(* ===== verification/Verity_Stream.thy ===== *)
theory Verity_Stream
  imports Verity_Build
begin

text \<open>
  The two loops of the builder: every block of the file is fed to the lowest level, then what is
  left in the buffers is flushed from the lowest level up. The result is the tree of the specification.
\<close>

section \<open>The blocks of the file\<close>

definition data_block :: "nat \<Rightarrow> bytes \<Rightarrow> nat \<Rightarrow> bytes" where
  "data_block bs data i = (let c = take bs (drop (i * bs) data) in c @ replicate (bs - length c) 0)"

definition block_hashes :: "sha2 \<Rightarrow> verity_descriptor \<Rightarrow> bytes \<Rightarrow> nat \<Rightarrow> bytes list" where
  "block_hashes h d data n = map (\<lambda>i. verity_hash h d (data_block (verity_block_size d) data i)) [0..<n]"

lemma data_block_length [simp]: "length (data_block bs data i) = bs"
  by (simp add: data_block_def Let_def)

lemma block_size_pos [simp]: "0 < verity_block_size d"
  by (simp add: verity_block_size_def)

lemma div_ceil_iff: "0 < b \<Longrightarrow> i < div_ceil n b \<longleftrightarrow> i * b < n"
proof
  assume b: "0 < b" and "i < div_ceil n b"
  then have "Suc i * b \<le> n + b - 1" by (simp add: div_ceil_def less_eq_div_iff_mult_less_eq Suc_le_eq [symmetric] del: mult_Suc)
  then show "i * b < n" using b by simp
next
  assume b: "0 < b" and "i * b < n"
  then show "i < div_ceil n b" using div_ceil_covers [OF b, of "i * b" n] by simp
qed

definition file_reader :: "bytes \<Rightarrow> nat \<Rightarrow> nat \<Rightarrow> (i32, bytes) outcome" where
  "file_reader data offset n = Ok (take n (drop offset data))"

lemma feed_data_state:
  assumes set: "tree_setting h d starts" and data: "length data = data_size d"
  shows "i \<le> data_blocks d \<Longrightarrow> tree_state h d starts 0 Ts ws v s \<Longrightarrow> room (verity_arity d) 0 Ts ws
    \<Longrightarrow> linked (verity_hash h d) (verity_arity d) (verity_block_size d) Ts ws \<Longrightarrow> Ts ! 0 = block_hashes h d data i
    \<Longrightarrow> \<exists>v' s' Ts' ws'. feed_data h d starts (file_reader data) memory_tree (min (i * verity_block_size d) (data_size d)) v s
            = (Ok v', s') \<and> tree_state h d starts 0 Ts' ws' v' s' \<and> room (verity_arity d) 0 Ts' ws'
          \<and> linked (verity_hash h d) (verity_arity d) (verity_block_size d) Ts' ws'
          \<and> Ts' ! 0 = block_hashes h d data (data_blocks d) \<and> length ws' = length ws"
proof (induction "data_blocks d - i" arbitrary: i Ts ws v s)
  case 0
  then have "\<not> i < data_blocks d" "i = data_blocks d" by simp_all
  then have "min (i * verity_block_size d) (data_size d) = data_size d"
    using div_ceil_iff [of "verity_block_size d" i "data_size d"] by (simp add: data_blocks_def)
  then show ?case using 0 \<open>i = data_blocks d\<close> by (auto simp: feed_data.simps)
next
  case (Suc k)
  let ?bs = "verity_block_size d"
  define x where "x = verity_hash h d (data_block ?bs data i)"
  have i: "i < data_blocks d" using Suc.hyps(2) by simp
  then have lt: "i * ?bs < data_size d" using div_ceil_iff [of ?bs i "data_size d"] by (simp add: data_blocks_def)
  define amount where "amount = min (data_size d - i * ?bs) ?bs"
  have "take amount (drop (i * ?bs) data) @ replicate (?bs - amount) 0 = data_block ?bs data i"
    using data by (auto simp: data_block_def amount_def min_def Let_def)
  note block = this
  have next_offset: "i * ?bs + amount = min (Suc i * ?bs) (data_size d)" using lt by (auto simp: amount_def)
  have l0: "0 < length ws \<longrightarrow> ws ! 0 * verity_arity d \<le> length (Ts ! 0)" "0 < length Ts"
    using state_level(1) [OF Suc.prems(2), of 0] Suc.prems(2) by (simp_all add: tree_state_def builder_rep_def)
  have link: "linked (verity_hash h d) (verity_arity d) ?bs (push 0 x Ts) ws"
    using linked_push [OF Suc.prems(4) l0(1), of x 0] by simp
  have len: "length (push 0 x Ts ! 0) \<le> data_blocks d" using l0(2) Suc.prems(5) i by (simp add: block_hashes_def)
  have dx: "length x = digest_size d" using set by (simp add: tree_setting_def x_def)
  obtain v1 s1 Ts1 ws1 where f: "feed h d starts memory_tree 0 x v s = (Ok v1, s1)"
      and t: "tree_state h d starts 0 Ts1 ws1 v1 s1" "room (verity_arity d) 0 Ts1 ws1"
        "linked (verity_hash h d) (verity_arity d) ?bs Ts1 ws1" "Ts1 ! 0 = push 0 x Ts ! 0" "length ws1 = length ws"
    using feed_state [OF set Suc.prems(2,3) _ link len dx] by auto
  have "Ts1 ! 0 = block_hashes h d data (Suc i)"
    using t(4) l0(2) Suc.prems(5) by (simp add: block_hashes_def x_def)
  moreover have "k = data_blocks d - Suc i" "Suc i \<le> data_blocks d" using Suc.hyps(2) i by simp_all
  ultimately obtain v' s' Ts' ws' where r: "feed_data h d starts (file_reader data) memory_tree (i * ?bs + amount) v1 s1 = (Ok v', s')"
      "tree_state h d starts 0 Ts' ws' v' s'" "room (verity_arity d) 0 Ts' ws'"
      "linked (verity_hash h d) (verity_arity d) ?bs Ts' ws'" "Ts' ! 0 = block_hashes h d data (data_blocks d)"
      "length ws' = length ws1"
    unfolding next_offset using Suc.hyps(1) t(1,2,3) by metis
  have "feed_data h d starts (file_reader data) memory_tree (i * ?bs) v s = (Ok v', s')"
    using lt block f r(1) unfolding x_def [symmetric]
    by (simp add: feed_data.simps [of h d starts "file_reader data" memory_tree "i * ?bs"] file_reader_def
        amount_def [symmetric] x_def [symmetric])
  moreover have "min (i * ?bs) (data_size d) = i * ?bs" using lt by simp
  ultimately show ?case using r t(5) by metis
qed

section \<open>Flushing\<close>

lemma rep_drop: "builder_rep ar ds bs k Ts ws v \<Longrightarrow> builder_rep ar ds bs (Suc k) Ts (ws[k := n]) v"
  by (simp add: builder_rep_def)

lemma flush_level:
  assumes set: "tree_setting h d starts" and k: "k < length ws" and st: "tree_state h d starts k Ts ws v s"
    and free0: "room (verity_arity d) (Suc k) Ts ws"
    and link0: "linked (verity_hash h d) (verity_arity d) (verity_block_size d) Ts ws"
    and n0: "length (Ts ! 0) \<le> data_blocks d" and fin0: "\<forall>l < k. ws ! l = div_ceil (length (Ts ! l)) (verity_arity d)"
    and filled: "vb_filled v ! k \<noteq> 0"
  shows "\<exists>v' s' Ts' ws'. flush_levels h d starts memory_tree [k..<length ws] v s
        = flush_levels h d starts memory_tree [Suc k..<length ws'] v' s'
      \<and> tree_state h d starts (Suc k) Ts' ws' v' s' \<and> room (verity_arity d) (Suc (Suc k)) Ts' ws'
      \<and> linked (verity_hash h d) (verity_arity d) (verity_block_size d) Ts' ws'
      \<and> (\<forall>l < Suc k. ws' ! l = div_ceil (length (Ts' ! l)) (verity_arity d))
      \<and> Ts' ! 0 = Ts ! 0 \<and> length ws' = length ws"
proof -
  let ?ar = "verity_arity d" and ?ds = "digest_size d" and ?bs = "verity_block_size d" and ?H = "verity_hash h d"
  have upt: "[k..<length ws] = k # [Suc k..<length ws]" using k by (rule upt_conv_Cons)
  have g: "geometry ?ar ?ds ?bs" and H: "\<And>x. length (?H x) = ?ds" using set by (auto simp: tree_setting_def)
  have ar: "0 < ?ar" using g by (simp add: geometry_def)
  have rep: "builder_rep ?ar ?ds ?bs k Ts ws v" and sto: "stored ?ar ?bs starts Ts ws s" and sl: "length starts = length ws"
    using st by (simp_all add: tree_state_def)
  note lev = state_level [OF st]
  note levk = lev [OF order_refl k]
  have lenT: "length Ts = Suc (length ws)" "length (vb_buffers v) = length ws" using rep by (simp_all add: builder_rep_def)
  define block where "block = hash_block ?ar ?bs (Ts ! k) (ws ! k)"
  define x where "x = ?H block"
  define Ts1 where "Ts1 = push (Suc k) x Ts"
  define ws1 where "ws1 = ws[k := Suc (ws ! k)]"
  define s1 where "s1 = s(starts ! k + ws ! k * ?bs \<mapsto> block)"
  have sk: "Suc k < length Ts" using k lenT by simp
  have part: "ws ! k * ?ar < length (Ts ! k)" using filled levk(1,4) by (cases "length (Ts ! k) = ws ! k * ?ar") auto
  then have ceil: "div_ceil (length (Ts ! k)) ?ar = Suc (ws ! k)" using levk(5) by (rule div_ceil_unique)
  have wl: "Suc k < length ws \<longrightarrow> ws ! Suc k * ?ar \<le> length (Ts ! Suc k)" using lev(1) by simp
  have "Ts ! Suc k @ [x] = next_hashes ?H ?ar ?bs (Suc (ws ! k)) (Ts ! k)"
    using link0 k by (simp add: linked_def x_def block_def)
  then have link: "linked ?H ?ar ?bs Ts1 ws1"
    using linked_push [OF link0 wl] k by (simp add: Ts1_def ws1_def)
  have below: "Ts1 ! m = Ts ! m" if "m \<le> k" for m using that sk by (simp add: Ts1_def)
  have len0: "length (Ts1 ! 0) \<le> data_blocks d" using below [of 0] n0 by simp
  have fin: "\<forall>l < Suc k. ws1 ! l = div_ceil (length (Ts1 ! l)) ?ar"
    using fin0 ceil below k by (auto simp: ws1_def less_Suc_eq nth_list_update)
  have "ws1 ! m \<le> div_ceil (length (Ts1 ! m)) ?ar" if m: "m < length ws" for m
  proof (cases "m \<le> k")
    case True
    then show ?thesis using fin by simp
  next
    case False
    then have "ws ! m * ?ar \<le> length (Ts1 ! m)" using lev(1) [of m] m sk by (auto simp: Ts1_def)
    then show ?thesis using False div_ceil_le [OF ar] by (simp add: ws1_def)
  qed
  then have w: "\<forall>m < length ws. ws1 ! m \<le> div_ceil (length (Ts1 ! m)) ?ar" by blast
  note wr = write_block [OF set st order_refl k link [unfolded ws1_def] len0 w [unfolded ws1_def] block_def]
  have sto1: "stored ?ar ?bs starts Ts1 ws1 s1"
    using stored_push [OF wr(2) sk] wl by (simp add: Ts1_def ws1_def s1_def)
  have room1: "room ?ar (Suc (Suc k)) Ts1 ws1" using free0 sk by (auto simp: room_def Ts1_def ws1_def)
  have dx: "length x = ?ds" using H by (simp add: x_def)
  have "\<exists>v1. flush_levels h d starts memory_tree [k..<length ws] v s
      = flush_levels h d starts memory_tree [Suc k..<length ws1] v1 s1 \<and> builder_rep ?ar ?ds ?bs (Suc k) Ts1 ws1 v1"
  proof (cases "Suc k = length ws")
    case True
    note r = rep_root [OF rep dx]
    have "builder_rep ?ar ?ds ?bs (Suc k) Ts1 ws1 (v\<lparr>vb_root := x\<rparr>)"
      using rep_drop [OF r(2)] True by (simp add: Ts1_def ws1_def)
    moreover have "flush_levels h d starts memory_tree [k..<length ws] v s
        = flush_levels h d starts memory_tree [Suc k..<length ws1] (v\<lparr>vb_root := x\<rparr>) s1"
      unfolding upt using filled True wr(1) r(1) lenT(2) levk(3)
      by (simp add: x_def [symmetric] block_def [symmetric] s1_def ws1_def)
    ultimately show ?thesis by blast
  next
    case more: False
    then have k1: "Suc k < length ws" using k by simp
    have free: "length (Ts ! Suc k) < ws ! Suc k * ?ar + ?ar" using free0 k1 by (simp add: room_def)
    define b where "b = hash_block ?ar ?bs (Ts ! Suc k @ [x]) (ws ! Suc k)"
    define v1 where "v1 = v\<lparr>vb_buffers := (vb_buffers v)[Suc k := b],
      vb_filled := (vb_filled v)[Suc k := vb_filled v ! Suc k + ?ds]\<rparr>"
    note p = rep_push [OF g rep _ k1 free dx b_def]
    have "builder_rep ?ar ?ds ?bs (Suc k) Ts1 ws1 v1"
      using rep_drop [OF p(2)] by (simp add: Ts1_def ws1_def v1_def)
    moreover have "flush_levels h d starts memory_tree [k..<length ws] v s
        = flush_levels h d starts memory_tree [Suc k..<length ws1] v1 s1"
      unfolding upt using filled more wr(1) p(1) lenT(2) levk(3)
      by (simp add: x_def [symmetric] block_def [symmetric] s1_def ws1_def v1_def Let_def)
    ultimately show ?thesis by blast
  qed
  then obtain v1 where v1: "flush_levels h d starts memory_tree [k..<length ws] v s
      = flush_levels h d starts memory_tree [Suc k..<length ws1] v1 s1" "builder_rep ?ar ?ds ?bs (Suc k) Ts1 ws1 v1"
    by blast
  have "tree_state h d starts (Suc k) Ts1 ws1 v1 s1" using v1(2) sto1 sl by (simp add: tree_state_def ws1_def)
  moreover have "length ws1 = length ws" by (simp add: ws1_def)
  ultimately show ?thesis using v1(1) room1 link fin below [of 0] by blast
qed

lemma flush_state:
  assumes set: "tree_setting h d starts"
  shows "k \<le> length ws \<Longrightarrow> tree_state h d starts k Ts ws v s \<Longrightarrow> room (verity_arity d) (Suc k) Ts ws
    \<Longrightarrow> linked (verity_hash h d) (verity_arity d) (verity_block_size d) Ts ws \<Longrightarrow> length (Ts ! 0) \<le> data_blocks d
    \<Longrightarrow> \<forall>l < k. ws ! l = div_ceil (length (Ts ! l)) (verity_arity d)
    \<Longrightarrow> \<exists>v' s' Ts' ws'. flush_levels h d starts memory_tree [k..<length ws] v s = (Ok v', s')
          \<and> tree_state h d starts (length ws) Ts' ws' v' s'
          \<and> linked (verity_hash h d) (verity_arity d) (verity_block_size d) Ts' ws'
          \<and> (\<forall>l < length ws. ws' ! l = div_ceil (length (Ts' ! l)) (verity_arity d))
          \<and> Ts' ! 0 = Ts ! 0 \<and> length ws' = length ws"
proof (induction "length ws - k" arbitrary: k Ts ws v s)
  case 0
  then show ?case by auto
next
  case (Suc n k ws Ts)
  then have k: "k < length ws" and n: "n = length ws - Suc k" by simp_all
  let ?ar = "verity_arity d" and ?ds = "digest_size d"
  have ar: "0 < ?ar" "0 < ?ds" using set by (auto simp: tree_setting_def geometry_def)
  show ?case
  proof (cases "vb_filled v ! k = 0")
    case True
    have upt: "[k..<length ws] = k # [Suc k..<length ws]" using k by (rule upt_conv_Cons)
    have "length (Ts ! k) = ws ! k * ?ar" using True state_level(1,4) [OF Suc.prems(2) order_refl k] ar by simp
    then have fin: "\<forall>l < Suc k. ws ! l = div_ceil (length (Ts ! l)) ?ar"
      using Suc.prems(6) div_ceil_exact [OF ar(1)] by (auto simp: less_Suc_eq)
    have st: "tree_state h d starts (Suc k) Ts ws v s"
      using Suc.prems(2) rep_drop [of ?ar ?ds "verity_block_size d" k Ts ws v "ws ! k"] by (simp add: tree_state_def)
    have "room ?ar (Suc (Suc k)) Ts ws" using Suc.prems(3) by (simp add: room_def)
    from Suc.hyps(1) [OF n _ st this Suc.prems(4,5) fin] k show ?thesis unfolding upt by (simp add: True)
  next
    case False
    then obtain v1 s1 Ts1 ws1 where step: "flush_levels h d starts memory_tree [k..<length ws] v s
          = flush_levels h d starts memory_tree [Suc k..<length ws1] v1 s1"
        and st: "tree_state h d starts (Suc k) Ts1 ws1 v1 s1" "room ?ar (Suc (Suc k)) Ts1 ws1"
          "linked (verity_hash h d) ?ar (verity_block_size d) Ts1 ws1"
          "\<forall>l < Suc k. ws1 ! l = div_ceil (length (Ts1 ! l)) ?ar"
        and same: "Ts1 ! 0 = Ts ! 0" "length ws1 = length ws"
      using flush_level [OF set k Suc.prems(2-6)] by blast
    have "Suc k \<le> length ws1" "n = length ws1 - Suc k" "length (Ts1 ! 0) \<le> data_blocks d"
      using k n same Suc.prems(5) by simp_all
    from Suc.hyps(1) [OF this(2,1) st(1-3) this(3) st(4)] show ?thesis unfolding step same .
  qed
qed

end
