(* ===== verification/Verity_Props.thy ===== *)
theory Verity_Props
  imports Verity_Check
begin

text \<open>
  What file verification promises: the streaming builder makes the tree of the specification, every
  block of the file is accepted, nothing else is unless the hash function collides, and the
  descriptor is read back.
\<close>

section \<open>New descriptors\<close>

lemma trailing_zeros_sizes: "u32_trailing_zeros 1024 = 10" "u32_trailing_zeros 2048 = 11" "u32_trailing_zeros 4096 = 12"
  by code_simp+

definition descriptor_bytes :: "u8 \<Rightarrow> u8 \<Rightarrow> bytes \<Rightarrow> u64 \<Rightarrow> bytes" where
  "descriptor_bytes alg lg salt n = [1, alg, lg, word_of_nat (length salt), 0, 0, 0, 0] @ u64_le n @ replicate 64 0
     @ salt @ replicate (176 - length salt) 0"

lemma descriptor_new_made:
  assumes "alg = 1 \<or> alg = 2" and "bs = 1024 \<or> bs = 2048 \<or> bs = 4096" and "length salt \<le> 32" and "unat n < 2 ^ 63"
  shows "descriptor_new alg bs salt n = Ok (descriptor_bytes (ucast alg) (word_of_nat (u32_trailing_zeros bs)) salt n)"
proof -
  have "replicate 8 (0 :: u8) = [0, 0, 0, 0, 0, 0, 0, 0]" by (simp add: numeral_eq_Suc)
  then have zeros: "replicate 256 (0 :: u8) = [0, 0, 0, 0, 0, 0, 0, 0] @ replicate 248 0"
    using replicate_add [of 8 248 "0 :: u8"] by simp
  define start where "start = [1, ucast alg, word_of_nat (u32_trailing_zeros bs), word_of_nat (length salt), 0, 0, 0, 0] @ u64_le n"
  have one: "copy_range 8 16 (u64_le n) ((replicate 256 0)[0 := 1, 1 := ucast alg, 2 := word_of_nat (u32_trailing_zeros bs),
      3 := word_of_nat (length salt)]) = Ok (start @ replicate 240 0)"
    unfolding zeros start_def copy_range_def by simp
  have "length start = 16" by (simp add: start_def)
  then have two: "copy_range 80 (80 + length salt) salt (start @ replicate 240 0)
      = Ok (start @ replicate 64 0 @ salt @ replicate (176 - length salt) 0)"
    using assms(3) by (simp add: copy_range_def)
  have "\<not> (\<not> (alg = 1 \<or> alg = 2) \<or> \<not> (bs = 1024 \<or> bs = 2048 \<or> bs = 4096) \<or> 32 < length salt \<or> 2 ^ 63 - 1 < unat n)"
    using assms by linarith
  then have "descriptor_new alg bs salt n = Ok (start @ replicate 64 0 @ salt @ replicate (176 - length salt) 0)"
    by (simp only: descriptor_new_def Let_def one two and_then.simps if_False)
  then show ?thesis by (simp only: start_def descriptor_bytes_def append_assoc)
qed

lemma descriptor_new_Ok:
  assumes "descriptor_new alg bs salt n = Ok d"
  shows "\<exists>lg. (lg = 10 \<or> lg = 11 \<or> lg = 12) \<and> d = descriptor_bytes (ucast alg) lg salt n
    \<and> (alg = 1 \<or> alg = 2) \<and> length salt \<le> 32 \<and> unat n < 2 ^ 63"
proof -
  have "\<not> (\<not> (alg = 1 \<or> alg = 2) \<or> \<not> (bs = 1024 \<or> bs = 2048 \<or> bs = 4096) \<or> 32 < length salt \<or> 2 ^ 63 - 1 < unat n)"
    using assms unfolding descriptor_new_def by (rule contrapos_pn) (simp only: if_True outcome.distinct not_False_eq_True)
  then have *: "alg = 1 \<or> alg = 2" "bs = 1024 \<or> bs = 2048 \<or> bs = 4096" "length salt \<le> 32" "unat n < 2 ^ 63"
    by (blast, blast, linarith, simp)
  have "d = descriptor_bytes (ucast alg) (word_of_nat (u32_trailing_zeros bs)) salt n"
    using assms unfolding descriptor_new_made [OF *] by (simp only: outcome.inject)
  moreover have "word_of_nat (u32_trailing_zeros bs) = (10 :: u8) \<or> word_of_nat (u32_trailing_zeros bs) = (11 :: u8)
      \<or> word_of_nat (u32_trailing_zeros bs) = (12 :: u8)"
    using *(2) by (elim disjE) (simp_all add: trailing_zeros_sizes)
  ultimately show ?thesis using *(1,3,4) by blast
qed

lemma descriptor_bytes_fields:
  assumes "length salt \<le> 32" and "d = descriptor_bytes alg lg salt n"
  shows "length d = 256" "d ! 0 = 1" "d ! 1 = alg" "d ! 2 = lg" "unat (d ! 3) = length salt" "data_size d = unat n"
    "take 4 (drop 4 d) = replicate 4 0" "take 64 (drop 16 d) = replicate 64 0"
    "drop 80 d = salt @ replicate (176 - length salt) 0"
proof -
  have "length salt < 2 ^ 8" using assms(1) by simp
  then show "unat (d ! 3) = length salt" by (simp add: assms(2) descriptor_bytes_def unat_of_nat take_bit_nat_eq_self)
  show "take 64 (drop 16 d) = replicate 64 0" "drop 80 d = salt @ replicate (176 - length salt) 0"
    by (simp_all add: assms(2) descriptor_bytes_def)
  show "take 4 (drop 4 d) = replicate 4 0" by (simp add: assms(2) descriptor_bytes_def numeral_eq_Suc)
qed (use assms in \<open>simp_all add: descriptor_bytes_def data_size_def\<close>)

lemma descriptor_new_valid:
  assumes "descriptor_new alg bs salt n = Ok d"
  shows "verity_valid d" "data_size d = unat n"
proof -
  obtain lg where lg: "lg = 10 \<or> lg = 11 \<or> lg = 12" and d: "d = descriptor_bytes (ucast alg) lg salt n"
      and *: "alg = 1 \<or> alg = 2" "length salt \<le> 32" "unat n < 2 ^ 63"
    using descriptor_new_Ok [OF assms] by blast
  note f = descriptor_bytes_fields [OF *(2) d]
  show "verity_valid d" unfolding verity_valid_def f using lg * by auto
  show "data_size d = unat n" by (rule f)
qed

section \<open>Checking\<close>

lemma tree_level_up: "tree_level H ar bs (Suc k) hs = tree_level H ar bs k (tree_level H ar bs 1 hs)"
  by (induction k) (simp_all add: Let_def)

lemma level_one: "tree_level H ar bs 1 hs = next_hashes H ar bs (div_ceil (length hs) ar) hs"
  by (simp add: Let_def)

lemma verify_levels_complete:
  assumes g: "geometry (verity_arity d) (digest_size d) (verity_block_size d)"
    and H: "\<And>x. length (verity_hash h d x) = digest_size d"
  shows "digests (digest_size d) hs \<Longrightarrow> i < length hs \<Longrightarrow> length buf = verity_block_size d
    \<Longrightarrow> tree_level (verity_hash h d) (verity_arity d) (verity_block_size d) (length starts) hs
          = [take (digest_size d) (drop 16 d)]
    \<Longrightarrow> (\<And>l j. l < length starts
          \<Longrightarrow> j < length (tree_level (verity_hash h d) (verity_arity d) (verity_block_size d) (Suc l) hs)
          \<Longrightarrow> starts ! l + j * verity_block_size d < 2 ^ 64
            \<and> (\<forall>b. length b = verity_block_size d \<longrightarrow> read_tree (starts ! l + j * verity_block_size d) b
                = Ok (hash_block (verity_arity d) (verity_block_size d)
                    (tree_level (verity_hash h d) (verity_arity d) (verity_block_size d) l hs) j)))
    \<Longrightarrow> verify_levels h d read_tree starts i (hs ! i) buf = Ok ()"
proof (induction starts arbitrary: hs i buf)
  case Nil
  then show ?case by simp
next
  case (Cons start starts)
  let ?ar = "verity_arity d" and ?ds = "digest_size d" and ?bs = "verity_block_size d" and ?H = "verity_hash h d"
  define up where "up = tree_level ?H ?ar ?bs 1 hs"
  define j where "j = i div ?ar"
  define block where "block = hash_block ?ar ?bs hs j"
  have up: "up = next_hashes ?H ?ar ?bs (div_ceil (length hs) ?ar) hs" unfolding up_def level_one ..
  have j: "j < div_ceil (length hs) ?ar"
    using div_ceil_covers Cons.prems(2) g by (simp add: j_def geometry_def)
  then have upj: "up ! j = ?H block" "j < length up" by (simp_all add: up block_def)
  have at: "start + j * ?bs < 2 ^ 64" "\<forall>b. length b = ?bs \<longrightarrow> read_tree (start + j * ?bs) b = Ok block"
    using Cons.prems(5) [of 0 j] upj(2) by (simp_all add: up_def block_def)
  have slot: "take ?ds (drop (i mod ?ar * ?ds) block) = hs ! i"
    using hash_block_slot [OF g Cons.prems(1,2)] by (simp add: block_def j_def)
  have blen: "length block = ?bs" using hash_block_length [OF g Cons.prems(1)] by (simp add: block_def)
  have "i mod ?ar * ?ds + ?ds \<le> ?bs"
    using g mult_le_mono1 [of "Suc (i mod ?ar)" ?ar ?ds] by (simp add: geometry_def Suc_le_eq)
  then have fits: "\<not> length block < i mod ?ar * ?ds + ?ds" using blen by simp
  have "digests ?ds up" unfolding up using H by (rule digests_next)
  moreover have "tree_level ?H ?ar ?bs (length starts) up = [take ?ds (drop 16 d)]"
    using Cons.prems(4) by (simp only: up_def tree_level_up [symmetric] length_Cons)
  moreover have "starts ! l + k * ?bs < 2 ^ 64 \<and> (\<forall>b. length b = ?bs \<longrightarrow>
      read_tree (starts ! l + k * ?bs) b = Ok (hash_block ?ar ?bs (tree_level ?H ?ar ?bs l up) k))"
    if "l < length starts" "k < length (tree_level ?H ?ar ?bs (Suc l) up)" for l k
    using Cons.prems(5) [of "Suc l" k, unfolded length_Cons nth_Cons_Suc Suc_less_eq] that
    unfolding up_def tree_level_up [symmetric] by blast
  ultimately have "verify_levels h d read_tree starts j (up ! j) block = Ok ()"
    using Cons.IH upj(2) blen by blast
  moreover have "read_tree (start + j * ?bs) buf = Ok block" using at(2) Cons.prems(3) by simp
  ultimately show ?case using at(1) slot fits upj(1) by (simp add: panic_u64_def j_def [symmetric] Let_def)
qed

text \<open>Climbing the tree reads one block of every level. When each of them, if its hash is the right one, is
  the block of the specification, the hash that was climbed with is the right one.\<close>

lemma verify_levels_sound:
  assumes g: "geometry (verity_arity d) (digest_size d) (verity_block_size d)"
    and H: "\<And>x. length (verity_hash h d x) = digest_size d"
    and rd: "\<And>off b b'. read_tree off b = Ok b' \<Longrightarrow> length b' = length b"
  shows "digests (digest_size d) hs \<Longrightarrow> i < length hs \<Longrightarrow> length buf = verity_block_size d
    \<Longrightarrow> tree_level (verity_hash h d) (verity_arity d) (verity_block_size d) (length starts) hs
          = [take (digest_size d) (drop 16 d)]
    \<Longrightarrow> (\<And>l b x. l < length starts \<Longrightarrow> length b = verity_block_size d
          \<Longrightarrow> read_tree (starts ! l + i div verity_arity d ^ Suc l * verity_block_size d) b = Ok x
          \<Longrightarrow> verity_hash h d x = verity_hash h d (hash_block (verity_arity d) (verity_block_size d)
                (tree_level (verity_hash h d) (verity_arity d) (verity_block_size d) l hs) (i div verity_arity d ^ Suc l))
          \<Longrightarrow> x = hash_block (verity_arity d) (verity_block_size d)
                (tree_level (verity_hash h d) (verity_arity d) (verity_block_size d) l hs) (i div verity_arity d ^ Suc l))
    \<Longrightarrow> verify_levels h d read_tree starts i hash buf = Ok () \<Longrightarrow> hash = hs ! i"
proof (induction starts arbitrary: hs i hash buf)
  case Nil
  then show ?case by (auto split: if_splits)
next
  case (Cons start starts)
  let ?ar = "verity_arity d" and ?ds = "digest_size d" and ?bs = "verity_block_size d" and ?H = "verity_hash h d"
  define up where "up = tree_level ?H ?ar ?bs 1 hs"
  define j where "j = i div ?ar"
  define block where "block = hash_block ?ar ?bs hs j"
  have up: "up = next_hashes ?H ?ar ?bs (div_ceil (length hs) ?ar) hs" unfolding up_def level_one ..
  have "j < div_ceil (length hs) ?ar" using div_ceil_covers Cons.prems(2) g by (simp add: j_def geometry_def)
  then have upj: "up ! j = ?H block" "j < length up" by (simp_all add: up block_def)
  from Cons.prems(6) obtain b where b: "read_tree (start + j * ?bs) buf = Ok b"
      "take ?ds (drop (i mod ?ar * ?ds) b) = hash" "verify_levels h d read_tree starts j (?H b) b = Ok ()"
    by (auto simp: Let_def j_def panic_u64_def split: if_splits)
  have blen: "length b = ?bs" using rd [OF b(1)] Cons.prems(3) by simp
  have "digests ?ds up" unfolding up using H by (rule digests_next)
  moreover have "tree_level ?H ?ar ?bs (length starts) up = [take ?ds (drop 16 d)]"
    using Cons.prems(4) by (simp only: up_def tree_level_up [symmetric] length_Cons)
  moreover have "x = hash_block ?ar ?bs (tree_level ?H ?ar ?bs l up) (j div ?ar ^ Suc l)"
    if "l < length starts" "length c = ?bs" "read_tree (starts ! l + j div ?ar ^ Suc l * ?bs) c = Ok x"
      "?H x = ?H (hash_block ?ar ?bs (tree_level ?H ?ar ?bs l up) (j div ?ar ^ Suc l))" for l c x
  proof -
    have "j div ?ar ^ Suc l = i div ?ar ^ Suc (Suc l)" by (simp add: j_def div_mult2_eq)
    then show ?thesis using Cons.prems(5) [of "Suc l" c x, unfolded length_Cons Suc_less_eq nth_Cons_Suc] that
      unfolding up_def tree_level_up [symmetric] by simp
  qed
  ultimately have "?H b = up ! j" using Cons.IH [OF _ upj(2) blen _ _ b(3)] by blast
  then have "b = block" using Cons.prems(5) [of 0 buf b] Cons.prems(3) b(1) upj by (simp add: j_def block_def)
  then show ?case using b(2) hash_block_slot [OF g Cons.prems(1,2)] by (simp add: block_def j_def)
qed

section \<open>A small file\<close>

definition demo_sha :: sha2 where
  "demo_sha = \<lparr>sha256 = (\<lambda>x. take 32 (x @ replicate 32 0)), sha512 = (\<lambda>x. take 64 (x @ replicate 64 0))\<rparr>"

definition demo_data :: bytes where
  "demo_data = replicate 1500 7"

lemma demo_sha_lengths: "sha_lengths demo_sha"
  by (auto simp: sha_lengths_def demo_sha_def min_def)

lemma demo_descriptor: "descriptor_new 1 1024 [9] 1500 = Ok (descriptor_bytes 1 10 [9] 1500)"
  using descriptor_new_made [of 1 1024 "[9]" 1500] by (simp add: trailing_zeros_sizes)

lemma demo_length: "length demo_data = unat (1500 :: u64)"
  by (simp add: demo_data_def)

section \<open>Properties\<close>

lemma built:
  assumes "descriptor_new alg block salt n = Ok d" and "sha_lengths h" and "length data = unat n"
  obtains l s root where "verity_valid d" "data_size d = length data" "layout d = Ok l"
    "offsets_ok (verity_block_size d) (vl_starts l) (level_counts (verity_arity d) (data_blocks d))"
    "verity_build h d (file_reader data) memory_tree Map.empty = (Ok (with_root d root), s)"
    "length root = digest_size d" "length (vl_starts l) = length (level_counts (verity_arity d) (data_blocks d))"
    "root = (case file_level h d data (length (vl_starts l)) of [] \<Rightarrow> replicate (digest_size d) 0 | r # rs \<Rightarrow> r)"
    "\<forall>k < length (vl_starts l). \<forall>j < length (file_level h d data (Suc k)).
        s (vl_starts l ! k + j * verity_block_size d)
          = Some (hash_block (verity_arity d) (verity_block_size d) (file_level h d data k) j)"
proof -
  have v: "verity_valid d" "data_size d = length data" using descriptor_new_valid [OF assms(1)] assms(3) by simp_all
  show thesis using build_state [OF v(1) assms(2) v(2) [symmetric]] v that by metis
qed

text \<open>The facts both directions of checking a block share.\<close>

lemma built_check:
  assumes v: "verity_valid d" and sha: "sha_lengths h" and l: "layout d = Ok l"
    and len: "length (vl_starts l) = length (level_counts (verity_arity d) (data_blocks d))" and i: "i < data_blocks d"
    and root: "root = (case file_level h d data (length (vl_starts l)) of [] \<Rightarrow> replicate (digest_size d) 0 | r # rs \<Rightarrow> r)"
    and rl: "length root = digest_size d" and d': "d' = with_root d root"
  shows "verity_block_size d' = verity_block_size d" "digest_size d' = digest_size d" "verity_arity d' = verity_arity d"
    "data_blocks d' = data_blocks d" "layout d' = Ok l" "verity_hash h d' = verity_hash h d"
    "tree_level (verity_hash h d) (verity_arity d) (verity_block_size d) (length (vl_starts l))
       (block_hashes h d data (data_blocks d)) = [take (digest_size d) (drop 16 d')]"
    "digests (digest_size d) (block_hashes h d data (data_blocks d))"
    "block_hashes h d data (data_blocks d) ! i = verity_hash h d (data_block (verity_block_size d) data i)"
    "i < length (block_hashes h d data (data_blocks d))"
proof -
  have "length d = 256" "length root \<le> 64" using v valid_sizes(4) [OF v] rl by (auto simp: verity_valid_def)
  note w = with_root_fields [OF this] with_root_sizes [OF this]
  show "verity_block_size d' = verity_block_size d" "digest_size d' = digest_size d" "verity_arity d' = verity_arity d"
    "data_blocks d' = data_blocks d" "layout d' = Ok l" "verity_hash h d' = verity_hash h d"
    using w l by (simp_all add: d')
  have "1 < verity_arity d" using valid_sizes(1) [OF v] by (simp add: geometry_def)
  then have "length (file_level h d data (length (vl_starts l))) = 1"
    using top_level [of "verity_arity d" "block_hashes h d data (data_blocks d)"] len i by (simp add: block_hashes_def)
  then have "file_level h d data (length (vl_starts l)) = [root]" using root by (auto simp: length_Suc_conv)
  then show "file_level h d data (length (vl_starts l)) = [take (digest_size d) (drop 16 d')]"
    using w(4) rl by (simp add: d')
  show "digests (digest_size d) (block_hashes h d data (data_blocks d))"
    using hash_length [OF sha] by (auto simp: digests_def block_hashes_def)
  show "block_hashes h d data (data_blocks d) ! i = verity_hash h d (data_block (verity_block_size d) data i)"
    "i < length (block_hashes h d data (data_blocks d))"
    using i by (simp_all add: block_hashes_def)
qed

lemma level_digests:
  assumes "sha_lengths h"
  shows "digests (digest_size d) (file_level h d data k)"
proof (cases k)
  case 0
  then show ?thesis using hash_length [OF assms] by (auto simp: digests_def block_hashes_def)
qed (use hash_length [OF assms] in \<open>simp add: Let_def digests_next\<close>)

text \<open>C15: (equivalence) the streaming builder, which keeps one block per level, makes the tree of the
  specification for a file of any length: it succeeds, every block of every level is written where
  the layout puts it, and the descriptor carries the hash at the top, or zeros for an empty file.\<close>

theorem build_matches_tree:
  assumes "descriptor_new alg block salt n = Ok d" and "sha_lengths h" and "length data = unat n"
  shows "\<exists>l s root. layout d = Ok l
    \<and> verity_build h d (file_reader data) memory_tree Map.empty = (Ok (with_root d root), s)
    \<and> root = (case file_level h d data (length (vl_starts l)) of [] \<Rightarrow> replicate (digest_size d) 0 | r # rs \<Rightarrow> r)
    \<and> (\<forall>k < length (vl_starts l). \<forall>j < length (file_level h d data (Suc k)).
        s (vl_starts l ! k + j * verity_block_size d)
          = Some (hash_block (verity_arity d) (verity_block_size d) (file_level h d data k) j))"
  using built [OF assms] by metis

theorem build_matches_tree_witness:
  "descriptor_new 1 1024 [9] 1500 = Ok (descriptor_bytes 1 10 [9] 1500) \<and> sha_lengths demo_sha
   \<and> length demo_data = unat (1500 :: u64)
   \<and> (\<exists>s root. verity_build demo_sha (descriptor_bytes 1 10 [9] 1500) (file_reader demo_data) memory_tree Map.empty
        = (Ok (with_root (descriptor_bytes 1 10 [9] 1500) root), s))"
  using build_matches_tree [OF demo_descriptor demo_sha_lengths demo_length] demo_descriptor demo_sha_lengths demo_length
  by blast

text \<open>Against the finished descriptor and a tree that answers with the blocks of the specification, every
  block with the hash of a block of the file is accepted in its place, the block of the file above all.\<close>

lemma built_accepts:
  assumes "descriptor_new alg block salt n = Ok d" and "sha_lengths h" and "length data = unat n"
    and "verity_build h d (file_reader data) memory_tree Map.empty = (Ok d', s)" and l: "layout d = Ok l"
    and i: "i < data_blocks d" and bs: "length bs = verity_block_size d"
      "verity_hash h d bs = verity_hash h d (data_block (verity_block_size d) data i)"
    and tree: "\<And>k j b. k < length (vl_starts l) \<Longrightarrow> j < length (file_level h d data (Suc k)) \<Longrightarrow> length b = verity_block_size d
      \<Longrightarrow> read_tree (vl_starts l ! k + j * verity_block_size d) b
        = Ok (hash_block (verity_arity d) (verity_block_size d) (file_level h d data k) j)"
  shows "verify_block h d' i bs read_tree = Ok ()"
proof -
  from built [OF assms(1-3)] assms(4) l obtain root where v: "verity_valid d"
      and off: "offsets_ok (verity_block_size d) (vl_starts l) (level_counts (verity_arity d) (data_blocks d))"
      and rl: "length root = digest_size d" and len: "length (vl_starts l) = length (level_counts (verity_arity d) (data_blocks d))"
      and root: "root = (case file_level h d data (length (vl_starts l)) of [] \<Rightarrow> replicate (digest_size d) 0 | r # rs \<Rightarrow> r)"
      and d': "d' = with_root d root"
    by (metis Pair_inject outcome.inject(1))
  note c = built_check [OF v assms(2) l len i root rl d']
  have "vl_starts l ! k + j * verity_block_size d < 2 ^ 64"
    if "k < length (vl_starts l)" "j < length (file_level h d data (Suc k))" for k j
    using off that level_length [of "block_hashes h d data (data_blocks d)" "data_blocks d" k] len
    by (simp add: offsets_ok_def block_hashes_def)
  then have "verify_levels h d' read_tree (vl_starts l) i (block_hashes h d data (data_blocks d) ! i)
      (replicate (verity_block_size d) 0) = Ok ()"
    using verify_levels_complete [of d' h "block_hashes h d data (data_blocks d)" i "replicate (verity_block_size d) 0"
        "vl_starts l" read_tree] valid_sizes(1) [OF v] hash_length [OF assms(2), of d] c tree by simp
  then show ?thesis using bs c(1,4,5,6,9) i by (simp add: verify_block_def)
qed

text \<open>Another block with the same hash. A hash function shorter than a block has such pairs; whoever shows
  one has broken it.\<close>

definition second_preimage :: "sha2 \<Rightarrow> verity_descriptor \<Rightarrow> bytes \<Rightarrow> bytes \<Rightarrow> bool" where
  "second_preimage h d y x \<longleftrightarrow> x \<noteq> y \<and> length x = length y \<and> verity_hash h d x = verity_hash h d y"

text \<open>Whatever the storage returns for the tree, a block that is accepted against the finished descriptor is
  the block of the file that was protected, or it is a second preimage of it, or the tree block
  that was read on one of the levels above it is a second preimage of the one that belongs there.\<close>

lemma accepted_block:
  assumes "descriptor_new alg block salt n = Ok d" and "sha_lengths h" and "length data = unat n"
    and "verity_build h d (file_reader data) memory_tree Map.empty = (Ok d', s)" and l: "layout d = Ok l"
    and rd: "\<And>off b b'. read_tree off b = Ok b' \<Longrightarrow> length b' = length b"
    and ok: "verify_block h d' i bs read_tree = Ok ()"
  shows "bs = data_block (verity_block_size d) data i \<or> second_preimage h d (data_block (verity_block_size d) data i) bs
    \<or> (\<exists>k < length (vl_starts l). \<exists>b x. length b = verity_block_size d
        \<and> read_tree (vl_starts l ! k + i div verity_arity d ^ Suc k * verity_block_size d) b = Ok x
        \<and> second_preimage h d (hash_block (verity_arity d) (verity_block_size d) (file_level h d data k)
            (i div verity_arity d ^ Suc k)) x)"
proof (rule ccontr)
  assume none: "\<not> ?thesis"
  from built [OF assms(1-3)] assms(4) l obtain root where v: "verity_valid d"
      and rl: "length root = digest_size d" and len: "length (vl_starts l) = length (level_counts (verity_arity d) (data_blocks d))"
      and root: "root = (case file_level h d data (length (vl_starts l)) of [] \<Rightarrow> replicate (digest_size d) 0 | r # rs \<Rightarrow> r)"
      and d': "d' = with_root d root"
    by (metis Pair_inject outcome.inject(1))
  have "length d = 256" "length root \<le> 64" using v valid_sizes(4) [OF v] rl by (auto simp: verity_valid_def)
  note w = with_root_sizes [OF this] with_root_fields [OF this]
  have i: "i < data_blocks d" and blen: "length bs = verity_block_size d"
    using ok w by (auto simp: verify_block_def d' split: if_splits)
  note c = built_check [OF v assms(2) l len i root rl d']
  have blocks: "x = hash_block (verity_arity d) (verity_block_size d) (file_level h d data k) (i div verity_arity d ^ Suc k)"
    if "k < length (vl_starts l)" "length b = verity_block_size d"
      "read_tree (vl_starts l ! k + i div verity_arity d ^ Suc k * verity_block_size d) b = Ok x"
      "verity_hash h d x = verity_hash h d (hash_block (verity_arity d) (verity_block_size d) (file_level h d data k)
        (i div verity_arity d ^ Suc k))" for k b x
    using none that rd [OF that(3)] hash_block_length [OF valid_sizes(1) [OF v] level_digests [OF assms(2)]] unfolding second_preimage_def by metis
  have ok': "verify_levels h d' read_tree (vl_starts l) i (verity_hash h d bs) (replicate (verity_block_size d) 0) = Ok ()"
    using ok i blen c by (simp add: verify_block_def)
  note sound = verify_levels_sound [of d' h read_tree "block_hashes h d data (data_blocks d)" i
      "replicate (verity_block_size d) 0" "vl_starts l" "verity_hash h d bs", unfolded c(1-3,6)]
  have "verity_hash h d bs = block_hashes h d data (data_blocks d) ! i"
  proof (rule sound)
    show "length (verity_hash h d x) = digest_size d" for x using assms(2) by (rule hash_length)
    show "length (replicate (verity_block_size d) (0 :: u8)) = verity_block_size d" by simp
  qed (fact valid_sizes(1) [OF v] rd c(7,8,10) blocks ok')+
  then show False using none blen c(9) by (simp add: second_preimage_def)
qed

section \<open>Reading a descriptor back\<close>

lemma no_byte_set [simp]: "list_ex (\<lambda>v. v \<noteq> 0) (replicate n (0 :: u8)) = False"
  by (simp add: list_ex_iff)

text \<open>The finished descriptor is accepted when it is read back, for both hash functions,
  every block size, every salt and every size of the file, the empty one included.\<close>

lemma built_descriptor_decodes:
  assumes "descriptor_new alg block salt n = Ok d" and "sha_lengths h" and "length data = unat n"
  shows "\<exists>d' s. verity_build h d (file_reader data) memory_tree Map.empty = (Ok d', s) \<and> descriptor_decode d' = Ok d'"
proof -
  from built [OF assms] obtain l s root where v: "verity_valid d" "layout d = Ok l"
      and b: "verity_build h d (file_reader data) memory_tree Map.empty = (Ok (with_root d root), s)"
      and rl: "length root = digest_size d" and len: "length (vl_starts l) = length (level_counts (verity_arity d) (data_blocks d))"
      and root: "root = (case file_level h d data (length (vl_starts l)) of [] \<Rightarrow> replicate (digest_size d) 0 | r # rs \<Rightarrow> r)"
    by metis
  define e where "e = with_root d root"
  obtain lg where lg: "lg = 10 \<or> lg = 11 \<or> lg = 12" and d: "d = descriptor_bytes (ucast alg) lg salt n"
      and *: "alg = 1 \<or> alg = 2" "length salt \<le> 32" "unat n < 2 ^ 63"
    using descriptor_new_Ok [OF assms(1)] by blast
  note f = descriptor_bytes_fields [OF *(2) d]
  have r64: "length root \<le> 64" using valid_sizes(4) [OF v(1)] rl by auto
  note w = with_root_fields [OF f(1) r64] with_root_sizes [OF f(1) r64]
  have small: "e ! k = d ! k" if "k < 16" for k using that f(1) by (simp add: e_def with_root_def nth_append)
  have d16: "drop 16 d = replicate 64 0 @ drop 80 d"
    using f(8) append_take_drop_id [of 64 "drop 16 d"] by (simp add: add.commute)
  have e16: "drop 16 e = root @ replicate (64 - length root) 0 @ drop 80 d"
  proof -
    have "drop 16 e = root @ drop (length root) (drop 16 d)" using f(1) by (simp add: e_def with_root_def add.commute)
    then show ?thesis using r64 by (simp add: d16)
  qed
  have cut: "drop (16 + m) e = drop m (drop 16 e)" for m by (simp add: add.commute)
  have e80: "drop 80 e = salt @ replicate (176 - length salt) 0" using cut [of 64] e16 r64 f(9) by simp
  have cut80: "drop (80 + m) e = drop m (drop 80 e)" for m by (simp add: add.commute)
  have "drop 112 e = replicate 144 0" using cut80 [of 32] e80 *(2) by simp
  moreover have "drop (80 + length salt) e = replicate (176 - length salt) 0" using cut80 [of "length salt"] e80 by simp
  moreover have "take 4 (drop 4 e) = replicate 4 0" using f(1,7) by (simp add: e_def with_root_def take_drop)
  moreover have "take 32 (drop 48 e) = replicate 32 0" if "e ! 1 = 1"
  proof -
    have "length root = 32" using that small [of 1] rl by (simp add: digest_size_def verity_algorithm_def)
    then show ?thesis using cut [of 32] e16 by simp
  qed
  moreover have "take 64 (drop 16 e) = replicate 64 0" if "data_size d = 0"
  proof -
    have "data_blocks d = 0" using that by (simp add: data_blocks_def div_ceil_def)
    then have "root = replicate (digest_size d) 0" using root len by (simp add: block_hashes_def level_counts.simps)
    then show ?thesis using e16 r64 rl by (simp flip: replicate_add)
  qed
  moreover have "length e = 256" using f(1) r64 by (simp add: e_def with_root_def)
  moreover have "e ! 0 = 1" "e ! 1 = 1 \<or> e ! 1 = 2" "10 \<le> e ! 2" "e ! 2 \<le> 12" "unat (e ! 3) = length salt"
    using small f lg *(1) by auto
  moreover have "\<not> 32 < e ! 3" using \<open>unat (e ! 3) = length salt\<close> *(2) by (simp add: word_less_nat_alt)
  moreover have "data_size e = data_size d" "layout e = Ok l" using w v(2) by (simp_all add: e_def)
  ultimately have "descriptor_decode e = Ok e" using f(6) *(2,3) unfolding descriptor_decode_def by auto
  then show ?thesis using b by (auto simp: e_def)
qed

end
