(* ===== verification/Verity_Read.thy ===== *)
theory Verity_Read
  imports Verity_Props
begin

text \<open>
  Verified reads, \<^verbatim>\<open>kinakaze-vfs/src/fs/verity.rs\<close>: the record kept with a protected file and reads that
  check every block they return. Reading the file at an offset, which may return fewer bytes than asked
  for, is an argument; a read returns the bytes it has put at the start of the caller's buffer. The
  tree lies behind the data of the file, at the next multiple of the block size.
\<close>

section \<open>Records\<close>

definition VERITY_MAGIC :: bytes where
  "VERITY_MAGIC = [0x43, 0x59, 0x56, 0x45, 0x52, 0x49, 0x54, 0x32]"

definition PREPARING :: u8 where "PREPARING = 1"
definition ENABLED :: u8 where "ENABLED = 2"
definition BUILT :: u8 where "BUILT = 3"
definition ENODATA :: i32 where "ENODATA = 61"

record verity_record =
  vr_state :: u8
  vr_transaction :: bytes
  vr_descriptor :: verity_descriptor
  vr_tree_offset :: nat
  vr_tree_size :: nat

definition transaction_from_bytes :: "bytes \<Rightarrow> (i32, bytes) outcome" where
  "transaction_from_bytes bs = (if bs = replicate 16 0 then Err EINVAL else Ok bs)"

text \<open>Clearing the low bits rounds down to a multiple of the block size, a power of two.\<close>

definition with_transaction :: "u8 \<Rightarrow> verity_descriptor \<Rightarrow> bytes \<Rightarrow> (i32, verity_record) outcome" where
  "with_transaction state d transaction =
     and_then (checked_u64 (data_size d + (verity_block_size d - 1))) (\<lambda>end_block.
     let tree_offset = end_block div verity_block_size d * verity_block_size d in
     and_then (tree_size d) (\<lambda>tree_size.
     and_then (checked_u64 (tree_offset + tree_size)) (\<lambda>finish.
     if 2 ^ 63 - 1 < finish then Err EOVERFLOW
     else Ok \<lparr>vr_state = state, vr_transaction = transaction, vr_descriptor = d, vr_tree_offset = tree_offset,
              vr_tree_size = tree_size\<rparr>)))"

definition record_encode :: "verity_record \<Rightarrow> bytes" where
  "record_encode r =
     VERITY_MAGIC @ vr_state r # replicate 7 0 @ u64_le (word_of_nat (vr_tree_offset r)) @ u64_le (word_of_nat (vr_tree_size r))
       @ vr_transaction r @ replicate 16 0 @ vr_descriptor r"

definition or_eio :: "(i32, 'a) outcome \<Rightarrow> (i32, 'a) outcome" where
  "or_eio r = (case r of Err e \<Rightarrow> Err EIO | _ \<Rightarrow> r)"

definition record_decode :: "bytes \<Rightarrow> (i32, verity_record) outcome" where
  "record_decode bs =
     (if length bs \<noteq> 320 \<or> take 8 bs \<noteq> VERITY_MAGIC \<or> \<not> (bs ! 8 = PREPARING \<or> bs ! 8 = BUILT \<or> bs ! 8 = ENABLED)
         \<or> take 7 (drop 9 bs) \<noteq> replicate 7 0 \<or> take 16 (drop 48 bs) \<noteq> replicate 16 0
      then Err EIO
      else
        and_then (or_eio (descriptor_decode (drop 64 bs))) (\<lambda>d.
        and_then (or_eio (transaction_from_bytes (take 16 (drop 32 bs)))) (\<lambda>transaction.
        and_then (or_eio (with_transaction (bs ! 8) d transaction)) (\<lambda>r.
        if le_nat (take 8 (drop 16 bs)) \<noteq> vr_tree_offset r \<or> le_nat (take 8 (drop 24 bs)) \<noteq> vr_tree_size r
        then Err EIO else Ok r))))"

definition recorded_size :: "bytes \<Rightarrow> (i32, nat) outcome" where
  "recorded_size bs = and_then (record_decode bs) (\<lambda>r. Ok (data_size (vr_descriptor r)))"

section \<open>Reading\<close>

type_synonym file_read = "nat \<Rightarrow> nat \<Rightarrow> (i32, bytes) outcome"

function exact_loop :: "file_read \<Rightarrow> nat \<Rightarrow> nat \<Rightarrow> bytes \<Rightarrow> (i32, bytes) outcome" where
  "exact_loop read_at offset n got =
     (if length got < n then
        if 2 ^ 64 \<le> offset + length got then Err EINVAL
        else
          and_then (read_at (offset + length got) (n - length got)) (\<lambda>bs.
          if bs = [] then Err EIO else exact_loop read_at offset n (got @ bs))
      else Ok got)"
  by pat_completeness auto

termination exact_loop
  by (relation "measure (\<lambda>(read_at, offset, n, got). n - length got)") (auto intro!: diff_less_mono2)

declare exact_loop.simps [simp del]

definition exact_read :: "file_read \<Rightarrow> nat \<Rightarrow> nat \<Rightarrow> (i32, bytes) outcome" where
  "exact_read read_at offset n = exact_loop read_at offset n []"

text \<open>Reading and checking the block with an index, padded to its size.\<close>

definition verified_block :: "sha2 \<Rightarrow> verity_record \<Rightarrow> file_read \<Rightarrow> nat \<Rightarrow> (i32, bytes) outcome" where
  "verified_block h r read_at index =
     (let d = vr_descriptor r; start = index * verity_block_size d;
          valid = min (data_size d - start) (verity_block_size d)
      in and_then (exact_read read_at start valid) (\<lambda>bs.
         let block = bs @ replicate (verity_block_size d - valid) 0 in
         and_then (verify_block h d index block (\<lambda>tree_position buf.
             if 2 ^ 64 \<le> vr_tree_offset r + tree_position then Err EIO
             else exact_read read_at (vr_tree_offset r + tree_position) (length buf))) (\<lambda>_.
         Ok block)))"

function verified_loop ::
    "sha2 \<Rightarrow> verity_record \<Rightarrow> file_read \<Rightarrow> nat \<Rightarrow> nat \<Rightarrow> nat \<Rightarrow> bytes \<Rightarrow> (i32, bytes) outcome" where
  "verified_loop h r read_at offset want fin out =
     (let limit = data_size (vr_descriptor r); bs = verity_block_size (vr_descriptor r); len = min want (limit - offset) in
      if fin < len then
        if 2 ^ 64 \<le> offset + fin then Err EINVAL
        else
          let position = offset + fin; index = position div bs; start = index * bs; valid = min (limit - start) bs in
          case verified_block h r read_at index of
            Err e \<Rightarrow> if fin = 0 then Err e else Ok out
          | Panic \<Rightarrow> Panic
          | Ok block \<Rightarrow>
              let within = position - start; count = min (valid - within) (len - fin) in
              verified_loop h r read_at offset want (fin + count) (out @ take count (drop within block))
      else Ok out)"
  by pat_completeness auto

lemma block_position:
  assumes "position < n"
  shows "position - position div verity_block_size d * verity_block_size d
    < min (n - position div verity_block_size d * verity_block_size d) (verity_block_size d)"
proof -
  let ?b = "verity_block_size d"
  have "position div ?b * ?b \<le> position" "position - position div ?b * ?b = position mod ?b"
    by (simp_all add: minus_div_mult_eq_mod)
  moreover have "position mod ?b < ?b" by simp
  ultimately show ?thesis using assms by linarith
qed

termination verified_loop
proof (relation "measure (\<lambda>(h, r, read_at, offset, want, fin, out). want - fin)", goal_cases)
  case (2 h r read_at offset want fin out limit bs len position index start valid block within count)
  have eqs: "bs = verity_block_size (vr_descriptor r)" "len = min want (limit - offset)" "fin < len" "position = offset + fin"
      "index = position div bs" "start = index * bs" "valid = min (limit - start) bs" "within = position - start"
      "count = min (valid - within) (len - fin)"
    by (fact 2)+
  have "position < limit" "fin < want" using eqs(2-4) by linarith+
  moreover have "within < valid"
    unfolding eqs(5-8) eqs(1) using \<open>position < limit\<close> by (rule block_position)
  ultimately show ?case using eqs(3,9) by simp
qed simp

declare verified_loop.simps [simp del]

definition read_verified_record ::
    "sha2 \<Rightarrow> verity_record \<Rightarrow> file_read \<Rightarrow> nat \<Rightarrow> nat \<Rightarrow> (i32, bytes) outcome" where
  "read_verified_record h r read_at offset want = verified_loop h r read_at offset want 0 []"

text \<open>The record has been read, and the lock of the file is held.\<close>

definition read_locked_object ::
    "sha2 \<Rightarrow> verity_record option \<Rightarrow> file_read \<Rightarrow> nat \<Rightarrow> nat \<Rightarrow> (i32, bytes) outcome" where
  "read_locked_object h record read_at offset want =
     (case record of
        None \<Rightarrow> read_at offset want
      | Some r \<Rightarrow>
          let len = min want (data_size (vr_descriptor r) - offset) in
          if len = 0 then Ok []
          else if vr_state r \<noteq> ENABLED then read_at offset len
          else read_verified_record h r read_at offset len)"

definition read_metadata_object ::
    "verity_record option \<Rightarrow> file_read \<Rightarrow> u64 \<Rightarrow> nat \<Rightarrow> nat \<Rightarrow> (i32, bytes) outcome" where
  "read_metadata_object record read_at kind offset want =
     (if 2 ^ 64 \<le> offset + want then Err EINVAL
      else
        case record of
          None \<Rightarrow> Err ENODATA
        | Some r \<Rightarrow>
            if vr_state r \<noteq> ENABLED then Err ENODATA
            else if kind = 1 then
              let len = min want (vr_tree_size r - offset) in
              if len = 0 then Ok []
              else if 2 ^ 64 \<le> vr_tree_offset r + offset then Err EINVAL
              else read_at (vr_tree_offset r + offset) len
            else if kind = 2 then
              Ok (take (min want (length (vr_descriptor r) - offset)) (drop offset (vr_descriptor r)))
            else if kind = 3 then Err ENODATA
            else Err EINVAL)"

end
