(* ===== verification/Verity_Read_Props.thy ===== *)
theory Verity_Read_Props
  imports Verity_Read
begin

text \<open>
  Verified reads end to end: with the tree in place a read returns the bytes of the file, however
  short the reads of the storage are; whatever the storage returns, a read that succeeds returns bytes of
  the file, or the storage has answered with a second preimage. The record is read back as it was written.
\<close>

section \<open>Exact reads\<close>

definition bounded_reads :: "file_read \<Rightarrow> bool" where
  "bounded_reads read_at \<longleftrightarrow> (\<forall>off n bs. read_at off n = Ok bs \<longrightarrow> length bs \<le> n)"

text \<open>The storage holds \<open>store\<close>; a read inside it returns at least one byte.\<close>

definition holds :: "file_read \<Rightarrow> bytes \<Rightarrow> bool" where
  "holds read_at store \<longleftrightarrow> length store < 2 ^ 64 \<and> (\<forall>off n. 0 < n \<and> off + n \<le> length store \<longrightarrow>
     (\<exists>k. 0 < k \<and> k \<le> n \<and> read_at off n = Ok (take k (drop off store))))"

lemma exact_loop_length:
  "exact_loop read_at off n got = Ok bs \<Longrightarrow> bounded_reads read_at \<Longrightarrow> length got \<le> n \<Longrightarrow> length bs = n"
proof (induction read_at off n got rule: exact_loop.induct)
  case (1 read_at off n got)
  show ?case
  proof (cases "length got < n")
    case True
    then obtain new where new: "read_at (off + length got) (n - length got) = Ok new" "new \<noteq> []"
        "\<not> 2 ^ 64 \<le> off + length got" "exact_loop read_at off n (got @ new) = Ok bs"
      using "1.prems"(1) by (auto simp: exact_loop.simps [of read_at off n got] split: if_splits)
    have "length new \<le> n - length got" using "1.prems"(2) new(1) unfolding bounded_reads_def by blast
    then have "length (got @ new) \<le> n" using True by simp
    then show ?thesis using "1.IH" [OF True new(3,2,4) "1.prems"(2)] by blast
  qed (use 1 in \<open>simp add: exact_loop.simps [of read_at off n got]\<close>)
qed

lemma exact_read_length: "bounded_reads read_at \<Longrightarrow> exact_read read_at off n = Ok bs \<Longrightarrow> length bs = n"
  using exact_loop_length by (simp add: exact_read_def)

lemma exact_loop_store:
  assumes "holds read_at store" and "off + n \<le> length store"
  shows "m \<le> n \<Longrightarrow> exact_loop read_at off n (take m (drop off store)) = Ok (take n (drop off store))"
proof (induction "n - m" arbitrary: m rule: less_induct)
  case less
  have len: "length (take m (drop off store)) = m" using less.prems assms(2) by simp
  show ?case
  proof (cases "m < n")
    case True
    then obtain k where k: "0 < k" "k \<le> n - m" "read_at (off + m) (n - m) = Ok (take k (drop (off + m) store))"
      using assms unfolding holds_def by (metis add.assoc le_add_diff_inverse less.prems zero_less_diff)
    have "off + m < 2 ^ 64" using assms True unfolding holds_def by linarith
    moreover have "take k (drop (off + m) store) \<noteq> []" using k True assms(2) by simp
    moreover have "take m (drop off store) @ take k (drop (off + m) store) = take (m + k) (drop off store)"
      by (simp only: take_add drop_drop add.commute [of off])
    moreover have "exact_loop read_at off n (take (m + k) (drop off store)) = Ok (take n (drop off store))"
      using k True by (intro less.hyps) auto
    ultimately show ?thesis using len k True by (simp add: exact_loop.simps [of read_at off n "take m (drop off store)"])
  next
    case False
    then have "m = n" using less.prems by simp
    then show ?thesis using len by (simp add: exact_loop.simps [of read_at off n "take n (drop off store)"])
  qed
qed

lemma exact_read_store:
  "holds read_at store \<Longrightarrow> off + n \<le> length store \<Longrightarrow> exact_read read_at off n = Ok (take n (drop off store))"
  using exact_loop_store [of read_at store off n 0] by (simp add: exact_read_def)

section \<open>Pieces of blocks\<close>

lemma block_piece:
  assumes "w + c \<le> min (length data - i * bs) bs"
  shows "take c (drop w (data_block bs data i)) = take c (drop (i * bs + w) data)"
proof -
  have "c \<le> length (drop w (take bs (drop (i * bs) data)))" using assms by (auto simp: min_def)
  moreover have "c \<le> bs - w" using assms by linarith
  ultimately have "take c (drop w (data_block bs data i)) = take c (drop w (take bs (drop (i * bs) data)))"
    using assms by (simp add: data_block_def Let_def)
  also have "\<dots> = take c (drop (i * bs + w) data)" using \<open>c \<le> bs - w\<close> by (simp add: drop_take min_absorb1 add.commute)
  finally show ?thesis .
qed

definition piece :: "verity_record \<Rightarrow> nat \<Rightarrow> nat \<Rightarrow> nat \<Rightarrow> nat" where
  "piece r offset want fin =
     (let bs = verity_block_size (vr_descriptor r); limit = data_size (vr_descriptor r);
          start = (offset + fin) div bs * bs
      in min (min (limit - start) bs - (offset + fin - start)) (min want (limit - offset) - fin))"

lemma piece_bounds:
  assumes "fin < min want (data_size (vr_descriptor r) - offset)"
  shows "0 < piece r offset want fin" "fin + piece r offset want fin \<le> min want (data_size (vr_descriptor r) - offset)"
    "(offset + fin) mod verity_block_size (vr_descriptor r) + piece r offset want fin
      \<le> min (data_size (vr_descriptor r) - (offset + fin) div verity_block_size (vr_descriptor r) * verity_block_size (vr_descriptor r))
          (verity_block_size (vr_descriptor r))"
    "(offset + fin) div verity_block_size (vr_descriptor r) < data_blocks (vr_descriptor r)"
proof -
  let ?b = "verity_block_size (vr_descriptor r)" and ?n = "data_size (vr_descriptor r)" and ?p = "offset + fin"
  have p: "?p < ?n" using assms by linarith
  have w: "?p - ?p div ?b * ?b < min (?n - ?p div ?b * ?b) ?b" using block_position [OF p] .
  then show "0 < piece r offset want fin" using assms unfolding piece_def Let_def by (simp only: zero_less_diff min_less_iff_conj)
  have "piece r offset want fin \<le> min want (?n - offset) - fin" unfolding piece_def Let_def by (rule min.cobounded2)
  then show "fin + piece r offset want fin \<le> min want (?n - offset)" using assms by linarith
  show "?p mod ?b + piece r offset want fin \<le> min (?n - ?p div ?b * ?b) ?b"
  proof -
    have "piece r offset want fin \<le> min (?n - ?p div ?b * ?b) ?b - (?p - ?p div ?b * ?b)"
      unfolding piece_def Let_def by (rule min.cobounded1)
    moreover have "?p mod ?b = ?p - ?p div ?b * ?b" by (simp only: minus_div_mult_eq_mod)
    ultimately show ?thesis using w by linarith
  qed
  show "?p div ?b < data_blocks (vr_descriptor r)" using div_ceil_covers [OF block_size_pos p] by (simp add: data_blocks_def)
qed

lemma verified_loop_step:
  assumes "fin < min want (data_size (vr_descriptor r) - offset)" and "data_size (vr_descriptor r) < 2 ^ 64"
  shows "verified_loop h r read_at offset want fin out =
    (case verified_block h r read_at ((offset + fin) div verity_block_size (vr_descriptor r)) of
       Err e \<Rightarrow> if fin = 0 then Err e else Ok out
     | Panic \<Rightarrow> Panic
     | Ok block \<Rightarrow> verified_loop h r read_at offset want (fin + piece r offset want fin)
         (out @ take (piece r offset want fin) (drop ((offset + fin) mod verity_block_size (vr_descriptor r)) block)))"
proof -
  have "\<not> 2 ^ 64 \<le> offset + fin" using assms by linarith
  moreover have m: "(offset + fin) mod verity_block_size (vr_descriptor r)
      = offset + fin - (offset + fin) div verity_block_size (vr_descriptor r) * verity_block_size (vr_descriptor r)"
    by (simp only: minus_div_mult_eq_mod)
  ultimately show ?thesis
    using assms(1) unfolding verified_loop.simps [of h r read_at offset want fin out] Let_def piece_def m by simp
qed

lemma verified_loop_end:
  "\<not> fin < min want (data_size (vr_descriptor r) - offset) \<Longrightarrow> verified_loop h r read_at offset want fin out = Ok out"
  by (simp only: verified_loop.simps [of h r read_at offset want fin out] Let_def if_False)

section \<open>The record\<close>

lemma record_new_fields:
  assumes "with_transaction state d t = Ok r"
  shows "vr_descriptor r = d" "vr_state r = state" "vr_transaction r = t" "vr_tree_offset r < 2 ^ 63" "vr_tree_size r < 2 ^ 63"
  using assms by (auto simp: with_transaction_def Let_def checked_u64_def split: if_splits)

lemma take_at: "length a = n \<Longrightarrow> take n (a @ b) = a" "length a = n \<Longrightarrow> drop n (a @ b) = b"
  by simp_all

lemma record_fields:
  assumes "length (vr_transaction r) = 16"
  shows "take 8 (record_encode r) = VERITY_MAGIC" "record_encode r ! 8 = vr_state r"
    "take 7 (drop 9 (record_encode r)) = replicate 7 0" "take 16 (drop 48 (record_encode r)) = replicate 16 0"
    "drop 64 (record_encode r) = vr_descriptor r" "take 16 (drop 32 (record_encode r)) = vr_transaction r"
    "take 8 (drop 16 (record_encode r)) = u64_le (word_of_nat (vr_tree_offset r))"
    "take 8 (drop 24 (record_encode r)) = u64_le (word_of_nat (vr_tree_size r))"
    "length (record_encode r) = 64 + length (vr_descriptor r)"
  using assms by (simp_all add: record_encode_def VERITY_MAGIC_def nth_append)

lemma record_roundtrip:
  assumes r: "with_transaction state d t = Ok r" and state: "state = PREPARING \<or> state = BUILT \<or> state = ENABLED"
    and t: "length t = 16" "t \<noteq> replicate 16 0" and d: "descriptor_decode d = Ok d" "length d = 256"
  shows "record_decode (record_encode r) = Ok r"
proof -
  note f = record_new_fields [OF r]
  have t': "length (vr_transaction r) = 16" using f t by simp
  have small: "unat (word_of_nat k :: u64) = k" if "k < 2 ^ 63" for k
    using that by (simp add: unat_of_nat take_bit_nat_eq_self)
  show ?thesis
    unfolding record_decode_def record_fields [OF t']
    using f d t state r small by (simp add: transaction_from_bytes_def or_eio_def)
qed

section \<open>Verified reads\<close>

text \<open>The blocks a read from \<open>offset\<close> of \<open>want\<close> bytes touches.\<close>

definition touched :: "verity_descriptor \<Rightarrow> nat \<Rightarrow> nat \<Rightarrow> nat \<Rightarrow> bool" where
  "touched d offset want i \<longleftrightarrow> i < data_blocks d \<and> offset div verity_block_size d \<le> i \<and> i * verity_block_size d < offset + want"

lemma touched_position:
  fixes r :: verity_record
  assumes "fin < min want (data_size (vr_descriptor r) - offset)"
  shows "touched (vr_descriptor r) offset want ((offset + fin) div verity_block_size (vr_descriptor r))"
proof -
  have "(offset + fin) div b * b \<le> offset + fin" for b :: nat by (rule div_times_less_eq_dividend)
  then have "(offset + fin) div b * b < offset + want" for b using assms by (meson add_strict_left_mono le_less_trans min_less_iff_conj)
  then show ?thesis using piece_bounds(4) [OF assms] by (simp add: touched_def div_le_mono)
qed

lemma loop_length:
  "verified_loop h r read_at offset want fin out = Ok res \<Longrightarrow> length out \<le> fin \<Longrightarrow> fin \<le> want
    \<Longrightarrow> data_size (vr_descriptor r) < 2 ^ 64 \<Longrightarrow> length res \<le> want"
proof (induction "want - fin" arbitrary: fin out rule: less_induct)
  case less
  show ?case
  proof (cases "fin < min want (data_size (vr_descriptor r) - offset)")
    case True
    note pc = piece_bounds(1,2) [OF True] and step = verified_loop_step [OF True less.prems(4), of h read_at out]
    show ?thesis
    proof (cases "verified_block h r read_at ((offset + fin) div verity_block_size (vr_descriptor r))")
      case (Ok block)
      let ?out = "out @ take (piece r offset want fin) (drop ((offset + fin) mod verity_block_size (vr_descriptor r)) block)"
      have "length ?out \<le> fin + piece r offset want fin" using less.prems(2) by simp
      moreover have "want - (fin + piece r offset want fin) < want - fin" "fin + piece r offset want fin \<le> want"
        using pc True by linarith+
      moreover have "verified_loop h r read_at offset want (fin + piece r offset want fin) ?out = Ok res"
        using less.prems(1) step Ok by simp
      ultimately show ?thesis using less.hyps less.prems(4) by blast
    qed (use less.prems step in \<open>auto split: if_splits\<close>)
  next
    case False
    then show ?thesis using less.prems verified_loop_end [OF False] by simp
  qed
qed

lemma loop_authentic:
  assumes blocks: "\<And>i block. touched (vr_descriptor r) offset want i \<Longrightarrow> verified_block h r read_at i = Ok block
      \<Longrightarrow> block = data_block (verity_block_size (vr_descriptor r)) data i"
    and size: "data_size (vr_descriptor r) = length data" "length data < 2 ^ 64"
  shows "verified_loop h r read_at offset want fin (take fin (drop offset data)) = Ok res
    \<Longrightarrow> fin \<le> min want (length data - offset) \<Longrightarrow> \<exists>m \<le> min want (length data - offset). res = take m (drop offset data)"
proof (induction "want - fin" arbitrary: fin rule: less_induct)
  case less
  let ?bs = "verity_block_size (vr_descriptor r)" and ?c = "piece r offset want fin" and ?p = "offset + fin"
  show ?case
  proof (cases "fin < min want (length data - offset)")
    case True
    then have fin: "fin < min want (data_size (vr_descriptor r) - offset)" using size by simp
    note pc = piece_bounds [OF fin]
    show ?thesis
    proof (cases "verified_block h r read_at (?p div ?bs)")
      case (Ok block)
      then have "take ?c (drop (?p mod ?bs) block) = take ?c (drop (?p div ?bs * ?bs + ?p mod ?bs) data)"
        using blocks [OF touched_position [OF fin] Ok] block_piece pc(3) size by simp
      then have "take fin (drop offset data) @ take ?c (drop (?p mod ?bs) block) = take (fin + ?c) (drop offset data)"
        by (simp add: take_add add.commute)
      then have "verified_loop h r read_at offset want (fin + ?c) (take (fin + ?c) (drop offset data)) = Ok res"
        using less.prems(1) verified_loop_step [OF fin] Ok size by simp
      moreover have "want - (fin + ?c) < want - fin" using pc(1) True by linarith
      ultimately show ?thesis using less.hyps pc(2) size by simp
    next
      case (Err e)
      then have "res = take fin (drop offset data)"
        using less.prems(1) verified_loop_step [OF fin] size by (simp split: if_splits)
      then show ?thesis using less.prems(2) by blast
    qed (use less.prems(1) verified_loop_step [OF fin] size in simp)
  next
    case False
    then have "res = take fin (drop offset data)" using less.prems(1) verified_loop_end [of fin want r offset] size by simp
    then show ?thesis using less.prems(2) by blast
  qed
qed

lemma loop_complete:
  assumes blocks: "\<And>i. i < data_blocks (vr_descriptor r)
      \<Longrightarrow> verified_block h r read_at i = Ok (data_block (verity_block_size (vr_descriptor r)) data i)"
    and size: "data_size (vr_descriptor r) = length data" "length data < 2 ^ 64"
  shows "fin \<le> min want (length data - offset) \<Longrightarrow> verified_loop h r read_at offset want fin (take fin (drop offset data))
    = Ok (take want (drop offset data))"
proof (induction "want - fin" arbitrary: fin rule: less_induct)
  case less
  let ?bs = "verity_block_size (vr_descriptor r)" and ?c = "piece r offset want fin" and ?p = "offset + fin"
  show ?case
  proof (cases "fin < min want (length data - offset)")
    case True
    then have fin: "fin < min want (data_size (vr_descriptor r) - offset)" using size by simp
    note pc = piece_bounds [OF fin]
    have "take ?c (drop (?p mod ?bs) (data_block ?bs data (?p div ?bs))) = take ?c (drop (?p div ?bs * ?bs + ?p mod ?bs) data)"
      using block_piece pc(3) size by simp
    then have "take fin (drop offset data) @ take ?c (drop (?p mod ?bs) (data_block ?bs data (?p div ?bs)))
        = take (fin + ?c) (drop offset data)"
      by (simp add: take_add add.commute)
    moreover have "want - (fin + ?c) < want - fin" using pc(1) True by linarith
    ultimately show ?thesis using verified_loop_step [OF fin] blocks [OF pc(4)] less.hyps pc(2) size by simp
  next
    case False
    then have "fin = min want (length data - offset)" using less.prems by linarith
    then have "take fin (drop offset data) = take want (drop offset data)" by (auto simp: min_def)
    then show ?thesis using False verified_loop_end [of fin want r offset] size by simp
  qed
qed

lemma built_same:
  assumes "descriptor_new alg block salt n = Ok d" and "sha_lengths h" and "length data = unat n"
    and "verity_build h d (file_reader data) memory_tree Map.empty = (Ok d', s)"
  shows "verity_block_size d' = verity_block_size d" "data_size d' = length data" "data_blocks d' = data_blocks d"
    "length data < 2 ^ 63" "length d' = 256" "data_size d = length data"
proof -
  obtain root where v: "verity_valid d" "data_size d = length data" "length root = digest_size d"
      and d': "d' = with_root d root"
    using built [OF assms(1-3)] assms(4) by (metis Pair_inject outcome.inject(1))
  have *: "length d = 256" "length root \<le> 64" using v valid_sizes(4) [OF v(1)] by (auto simp: verity_valid_def)
  show "verity_block_size d' = verity_block_size d" "data_size d' = length data" "data_blocks d' = data_blocks d"
    "data_size d = length data"
    using with_root_fields [OF *] with_root_sizes [OF *] v(2) by (simp_all add: d')
  show "length data < 2 ^ 63" using v(1,2) by (simp add: verity_valid_def)
  show "length d' = 256" using * by (simp add: d' with_root_def)
qed

text \<open>What the storage answers for a block of the data, padded, and for a block of the tree.\<close>

definition stored_data :: "verity_record \<Rightarrow> file_read \<Rightarrow> nat \<Rightarrow> (i32, bytes) outcome" where
  "stored_data r read_at i =
     (let bs = verity_block_size (vr_descriptor r); valid = min (data_size (vr_descriptor r) - i * bs) bs
      in and_then (exact_read read_at (i * bs) valid) (\<lambda>x. Ok (x @ replicate (bs - valid) 0)))"

definition stored_tree :: "verity_record \<Rightarrow> file_read \<Rightarrow> nat \<Rightarrow> (i32, bytes) outcome" where
  "stored_tree r read_at position = exact_read read_at (vr_tree_offset r + position) (verity_block_size (vr_descriptor r))"

text \<open>The storage answers, for the data block \<open>i\<close> or for the tree block above it on a level \<open>k\<close>, with a second
  preimage of what belongs there.\<close>

definition forged :: "sha2 \<Rightarrow> verity_descriptor \<Rightarrow> bytes \<Rightarrow> verity_record \<Rightarrow> file_read \<Rightarrow> verity_layout \<Rightarrow> nat \<Rightarrow> bool" where
  "forged h d data r read_at l i \<longleftrightarrow>
     (\<exists>x. stored_data r read_at i = Ok x \<and> second_preimage h d (data_block (verity_block_size d) data i) x)
     \<or> (\<exists>k < length (vl_starts l). \<exists>x. stored_tree r read_at (vl_starts l ! k + i div verity_arity d ^ Suc k * verity_block_size d) = Ok x
         \<and> second_preimage h d (hash_block (verity_arity d) (verity_block_size d) (file_level h d data k) (i div verity_arity d ^ Suc k)) x)"

lemma verified_block_parts:
  "verified_block h r read_at i = and_then (stored_data r read_at i) (\<lambda>block.
     and_then (verify_block h (vr_descriptor r) i block (\<lambda>position buf.
         if 2 ^ 64 \<le> vr_tree_offset r + position then Err EIO
         else exact_read read_at (vr_tree_offset r + position) (length buf))) (\<lambda>_. Ok block))"
  by (cases "exact_read read_at (i * verity_block_size (vr_descriptor r))
      (min (data_size (vr_descriptor r) - i * verity_block_size (vr_descriptor r)) (verity_block_size (vr_descriptor r)))")
    (simp_all add: verified_block_def stored_data_def Let_def)

lemma verified_block_authentic:
  assumes made: "descriptor_new alg block salt n = Ok d" "sha_lengths h" "length data = unat n"
      "verity_build h d (file_reader data) memory_tree Map.empty = (Ok (vr_descriptor r), s)" and l: "layout d = Ok l"
    and reads: "bounded_reads read_at" and ok: "verified_block h r read_at i = Ok bs" and "\<not> forged h d data r read_at l i"
  shows "bs = data_block (verity_block_size (vr_descriptor r)) data i"
proof -
  define tree where "tree position buf = (if 2 ^ 64 \<le> vr_tree_offset r + position then Err EIO
    else exact_read read_at (vr_tree_offset r + position) (length buf))" for position and buf :: bytes
  have len: "length b' = length b" if "tree off b = Ok b'" for off b b'
    using that exact_read_length [OF reads] by (simp add: tree_def split: if_splits)
  have size: "verity_block_size (vr_descriptor r) = verity_block_size d" by (rule built_same(1) [OF made])
  have stored: "stored_tree r read_at position = Ok x" if "tree position b = Ok x" "length b = verity_block_size d" for position b x
    using that size by (simp add: tree_def stored_tree_def split: if_splits)
  have parts: "stored_data r read_at i = Ok bs" "verify_block h (vr_descriptor r) i bs tree = Ok ()"
    using ok unfolding verified_block_parts tree_def [abs_def, symmetric]
    by (auto simp: tree_def [abs_def])
  note accepted = accepted_block [OF made l _ parts(2)]
  show ?thesis using accepted len stored parts(1) assms(8) unfolding forged_def size by blast
qed

lemma locked_read:
  assumes "vr_state r = ENABLED" and "data_size (vr_descriptor r) = length data"
    and "len = min want (length data - offset)"
  shows "read_locked_object h (Some r) read_at offset want
    = (if len = 0 then Ok [] else verified_loop h r read_at offset len 0 (take 0 (drop offset data)))"
  unfolding read_locked_object_def Let_def option.case assms(2) assms(3) [symmetric] read_verified_record_def
  using assms(1) by simp

text \<open>Storage that holds the tree where it belongs, and data whose blocks have the hashes of the blocks of
  the file, is read without complaint: the check cannot do better than the hash function.\<close>

lemma verified_block_stored:
  assumes made: "descriptor_new alg block salt n = Ok d" "sha_lengths h" "length data = unat n"
      "verity_build h d (file_reader data) memory_tree Map.empty = (Ok (vr_descriptor r), s)" and l: "layout d = Ok l"
    and store: "holds read_at store" "take (length data) store = found" and len: "length data \<le> length store"
    and tree: "\<And>k j. k < length (vl_starts l) \<Longrightarrow> j < length (file_level h d data (Suc k))
      \<Longrightarrow> vr_tree_offset r + (vl_starts l ! k + j * verity_block_size d) + verity_block_size d \<le> length store
        \<and> take (verity_block_size d) (drop (vr_tree_offset r + (vl_starts l ! k + j * verity_block_size d)) store)
          = hash_block (verity_arity d) (verity_block_size d) (file_level h d data k) j"
    and i: "i < data_blocks d" and same_hash: "verity_hash h d (data_block (verity_block_size d) found i)
      = verity_hash h d (data_block (verity_block_size d) data i)"
  shows "verified_block h r read_at i = Ok (data_block (verity_block_size d) found i)"
proof -
  note same = built_same [OF made]
  let ?bs = "verity_block_size d"
  define read_tree where "read_tree position buf = (if 2 ^ 64 \<le> vr_tree_offset r + position then Err EIO
    else exact_read read_at (vr_tree_offset r + position) (length buf))" for position and buf :: bytes
  define valid where "valid = min (length data - i * ?bs) ?bs"
  have flen: "length found = length data" using store(2) len by auto
  have "i * ?bs < length data" using i div_ceil_iff [of ?bs i "length data"] same(6) by (simp add: data_blocks_def)
  then have valid: "i * ?bs + valid \<le> length data" by (simp add: valid_def)
  have "take valid (drop (i * ?bs) found) = take valid (drop (i * ?bs) store)"
    using valid by (subst store(2) [symmetric]) (simp add: drop_take min_absorb1)
  then have read: "exact_read read_at (i * ?bs) valid = Ok (take valid (drop (i * ?bs) found))"
    using exact_read_store [OF store(1), of "i * ?bs" valid] valid len by simp
  have padded: "take valid (drop (i * ?bs) found) @ replicate (?bs - valid) 0 = data_block ?bs found i"
    using flen by (auto simp: data_block_def Let_def valid_def min_def)
  have data: "stored_data r read_at i = Ok (data_block ?bs found i)"
    using read padded same(1,2) by (simp add: stored_data_def Let_def valid_def [symmetric])
  have "read_tree (vl_starts l ! k + j * ?bs) b = Ok (hash_block (verity_arity d) ?bs (file_level h d data k) j)"
    if kj: "k < length (vl_starts l)" "j < length (file_level h d data (Suc k))" "length b = ?bs" for k j b
  proof -
    note t = tree [OF kj(1,2)]
    have "0 < ?bs" by simp
    then have "vr_tree_offset r + (vl_starts l ! k + j * ?bs) < 2 ^ 64" using t store(1) unfolding holds_def by linarith
    then show ?thesis using exact_read_store [OF store(1), of "vr_tree_offset r + (vl_starts l ! k + j * ?bs)" ?bs] t kj(3)
      by (simp add: read_tree_def)
  qed
  then have "verify_block h (vr_descriptor r) i (data_block ?bs found i) read_tree = Ok ()"
    using built_accepts [OF made l i _ same_hash] by simp
  then show ?thesis using data unfolding verified_block_parts read_tree_def [abs_def] by simp
qed

lemma locked_read_stored:
  assumes made: "descriptor_new alg block salt n = Ok d" "sha_lengths h" "length data = unat n"
      "verity_build h d (file_reader data) memory_tree Map.empty = (Ok d', s)" and l: "layout d = Ok l"
    and rec: "with_transaction ENABLED d' t = Ok r" and store: "holds read_at store" "take (length data) store = found"
      and len: "length data \<le> length store"
    and tree: "\<And>k j. k < length (vl_starts l) \<Longrightarrow> j < length (file_level h d data (Suc k))
      \<Longrightarrow> vr_tree_offset r + (vl_starts l ! k + j * verity_block_size d) + verity_block_size d \<le> length store
        \<and> take (verity_block_size d) (drop (vr_tree_offset r + (vl_starts l ! k + j * verity_block_size d)) store)
          = hash_block (verity_arity d) (verity_block_size d) (file_level h d data k) j"
    and same_hash: "\<And>i. i < data_blocks d \<Longrightarrow> verity_hash h d (data_block (verity_block_size d) found i)
      = verity_hash h d (data_block (verity_block_size d) data i)"
  shows "read_locked_object h (Some r) read_at offset want = Ok (take want (drop offset found))"
proof -
  note same = built_same [OF made]
  have r: "vr_descriptor r = d'" "vr_state r = ENABLED" using record_new_fields [OF rec] by simp_all
  have flen: "length found = length data" using store(2) len by auto
  define n where "n = min want (length found - offset)"
  have size: "data_size (vr_descriptor r) = length found" using same(2) r flen by simp
  note locked = locked_read [OF r(2) size n_def]
  have "take want (drop offset found) = take n (drop offset found)" by (auto simp: n_def min_def)
  moreover have "verified_loop h r read_at offset n 0 (take 0 (drop offset found)) = Ok (take n (drop offset found))"
    using loop_complete [of r h read_at found 0 n offset] verified_block_stored [OF made [folded r(1)] l store len tree _ same_hash]
      same r flen by auto
  ultimately show ?thesis using locked by simp
qed

lemma locked_read_complete:
  assumes "descriptor_new alg block salt n = Ok d" and "sha_lengths h" and "length data = unat n"
    and "verity_build h d (file_reader data) memory_tree Map.empty = (Ok d', s)"
    and "with_transaction ENABLED d' t = Ok r" and "holds read_at store" and data: "take (length data) store = data"
    and tree: "\<And>off blk. s off = Some blk \<Longrightarrow> vr_tree_offset r + off + length blk \<le> length store
        \<and> take (length blk) (drop (vr_tree_offset r + off) store) = blk"
  shows "read_locked_object h (Some r) read_at offset want = Ok (take want (drop offset data))"
proof -
  from built [OF assms(1-3)] assms(4) obtain l where v: "verity_valid d" and l: "layout d = Ok l"
      and s: "\<forall>k < length (vl_starts l). \<forall>j < length (file_level h d data (Suc k)).
        s (vl_starts l ! k + j * verity_block_size d)
          = Some (hash_block (verity_arity d) (verity_block_size d) (file_level h d data k) j)"
    by (metis Pair_inject)
  have blen: "length (hash_block (verity_arity d) (verity_block_size d) (file_level h d data k) j) = verity_block_size d" for k j
    by (rule hash_block_length [OF valid_sizes(1) [OF v] level_digests [OF assms(2)]])
  have le: "length data \<le> length store" using data by (metis length_take min.cobounded1)
  show ?thesis
    using tree s blen by (intro locked_read_stored [OF assms(1-4) l assms(5,6) data le]) fastforce+
qed

section \<open>A short file\<close>

definition short_data :: bytes where "short_data = [1, 2, 3]"

abbreviation short_descriptor :: verity_descriptor where
  "short_descriptor \<equiv> descriptor_bytes 1 10 [9] 3"

text \<open>A file of one block has no tree.\<close>

lemma short_new: "descriptor_new 1 1024 [9] 3 = Ok short_descriptor"
  using descriptor_new_made [of 1 1024 "[9]" 3] by (simp add: trailing_zeros_sizes)

lemma short_length: "length short_data = unat (3 :: u64)"
  by (simp add: short_data_def)

lemma short_fields:
  "data_size short_descriptor = 3" "verity_block_size short_descriptor = 1024" "digest_size short_descriptor = 32"
  "data_blocks short_descriptor = 1" "layout short_descriptor = Ok \<lparr>vl_starts = [], vl_size = 0\<rparr>"
proof -
  note f = descriptor_bytes_fields [of "[9]" short_descriptor 1 10 3, OF _ refl]
  show a: "data_size short_descriptor = 3" "verity_block_size short_descriptor = 1024" "digest_size short_descriptor = 32"
    using f by (simp_all add: verity_block_size_def digest_size_def verity_algorithm_def)
  show b: "data_blocks short_descriptor = 1" by (simp add: data_blocks_def a div_ceil_def)
  show "layout short_descriptor = Ok \<lparr>vl_starts = [], vl_size = 0\<rparr>" by (simp add: layout_def b level_counts.simps)
qed

lemma short_build:
  assumes "sha_lengths h"
  shows "\<exists>root. length root = 32
    \<and> verity_build h short_descriptor (file_reader short_data) memory_tree Map.empty
      = (Ok (with_root short_descriptor root), Map.empty)"
proof -
  define root where "root = verity_hash h short_descriptor (short_data @ replicate 1021 0)"
  have len: "length root = 32" using hash_length [OF assms] short_fields(3) by (simp add: root_def)
  have d: "length short_descriptor = 256" using descriptor_bytes_fields(1) [of "[9]" short_descriptor 1 10 3] by simp
  have "verity_build h short_descriptor (file_reader short_data) memory_tree Map.empty
      = (Ok (with_root short_descriptor root), Map.empty)"
    using len d
    by (simp add: verity_build_def short_fields feed_data.simps feed.simps builder_start_def file_reader_def copy_range_def
        short_data_def [symmetric] root_def [symmetric] with_root_def take_all [of short_data] short_length)
  then show ?thesis using len by blast
qed

lemma short_record:
  assumes "length root = 32"
  shows "\<exists>r. with_transaction ENABLED (with_root short_descriptor root) (replicate 16 1) = Ok r"
proof -
  have d: "length short_descriptor = 256" using descriptor_bytes_fields(1) [of "[9]" short_descriptor 1 10 3] by simp
  have "length root \<le> 64" using assms by simp
  note w = with_root_fields [OF d this] with_root_sizes [OF d this]
  show ?thesis by (simp add: with_transaction_def w short_fields tree_size_def checked_u64_def Let_def)
qed

definition short_read :: file_read where
  "short_read offset n = Ok (take n (drop offset short_data))"

lemma short_reads: "bounded_reads short_read" "holds short_read short_data"
proof -
  show "bounded_reads short_read" by (simp add: bounded_reads_def short_read_def)
  have "length short_data < 2 ^ 64" by (simp add: short_data_def)
  then show "holds short_read short_data" unfolding holds_def short_read_def by blast
qed

section \<open>Altered storage\<close>

text \<open>A weak hash function: the first bytes of the block. The file has two blocks; the storage holds its tree and its
  data but for one byte in the second block that the hash does not see.\<close>

definition prefix_sha :: sha2 where
  "prefix_sha = \<lparr>sha256 = (\<lambda>x. take 32 (drop 64 x @ replicate 32 0)), sha512 = (\<lambda>x. take 64 (x @ replicate 64 0))\<rparr>"

abbreviation long_descriptor :: verity_descriptor where
  "long_descriptor \<equiv> descriptor_bytes 1 10 [9] 1500"

definition altered_data :: bytes where
  "altered_data = demo_data[1100 := 8]"

definition altered_store :: bytes where
  "altered_store = altered_data @ replicate 548 0 @ hash_block 32 1024 (block_hashes prefix_sha long_descriptor demo_data 2) 0"

definition altered_read :: file_read where
  "altered_read offset n = Ok (take n (drop offset altered_store))"

lemma prefix_lengths: "sha_lengths prefix_sha"
  by (auto simp: sha_lengths_def prefix_sha_def min_def)

lemma long_fields:
  "verity_block_size long_descriptor = 1024" "digest_size long_descriptor = 32" "verity_arity long_descriptor = 32"
  "data_blocks long_descriptor = 2" "layout long_descriptor = Ok \<lparr>vl_starts = [0], vl_size = 1024\<rparr>"
proof -
  note f = descriptor_bytes_fields [of "[9]" long_descriptor 1 10 1500, OF _ refl]
  show a: "verity_block_size long_descriptor = 1024" "digest_size long_descriptor = 32" "verity_arity long_descriptor = 32"
    using f by (simp_all add: verity_block_size_def digest_size_def verity_algorithm_def verity_arity_def)
  show b: "data_blocks long_descriptor = 2" using f(6) by (simp add: data_blocks_def a div_ceil_def)
  show "layout long_descriptor = Ok \<lparr>vl_starts = [0], vl_size = 1024\<rparr>"
    by (simp add: layout_def b a level_counts.simps div_ceil_def checked_u64_def)
qed

lemma prefix_hash: "verity_hash prefix_sha long_descriptor x = take 32 (x @ replicate 32 0)"
proof -
  note f = descriptor_bytes_fields [of "[9]" long_descriptor 1 10 1500, OF _ refl]
  have "take (unat (long_descriptor ! 3)) (drop 80 long_descriptor) = [9]" using f(5,9) by simp
  moreover have "verity_algorithm long_descriptor = 1" using f(3) by (simp add: verity_algorithm_def)
  ultimately show ?thesis by (simp add: verity_hash_def Let_def prefix_sha_def)
qed

lemma altered_hash:
  assumes "i < 2"
  shows "verity_hash prefix_sha long_descriptor (data_block 1024 altered_data i)
    = verity_hash prefix_sha long_descriptor (data_block 1024 demo_data i)"
proof -
  have "take 32 (drop (i * 1024) altered_data) = take 32 (drop (i * 1024) demo_data)"
    using assms by (intro nth_equalityI) (auto simp: altered_data_def demo_data_def less_2_cases_iff nth_list_update)
  then show ?thesis using assms
    by (auto simp: prefix_hash data_block_def Let_def altered_data_def demo_data_def less_2_cases_iff min_def)
qed

lemma long_tree_length: "length (hash_block 32 1024 (file_level prefix_sha long_descriptor demo_data 0) 0) = 1024"
proof -
  have "verity_valid long_descriptor" by (rule descriptor_new_valid(1) [OF demo_descriptor])
  note g = valid_sizes(1) [OF this, unfolded long_fields]
  have "digests (digest_size long_descriptor) (file_level prefix_sha long_descriptor demo_data 0)"
    by (rule level_digests [OF prefix_lengths])
  then show ?thesis using hash_block_length [OF g] unfolding long_fields by blast
qed

lemma altered_parts:
  "length altered_store = 3072" "take (length demo_data) altered_store = altered_data"
  "take 1024 (drop 2048 altered_store) = hash_block 32 1024 (file_level prefix_sha long_descriptor demo_data 0) 0"
  using long_tree_length by (simp_all add: altered_store_def altered_data_def demo_data_def long_fields)

lemma altered_reads: "bounded_reads altered_read" "holds altered_read altered_store"
proof -
  show "bounded_reads altered_read" by (simp add: bounded_reads_def altered_read_def)
  have "length altered_store < 2 ^ 64" by (simp add: altered_parts)
  then show "holds altered_read altered_store" unfolding holds_def altered_read_def by blast
qed

lemma long_record:
  assumes "length root = 32"
  shows "\<exists>r. with_transaction ENABLED (with_root long_descriptor root) (replicate 16 1) = Ok r \<and> vr_tree_offset r = 2048"
proof -
  have d: "length long_descriptor = 256" "data_size long_descriptor = 1500"
    using descriptor_bytes_fields(1,6) [of "[9]" long_descriptor 1 10 1500] by simp_all
  have "length root \<le> 64" using assms by simp
  note w = with_root_fields [OF d(1) this] with_root_sizes [OF d(1) this]
  show ?thesis by (simp add: with_transaction_def w long_fields d tree_size_def checked_u64_def Let_def)
qed

text \<open>The altered byte is returned: the hash function does not see it.\<close>

lemma altered_is_read:
  assumes "verity_build prefix_sha long_descriptor (file_reader demo_data) memory_tree Map.empty = (Ok d', s)"
    and "with_transaction ENABLED d' t = Ok r" and "vr_tree_offset r = 2048"
  shows "read_locked_object prefix_sha (Some r) altered_read offset want = Ok (take want (drop offset altered_data))"
proof (rule locked_read_stored [OF demo_descriptor prefix_lengths demo_length assms(1) long_fields(5) assms(2) altered_reads(2)
      altered_parts(2)])
  show "length demo_data \<le> length altered_store" by (simp add: altered_parts demo_data_def)
  show "verity_hash prefix_sha long_descriptor (data_block (verity_block_size long_descriptor) altered_data i)
      = verity_hash prefix_sha long_descriptor (data_block (verity_block_size long_descriptor) demo_data i)"
    if "i < data_blocks long_descriptor" for i
    using altered_hash [of i] that unfolding long_fields .
  fix k j
  assume "k < length (vl_starts \<lparr>vl_starts = [0], vl_size = 1024\<rparr>)" and j: "j < length (file_level prefix_sha long_descriptor demo_data (Suc k))"
  then have k: "k = 0" by simp
  have "length (file_level prefix_sha long_descriptor demo_data 1) = 1"
    by (simp add: long_fields block_hashes_def div_ceil_def Let_def)
  with j k have "j = 0" by simp
  with k show "vr_tree_offset r + (vl_starts \<lparr>vl_starts = [0], vl_size = 1024\<rparr> ! k + j * verity_block_size long_descriptor)
        + verity_block_size long_descriptor \<le> length altered_store
      \<and> take (verity_block_size long_descriptor) (drop (vr_tree_offset r
            + (vl_starts \<lparr>vl_starts = [0], vl_size = 1024\<rparr> ! k + j * verity_block_size long_descriptor)) altered_store)
        = hash_block (verity_arity long_descriptor) (verity_block_size long_descriptor)
            (file_level prefix_sha long_descriptor demo_data k) j"
    using altered_parts(1,3) assms(3) long_tree_length by (simp add: long_fields)
qed

section \<open>Properties\<close>

text \<open>C5: (safety) a verified read returns only what was protected, unless the storage has broken the hash
  function. Whatever the storage answers for the data and the tree and however it cuts its reads short, a read of the
  protected file that succeeds returns no more than was asked for, and its bytes are the bytes of the file at the
  offset; or else the storage itself exhibits a second preimage: for a data block the read touches, or for the tree block above
  it on some level, it answered with a block that differs from the genuine one and has the same hash. Nothing is
  assumed of the hash function but the length of its results.\<close>

theorem verified_read_authentic:
  assumes "descriptor_new alg block salt n = Ok d" and "sha_lengths h" and "length data = unat n"
    and "verity_build h d (file_reader data) memory_tree Map.empty = (Ok d', s)" and "layout d = Ok l"
    and "with_transaction ENABLED d' t = Ok r" and "bounded_reads read_at"
    and "read_locked_object h (Some r) read_at offset want = Ok out"
  shows "length out \<le> want
    \<and> (out = take (length out) (drop offset data) \<or> (\<exists>i. touched d offset want i \<and> forged h d data r read_at l i))"
proof (cases "min want (length data - offset) = 0")
  case True
  note same = built_same [OF assms(1-4)]
  have r: "vr_descriptor r = d'" "vr_state r = ENABLED" using record_new_fields [OF assms(6)] by simp_all
  show ?thesis using assms(8) locked_read [OF r(2) _ refl, of data h read_at offset want] same(2) r(1) True by simp
next
  case False
  note same = built_same [OF assms(1-4)]
  have r: "vr_descriptor r = d'" "vr_state r = ENABLED" using record_new_fields [OF assms(6)] by simp_all
  note made = assms(1-4) [folded r(1)]
  define len where "len = min want (length data - offset)"
  have size: "data_size (vr_descriptor r) = length data" "length data < 2 ^ 64" using same(2,4) r by simp_all
  have loop: "verified_loop h r read_at offset len 0 (take 0 (drop offset data)) = Ok out"
    using assms(8) locked_read [OF r(2) size(1) len_def] False by (simp add: len_def)
  have "length out \<le> len" using loop_length [OF loop] size by simp
  then have short: "length out \<le> want" by (simp add: len_def)
  have narrow: "touched d offset want i" if "touched (vr_descriptor r) offset len i" for i
    using that same(1,3) r(1) by (auto simp: touched_def len_def)
  have "out = take (length out) (drop offset data)" if none: "\<And>i. touched d offset want i \<Longrightarrow> \<not> forged h d data r read_at l i"
  proof -
    have "block = data_block (verity_block_size (vr_descriptor r)) data i"
      if "touched (vr_descriptor r) offset len i" "verified_block h r read_at i = Ok block" for i block
      using verified_block_authentic [OF made assms(5,7) that(2)] none narrow [OF that(1)] by blast
    then obtain m where "out = take m (drop offset data)" using loop_authentic [OF _ size loop] by auto
    then show ?thesis by (auto simp: min_def)
  qed
  with short show ?thesis by blast
qed

theorem verified_read_authentic_witness:
  "\<exists>d' s r. verity_build prefix_sha long_descriptor (file_reader demo_data) memory_tree Map.empty = (Ok d', s)
    \<and> with_transaction ENABLED d' (replicate 16 1) = Ok r
    \<and> read_locked_object prefix_sha (Some r) altered_read 1098 4 = Ok [7, 7, 8, 7]
    \<and> (\<exists>i. touched long_descriptor 1098 4 i
        \<and> forged prefix_sha long_descriptor demo_data r altered_read \<lparr>vl_starts = [0], vl_size = 1024\<rparr> i)"
proof -
  obtain s root where b: "verity_build prefix_sha long_descriptor (file_reader demo_data) memory_tree Map.empty
        = (Ok (with_root long_descriptor root), s)" "length root = digest_size long_descriptor"
    using built [OF demo_descriptor prefix_lengths demo_length] by metis
  then have "length root = 32" by (simp add: long_fields)
  from long_record [OF this] obtain r where r: "with_transaction ENABLED (with_root long_descriptor root) (replicate 16 1) = Ok r"
    "vr_tree_offset r = 2048" by blast
  have alt: "take 4 (drop 1098 altered_data) = [7, 7, 8, 7]"
  proof -
    have "take 4 (drop 1098 altered_data) = (take 4 (drop 1098 demo_data))[2 := 8]"
      by (simp add: altered_data_def drop_update_swap take_update_swap)
    then show ?thesis by (simp add: demo_data_def numeral_eq_Suc)
  qed
  then have rd: "read_locked_object prefix_sha (Some r) altered_read 1098 4 = Ok [7, 7, 8, 7]"
    using altered_is_read [OF b(1) r, of 1098 4] by simp
  have "[7, 7, 8, 7] \<noteq> take (length [7, 7, 8, 7 :: u8]) (drop 1098 demo_data)"
    by (simp add: demo_data_def numeral_eq_Suc)
  with verified_read_authentic [OF demo_descriptor prefix_lengths demo_length b(1) long_fields(5) r(1) altered_reads(1) rd]
  have "\<exists>i. touched long_descriptor 1098 4 i
      \<and> forged prefix_sha long_descriptor demo_data r altered_read \<lparr>vl_starts = [0], vl_size = 1024\<rparr> i" by blast
  with b(1) r(1) rd show ?thesis by blast
qed

text \<open>C16: (functional) with the data and the tree the builder wrote in the storage, the tree behind the data, a read of
  the protected file returns exactly the bytes asked for up to the end of the file, from any offset and of any
  length, however short the reads of the storage are.\<close>

theorem verified_read_complete:
  assumes "descriptor_new alg block salt n = Ok d" and "sha_lengths h" and "length data = unat n"
    and "verity_build h d (file_reader data) memory_tree Map.empty = (Ok d', s)"
    and "with_transaction ENABLED d' t = Ok r" and "holds read_at store" and "take (length data) store = data"
    and "\<And>off blk. s off = Some blk \<Longrightarrow> vr_tree_offset r + off + length blk \<le> length store
        \<and> take (length blk) (drop (vr_tree_offset r + off) store) = blk"
  shows "read_locked_object h (Some r) read_at offset want = Ok (take want (drop offset data))"
  using assms by (rule locked_read_complete)

theorem verified_read_complete_witness:
  "\<exists>d' r. verity_build demo_sha short_descriptor (file_reader short_data) memory_tree Map.empty = (Ok d', Map.empty)
    \<and> with_transaction ENABLED d' (replicate 16 1) = Ok r \<and> holds short_read short_data
    \<and> read_locked_object demo_sha (Some r) short_read 1 10 = Ok (take 10 (drop 1 short_data))"
proof -
  obtain root where root: "length root = 32"
      and b: "verity_build demo_sha short_descriptor (file_reader short_data) memory_tree Map.empty
        = (Ok (with_root short_descriptor root), Map.empty)"
    using short_build [OF demo_sha_lengths] by blast
  obtain r where r: "with_transaction ENABLED (with_root short_descriptor root) (replicate 16 1) = Ok r"
    using short_record [OF root] by blast
  have "read_locked_object demo_sha (Some r) short_read 1 10 = Ok (take 10 (drop 1 short_data))"
    by (rule verified_read_complete [OF short_new demo_sha_lengths short_length b r short_reads(2)]) simp_all
  then show ?thesis using b r short_reads(2) by blast
qed

text \<open>C40: (roundtrip) the record of a protected file is read back as it was written, in each of its states, for every
  file the builder has finished: the descriptor, the transaction and the place of the tree.\<close>

theorem record_reads_back:
  assumes "descriptor_new alg block salt n = Ok d" and "sha_lengths h" and "length data = unat n"
    and "verity_build h d (file_reader data) memory_tree Map.empty = (Ok d', s)"
    and "with_transaction state d' t = Ok r" and "state = PREPARING \<or> state = BUILT \<or> state = ENABLED"
    and "length t = 16" and "t \<noteq> replicate 16 0"
  shows "record_decode (record_encode r) = Ok r"
proof -
  have "descriptor_decode d' = Ok d'" using built_descriptor_decodes [OF assms(1-3)] assms(4) by auto
  then show ?thesis using record_roundtrip [OF assms(5-8)] built_same(5) [OF assms(1-4)] by blast
qed

theorem record_reads_back_witness:
  "\<exists>d' r. verity_build demo_sha short_descriptor (file_reader short_data) memory_tree Map.empty = (Ok d', Map.empty)
    \<and> with_transaction ENABLED d' (replicate 16 1) = Ok r \<and> record_decode (record_encode r) = Ok r"
proof -
  obtain root where root: "length root = 32"
      and b: "verity_build demo_sha short_descriptor (file_reader short_data) memory_tree Map.empty
        = (Ok (with_root short_descriptor root), Map.empty)"
    using short_build [OF demo_sha_lengths] by blast
  obtain r where r: "with_transaction ENABLED (with_root short_descriptor root) (replicate 16 1) = Ok r"
    using short_record [OF root] by blast
  have "record_decode (record_encode r) = Ok r"
    by (rule record_reads_back [OF short_new demo_sha_lengths short_length b r]) simp_all
  then show ?thesis using b r by blast
qed

end
