(* ===== verification/Spec2Isabelle.thy ===== *)
theory Spec2Isabelle
  imports Wire_Props Manager_Props Filter_Props Lock_Props Ldisc_Erase Fd_Table_Props Elf_Props Userns_Props Verity_Read_Props
begin

text \<open>
  Kinakaze runs Linux programs on Windows: an init process keeps the Linux view of processes
  and hands out work to native worker processes, and an engine inside each worker implements
  the kernel services the guest calls. This development models the parts that carry the
  program's own decisions and leaves the calls into Windows as arguments.

  \<^bold>\<open>Parts and theories.\<close>

  \<^item> \<^verbatim>\<open>Kz_Prelude\<close>, \<^verbatim>\<open>Rust_Std\<close>, \<^verbatim>\<open>Fixed_Codec\<close>, \<^verbatim>\<open>Rust_Text\<close>: machine integers as words, results with
    a panic value, ordered maps, UTF-8 and UTF-16, little-endian bytes, and arrays of
    fixed-width records (the locale \<open>fixed_codec\<close>, interpreted for BPF instructions and for
    inodes), and text as bytes: UTF-8 validity, lines, fields and decimal numbers.

  \<^item> \<^verbatim>\<open>Protocol\<close>, \<^verbatim>\<open>Control_Messages\<close>, \<^verbatim>\<open>Wire_Frame\<close>, \<^verbatim>\<open>Wire_Props\<close>: \<^verbatim>\<open>src/crates/protocol/src\<close>.
    Object identities, kernel commands, the fork specification and its manifest; requests,
    replies and errors; length-prefixed frames. The JSON library is a pair of arguments, a
    serializer and a parser, related by the hypothesis that the parser reads back what the
    serializer wrote.

  \<^item> \<^verbatim>\<open>Manager_State\<close>, \<^verbatim>\<open>Manager_Ops\<close>, \<^verbatim>\<open>Manager_Exit\<close>, \<^verbatim>\<open>Manager_Rpc\<close>:
    \<^verbatim>\<open>src/crates/manager/src\<close>. The record \<open>manager\<close> is \<open>StateManager\<close> with every field; each
    method is a function from state to result and state. Operating-system entropy is an
    argument. \<^verbatim>\<open>Manager_Inv\<close>, \<^verbatim>\<open>Manager_Order\<close>, \<^verbatim>\<open>Manager_Fork\<close> and \<^verbatim>\<open>Manager_Safety\<close> prove the
    representation invariant, the order of transaction states, the fork operations and
    the transition system (locale \<open>monotone_system\<close>, interpreted there); \<^verbatim>\<open>Manager_Peers\<close> that a native
    process owns at most one Linux process; \<^verbatim>\<open>Manager_Props\<close> holds the properties.

  \<^item> \<^verbatim>\<open>Vfs_Errno\<close>, \<^verbatim>\<open>Classic_Bpf\<close>, \<^verbatim>\<open>Bpf_Safety\<close>, \<^verbatim>\<open>Socket_Filter\<close>, \<^verbatim>\<open>Filter_Props\<close>:
    \<^verbatim>\<open>src/engine/crates/kinakaze-vfs/src/socket/filter.rs\<close> and \<^verbatim>\<open>socket/filter/\<close>. The verifier,
    interpreter and codec of classic BPF, the packet view of local sockets (locale
    \<open>packet_view\<close>) and the filter options on a stored description.

  \<^item> \<^verbatim>\<open>Record_Lock\<close>, \<^verbatim>\<open>Lock_Refine\<close>, \<^verbatim>\<open>Lock_Inv\<close>, \<^verbatim>\<open>Lock_Steps\<close>, \<^verbatim>\<open>Lock_Props\<close>:
    \<^verbatim>\<open>kinakaze-vfs/src/record_lock.rs\<close>. Advisory byte-range locks shared by all processes
    through a section of two banks. The abstract state is a map from inode, owner and byte to
    the kind of lock; the commit is a list of writes that may be cut short (locale
    \<open>atomic_store\<close>).

  \<^item> \<^verbatim>\<open>Termios\<close>, \<^verbatim>\<open>Ldisc\<close>, \<^verbatim>\<open>Ldisc_Inv\<close>, \<^verbatim>\<open>Ldisc_Props\<close>, \<^verbatim>\<open>Ldisc_Erase\<close>:
    \<^verbatim>\<open>kinakaze-vfs/src/ldisc.rs\<close> and the settings of \<^verbatim>\<open>pty.rs\<close>. The terminal line discipline,
    every function of it.

  \<^item> \<^verbatim>\<open>Fd_Slots\<close>, \<^verbatim>\<open>Fd_Tree\<close>, \<^verbatim>\<open>Fd_Refine\<close>, \<^verbatim>\<open>Fd_Props\<close>: \<^verbatim>\<open>kinakaze-vfs/src/fd_slots.rs\<close>. The sparse
    descriptor storage, a tree of pages with bitmaps and a cached first free number. The
    abstract state is a map from numbers to entries and a set of reserved numbers; the locale
    \<open>descriptor_store\<close> states what the table above relies on and is interpreted for the storage.
    \<^verbatim>\<open>Fd_Table\<close>, \<^verbatim>\<open>Fd_Table_Props\<close>: the installation calls, reservations and stored positions of
    \<^verbatim>\<open>kinakaze-vfs/src/lib.rs\<close>, each one step under the table lock, with the host (limits,
    identities, handle inheritance, side tables) as the record \<open>fd_host\<close>.

  \<^item> \<^verbatim>\<open>Elf_File\<close>, \<^verbatim>\<open>Elf_Dynamic\<close>, \<^verbatim>\<open>Elf_Hash\<close>, \<^verbatim>\<open>Elf_Version\<close>: \<^verbatim>\<open>src/engine/crates/kinakaze-elf/src\<close>, the
    parser of guest executables and libraries, every reader of it. \<^verbatim>\<open>Elf_Safety\<close> proves that no
    reader panics, \<^verbatim>\<open>Elf_Chains\<close> what the hash walks return, \<^verbatim>\<open>Elf_Props\<close> the load span and the
    located tables; \<^verbatim>\<open>Elf_Demo\<close> is a small file they are instantiated on.

  \<^item> \<^verbatim>\<open>User_Namespace\<close>: \<^verbatim>\<open>kinakaze-vfs/src/user_namespace.rs\<close>, with the update of a shared object from
    \<^verbatim>\<open>mount/shared.rs\<close>. Identity maps and their codec, the published state of a namespace, capabilities,
    \<open>unshare\<close> and \<open>setns\<close>, the proc files \<open>uid_map\<close>, \<open>gid_map\<close> and \<open>setgroups\<close>, translation and the image
    handed over at exec. The world \<open>ns_world\<close> has the bytes of every object and all processes; the
    failures of the host are the record \<open>ns_host\<close>. \<^verbatim>\<open>Userns_Maps\<close> reads maps as partial injections and
    proves the codec and the composition; \<^verbatim>\<open>Userns_World\<close> and \<^verbatim>\<open>Userns_Steps\<close> prove the invariant of
    the tree of namespaces (\<open>monotone_system\<close> again, interpreted for the steps of all processes);
    \<^verbatim>\<open>Userns_Run\<close> says when the calls succeed, \<^verbatim>\<open>Userns_Auth\<close> compares capabilities with authority
    over a namespace, \<^verbatim>\<open>Userns_Props\<close> holds the properties.

  \<^item> \<^verbatim>\<open>Verity\<close>: \<^verbatim>\<open>kinakaze-vfs/src/fs/verity/merkle.rs\<close>. Descriptors of protected files, the layout of
    their hash trees, the streaming builder and the check of a block. The two hash functions of the
    SHA-2 library are the record \<open>sha2\<close>; the callbacks that read and write are arguments.
    \<^verbatim>\<open>Verity_Tree\<close> specifies the tree (\<open>tree_level\<close>, \<open>hash_block\<close>); \<^verbatim>\<open>Verity_Build\<close> and \<^verbatim>\<open>Verity_Stream\<close>
    prove that the builder makes it, \<^verbatim>\<open>Verity_Check\<close> what the check of a block accepts.
    \<^verbatim>\<open>Verity_Read\<close>: \<^verbatim>\<open>fs/verity.rs\<close>, the record kept with a file and the reads that verify every block
    they return. \<^verbatim>\<open>Verity_Props\<close> and \<^verbatim>\<open>Verity_Read_Props\<close> hold the properties. Nothing is
    assumed of the hash functions but the length of their results: the property about untrusted storage
    concludes that a wrong read exhibits a second preimage among the answers of the storage (\<open>forged\<close>),
    and its instance is a weak hash function and an altered file.

  \<^bold>\<open>What the lemmas show.\<close> For the manager: no request, connection or exit panics, the invariant
  holds in every reachable state, errors change nothing, transactions reach a final state and
  keep it, identifiers are not reused, a fork copies state as its policy says, workers are
  isolated, an owner has one process, exits release everything and are reported as long as records are kept. For the protocol: frames round trip,
  are bounded, and are written whole or not at all. For filters: a verified program terminates
  within 4096 forward steps without a panic and never sees stale scratch memory, the stored
  bytes refine the machine of the requests callers spell out in their memory, the lock is permanent. For record locks: exclusion
  in every reachable section including deaths in the middle of a commit, replacing refines the
  byte map, the deadlock search is reachability, and what callers are promised. For the line
  discipline: bounded queues, exact lines while canonical mode lasts, typed lines read back, erasing
  confined to the line under edit, and when it returns. For descriptors: the paged storage
  behaves as a plain table under every sequence of operations, an installation takes the lowest
  free number and leaves no trace when it fails, a reserved number is given to nobody else. For
  ELF files: no bytes make the parser panic, the load span is the smallest aligned one, located
  tables start inside the file, and both hash walks return exactly the chain of their bucket or
  an error, cycles included. For user namespaces: in every reachable world each identity a map names
  has exactly one kernel identity, the composed map translates as the ancestors do one by one,
  maps are written once, an unprivileged writer maps only itself, and the capability check decides
  authority down to 32 levels. For file verification: the streaming builder makes exactly the specified
  tree for a file of any length, a verified read of intact storage returns the bytes asked for however short
  the reads of the storage are, one of altered storage returns the bytes of the file or has been answered with a
  second preimage of a block it needed, and the record is read back as written.

  \<^bold>\<open>Loops, bounds and fuel.\<close> Loops over data are structural or have a measure (the program counter
  of the interpreter, the unvisited owners of the deadlock search, the distance of a chain index
  to the top of its type). The walk over a System V chain has the bound the code gives it, and a
  chain that ends is proved to be shorter. The three loops over the ancestors of a namespace have the
  33 rounds of the code: enough for the depth check to bound the tree and for composing maps at
  every depth, not enough for capabilities at the greatest depth. The levels of
  a hash tree end because a valid descriptor has between 16 and 128 digests to a block, and the read
  loops because every round reads at least one byte. The wait loop of a lock request takes a list of rounds, one per wait, and answers \<open>None\<close> while it still waits. Backing
  up the cursor of a terminal may run for ever and is a partial function with \<open>None\<close> for not
  returning; both that it returns with room in the output queue and that it does not with a
  full queue are proved.

  \<^bold>\<open>Where the code falls short.\<close> Erasing on a full output queue hangs the terminal
  (\<open>erase_hangs_on_full_output\<close>); line lengths survive a switch to raw mode and are served again,
  zero-filled (\<open>stale_line_reads_zeros\<close>); flushing a throttled terminal discards the byte
  that restarts the writer (\<open>flush_loses_restart\<close>); the capability check ends one level short of
  the deepest namespace that can be created (\<open>capable_misses_deepest\<close>).

  \<^bold>\<open>Not modelled.\<close> The codec of \<^verbatim>\<open>native_exec::Launch\<close> (its validity test is the Windows path
  rules of the standard library); closing, duplicating and inheriting descriptors, which work on
  Windows handles; the cache of open namespace objects and the descriptors of namespaces;
  enabling verification on a file (locks, publication and recovery of its transaction, access
  times); the applications, host and loader crates, the guest engine, the engine runtime, the rest of the virtual file system and the guest libraries, which are
  calls into Windows, raw shared memory, machine code or generated bindings.
\<close>

end
